(* ===== verification/Prelude.thy ===== *)
theory Prelude
  imports Main "HOL-Library.Word"
begin

text \<open>
  The vocabulary shared by the whole development.

  \<^item> \<open>error\<close>: the exception classes of \<^verbatim>\<open>common/exception.hpp\<close>, the standard-library
    exceptions the code can raise, failed \<^verbatim>\<open>assert\<close>s (the default build type is
    \<^verbatim>\<open>Debug\<close>, so they are live), undefined behaviour, a thread that waits for itself, and a
    loop that was cut off by its fuel.
  \<^item> \<open>'a result\<close> for code that may throw and has no state, and \<open>('s, 'a) action\<close> for code
    that runs on a state: an exception keeps the state reached when it was thrown, as C++ does.
  \<^item> raw memory: \<open>slice\<close> and \<open>blit\<close> are \<^verbatim>\<open>memcpy\<close> out of and into a byte array, and
    \<open>get_uint\<close>, \<open>put_uint\<close>, \<open>get_int\<close>, \<open>put_int\<close> are loads and stores of
    little-endian integers of a given width through a \<^verbatim>\<open>reinterpret_cast\<close>.
\<close>

named_theorems mem_simps
named_theorems act_simps

section \<open>Errors and results\<close>

datatype error =
    Exception string
  | NotImplementedException string
  | SerializationException string
  | IOException string
  | RuntimeException string
  | StdRuntimeError string
  | InvalidArgument string
  | OutOfRange
  | BadVariantAccess
  | BadCast
  | AssertionFailed string
  | UndefinedBehaviour string
  | Deadlock
  | OutOfFuel

type_synonym 'a result = "error + 'a"
type_synonym ('s, 'a) action = "'s \<Rightarrow> 'a result \<times> 's"

definition rbind :: "'a result \<Rightarrow> ('a \<Rightarrow> 'b result) \<Rightarrow> 'b result" where
  "rbind m f = (case m of Inl e \<Rightarrow> Inl e | Inr x \<Rightarrow> f x)"

definition rassert :: "bool \<Rightarrow> string \<Rightarrow> unit result" where
  "rassert b msg = (if b then Inr () else Inl (AssertionFailed msg))"

definition ret :: "'a \<Rightarrow> ('s, 'a) action" where
  "ret x s = (Inr x, s)"

definition throw :: "error \<Rightarrow> ('s, 'a) action" where
  "throw e s = (Inl e, s)"

definition bind :: "('s, 'a) action \<Rightarrow> ('a \<Rightarrow> ('s, 'b) action) \<Rightarrow> ('s, 'b) action" where
  "bind m f s = (case m s of (Inl e, s') \<Rightarrow> (Inl e, s') | (Inr x, s') \<Rightarrow> f x s')"

definition lift :: "'a result \<Rightarrow> ('s, 'a) action" where
  "lift r s = (r, s)"

definition gets :: "('s \<Rightarrow> 'a) \<Rightarrow> ('s, 'a) action" where
  "gets f s = (Inr (f s), s)"

definition modify :: "('s \<Rightarrow> 's) \<Rightarrow> ('s, unit) action" where
  "modify f s = (Inr (), f s)"

definition assert_that :: "bool \<Rightarrow> string \<Rightarrow> ('s, unit) action" where
  "assert_that b msg = (if b then ret () else throw (AssertionFailed msg))"

text \<open>Running an action on a component of a larger state.\<close>

definition zoom :: "('t \<Rightarrow> 's) \<Rightarrow> ('s \<Rightarrow> 't \<Rightarrow> 't) \<Rightarrow> ('s, 'a) action \<Rightarrow> ('t, 'a) action" where
  "zoom get put m t = (case m (get t) of (r, s) \<Rightarrow> (r, put s t))"

lemma rbind_simps [simp]:
  "rbind (Inl e) f = Inl e"
  "rbind (Inr x) f = f x"
  by (simp_all add: rbind_def)

lemma rbind_eq_Inr: "rbind m f = Inr y \<longleftrightarrow> (\<exists>x. m = Inr x \<and> f x = Inr y)"
  by (cases m) auto

lemma rassert_simps [simp]:
  "rassert True msg = Inr ()"
  "rassert False msg = Inl (AssertionFailed msg)"
  "rassert b msg = Inr u \<longleftrightarrow> b"
  by (simp_all add: rassert_def)

lemma action_simps [act_simps]:
  "ret x s = (Inr x, s)"
  "throw e s = (Inl e, s)"
  "lift r s = (r, s)"
  "gets f s = (Inr (f s), s)"
  "modify g s = (Inr (), g s)"
  by (simp_all add: ret_def throw_def lift_def gets_def modify_def)

lemma assert_that_simps [act_simps]:
  "b \<Longrightarrow> assert_that b msg s = (Inr (), s)"
  "\<not> b \<Longrightarrow> assert_that b msg s = (Inl (AssertionFailed msg), s)"
  by (simp_all add: assert_that_def act_simps)

lemma bind_Inr [act_simps]: "m s = (Inr x, s') \<Longrightarrow> bind m f s = f x s'"
  by (simp add: bind_def)

lemma bind_Inl [act_simps]: "m s = (Inl e, s') \<Longrightarrow> bind m f s = (Inl e, s')"
  by (simp add: bind_def)

lemma bind_eq_InrE:
  assumes "bind m f s = (Inr y, s'')"
  obtains x s' where "m s = (Inr x, s')" and "f x s' = (Inr y, s'')"
  using assms by (auto simp: bind_def split: prod.splits sum.splits)

lemma bind_cases:
  obtains (err) e s' where "m s = (Inl e, s')" and "bind m f s = (Inl e, s')"
  | (ok) x s' where "m s = (Inr x, s')" and "bind m f s = f x s'"
  by (cases "m s"; cases "fst (m s)") (auto simp: bind_def)

text \<open>
  Invariants of actions. \<open>keeps P m\<close> says that \<open>m\<close> preserves \<open>P\<close> on every path,
  the exceptional ones included.
\<close>

definition keeps :: "('s \<Rightarrow> bool) \<Rightarrow> ('s, 'a) action \<Rightarrow> bool" where
  "keeps P m \<longleftrightarrow> (\<forall>s r s'. P s \<longrightarrow> m s = (r, s') \<longrightarrow> P s')"

lemma keepsI: "(\<And>s r s'. P s \<Longrightarrow> m s = (r, s') \<Longrightarrow> P s') \<Longrightarrow> keeps P m"
  by (simp add: keeps_def)

lemma keepsD: "keeps P m \<Longrightarrow> P s \<Longrightarrow> m s = (r, s') \<Longrightarrow> P s'"
  by (simp add: keeps_def)

lemma keeps_basic [simp, intro]:
  "keeps P (ret x)" "keeps P (throw e)" "keeps P (lift r)" "keeps P (gets f)"
  "keeps P (assert_that b msg)"
  by (auto simp: keeps_def act_simps assert_that_def)

lemma keeps_bind [intro]:
  assumes "keeps P m" and "\<And>x. keeps P (f x)"
  shows "keeps P (bind m f)"
  unfolding keeps_def
proof (intro allI impI)
  fix s r s' assume "P s" and "bind m f s = (r, s')"
  with assms show "P s'"
    by (cases rule: bind_cases [of m s f]) (auto dest: keepsD)
qed

section \<open>Bytes\<close>

type_synonym byte = "8 word"
type_synonym bytes = "byte list"

definition slice :: "nat \<Rightarrow> nat \<Rightarrow> bytes \<Rightarrow> bytes" where
  "slice off n m = take n (drop off m)"

definition blit :: "nat \<Rightarrow> bytes \<Rightarrow> bytes \<Rightarrow> bytes" where
  "blit off bs m = take off m @ bs @ drop (off + length bs) m"

fun nat_bytes :: "nat \<Rightarrow> nat \<Rightarrow> bytes" where
  "nat_bytes 0 k = []"
| "nat_bytes (Suc n) k = word_of_nat (k mod 256) # nat_bytes n (k div 256)"

fun bytes_nat :: "bytes \<Rightarrow> nat" where
  "bytes_nat [] = 0"
| "bytes_nat (b # bs) = unat b + 256 * bytes_nat bs"

definition string_bytes :: "string \<Rightarrow> bytes" where
  "string_bytes s = map (\<lambda>c. word_of_nat (of_char c)) s"

definition bytes_string :: "bytes \<Rightarrow> string" where
  "bytes_string bs = map (\<lambda>b. char_of (unat b)) bs"

text \<open>Unsigned and two's-complement integers of \<open>n\<close> bytes, little-endian.\<close>

definition int_bytes :: "nat \<Rightarrow> int \<Rightarrow> bytes" where
  "int_bytes n i = nat_bytes n (nat (i mod 2 ^ (8 * n)))"

definition bytes_int :: "bytes \<Rightarrow> int" where
  "bytes_int bs =
     (let k = int (bytes_nat bs) in
      if 2 * k < 2 ^ (8 * length bs) then k else k - 2 ^ (8 * length bs))"

definition get_uint :: "nat \<Rightarrow> nat \<Rightarrow> bytes \<Rightarrow> nat" where
  "get_uint off n m = bytes_nat (slice off n m)"

definition put_uint :: "nat \<Rightarrow> nat \<Rightarrow> nat \<Rightarrow> bytes \<Rightarrow> bytes" where
  "put_uint off n k m = blit off (nat_bytes n k) m"

definition get_int :: "nat \<Rightarrow> nat \<Rightarrow> bytes \<Rightarrow> int" where
  "get_int off n m = bytes_int (slice off n m)"

definition put_int :: "nat \<Rightarrow> nat \<Rightarrow> int \<Rightarrow> bytes \<Rightarrow> bytes" where
  "put_int off n i m = blit off (int_bytes n i) m"

definition fits :: "nat \<Rightarrow> int \<Rightarrow> bool" where
  "fits n i \<longleftrightarrow> - (2 ^ (8 * n - 1)) \<le> i \<and> i < 2 ^ (8 * n - 1)"

lemma length_nat_bytes [simp]: "length (nat_bytes n k) = n"
  by (induction n arbitrary: k) auto

lemma length_int_bytes [simp]: "length (int_bytes n i) = n"
  by (simp add: int_bytes_def)

lemma length_string_bytes [simp]: "length (string_bytes s) = length s"
  by (simp add: string_bytes_def)

lemma bytes_nat_nat_bytes: "bytes_nat (nat_bytes n k) = k mod 256 ^ n"
proof (induction n arbitrary: k)
  case (Suc n)
  have "unat (word_of_nat (k mod 256) :: byte) = k mod 256"
    by (simp add: unat_of_nat)
  with Suc show ?case by (simp add: mod_mult2_eq)
qed simp

lemma bytes_nat_nat_bytes_id [simp]: "k < 256 ^ n \<Longrightarrow> bytes_nat (nat_bytes n k) = k"
  by (simp add: bytes_nat_nat_bytes)

lemma bytes_nat_bound: "bytes_nat bs < 256 ^ length bs"
proof (induction bs)
  case (Cons b bs)
  have "unat b < 256" using unsigned_less [of b] by simp
  with Cons show ?case by simp
qed simp

lemma nat_bytes_bytes_nat [simp]: "nat_bytes (length bs) (bytes_nat bs) = bs"
proof (induction bs)
  case (Cons b bs)
  have "unat b < 256" using unsigned_less [of b] by simp
  with Cons show ?case by simp
qed simp

lemma unat_byte_bound [simp]: "unat (b :: byte) < 256"
  using unsigned_less [of b] by simp

lemma bytes_string_string_bytes [simp]: "bytes_string (string_bytes s) = s"
proof -
  have "unat (word_of_nat (of_char c) :: byte) = of_char c" for c
    by (simp add: unat_of_nat)
  then show ?thesis by (simp add: bytes_string_def string_bytes_def comp_def)
qed

lemma bytes_int_int_bytes:
  assumes "fits n i" and "0 < n"
  shows "bytes_int (int_bytes n i) = i"
proof -
  let ?M = "2 ^ (8 * n) :: int"
  have M: "?M = 2 * 2 ^ (8 * n - 1)"
    using assms(2) by (cases n) (simp_all add: power_add)
  have pos: "0 < (2 :: int) ^ (8 * n - 1)" by simp
  have "nat (i mod ?M) < 256 ^ n"
  proof -
    have "i mod ?M < ?M" by simp
    then have "nat (i mod ?M) < 2 ^ (8 * n)"
      by (simp add: nat_less_iff)
    then show ?thesis by (simp add: power_mult)
  qed
  then have k: "int (bytes_nat (int_bytes n i)) = i mod ?M"
    by (simp add: int_bytes_def)
  show ?thesis
  proof (cases "0 \<le> i")
    case True
    with assms(1) M pos have "i mod ?M = i"
      by (simp add: fits_def)
    with True k assms(1) M show ?thesis
      by (simp add: bytes_int_def fits_def)
  next
    case False
    with assms(1) M pos have "(i + ?M) mod ?M = i + ?M"
      by (intro mod_pos_pos_trivial) (auto simp: fits_def)
    then have "i mod ?M = i + ?M" by simp
    with False k assms(1) M show ?thesis
      by (simp add: bytes_int_def fits_def)
  qed
qed

section \<open>Memory laws\<close>

lemma length_slice [simp]: "length (slice off n m) = min n (length m - off)"
  by (simp add: slice_def)

lemma length_blit [simp]: "off + length bs \<le> length m \<Longrightarrow> length (blit off bs m) = length m"
  by (simp add: blit_def)

lemma nth_blit:
  assumes "off + length bs \<le> length m" and "i < length m"
  shows "blit off bs m ! i =
     (if off \<le> i \<and> i < off + length bs then bs ! (i - off) else m ! i)"
  using assms by (auto simp: blit_def nth_append)

lemma nth_slice [simp]: "i < n \<Longrightarrow> off + i < length m \<Longrightarrow> slice off n m ! i = m ! (off + i)"
  by (simp add: slice_def)

lemma slice_cong:
  assumes "length m = length m'" and "\<And>i. off \<le> i \<Longrightarrow> i < off + n \<Longrightarrow> i < length m \<Longrightarrow> m ! i = m' ! i"
  shows "slice off n m = slice off n m'"
  using assms by (intro nth_equalityI) auto

lemma slice_blit_same [mem_simps]:
  "off + length bs \<le> length m \<Longrightarrow> n = length bs \<Longrightarrow> slice off n (blit off bs m) = bs"
  by (simp add: slice_def blit_def)

lemma slice_blit_other [mem_simps]:
  assumes "off + length bs \<le> length m" and "o' + n \<le> off \<or> off + length bs \<le> o'"
  shows "slice o' n (blit off bs m) = slice o' n m"
  using assms by (intro slice_cong) (auto simp: nth_blit)

lemma slice_blit_inner:
  assumes "off + length bs \<le> length m" and "off \<le> o'" and "o' + n \<le> off + length bs"
  shows "slice o' n (blit off bs m) = slice (o' - off) n bs"
  using assms by (intro nth_equalityI) (auto simp: nth_blit)

lemma slice_slice: "a + n \<le> k \<Longrightarrow> slice a n (slice b k m) = slice (b + a) n m"
  by (simp add: slice_def drop_take min_def add.commute)

lemma slice_all [simp]: "length m = n \<Longrightarrow> slice 0 n m = m"
  by (simp add: slice_def)

lemma blit_all [simp]: "length bs = length m \<Longrightarrow> blit 0 bs m = bs"
  by (simp add: blit_def)

lemma blit_append:
  assumes "off + length a + length b \<le> length m"
  shows "blit (off + length a) b (blit off a m) = blit off (a @ b) m"
  using assms by (intro nth_equalityI) (auto simp: nth_blit nth_append)

lemma length_put [simp]:
  "off + n \<le> length m \<Longrightarrow> length (put_uint off n k m) = length m"
  "off + n \<le> length m \<Longrightarrow> length (put_int off n i m) = length m"
  by (simp_all add: put_uint_def put_int_def)

lemma get_put_uint_same [mem_simps]:
  "off + n \<le> length m \<Longrightarrow> get_uint off n (put_uint off n k m) = k mod 256 ^ n"
  by (simp add: get_uint_def put_uint_def mem_simps bytes_nat_nat_bytes)

lemma get_put_int_same [mem_simps]:
  "off + n \<le> length m \<Longrightarrow> fits n i \<Longrightarrow> 0 < n \<Longrightarrow> get_int off n (put_int off n i m) = i"
  by (simp add: get_int_def put_int_def mem_simps bytes_int_int_bytes)

text \<open>Loads and slices do not see a store, or a copy, elsewhere.\<close>

lemma disjoint_mem [mem_simps]:
  assumes "off + n \<le> length m" and "o' + n' \<le> off \<or> off + n \<le> o'"
  shows "slice o' n' (put_uint off n k m) = slice o' n' m"
    and "slice o' n' (put_int off n i m) = slice o' n' m"
    and "get_uint o' n' (put_uint off n k m) = get_uint o' n' m"
    and "get_uint o' n' (put_int off n i m) = get_uint o' n' m"
    and "get_int o' n' (put_uint off n k m) = get_int o' n' m"
    and "get_int o' n' (put_int off n i m) = get_int o' n' m"
  using assms by (simp_all add: put_uint_def put_int_def get_uint_def get_int_def mem_simps)

lemma disjoint_blit [mem_simps]:
  assumes "off + length bs \<le> length m" and "o' + n' \<le> off \<or> off + length bs \<le> o'"
  shows "get_uint o' n' (blit off bs m) = get_uint o' n' m"
    and "get_int o' n' (blit off bs m) = get_int o' n' m"
  using assms by (simp_all add: get_uint_def get_int_def mem_simps)

lemma get_uint_bound: "get_uint off n m < 256 ^ n"
proof -
  have "bytes_nat (slice off n m) < 256 ^ length (slice off n m)" by (rule bytes_nat_bound)
  also have "\<dots> \<le> 256 ^ n" by (intro power_increasing) auto
  finally show ?thesis by (simp add: get_uint_def)
qed

lemma slice_zeros: "off + n \<le> k \<Longrightarrow> slice off n (replicate k 0) = replicate n 0"
  by (simp add: slice_def)

lemma bytes_nat_zeros [simp]: "bytes_nat (replicate n 0) = 0"
  by (induction n) auto

end
