(* ===== verification/Values.thy ===== *)
theory Values
  imports Prelude
begin

text \<open>
  Types and values: \<^verbatim>\<open>common/type.hpp\<close>, \<^verbatim>\<open>common/arithmetic_type.hpp\<close>,
  \<^verbatim>\<open>common/value.hpp\<close>, \<^verbatim>\<open>common/value.cpp\<close>, \<^verbatim>\<open>common/page_id.hpp\<close>,
  \<^verbatim>\<open>common/rid.hpp\<close>, \<^verbatim>\<open>common/config.hpp\<close>.

  A \<open>Value\<close> is a type tag with a \<^verbatim>\<open>std::variant\<close>; nothing but the constructors ties the
  two together, so the variant is a datatype of its own and \<open>wf_value\<close> says when they
  agree. \<open>SerializeTo\<close> and \<open>DeserializeFrom\<close> store and load through a raw pointer; the
  model makes the buffer and the offset explicit and an access outside the buffer undefined
  behaviour.
\<close>

section \<open>Constants\<close>

abbreviation PAGE_SIZE :: nat where "PAGE_SIZE \<equiv> 4096"
abbreviation INVALID_PAGE_ID :: int where "INVALID_PAGE_ID \<equiv> - 1"
abbreviation INVALID_TABLE_OID :: int where "INVALID_TABLE_OID \<equiv> - 1"
abbreviation SYSTEM_CATALOG_ID :: int where "SYSTEM_CATALOG_ID \<equiv> - 1"
abbreviation INVALID_TS :: int where "INVALID_TS \<equiv> - 1"
abbreviation INDEX_KEY_SIZE :: nat where "INDEX_KEY_SIZE \<equiv> 8"
abbreviation VARCHAR_DEFAULT_LENGTH :: nat where "VARCHAR_DEFAULT_LENGTH \<equiv> 128"
abbreviation DEFAULT_POOL_SIZE :: nat where "DEFAULT_POOL_SIZE \<equiv> 10"
abbreviation TXN_START_ID :: int where "TXN_START_ID \<equiv> 2 ^ 62"

section \<open>Page and record identifiers\<close>

record PageId =
  page_number :: int
  table_id :: int

definition mk_page_id :: "int \<Rightarrow> int \<Rightarrow> PageId" where
  "mk_page_id t p = \<lparr>page_number = p, table_id = t\<rparr>"

definition default_page_id :: PageId where
  "default_page_id = \<lparr>page_number = INVALID_PAGE_ID, table_id = INVALID_TABLE_OID\<rparr>"

record RID =
  rid_page_id :: PageId
  rid_slot_num :: nat

definition mk_rid :: "PageId \<Rightarrow> nat \<Rightarrow> RID" where
  "mk_rid p n = \<lparr>rid_page_id = p, rid_slot_num = n\<rparr>"

lemma mk_page_id_simps [simp]:
  "page_number (mk_page_id t p) = p" "table_id (mk_page_id t p) = t"
  "mk_page_id t p = mk_page_id t' p' \<longleftrightarrow> t = t' \<and> p = p'"
  by (auto simp: mk_page_id_def)

lemma mk_rid_simps [simp]:
  "rid_page_id (mk_rid p n) = p" "rid_slot_num (mk_rid p n) = n"
  "mk_rid p n = mk_rid p' n' \<longleftrightarrow> p = p' \<and> n = n'"
  by (auto simp: mk_rid_def)

section \<open>Type identifiers\<close>

datatype TypeId = INVALID | BOOLEAN | INTEGER | TIMESTAMP | VARCHAR

datatype hsql_DataType =
    HSQL_UNKNOWN | HSQL_BIGINT | HSQL_BOOLEAN | HSQL_CHAR | HSQL_DATE | HSQL_DATETIME
  | HSQL_DECIMAL | HSQL_DOUBLE | HSQL_FLOAT | HSQL_INT | HSQL_LONG | HSQL_REAL
  | HSQL_SMALLINT | HSQL_TEXT | HSQL_TIME | HSQL_VARCHAR

fun IsFixedSize :: "TypeId \<Rightarrow> bool result" where
  "IsFixedSize BOOLEAN = Inr True"
| "IsFixedSize INTEGER = Inr True"
| "IsFixedSize TIMESTAMP = Inr True"
| "IsFixedSize VARCHAR = Inr False"
| "IsFixedSize INVALID = Inl (RuntimeException ''Invalid type'')"

fun TypeSize :: "TypeId \<Rightarrow> nat \<Rightarrow> nat result" where
  "TypeSize BOOLEAN len = Inr 1"
| "TypeSize INTEGER len = Inr 4"
| "TypeSize TIMESTAMP len = Inr 8"
| "TypeSize VARCHAR len = Inr len"
| "TypeSize INVALID len = Inl (RuntimeException ''Invalid type'')"

fun TypeIdToString :: "TypeId \<Rightarrow> string result" where
  "TypeIdToString BOOLEAN = Inr ''BOOLEAN''"
| "TypeIdToString INTEGER = Inr ''INTEGER''"
| "TypeIdToString TIMESTAMP = Inr ''TIMESTAMP''"
| "TypeIdToString VARCHAR = Inr ''VARCHAR''"
| "TypeIdToString INVALID = Inl (RuntimeException ''Invalid type'')"

fun HsqlColumnTypeToTypeId :: "hsql_DataType \<Rightarrow> TypeId result" where
  "HsqlColumnTypeToTypeId HSQL_BOOLEAN = Inr BOOLEAN"
| "HsqlColumnTypeToTypeId HSQL_INT = Inr INTEGER"
| "HsqlColumnTypeToTypeId HSQL_TIME = Inr TIMESTAMP"
| "HsqlColumnTypeToTypeId HSQL_VARCHAR = Inr VARCHAR"
| "HsqlColumnTypeToTypeId _ = Inl (NotImplementedException ''Type is not implemented'')"

datatype ArithmeticType = Plus | Minus | Multiply

fun ArithmeticType_ToString :: "ArithmeticType \<Rightarrow> string" where
  "ArithmeticType_ToString Plus = ''+''"
| "ArithmeticType_ToString Minus = ''-''"
| "ArithmeticType_ToString Multiply = ''*''"

section \<open>Values\<close>

text \<open>The variant \<^verbatim>\<open>std::variant<int8_t, int32_t, uint64_t, std::string>\<close>.\<close>

datatype Val = Int8 "8 word" | Int32 "32 word" | UInt64 "64 word" | Str string

record Value =
  type_id :: TypeId
  val :: Val
  is_null :: bool

text \<open>The argument of the constructor template \<^verbatim>\<open>Value(TypeId, T &&)\<close>, by its C++ type.\<close>

datatype CppArg = A_uint8 "8 word" | A_int8 "8 word" | A_int32 "32 word" | A_uint64 "64 word"
  | A_string string

fun ValueIsCorrectType :: "CppArg \<Rightarrow> TypeId \<Rightarrow> bool" where
  "ValueIsCorrectType (A_uint8 _) BOOLEAN = True"
| "ValueIsCorrectType (A_int32 _) INTEGER = True"
| "ValueIsCorrectType (A_uint64 _) TIMESTAMP = True"
| "ValueIsCorrectType (A_string _) VARCHAR = True"
| "ValueIsCorrectType _ _ = False"

text \<open>
  The alternative the variant's converting constructor selects. \<^verbatim>\<open>uint8_t\<close> to
  \<^verbatim>\<open>int8_t\<close> is a narrowing conversion and not a candidate; among \<^verbatim>\<open>int32_t\<close> and
  \<^verbatim>\<open>uint64_t\<close> the integral promotion to \<^verbatim>\<open>int32_t\<close> is the better one.
\<close>

fun variant_of :: "CppArg \<Rightarrow> Val" where
  "variant_of (A_uint8 b) = Int32 (ucast b)"
| "variant_of (A_int8 b) = Int8 b"
| "variant_of (A_int32 i) = Int32 i"
| "variant_of (A_uint64 u) = UInt64 u"
| "variant_of (A_string s) = Str s"

definition Value_of_type :: "TypeId \<Rightarrow> Value" where
  "Value_of_type t = \<lparr>type_id = t, val = Int8 0, is_null = False\<rparr>"

definition mk_Value :: "TypeId \<Rightarrow> CppArg \<Rightarrow> Value result" where
  "mk_Value t a =
     (if \<not> ValueIsCorrectType a t
      then rbind (TypeIdToString t)
             (\<lambda>_. Inl (RuntimeException ''Value isn't assigned to the correct type id''))
      else Inr \<lparr>type_id = t, val = variant_of a, is_null = False\<rparr>)"

fun get_int8 :: "Val \<Rightarrow> 8 word result" where
  "get_int8 (Int8 b) = Inr b"
| "get_int8 _ = Inl BadVariantAccess"

fun get_int32 :: "Val \<Rightarrow> 32 word result" where
  "get_int32 (Int32 i) = Inr i"
| "get_int32 _ = Inl BadVariantAccess"

fun get_uint64 :: "Val \<Rightarrow> 64 word result" where
  "get_uint64 (UInt64 u) = Inr u"
| "get_uint64 _ = Inl BadVariantAccess"

fun get_str :: "Val \<Rightarrow> string result" where
  "get_str (Str s) = Inr s"
| "get_str _ = Inl BadVariantAccess"

fun holds_int8 :: "Val \<Rightarrow> bool" where
  "holds_int8 (Int8 _) = True"
| "holds_int8 _ = False"

definition GetVarlenStorageSize :: "Value \<Rightarrow> nat result" where
  "GetVarlenStorageSize v =
     (if type_id v \<noteq> VARCHAR then Inr 0
      else rbind (get_str (val v)) (\<lambda>s. Inr (length s mod 2 ^ 32)))"

definition Value_GetStorageSize :: "Value \<Rightarrow> nat result" where
  "Value_GetStorageSize v = rbind (GetVarlenStorageSize v) (\<lambda>n. TypeSize (type_id v) n)"

text \<open>A store and a load through a raw pointer into a buffer.\<close>

definition store_at :: "nat \<Rightarrow> bytes \<Rightarrow> bytes \<Rightarrow> bytes result" where
  "store_at off bs m =
     (if off + length bs \<le> length m then Inr (blit off bs m)
      else Inl (UndefinedBehaviour ''store out of bounds''))"

definition load_at :: "nat \<Rightarrow> nat \<Rightarrow> bytes \<Rightarrow> bytes result" where
  "load_at off n m =
     (if off + n \<le> length m then Inr (slice off n m)
      else Inl (UndefinedBehaviour ''load out of bounds''))"

definition SerializeTo :: "Value \<Rightarrow> nat \<Rightarrow> bytes \<Rightarrow> bytes result" where
  "SerializeTo v off m =
     (case type_id v of
        BOOLEAN \<Rightarrow>
          rbind (rassert (holds_int8 (val v)) ''Invalid variant type for BOOLEAN Value'') (\<lambda>_.
          rbind (get_int8 (val v)) (\<lambda>b. store_at off [b] m))
      | INTEGER \<Rightarrow> rbind (get_int32 (val v)) (\<lambda>i. store_at off (nat_bytes 4 (unat i)) m)
      | TIMESTAMP \<Rightarrow> rbind (get_uint64 (val v)) (\<lambda>u. store_at off (nat_bytes 8 (unat u)) m)
      | VARCHAR \<Rightarrow>
          rbind (get_str (val v)) (\<lambda>s.
          let var_len = length s mod 2 ^ 32 in
          rbind (store_at off (nat_bytes 4 var_len) m) (\<lambda>m'.
          store_at (off + 4) (take var_len (string_bytes s)) m'))
      | INVALID \<Rightarrow> Inl (RuntimeException ''Invalid type''))"

definition DeserializeFrom :: "bytes \<Rightarrow> nat \<Rightarrow> TypeId \<Rightarrow> Value result" where
  "DeserializeFrom m off t =
     (case t of
        BOOLEAN \<Rightarrow> rbind (load_at off 1 m) (\<lambda>bs. mk_Value t (A_int8 (hd bs)))
      | INTEGER \<Rightarrow> rbind (load_at off 4 m) (\<lambda>bs. mk_Value t (A_int32 (word_of_nat (bytes_nat bs))))
      | TIMESTAMP \<Rightarrow> rbind (load_at off 4 m) (\<lambda>bs. mk_Value t (A_uint64 (word_of_nat (bytes_nat bs))))
      | VARCHAR \<Rightarrow>
          rbind (load_at off 4 m) (\<lambda>bs.
          let var_len = bytes_nat bs in
          rbind (rassert (var_len < PAGE_SIZE) ''Invalid varchar length'') (\<lambda>_.
          rbind (load_at (off + 4) var_len m) (\<lambda>cs. mk_Value t (A_string (bytes_string cs)))))
      | INVALID \<Rightarrow> Inl (RuntimeException ''Invalid type''))"

fun TypeId_code :: "TypeId \<Rightarrow> nat" where
  "TypeId_code INVALID = 0"
| "TypeId_code BOOLEAN = 1"
| "TypeId_code INTEGER = 2"
| "TypeId_code TIMESTAMP = 3"
| "TypeId_code VARCHAR = 4"

definition TypeId_of_code :: "nat \<Rightarrow> TypeId option" where
  "TypeId_of_code n =
     (if n = 0 then Some INVALID else if n = 1 then Some BOOLEAN else if n = 2 then Some INTEGER
      else if n = 3 then Some TIMESTAMP else if n = 4 then Some VARCHAR else None)"

definition SerializeToWithTypeInfo :: "Value \<Rightarrow> nat \<Rightarrow> bytes \<Rightarrow> bytes result" where
  "SerializeToWithTypeInfo v off m =
     rbind (store_at off (nat_bytes 1 (TypeId_code (type_id v))) m) (SerializeTo v (off + 1))"

definition DeserializeFromWithTypeInfo :: "bytes \<Rightarrow> nat \<Rightarrow> Value result" where
  "DeserializeFromWithTypeInfo m off =
     rbind (load_at off 1 m) (\<lambda>bs.
       case TypeId_of_code (bytes_nat bs) of
         None \<Rightarrow> Inl (UndefinedBehaviour ''std::unreachable'')
       | Some t \<Rightarrow> DeserializeFrom m (off + 1) t)"

text \<open>
  The object representation of the variant's storage. For a string it holds pointers, not the
  characters, and an alternative shorter than the bytes asked for leaves the rest unspecified.
\<close>

fun variant_storage :: "nat \<Rightarrow> Val \<Rightarrow> bytes result" where
  "variant_storage n (Int8 b) =
     (if n \<le> 1 then Inr (take n [b]) else Inl (UndefinedBehaviour ''indeterminate bytes''))"
| "variant_storage n (Int32 i) =
     (if n \<le> 4 then Inr (take n (nat_bytes 4 (unat i)))
      else Inl (UndefinedBehaviour ''indeterminate bytes''))"
| "variant_storage n (UInt64 u) =
     (if n \<le> 8 then Inr (take n (nat_bytes 8 (unat u)))
      else Inl (UndefinedBehaviour ''indeterminate bytes''))"
| "variant_storage n (Str s) = Inl (UndefinedBehaviour ''object representation of std::string'')"

definition ConvertToIndexKeyType :: "Value \<Rightarrow> bytes result" where
  "ConvertToIndexKeyType v =
     (let key = replicate INDEX_KEY_SIZE (0 :: byte) in
      case type_id v of
        BOOLEAN \<Rightarrow> rbind (variant_storage 1 (val v)) (\<lambda>bs. Inr (blit 0 bs key))
      | INTEGER \<Rightarrow> rbind (variant_storage 4 (val v)) (\<lambda>bs. Inr (blit 0 bs key))
      | TIMESTAMP \<Rightarrow> rbind (variant_storage 4 (val v)) (\<lambda>bs. Inr (blit 0 bs key))
      | VARCHAR \<Rightarrow>
          rbind (variant_storage (INDEX_KEY_SIZE - 1) (val v)) (\<lambda>bs.
          rbind (get_str (val v)) (\<lambda>s.
          Inr ((blit 0 bs key)[min (length s) (INDEX_KEY_SIZE - 1) := 0])))
      | INVALID \<Rightarrow> Inl (RuntimeException ''Invalid type''))"

text \<open>Arithmetic: signed 32-bit overflow is undefined behaviour, unsigned 64-bit wraps.\<close>

definition arith_int32 :: "(int \<Rightarrow> int \<Rightarrow> int) \<Rightarrow> Value \<Rightarrow> Value \<Rightarrow> Value result" where
  "arith_int32 f v w =
     rbind (get_int32 (val v)) (\<lambda>a. rbind (get_int32 (val w)) (\<lambda>b.
       let r = f (sint a) (sint b) in
       if - (2 ^ 31) \<le> r \<and> r < 2 ^ 31 then Inr (v\<lparr>val := Int32 (word_of_int r)\<rparr>)
       else Inl (UndefinedBehaviour ''signed integer overflow'')))"

definition arith_uint64 :: "(64 word \<Rightarrow> 64 word \<Rightarrow> 64 word) \<Rightarrow> Value \<Rightarrow> Value \<Rightarrow> Value result" where
  "arith_uint64 f v w =
     rbind (get_uint64 (val v)) (\<lambda>a. rbind (get_uint64 (val w)) (\<lambda>b.
       Inr (v\<lparr>val := UInt64 (f a b)\<rparr>)))"

text \<open>The macro of the unsupported cases puts the name of the type in front of the message.\<close>

fun type_token :: "TypeId \<Rightarrow> string" where
  "type_token BOOLEAN = ''BOOLEAN''"
| "type_token INTEGER = ''INTEGER''"
| "type_token TIMESTAMP = ''TIMESTAMP''"
| "type_token VARCHAR = ''VARCHAR''"
| "type_token INVALID = ''INVALID''"

definition ComputeArithmetic :: "Value \<Rightarrow> Value \<Rightarrow> ArithmeticType \<Rightarrow> Value result" where
  "ComputeArithmetic v w op =
     (case (op, type_id v) of
        (Plus, INTEGER) \<Rightarrow> arith_int32 (+) v w
      | (Plus, TIMESTAMP) \<Rightarrow> arith_uint64 (+) v w
      | (Minus, INTEGER) \<Rightarrow> arith_int32 (-) v w
      | (Minus, TIMESTAMP) \<Rightarrow> arith_uint64 (-) v w
      | (Multiply, INTEGER) \<Rightarrow> arith_int32 (*) v w
      | (_, t) \<Rightarrow> Inl (RuntimeException (type_token t @ '' arithmetic not supported'')))"

text \<open>\<^verbatim>\<open>std::to_string\<close> and \<^verbatim>\<open>Value::ToString\<close>.\<close>

fun dec_nat :: "nat \<Rightarrow> string" where
  "dec_nat n = (if n < 10 then [char_of (48 + n)] else dec_nat (n div 10) @ [char_of (48 + n mod 10)])"

declare dec_nat.simps [simp del]

definition dec_int :: "int \<Rightarrow> string" where
  "dec_int i = (if i < 0 then ''-'' @ dec_nat (nat (- i)) else dec_nat (nat i))"

definition Value_ToString :: "Value \<Rightarrow> string result" where
  "Value_ToString v =
     (case type_id v of
        BOOLEAN \<Rightarrow> rbind (get_int8 (val v)) (\<lambda>b. Inr (dec_int (sint b)))
      | INTEGER \<Rightarrow> rbind (get_int32 (val v)) (\<lambda>i. Inr (dec_int (sint i)))
      | TIMESTAMP \<Rightarrow> rbind (get_uint64 (val v)) (\<lambda>u. Inr (dec_int (uint u)))
      | VARCHAR \<Rightarrow> get_str (val v)
      | INVALID \<Rightarrow> Inl (RuntimeException ''Invalid type''))"

text \<open>The type invariant: the tag agrees with the alternative and the value is not null.\<close>

fun tag_matches :: "TypeId \<Rightarrow> Val \<Rightarrow> bool" where
  "tag_matches BOOLEAN (Int8 _) = True"
| "tag_matches INTEGER (Int32 _) = True"
| "tag_matches TIMESTAMP (UInt64 _) = True"
| "tag_matches VARCHAR (Str s) = (length s < 2 ^ 32)"
| "tag_matches _ _ = False"

definition wf_value :: "Value \<Rightarrow> bool" where
  "wf_value v \<longleftrightarrow> tag_matches (type_id v) (val v) \<and> \<not> is_null v"

section \<open>Facts about values\<close>

text \<open>The bytes a well-formed value is stored as.\<close>

fun val_bytes :: "Val \<Rightarrow> bytes" where
  "val_bytes (Int8 b) = [b]"
| "val_bytes (Int32 i) = nat_bytes 4 (unat i)"
| "val_bytes (UInt64 u) = nat_bytes 8 (unat u)"
| "val_bytes (Str s) = nat_bytes 4 (length s) @ string_bytes s"

lemma unat_bounds [simp]:
  "unat (i :: 32 word) < 4294967296" "unat (u :: 64 word) < 18446744073709551616"
  using unsigned_less [of i] unsigned_less [of u] by simp_all

lemma word_bytes_id [simp]:
  "bytes_nat (nat_bytes 4 (unat (i :: 32 word))) = unat i"
  "bytes_nat (nat_bytes 8 (unat (u :: 64 word))) = unat u"
  by (simp_all add: bytes_nat_nat_bytes)

lemma wf_valueE:
  assumes "wf_value v"
  obtains (bool) b where "v = \<lparr>type_id = BOOLEAN, val = Int8 b, is_null = False\<rparr>"
  | (int) i where "v = \<lparr>type_id = INTEGER, val = Int32 i, is_null = False\<rparr>"
  | (ts) u where "v = \<lparr>type_id = TIMESTAMP, val = UInt64 u, is_null = False\<rparr>"
  | (str) s where "v = \<lparr>type_id = VARCHAR, val = Str s, is_null = False\<rparr>" and "length s < 2 ^ 32"
  using assms
  by (cases v; cases "type_id v"; cases "val v") (auto simp: wf_value_def)

lemma SerializeTo_wf:
  assumes "wf_value v"
  shows "SerializeTo v off m =
     (if off + length (val_bytes (val v)) \<le> length m then Inr (blit off (val_bytes (val v)) m)
      else Inl (UndefinedBehaviour ''store out of bounds''))"
  using assms
proof (cases rule: wf_valueE)
  case (str s)
  then show ?thesis
    using blit_append [of off "nat_bytes 4 (length s)" "string_bytes s" m]
    by (auto simp: SerializeTo_def store_at_def)
qed (auto simp: SerializeTo_def store_at_def)

lemma load_at_ok: "off + n \<le> length m \<Longrightarrow> load_at off n m = Inr (slice off n m)"
  by (simp add: load_at_def)

lemma mk_Value_simps [simp]:
  "mk_Value INTEGER (A_int32 i) = Inr \<lparr>type_id = INTEGER, val = Int32 i, is_null = False\<rparr>"
  "mk_Value TIMESTAMP (A_uint64 u) = Inr \<lparr>type_id = TIMESTAMP, val = UInt64 u, is_null = False\<rparr>"
  "mk_Value VARCHAR (A_string s) = Inr \<lparr>type_id = VARCHAR, val = Str s, is_null = False\<rparr>"
  by (simp_all add: mk_Value_def)

lemma DeserializeFrom_INTEGER:
  assumes "off + 4 \<le> length m" and "slice off 4 m = val_bytes (Int32 i)"
  shows "DeserializeFrom m off INTEGER = Inr \<lparr>type_id = INTEGER, val = Int32 i, is_null = False\<rparr>"
  using assms by (simp add: DeserializeFrom_def load_at_ok)

lemma DeserializeFrom_VARCHAR:
  assumes "off + 4 + length s \<le> length m" and "length s < PAGE_SIZE"
    and "slice off (4 + length s) m = val_bytes (Str s)"
  shows "DeserializeFrom m off VARCHAR = Inr \<lparr>type_id = VARCHAR, val = Str s, is_null = False\<rparr>"
proof -
  have "slice off 4 m = nat_bytes 4 (length s)"
  proof -
    have "slice off 4 m = take 4 (slice off (4 + length s) m)" by (simp add: slice_def)
    with assms(3) show ?thesis by simp
  qed
  moreover have "slice (off + 4) (length s) m = string_bytes s"
    proof -
    have "slice (off + 4) (length s) m = drop 4 (slice off (4 + length s) m)"
      by (simp add: slice_def drop_take add.commute)
    with assms(3) show ?thesis by simp
  qed
  ultimately show ?thesis
    using assms(1,2) by (simp add: DeserializeFrom_def load_at_ok)
qed

lemma bytes_nat_take_nat_bytes: "j \<le> n \<Longrightarrow> take j (nat_bytes n k) = nat_bytes j k"
proof (induction n arbitrary: j k)
  case (Suc n)
  then show ?case by (cases j) auto
qed simp

lemma DeserializeFrom_TIMESTAMP:
  assumes "off + 8 \<le> length m" and "slice off 8 m = val_bytes (UInt64 u)"
  shows "DeserializeFrom m off TIMESTAMP =
     Inr \<lparr>type_id = TIMESTAMP, val = UInt64 (word_of_nat (unat u mod 2 ^ 32)), is_null = False\<rparr>"
proof -
  have "slice off 4 m = take 4 (slice off 8 m)" by (simp add: slice_def)
  then have "slice off 4 m = nat_bytes 4 (unat u)"
    using assms(2) by (simp add: bytes_nat_take_nat_bytes)
  then show ?thesis
    using assms(1) by (simp add: DeserializeFrom_def load_at_ok bytes_nat_nat_bytes)
qed

text \<open>What a reader gets back for a stored value: timestamps lose their upper half.\<close>

fun reread_val :: "Val \<Rightarrow> Val" where
  "reread_val (UInt64 u) = UInt64 (word_of_nat (unat u mod 2 ^ 32))"
| "reread_val x = x"

definition readable :: "Value \<Rightarrow> bool" where
  "readable v \<longleftrightarrow> wf_value v \<and> type_id v \<noteq> BOOLEAN \<and>
     (case val v of Str s \<Rightarrow> length s < PAGE_SIZE | _ \<Rightarrow> True)"

lemma DeserializeFrom_stored:
  assumes "readable v" and "off + length (val_bytes (val v)) \<le> length m"
    and "slice off (length (val_bytes (val v))) m = val_bytes (val v)"
  shows "DeserializeFrom m off (type_id v) = Inr (v\<lparr>val := reread_val (val v)\<rparr>)"
proof -
  from assms(1) have "wf_value v" by (simp add: readable_def)
  then show ?thesis
  proof (cases rule: wf_valueE)
    case (str s)
    with assms show ?thesis
      by (simp add: DeserializeFrom_VARCHAR readable_def)
  qed (use assms in \<open>auto simp: DeserializeFrom_INTEGER DeserializeFrom_TIMESTAMP readable_def\<close>)
qed

section \<open>Properties\<close>

text \<open>C28: Storing a well-formed INTEGER, TIMESTAMP or VARCHAR value (a string shorter than a
  page) into a buffer with room for it succeeds, changes no byte outside the value's own
  window, and loading from the same place with the same type gives the value back, except
  that a TIMESTAMP comes back reduced modulo $2^{32}$: \<^verbatim>\<open>DeserializeFrom\<close> loads a
  \<^verbatim>\<open>uint32_t\<close> where \<^verbatim>\<open>SerializeTo\<close> stored a \<^verbatim>\<open>uint64_t\<close>.\<close>

theorem value_store_load:
  assumes "readable v" and "off + length (val_bytes (val v)) \<le> length m"
  shows "\<exists>m'. SerializeTo v off m = Inr m' \<and> length m' = length m \<and>
           DeserializeFrom m' off (type_id v) = Inr (v\<lparr>val := reread_val (val v)\<rparr>) \<and>
           (\<forall>i < length m. i < off \<or> off + length (val_bytes (val v)) \<le> i \<longrightarrow> m' ! i = m ! i)"
proof -
  let ?b = "val_bytes (val v)"
  from assms have "SerializeTo v off m = Inr (blit off ?b m)"
    by (simp add: SerializeTo_wf readable_def)
  moreover have "DeserializeFrom (blit off ?b m) off (type_id v) = Inr (v\<lparr>val := reread_val (val v)\<rparr>)"
    using assms by (intro DeserializeFrom_stored) (auto simp: mem_simps)
  ultimately show ?thesis
    using assms(2) by (auto simp: nth_blit)
qed

theorem value_store_load_witness:
  "\<exists>m'. SerializeTo \<lparr>type_id = VARCHAR, val = Str ''gavin'', is_null = False\<rparr> 3 (replicate 20 7) = Inr m'
     \<and> DeserializeFrom m' 3 VARCHAR = Inr \<lparr>type_id = VARCHAR, val = Str ''gavin'', is_null = False\<rparr>"
  using value_store_load [of "\<lparr>type_id = VARCHAR, val = Str ''gavin'', is_null = False\<rparr>" 3 "replicate 20 7"]
  by (auto simp: readable_def wf_value_def)

text \<open>BOOLEAN values cannot be used. The constructor accepts only a \<^verbatim>\<open>uint8_t\<close> for
  BOOLEAN and its variant then holds an \<^verbatim>\<open>int32_t\<close>, so \<^verbatim>\<open>SerializeTo\<close> fails its
  assertion; and \<^verbatim>\<open>DeserializeFrom\<close>, which passes an \<^verbatim>\<open>int8_t\<close>, throws for every
  stored byte.\<close>

theorem boolean_values_unusable:
  assumes "mk_Value BOOLEAN a = Inr v"
  shows "SerializeTo v off m = Inl (AssertionFailed ''Invalid variant type for BOOLEAN Value'') \<and>
     (off < length m \<longrightarrow>
       DeserializeFrom m off BOOLEAN =
         Inl (RuntimeException ''Value isn't assigned to the correct type id''))"
  using assms
  by (cases a) (auto simp: mk_Value_def SerializeTo_def DeserializeFrom_def load_at_def split: if_splits)

theorem boolean_values_unusable_witness:
  "DeserializeFrom [1] 0 BOOLEAN = Inl (RuntimeException ''Value isn't assigned to the correct type id'')"
  using boolean_values_unusable [of "A_uint8 1" "\<lparr>type_id = BOOLEAN, val = Int32 1, is_null = False\<rparr>" 0 "[1]"]
  by (simp add: mk_Value_def)

text \<open>INTEGER arithmetic is exact: whenever \<^verbatim>\<open>ComputeArithmetic\<close> on two integer
  values returns, its result is the mathematical sum, difference or product, keeps the type
  tag, and it returns exactly when that number fits in 32 bits.\<close>

fun arith_op :: "ArithmeticType \<Rightarrow> int \<Rightarrow> int \<Rightarrow> int" where
  "arith_op Plus a b = a + b"
| "arith_op Minus a b = a - b"
| "arith_op Multiply a b = a * b"

theorem compute_arithmetic_exact:
  fixes a b :: "32 word"
  defines "v \<equiv> \<lparr>type_id = INTEGER, val = Int32 a, is_null = False\<rparr>"
    and "w \<equiv> \<lparr>type_id = INTEGER, val = Int32 b, is_null = False\<rparr>"
  shows "ComputeArithmetic v w op =
     (if fits 4 (arith_op op (sint a) (sint b))
      then Inr \<lparr>type_id = INTEGER, val = Int32 (word_of_int (arith_op op (sint a) (sint b))), is_null = False\<rparr>
      else Inl (UndefinedBehaviour ''signed integer overflow'')) \<and>
     (fits 4 (arith_op op (sint a) (sint b)) \<longrightarrow>
        sint (word_of_int (arith_op op (sint a) (sint b)) :: 32 word) = arith_op op (sint a) (sint b))"
proof
  show "ComputeArithmetic v w op =
     (if fits 4 (arith_op op (sint a) (sint b))
      then Inr \<lparr>type_id = INTEGER, val = Int32 (word_of_int (arith_op op (sint a) (sint b))), is_null = False\<rparr>
      else Inl (UndefinedBehaviour ''signed integer overflow''))"
    by (cases op) (auto simp: ComputeArithmetic_def arith_int32_def v_def w_def fits_def)
  show "fits 4 (arith_op op (sint a) (sint b)) \<longrightarrow>
        sint (word_of_int (arith_op op (sint a) (sint b)) :: 32 word) = arith_op op (sint a) (sint b)"
    by (auto simp: fits_def int_word_sint)
qed

theorem compute_arithmetic_exact_witness:
  "ComputeArithmetic \<lparr>type_id = INTEGER, val = Int32 9, is_null = False\<rparr>
     \<lparr>type_id = INTEGER, val = Int32 60, is_null = False\<rparr> Multiply
   = Inr \<lparr>type_id = INTEGER, val = Int32 540, is_null = False\<rparr>"
  using compute_arithmetic_exact [of 9 60 Multiply] by (simp add: fits_def)

end
