(* ===== verification/BtreePages.thy ===== *)
theory BtreePages
  imports Values
begin

text \<open>
  The pages of a B+-tree, on their bytes: \<^verbatim>\<open>storage/page/btree_page.hpp\<close>,
  \<^verbatim>\<open>btree_header_page.hpp\<close>, \<^verbatim>\<open>btree_leaf_page.hpp\<close>, \<^verbatim>\<open>btree_internal_page.hpp\<close>, and the key
  comparison of \<^verbatim>\<open>index/index.hpp\<close>.

  A page is 4096 bytes. Offset 0 holds the page type, 4 the parent, 8 the page's own number, 16 the
  size, 24 the maximal size, 32 the root (header page) or the next page (leaf). The nodes of a leaf
  start at 36, with 8 bytes of key and 12 of record id; those of an internal page start at 32, with
  8 bytes of key and 4 of page number. \<open>lower_bound\<close> is the binary search of the standard
  library. \<^verbatim>\<open>CopyNFrom\<close> of an internal page, which fetches pages, is with the index.
\<close>

section \<open>Keys\<close>

type_synonym IndexKeyType = bytes

datatype Comparator = Compare_uint8 | Compare_int32 | Compare_uint64 | Compare_string

definition GetComparator :: "TypeId \<Rightarrow> Comparator result" where
  "GetComparator t =
     (case t of
        BOOLEAN \<Rightarrow> Inr Compare_uint8
      | INTEGER \<Rightarrow> Inr Compare_int32
      | TIMESTAMP \<Rightarrow> Inr Compare_uint64
      | VARCHAR \<Rightarrow> Inr Compare_string
      | INVALID \<Rightarrow> Inl (InvalidArgument ''Unsupported type for indexing''))"

definition three_way :: "int \<Rightarrow> int \<Rightarrow> int" where
  "three_way lhs rhs = (if lhs < rhs then - 1 else if lhs > rhs then 1 else 0)"

text \<open>An array of eight bytes is not a \<^verbatim>\<open>std::string\<close>, whatever it is cast to.\<close>

definition compare :: "Comparator \<Rightarrow> IndexKeyType \<Rightarrow> IndexKeyType \<Rightarrow> int result" where
  "compare c a b =
     (case c of
        Compare_uint8 \<Rightarrow> Inr (three_way (int (get_uint 0 1 a)) (int (get_uint 0 1 b)))
      | Compare_int32 \<Rightarrow> Inr (three_way (get_int 0 4 a) (get_int 0 4 b))
      | Compare_uint64 \<Rightarrow> Inr (three_way (int (get_uint 0 8 a)) (int (get_uint 0 8 b)))
      | Compare_string \<Rightarrow> Inl (UndefinedBehaviour ''key bytes read as std::string''))"

definition ConvertArrayToInt32 :: "IndexKeyType \<Rightarrow> int" where
  "ConvertArrayToInt32 arr =
     (let r = unat (arr ! 0) + 2 ^ 8 * unat (arr ! 1) + 2 ^ 16 * unat (arr ! 2) + 2 ^ 24 * unat (arr ! 3)
      in sint (word_of_nat r :: 32 word))"

definition IndexKeyTypeToString :: "IndexKeyType \<Rightarrow> string" where
  "IndexKeyTypeToString key = ''Key['' @ dec_int (ConvertArrayToInt32 key) @ '']''"

section \<open>What all pages share\<close>

datatype IndexPageType = INVALID_INDEX_PAGE | HEADER_PAGE | LEAF_PAGE | INTERNAL_PAGE

fun IndexPageType_code :: "IndexPageType \<Rightarrow> nat" where
  "IndexPageType_code INVALID_INDEX_PAGE = 0"
| "IndexPageType_code HEADER_PAGE = 1"
| "IndexPageType_code LEAF_PAGE = 2"
| "IndexPageType_code INTERNAL_PAGE = 3"

definition bt_GetSize :: "bytes \<Rightarrow> nat" where
  "bt_GetSize m = get_uint 16 8 m"

definition bt_SetSize :: "nat \<Rightarrow> bytes \<Rightarrow> bytes" where
  "bt_SetSize n m = put_uint 16 8 n m"

definition bt_IncreaseSize :: "nat \<Rightarrow> bytes \<Rightarrow> bytes" where
  "bt_IncreaseSize n m = bt_SetSize (bt_GetSize m + n) m"

definition bt_max_size :: "bytes \<Rightarrow> nat" where
  "bt_max_size m = get_uint 24 8 m"

definition bt_GetMaxSize :: "bytes \<Rightarrow> nat result" where
  "bt_GetMaxSize m = rbind (rassert (bt_max_size m > 0) ''max_size_ > 0'') (\<lambda>_. Inr (bt_max_size m))"

definition bt_SetMaxSize :: "int \<Rightarrow> bytes \<Rightarrow> bytes result" where
  "bt_SetMaxSize n m = rbind (rassert (n > 0) ''max_size > 0'') (\<lambda>_. Inr (put_uint 24 8 (nat n) m))"

definition bt_SetPageType :: "IndexPageType \<Rightarrow> bytes \<Rightarrow> bytes" where
  "bt_SetPageType t m = put_uint 0 4 (IndexPageType_code t) m"

definition bt_IsLeafPage :: "bytes \<Rightarrow> bool" where
  "bt_IsLeafPage m \<longleftrightarrow> get_uint 0 4 m = IndexPageType_code LEAF_PAGE"

definition bt_IsInternalPage :: "bytes \<Rightarrow> bool" where
  "bt_IsInternalPage m \<longleftrightarrow> get_uint 0 4 m = IndexPageType_code INTERNAL_PAGE"

definition bt_GetMinSize :: "bytes \<Rightarrow> nat" where
  "bt_GetMinSize m = (if bt_IsLeafPage m then bt_max_size m div 2 else (bt_max_size m + 1) mod 2 ^ 64 div 2)"

definition bt_GetParentPageId :: "bytes \<Rightarrow> int" where
  "bt_GetParentPageId m = get_int 4 4 m"

definition bt_SetParentPageId :: "int \<Rightarrow> bytes \<Rightarrow> bytes" where
  "bt_SetParentPageId p m = put_int 4 4 p m"

definition bt_IsRootPage :: "bytes \<Rightarrow> bool" where
  "bt_IsRootPage m \<longleftrightarrow> bt_GetParentPageId m = INVALID_PAGE_ID"

definition bt_GetPageId :: "bytes \<Rightarrow> int" where
  "bt_GetPageId m = get_int 8 4 m"

definition bt_SetPageId :: "int \<Rightarrow> bytes \<Rightarrow> bytes" where
  "bt_SetPageId p m = put_int 8 4 p m"

section \<open>Header pages\<close>

definition hd_SetRootPageId :: "int \<Rightarrow> bytes \<Rightarrow> bytes" where
  "hd_SetRootPageId p m = put_int 32 4 p m"

definition hd_GetRootPageId :: "bytes \<Rightarrow> int" where
  "hd_GetRootPageId m = get_int 32 4 m"

definition hd_Init :: "bytes \<Rightarrow> bytes" where
  "hd_Init m = bt_SetPageType HEADER_PAGE (hd_SetRootPageId INVALID_PAGE_ID m)"

definition hd_TreeIsEmpty :: "bytes \<Rightarrow> bool" where
  "hd_TreeIsEmpty m \<longleftrightarrow> hd_GetRootPageId m = INVALID_PAGE_ID"

section \<open>Binary search\<close>

text \<open>\<^verbatim>\<open>std::lower_bound\<close> over the indices \<open>first\<close> to \<open>first + len - 1\<close>.\<close>

function lower_bound :: "(nat \<Rightarrow> bool result) \<Rightarrow> nat \<Rightarrow> nat \<Rightarrow> nat result" where
  "lower_bound lt first len =
     (if len = 0 then Inr first
      else let half = len div 2 in
        rbind (lt (first + half)) (\<lambda>b.
        if b then lower_bound lt (first + half + 1) (len - half - 1) else lower_bound lt first half))"
  by pat_completeness auto
termination by (relation "measure (\<lambda>(lt, first, len). len)") auto

declare lower_bound.simps [simp del]

section \<open>Leaf pages\<close>

abbreviation LEAF_MAX_NODE_SIZE :: nat where "LEAF_MAX_NODE_SIZE \<equiv> 202"
abbreviation LEAF_NODES :: nat where "LEAF_NODES \<equiv> 36"
abbreviation LEAF_NODE :: nat where "LEAF_NODE \<equiv> 20"

definition lf_SetNextPageId :: "int \<Rightarrow> bytes \<Rightarrow> bytes" where
  "lf_SetNextPageId p m = put_int 32 4 p m"

definition lf_GetNextPageId :: "bytes \<Rightarrow> int" where
  "lf_GetNextPageId m = get_int 32 4 m"

definition lf_Init :: "int \<Rightarrow> int \<Rightarrow> bytes \<Rightarrow> bytes result" where
  "lf_Init page_id parent_id m =
     rbind (bt_SetMaxSize (int LEAF_MAX_NODE_SIZE)
       (lf_SetNextPageId INVALID_PAGE_ID (bt_SetParentPageId parent_id (bt_SetPageId page_id
         (bt_SetSize 0 (bt_SetPageType LEAF_PAGE m)))))) (\<lambda>m'.
     rbind (bt_GetMaxSize m') (\<lambda>n. rbind (rassert (n > 0) ''GetMaxSize() > 0'') (\<lambda>_. Inr m')))"

definition rid_bytes :: "RID \<Rightarrow> bytes" where
  "rid_bytes r = int_bytes 4 (page_number (rid_page_id r)) @ int_bytes 4 (table_id (rid_page_id r)) @ nat_bytes 4 (rid_slot_num r)"

definition bytes_rid :: "bytes \<Rightarrow> RID" where
  "bytes_rid bs = mk_rid (mk_page_id (get_int 4 4 bs) (get_int 0 4 bs)) (get_uint 8 4 bs)"

text \<open>Reading and writing a node outside the page is undefined behaviour.\<close>

definition lf_node :: "bytes \<Rightarrow> nat \<Rightarrow> bytes result" where
  "lf_node m i = (if LEAF_NODES + LEAF_NODE * (i + 1) \<le> length m then Inr (slice (LEAF_NODES + LEAF_NODE * i) LEAF_NODE m)
     else Inl (UndefinedBehaviour ''node outside the page''))"

definition lf_KeyAt :: "bytes \<Rightarrow> nat \<Rightarrow> IndexKeyType result" where
  "lf_KeyAt m i = rbind (lf_node m i) (\<lambda>n. Inr (take 8 n))"

definition lf_ValueAt :: "bytes \<Rightarrow> nat \<Rightarrow> RID result" where
  "lf_ValueAt m i = rbind (lf_node m i) (\<lambda>n. Inr (bytes_rid (drop 8 n)))"

definition lf_FindKeyIndex :: "bytes \<Rightarrow> IndexKeyType \<Rightarrow> Comparator \<Rightarrow> nat result" where
  "lf_FindKeyIndex m key comparator =
     rbind (rassert (bt_max_size m > 0) ''GetMaxSize() > 0'') (\<lambda>_.
     lower_bound (\<lambda>i. rbind (lf_KeyAt m i) (\<lambda>k. rbind (compare comparator k key) (\<lambda>r. Inr (r < 0)))) 0 (bt_GetSize m))"

definition lf_shift :: "nat \<Rightarrow> nat \<Rightarrow> bytes \<Rightarrow> bytes" where
  "lf_shift k n m = blit (LEAF_NODES + LEAF_NODE * (k + 1)) (slice (LEAF_NODES + LEAF_NODE * k) (LEAF_NODE * (n - k)) m) m"

definition lf_put :: "nat \<Rightarrow> IndexKeyType \<Rightarrow> RID \<Rightarrow> bytes \<Rightarrow> bytes" where
  "lf_put k key rid m = blit (LEAF_NODES + LEAF_NODE * k) (key @ rid_bytes rid) m"

definition lf_Insert :: "IndexKeyType \<Rightarrow> RID \<Rightarrow> Comparator \<Rightarrow> bytes \<Rightarrow> bytes result" where
  "lf_Insert key rid comparator m =
     rbind (bt_GetMaxSize m) (\<lambda>max.
     if bt_GetSize m = max then Inl (RuntimeException ''Leaf node is full, shouldve split bruh'')
     else rbind (lf_FindKeyIndex m key comparator) (\<lambda>key_idx.
       rbind (if bt_GetSize m \<noteq> 0
              then rbind (lf_KeyAt m key_idx) (\<lambda>k. rbind (compare comparator k key) (\<lambda>r. Inr (r = 0)))
              else Inr False) (\<lambda>found.
       if found then Inr m
       else rbind (lf_node m (bt_GetSize m)) (\<lambda>_.
         Inr (bt_IncreaseSize 1 (lf_put key_idx key rid
               (if key_idx = bt_GetSize m then m else lf_shift key_idx (bt_GetSize m) m)))))))"

definition lf_Lookup :: "bytes \<Rightarrow> IndexKeyType \<Rightarrow> Comparator \<Rightarrow> RID option result" where
  "lf_Lookup m key comparator =
     rbind (lf_FindKeyIndex m key comparator) (\<lambda>target_index.
     rbind (lf_KeyAt m target_index) (\<lambda>leaf_key.
     if target_index < bt_GetSize m \<and> leaf_key = key then rbind (lf_ValueAt m target_index) (\<lambda>v. Inr (Some v))
     else Inr None))"

definition lf_CopyNFrom :: "bytes \<Rightarrow> nat \<Rightarrow> bytes \<Rightarrow> bytes result" where
  "lf_CopyNFrom items n m =
     rbind (rassert (bt_max_size m > 0) ''GetMaxSize() > 0'') (\<lambda>_.
     if LEAF_NODES + LEAF_NODE * (bt_GetSize m + n) \<le> length m
     then Inr (bt_IncreaseSize n (blit (LEAF_NODES + LEAF_NODE * bt_GetSize m) (take (LEAF_NODE * n) items) m))
     else Inl (UndefinedBehaviour ''node outside the page''))"

definition lf_MoveHalfTo :: "bytes \<Rightarrow> bytes \<Rightarrow> (bytes \<times> bytes) result" where
  "lf_MoveHalfTo m recipient =
     rbind (bt_GetMaxSize m) (\<lambda>max.
     let start = bt_GetMinSize m; m' = bt_SetSize start m in
     rbind (lf_CopyNFrom (drop (LEAF_NODES + LEAF_NODE * start) m') (max - start) recipient) (\<lambda>r. Inr (m', r)))"

section \<open>Internal pages\<close>

abbreviation INTERNAL_MAX_NODE_SIZE :: nat where "INTERNAL_MAX_NODE_SIZE \<equiv> 338"
abbreviation INTERNAL_NODES :: nat where "INTERNAL_NODES \<equiv> 32"
abbreviation INTERNAL_NODE :: nat where "INTERNAL_NODE \<equiv> 12"

definition in_Init :: "int \<Rightarrow> int \<Rightarrow> bytes \<Rightarrow> bytes result" where
  "in_Init page_id parent_id m =
     rbind (bt_SetMaxSize (int INTERNAL_MAX_NODE_SIZE) (bt_SetSize 0 (bt_SetPageId page_id (bt_SetPageType INTERNAL_PAGE m)))) (\<lambda>m'.
     Inr (bt_SetParentPageId parent_id m'))"

definition in_node :: "bytes \<Rightarrow> nat \<Rightarrow> bytes result" where
  "in_node m i = (if INTERNAL_NODES + INTERNAL_NODE * (i + 1) \<le> length m then Inr (slice (INTERNAL_NODES + INTERNAL_NODE * i) INTERNAL_NODE m)
     else Inl (UndefinedBehaviour ''node outside the page''))"

definition in_KeyAt :: "bytes \<Rightarrow> nat \<Rightarrow> IndexKeyType result" where
  "in_KeyAt m i = rbind (in_node m i) (\<lambda>n. Inr (take 8 n))"

definition in_ValueAt :: "bytes \<Rightarrow> nat \<Rightarrow> int result" where
  "in_ValueAt m i = rbind (in_node m i) (\<lambda>n. Inr (bytes_int (drop 8 n)))"

definition in_SetKeyAt :: "nat \<Rightarrow> IndexKeyType \<Rightarrow> bytes \<Rightarrow> bytes result" where
  "in_SetKeyAt i key m = rbind (in_node m i) (\<lambda>_. Inr (blit (INTERNAL_NODES + INTERNAL_NODE * i) key m))"

definition in_SetValueAt :: "nat \<Rightarrow> int \<Rightarrow> bytes \<Rightarrow> bytes result" where
  "in_SetValueAt i v m = rbind (in_node m i) (\<lambda>_. Inr (blit (INTERNAL_NODES + INTERNAL_NODE * i + 8) (int_bytes 4 v) m))"

fun find_value :: "bytes \<Rightarrow> int \<Rightarrow> nat \<Rightarrow> nat \<Rightarrow> nat result" where
  "find_value m v i 0 = Inr i"
| "find_value m v i (Suc n) = rbind (in_ValueAt m i) (\<lambda>w. if w = v then Inr i else find_value m v (Suc i) n)"

definition in_ValueIndex :: "bytes \<Rightarrow> int \<Rightarrow> nat result" where
  "in_ValueIndex m v = find_value m v 0 (bt_GetSize m)"

definition in_Lookup :: "bytes \<Rightarrow> IndexKeyType \<Rightarrow> Comparator \<Rightarrow> int result" where
  "in_Lookup m key comparator =
     rbind (lower_bound (\<lambda>i. rbind (in_KeyAt m i) (\<lambda>k. rbind (compare comparator k key) (\<lambda>r. Inr (r < 0)))) 1 (bt_GetSize m - 1)) (\<lambda>target.
     if target = bt_GetSize m then in_ValueAt m (bt_GetSize m - 1)
     else rbind (in_KeyAt m target) (\<lambda>k. rbind (compare comparator key k) (\<lambda>r.
       if r = 0 then in_ValueAt m target else in_ValueAt m (target - 1))))"

definition in_PopulateNewRoot :: "int \<Rightarrow> IndexKeyType \<Rightarrow> int \<Rightarrow> bytes \<Rightarrow> bytes result" where
  "in_PopulateNewRoot old_value new_key new_value m =
     rbind (in_SetValueAt 0 old_value m) (\<lambda>m. rbind (in_SetKeyAt 1 new_key m) (\<lambda>m. rbind (in_SetValueAt 1 new_value m) (\<lambda>m.
     Inr (bt_SetSize 2 m))))"

definition in_InsertNodeAfter :: "int \<Rightarrow> IndexKeyType \<Rightarrow> int \<Rightarrow> bytes \<Rightarrow> (bytes \<times> nat) result" where
  "in_InsertNodeAfter old_value new_key new_value m =
     rbind (in_ValueIndex m old_value) (\<lambda>i.
     rbind (rassert (i < bt_GetSize m) ''ValueIndex(old_value) < GetSize()'') (\<lambda>_.
     rbind (in_node m (bt_GetSize m)) (\<lambda>_.
     let k = i + 1;
         m1 = blit (INTERNAL_NODES + INTERNAL_NODE * (k + 1))
                (slice (INTERNAL_NODES + INTERNAL_NODE * k) (INTERNAL_NODE * (bt_GetSize m - k)) m) m in
     rbind (in_SetKeyAt k new_key m1) (\<lambda>m2. rbind (in_SetValueAt k new_value m2) (\<lambda>m3.
     let m4 = bt_IncreaseSize 1 m3 in Inr (m4, bt_GetSize m4))))))"

section \<open>Printing\<close>

definition RID_ToString :: "RID \<Rightarrow> string" where
  "RID_ToString r = ''RID['' @ dec_int (page_number (rid_page_id r)) @ '', '' @ dec_nat (rid_slot_num r) @ '']''"

fun in_print :: "bytes \<Rightarrow> nat \<Rightarrow> nat \<Rightarrow> string \<Rightarrow> string result" where
  "in_print m i 0 s = Inr s"
| "in_print m i (Suc n) s =
     rbind (in_KeyAt m i) (\<lambda>k. rbind (in_ValueAt m i) (\<lambda>v.
     in_print m (Suc i) n (s @ (if i = 0 then '''' else '', '') @ IndexKeyTypeToString k @ '':'' @ dec_int v)))"

definition in_ToString :: "bytes \<Rightarrow> string result" where
  "in_ToString m = rbind (in_print m 0 (bt_GetSize m) ''('') (\<lambda>s. Inr (s @ '')''))"

fun lf_print :: "bytes \<Rightarrow> nat \<Rightarrow> nat \<Rightarrow> string \<Rightarrow> string result" where
  "lf_print m i 0 s = Inr s"
| "lf_print m i (Suc n) s =
     rbind (lf_KeyAt m i) (\<lambda>k. rbind (lf_ValueAt m i) (\<lambda>v.
     lf_print m (Suc i) n (s @ (if i = 0 then '''' else '', '') @ ''('' @ IndexKeyTypeToString k @ '':'' @ RID_ToString v @ '')''
       @ (if i mod 5 = 4 then [CHR 0x0A] else ''''))))"

definition lf_ToString :: "bytes \<Rightarrow> string result" where
  "lf_ToString m = rbind (lf_print m 0 (bt_GetSize m) (CHR 0x0A # ''('')) (\<lambda>s. Inr (s @ '')'' @ [CHR 0x0A]))"

section \<open>Binary search finds the boundary\<close>

lemma lower_bound_spec:
  assumes "\<And>i. first \<le> i \<Longrightarrow> i < first + len \<Longrightarrow> lt i = Inr (P i)"
    and "\<And>i j. first \<le> i \<Longrightarrow> i < j \<Longrightarrow> j < first + len \<Longrightarrow> P j \<Longrightarrow> P i"
  shows "\<exists>k. lower_bound lt first len = Inr k \<and> first \<le> k \<and> k \<le> first + len \<and>
     (\<forall>i. first \<le> i \<and> i < k \<longrightarrow> P i) \<and> (\<forall>i. k \<le> i \<and> i < first + len \<longrightarrow> \<not> P i)"
  using assms
proof (induction lt first len rule: lower_bound.induct)
  case (1 lt first len)
  show ?case
  proof (cases "len = 0")
    case True
    then show ?thesis by (subst lower_bound.simps) auto
  next
    case False
    let ?h = "len div 2"
    have h: "?h < len" and l: "lt (first + ?h) = Inr (P (first + ?h))" using False 1(3) by auto
    show ?thesis
    proof (cases "P (first + ?h)")
      case True
      have eq: "lower_bound lt first len = lower_bound lt (first + ?h + 1) (len - ?h - 1)"
        using False True l by (subst lower_bound.simps) (simp add: Let_def)
      have "\<exists>k. lower_bound lt (first + ?h + 1) (len - ?h - 1) = Inr k \<and> first + ?h + 1 \<le> k \<and> k \<le> first + ?h + 1 + (len - ?h - 1) \<and>
          (\<forall>i. first + ?h + 1 \<le> i \<and> i < k \<longrightarrow> P i) \<and> (\<forall>i. k \<le> i \<and> i < first + ?h + 1 + (len - ?h - 1) \<longrightarrow> \<not> P i)"
        by (rule 1(1) [OF False refl True]) (use 1(3,4) h in auto)
      then obtain k where k: "lower_bound lt (first + ?h + 1) (len - ?h - 1) = Inr k" "first + ?h + 1 \<le> k" "k \<le> first + len"
          "\<forall>i. first + ?h + 1 \<le> i \<and> i < k \<longrightarrow> P i" "\<forall>i. k \<le> i \<and> i < first + len \<longrightarrow> \<not> P i" using h by auto
      have "P i" if "first \<le> i" "i < k" for i
        using that k(4) 1(4) [of i "first + ?h"] True h by (cases "i < first + ?h"; cases "i = first + ?h") auto
      then show ?thesis unfolding eq using k by auto
    next
      case n: False
      have eq: "lower_bound lt first len = lower_bound lt first ?h"
        using False n l by (subst lower_bound.simps) (simp add: Let_def)
      have "\<exists>k. lower_bound lt first ?h = Inr k \<and> first \<le> k \<and> k \<le> first + ?h \<and>
          (\<forall>i. first \<le> i \<and> i < k \<longrightarrow> P i) \<and> (\<forall>i. k \<le> i \<and> i < first + ?h \<longrightarrow> \<not> P i)"
        by (rule 1(2) [OF False refl n]) (use 1(3,4) h in auto)
      then obtain k where k: "lower_bound lt first ?h = Inr k" "first \<le> k" "k \<le> first + ?h"
          "\<forall>i. first \<le> i \<and> i < k \<longrightarrow> P i" "\<forall>i. k \<le> i \<and> i < first + ?h \<longrightarrow> \<not> P i" by blast
      have "\<not> P i" if "k \<le> i" "i < first + len" for i
      proof (cases "i < first + ?h")
        case False
        then show ?thesis using 1(4) [of "first + ?h" i] n that by (cases "i = first + ?h") auto
      qed (use k(5) that in simp)
      then show ?thesis unfolding eq using k h by auto
    qed
  qed
qed

section \<open>A leaf over integer keys is a finite map\<close>

definition int_key :: "int \<Rightarrow> IndexKeyType" where
  "int_key i = int_bytes 4 i @ replicate 4 0"

definition nd :: "bytes \<Rightarrow> nat \<Rightarrow> bytes" where
  "nd m i = slice (LEAF_NODES + LEAF_NODE * i) LEAF_NODE m"

definition nd_key :: "bytes \<Rightarrow> nat \<Rightarrow> int" where
  "nd_key m i = get_int 0 4 (nd m i)"

definition leaf_entries :: "bytes \<Rightarrow> (int \<times> RID) list" where
  "leaf_entries m = map (\<lambda>i. (nd_key m i, bytes_rid (drop 8 (nd m i)))) [0..<bt_GetSize m]"

definition leaf_page :: "bytes \<Rightarrow> bool" where
  "leaf_page m \<longleftrightarrow> length m = PAGE_SIZE \<and> bt_max_size m = LEAF_MAX_NODE_SIZE \<and> bt_GetSize m \<le> LEAF_MAX_NODE_SIZE \<and> bt_IsLeafPage m"

definition leaf_ok :: "bytes \<Rightarrow> bool" where
  "leaf_ok m \<longleftrightarrow> leaf_page m \<and> (\<forall>j < bt_GetSize m. \<forall>i < j. nd_key m i < nd_key m j) \<and>
     (\<forall>i < bt_GetSize m. take 8 (nd m i) = int_key (nd_key m i) \<and> fits 4 (nd_key m i))"

definition rid_fits :: "RID \<Rightarrow> bool" where
  "rid_fits r \<longleftrightarrow> fits 4 (page_number (rid_page_id r)) \<and> fits 4 (table_id (rid_page_id r)) \<and> rid_slot_num r < 2 ^ 32"

lemma length_int_key [simp]: "length (int_key i) = 8"
  by (simp add: int_key_def)

lemma length_rid_bytes [simp]: "length (rid_bytes r) = 12"
  by (simp add: rid_bytes_def)

lemma get_int_key: "fits 4 i \<Longrightarrow> get_int 0 4 (int_key i @ bs) = i" "fits 4 i \<Longrightarrow> get_int 0 4 (int_key i) = i"
  by (simp_all add: get_int_def int_key_def slice_def bytes_int_int_bytes)

lemma int_key_eq: "fits 4 i \<Longrightarrow> fits 4 j \<Longrightarrow> int_key i = int_key j \<longleftrightarrow> i = j"
  by (metis get_int_key(2))

lemma bytes_rid_bytes: "rid_fits r \<Longrightarrow> bytes_rid (rid_bytes r) = r"
  by (cases r; cases "rid_page_id r")
    (simp add: bytes_rid_def rid_bytes_def rid_fits_def get_int_def get_uint_def slice_def bytes_int_int_bytes mk_rid_def mk_page_id_def)

lemma length_nd: "length m = PAGE_SIZE \<Longrightarrow> i \<le> LEAF_MAX_NODE_SIZE \<Longrightarrow> length (nd m i) = LEAF_NODE"
  by (simp add: nd_def)

lemma lf_node_nd: "length m = PAGE_SIZE \<Longrightarrow> i \<le> LEAF_MAX_NODE_SIZE \<Longrightarrow> lf_node m i = Inr (nd m i)"
  by (simp add: lf_node_def nd_def)

lemma compare_node:
  assumes "length m = PAGE_SIZE" and "i \<le> LEAF_MAX_NODE_SIZE" and "fits 4 k"
  shows "rbind (lf_KeyAt m i) (\<lambda>x. compare Compare_int32 x (int_key k)) = Inr (three_way (nd_key m i) k)"
proof -
  have "get_int 0 4 (take 8 (nd m i)) = nd_key m i" using length_nd [OF assms(1,2)] by (simp add: nd_key_def get_int_def slice_def)
  then show ?thesis using assms by (simp add: lf_KeyAt_def lf_node_nd compare_def get_int_key)
qed

text \<open>The position of a key, and what the leaf has before and from there on.\<close>

lemma lf_FindKeyIndex_spec:
  assumes "leaf_ok m" and "fits 4 k"
  shows "\<exists>j. lf_FindKeyIndex m (int_key k) Compare_int32 = Inr j \<and> j \<le> bt_GetSize m \<and>
     (\<forall>i < j. nd_key m i < k) \<and> (\<forall>i. j \<le> i \<and> i < bt_GetSize m \<longrightarrow> k \<le> nd_key m i)"
proof -
  have p: "length m = PAGE_SIZE" "bt_GetSize m \<le> LEAF_MAX_NODE_SIZE" "0 < bt_max_size m" using assms(1) by (auto simp: leaf_ok_def leaf_page_def)
  let ?l = "\<lambda>i. rbind (lf_KeyAt m i) (\<lambda>x. rbind (compare Compare_int32 x (int_key k)) (\<lambda>r. Inr (r < 0)))"
  have l: "?l i = Inr (nd_key m i < k)" if "i < 0 + bt_GetSize m" for i
  proof -
    have "rbind (rbind (lf_KeyAt m i) (\<lambda>x. compare Compare_int32 x (int_key k))) (\<lambda>r. Inr (r < 0)) = Inr (nd_key m i < k)"
      using compare_node [OF p(1) _ assms(2), of i] that p(2) by (simp add: three_way_def)
    then show ?thesis by (auto simp: rbind_eq_Inr)
  qed
  have mono: "nd_key m i < k" if "i < j" "j < 0 + bt_GetSize m" "nd_key m j < k" for i j
    using assms(1) that unfolding leaf_ok_def by force
  have "\<exists>j. lower_bound ?l 0 (bt_GetSize m) = Inr j \<and> 0 \<le> j \<and> j \<le> 0 + bt_GetSize m \<and>
      (\<forall>i. 0 \<le> i \<and> i < j \<longrightarrow> nd_key m i < k) \<and> (\<forall>i. j \<le> i \<and> i < 0 + bt_GetSize m \<longrightarrow> \<not> nd_key m i < k)"
    by (rule lower_bound_spec) (use l mono in blast)+
  then show ?thesis using p(3) by (auto simp: lf_FindKeyIndex_def not_less)
qed

lemma leaf_lookup:
  assumes ok: "leaf_ok m" and k: "fits 4 k"
  shows "lf_Lookup m (int_key k) Compare_int32 = Inr (map_of (leaf_entries m) k)"
proof -
  have p: "length m = PAGE_SIZE" "bt_GetSize m \<le> LEAF_MAX_NODE_SIZE" using ok by (auto simp: leaf_ok_def leaf_page_def)
  obtain j where j: "lf_FindKeyIndex m (int_key k) Compare_int32 = Inr j" "j \<le> bt_GetSize m" "\<forall>i < j. nd_key m i < k"
      "\<forall>i. j \<le> i \<and> i < bt_GetSize m \<longrightarrow> k \<le> nd_key m i"
    using lf_FindKeyIndex_spec [OF assms] by blast
  have node: "lf_node m j = Inr (nd m j)" using lf_node_nd p j(2) by simp
  have dist: "distinct (map fst (leaf_entries m))"
    using ok unfolding leaf_entries_def leaf_ok_def distinct_conv_nth by (auto simp: nth_eq_iff_index_eq) (metis linorder_neqE_nat less_irrefl)
  show ?thesis
  proof (cases "j < bt_GetSize m \<and> nd_key m j = k")
    case True
    then have "take 8 (nd m j) = int_key k" using ok by (auto simp: leaf_ok_def)
    then have "lf_Lookup m (int_key k) Compare_int32 = Inr (Some (bytes_rid (drop 8 (nd m j))))"
      using j(1) node True by (simp add: lf_Lookup_def lf_KeyAt_def lf_ValueAt_def)
    moreover have "(k, bytes_rid (drop 8 (nd m j))) \<in> set (leaf_entries m)" using True by (auto simp: leaf_entries_def)
    then have "map_of (leaf_entries m) k = Some (bytes_rid (drop 8 (nd m j)))" using dist by simp
    ultimately show ?thesis by simp
  next
    case False
    have "k \<noteq> nd_key m i" if "i < bt_GetSize m" for i
    proof (cases "i < j")
      case True
      then show ?thesis using j(3) by force
    next
      case n: False
      show ?thesis
      proof (cases "i = j")
        case True
        then show ?thesis using False that by auto
      next
        case f: False
        then have "j < i" using n by simp
        then have "nd_key m j < nd_key m i" "k \<le> nd_key m j" using ok that j(4) by (auto simp: leaf_ok_def)
        then show ?thesis by simp
      qed
    qed
    then have "k \<notin> fst ` set (leaf_entries m)" unfolding leaf_entries_def by force
    then have "map_of (leaf_entries m) k = None" by (simp add: map_of_eq_None_iff)
    moreover have "lf_Lookup m (int_key k) Compare_int32 = Inr None"
    proof -
      have "take 8 (nd m j) \<noteq> int_key k" if "j < bt_GetSize m"
        using ok that False int_key_eq [OF _ k] by (auto simp: leaf_ok_def)
      then show ?thesis using j(1) node by (auto simp: lf_Lookup_def lf_KeyAt_def)
    qed
    ultimately show ?thesis by simp
  qed
qed

section \<open>Insertion\<close>

text \<open>Writing the size changes no node, and a node written at \<open>k\<close> after a shift moves the later ones up.\<close>

lemma nd_SetSize [simp]: "length m = PAGE_SIZE \<Longrightarrow> nd (bt_SetSize n m) i = nd m i"
  by (simp add: nd_def bt_SetSize_def mem_simps)

lemma GetSize_SetSize [simp]: "length m = PAGE_SIZE \<Longrightarrow> n < 2 ^ 64 \<Longrightarrow> bt_GetSize (bt_SetSize n m) = n"
  by (simp add: bt_GetSize_def bt_SetSize_def mem_simps)

lemma leaf_fields_SetSize [simp]:
  "length m = PAGE_SIZE \<Longrightarrow> length (bt_SetSize n m) = PAGE_SIZE"
  "length m = PAGE_SIZE \<Longrightarrow> bt_max_size (bt_SetSize n m) = bt_max_size m"
  "length m = PAGE_SIZE \<Longrightarrow> bt_IsLeafPage (bt_SetSize n m) = bt_IsLeafPage m"
  by (simp_all add: bt_SetSize_def bt_max_size_def bt_IsLeafPage_def mem_simps)

lemma blit_nodes:
  assumes "length m = PAGE_SIZE" and "LEAF_NODES \<le> off" and "off + length bs \<le> PAGE_SIZE"
  shows "length (blit off bs m) = PAGE_SIZE" "bt_max_size (blit off bs m) = bt_max_size m"
    "bt_IsLeafPage (blit off bs m) = bt_IsLeafPage m" "bt_GetSize (blit off bs m) = bt_GetSize m"
  using assms by (simp_all add: bt_max_size_def bt_IsLeafPage_def bt_GetSize_def mem_simps)

lemma nd_blit_other:
  assumes "length m = PAGE_SIZE" and "off + length bs \<le> PAGE_SIZE"
    and "LEAF_NODES + LEAF_NODE * (i + 1) \<le> off \<or> off + length bs \<le> LEAF_NODES + LEAF_NODE * i"
  shows "nd (blit off bs m) i = nd m i"
  using assms by (simp add: nd_def slice_blit_other)

lemma shift_put:
  fixes rid :: RID
  assumes m: "length m = PAGE_SIZE" and kn: "k \<le> n" and n: "n < LEAF_MAX_NODE_SIZE" and key: "length key = 8"
  defines "m1 \<equiv> (if k = n then m else lf_shift k n m)"
  defines "m2 \<equiv> lf_put k key rid m1"
  shows "length m2 = PAGE_SIZE" "bt_max_size m2 = bt_max_size m" "bt_IsLeafPage m2 = bt_IsLeafPage m" "bt_GetSize m2 = bt_GetSize m"
    and "i \<le> n \<Longrightarrow> nd m2 i = (if i < k then nd m i else if i = k then key @ rid_bytes rid else nd m (i - 1))"
    and "n < i \<Longrightarrow> nd m2 i = nd m i"
proof -
  let ?s = "slice (LEAF_NODES + LEAF_NODE * k) (LEAF_NODE * (n - k)) m"
  have len: "length ?s = LEAF_NODE * (n - k)" using m kn n by simp
  have f1: "length m1 = PAGE_SIZE" "bt_max_size m1 = bt_max_size m" "bt_IsLeafPage m1 = bt_IsLeafPage m" "bt_GetSize m1 = bt_GetSize m"
    using blit_nodes [OF m, of "LEAF_NODES + LEAF_NODE * (k + 1)" ?s] len kn n m by (auto simp: m1_def lf_shift_def)
  show "length m2 = PAGE_SIZE" "bt_max_size m2 = bt_max_size m" "bt_IsLeafPage m2 = bt_IsLeafPage m" "bt_GetSize m2 = bt_GetSize m"
    using blit_nodes [OF f1(1), of "LEAF_NODES + LEAF_NODE * k" "key @ rid_bytes rid"] f1 key kn n by (simp_all add: m2_def lf_put_def)
  show "nd m2 i = nd m i" if "n < i"
    using nd_blit_other [OF f1(1), of "LEAF_NODES + LEAF_NODE * k" "key @ rid_bytes rid" i]
      nd_blit_other [OF m, of "LEAF_NODES + LEAF_NODE * (k + 1)" ?s i] that key kn n len by (auto simp: m2_def lf_put_def m1_def lf_shift_def)
  show "nd m2 i = (if i < k then nd m i else if i = k then key @ rid_bytes rid else nd m (i - 1))" if i: "i \<le> n"
  proof (cases "i = k")
    case True
    then show ?thesis using f1(1) key kn n by (simp add: m2_def lf_put_def nd_def slice_blit_same)
  next
    case False
    have put: "nd m2 i = nd m1 i"
      unfolding m2_def lf_put_def by (rule nd_blit_other) (use f1 key kn n False in auto)
    have "nd m1 i = (if i < k then nd m i else nd m (i - 1))"
    proof (cases "i < k")
      case True
      then show ?thesis using nd_blit_other [OF m, of "LEAF_NODES + LEAF_NODE * (k + 1)" ?s i] len kn n by (auto simp: m1_def lf_shift_def)
    next
      case ge: False
      then have ki: "k < i" using False by simp
      have "nd m1 i = slice (LEAF_NODE * (i - k - 1)) LEAF_NODE ?s"
        using slice_blit_inner [of "LEAF_NODES + LEAF_NODE * (k + 1)" ?s m "LEAF_NODES + LEAF_NODE * i" LEAF_NODE] ki i len m kn n
        by (simp add: m1_def lf_shift_def nd_def diff_mult_distrib2)
      also have "\<dots> = slice (LEAF_NODES + LEAF_NODE * k + LEAF_NODE * (i - k - 1)) LEAF_NODE m"
        by (rule slice_slice) (use ki i in auto)
      also have "LEAF_NODES + LEAF_NODE * k + LEAF_NODE * (i - k - 1) = LEAF_NODES + LEAF_NODE * (i - 1)" using ki by simp
      finally show ?thesis using ge by (simp add: nd_def)
    qed
    with put False show ?thesis by simp
  qed
qed

text \<open>
  A key that is not there goes in at its place. The one behind the last node is read as well,
  although it is not part of the leaf: a key equal to it is taken for present.
\<close>

lemma leaf_insert_new:
  assumes ok: "leaf_ok m" and n: "bt_GetSize m < LEAF_MAX_NODE_SIZE" and k: "fits 4 k" and rid: "rid_fits rid"
    and new: "k \<notin> fst ` set (leaf_entries m)"
    and stale: "bt_GetSize m = 0 \<or> nd_key m (bt_GetSize m) \<noteq> k \<or> (\<exists>i < bt_GetSize m. k < nd_key m i)"
  shows "\<exists>m'. lf_Insert (int_key k) rid Compare_int32 m = Inr m' \<and> leaf_ok m' \<and> map_of (leaf_entries m') = (map_of (leaf_entries m))(k \<mapsto> rid) \<and>
     bt_GetSize m' = bt_GetSize m + 1 \<and> (\<forall>i > bt_GetSize m. nd m' i = nd m i) \<and> set (map fst (leaf_entries m')) = insert k (fst ` set (leaf_entries m)) \<and>
     (\<exists>j. leaf_entries m' = take j (leaf_entries m) @ (k, rid) # drop j (leaf_entries m))"
proof -
  let ?n = "bt_GetSize m"
  have p: "length m = PAGE_SIZE" "bt_max_size m = LEAF_MAX_NODE_SIZE" "bt_IsLeafPage m" using ok by (auto simp: leaf_ok_def leaf_page_def)
  obtain j where j: "lf_FindKeyIndex m (int_key k) Compare_int32 = Inr j" "j \<le> ?n" "\<forall>i < j. nd_key m i < k"
      "\<forall>i. j \<le> i \<and> i < ?n \<longrightarrow> k \<le> nd_key m i"
    using lf_FindKeyIndex_spec [OF ok k] by blast
  have ne: "nd_key m i \<noteq> k" if "i < ?n" for i using new that unfolding leaf_entries_def by force
  have gt: "k < nd_key m i" if "j \<le> i" "i < ?n" for i using j(4) ne that by force
  have "nd_key m j \<noteq> k" if "?n \<noteq> 0"
  proof (cases "j < ?n")
    case False
    then show ?thesis using stale that j(2,3) by (auto dest: less_asym)
  qed (use ne in blast)
  then have nf: "rbind (lf_KeyAt m j) (\<lambda>x. rbind (compare Compare_int32 x (int_key k)) (\<lambda>r. Inr (r = 0))) = Inr False" if "?n \<noteq> 0"
    using compare_node [OF p(1) _ k, of j] j(2) n that by (auto simp: rbind_eq_Inr three_way_def split: if_splits)
  define m1 where "m1 = lf_put j (int_key k) rid (if j = ?n then m else lf_shift j ?n m)"
  note sp = shift_put [OF p(1) j(2) n length_int_key [of k], where rid = rid, folded m1_def]
  define m' where "m' = bt_SetSize (?n + 1) m1"
  have run: "lf_Insert (int_key k) rid Compare_int32 m = Inr m'"
    using j(1,2) nf p n sp(4) by (cases "?n = 0") (simp_all add: lf_Insert_def bt_GetMaxSize_def lf_node_nd m1_def m'_def bt_IncreaseSize_def)
  have size: "bt_GetSize m' = ?n + 1" and len: "length m' = PAGE_SIZE" using sp(1) n by (simp_all add: m'_def)
  have node: "nd m' i = (if i < j then nd m i else if i = j then int_key k @ rid_bytes rid else nd m (i - 1))" if "i \<le> ?n" for i
    using sp(1,5) that by (simp add: m'_def)
  have key: "nd_key m' i = (if i < j then nd_key m i else if i = j then k else nd_key m (i - 1))" if "i \<le> ?n" for i
    using node [OF that] k by (simp add: nd_key_def get_int_key)
  have "leaf_page m'" using sp size n p by (simp add: leaf_page_def m'_def)
  moreover have "nd_key m' i < nd_key m' i'" if "i < i'" "i' < bt_GetSize m'" for i i'
  proof -
    have s: "nd_key m a < nd_key m b" if "a < b" "b < ?n" for a b using ok that by (auto simp: leaf_ok_def)
    consider "i' < j" | "i' = j" | "i < j" "j < i'" | "i = j" "j < i'" | "j < i" using that by linarith
    then show ?thesis
    proof cases
      case 3
      then have "nd_key m i < nd_key m (i' - 1)" using s [of i "i' - 1"] that size by simp
      then show ?thesis using 3 that key [of i] key [of i'] size by simp
    next
      case 5
      then have "nd_key m (i - 1) < nd_key m (i' - 1)" using s [of "i - 1" "i' - 1"] that size by simp
      then show ?thesis using 5 that key [of i] key [of i'] size by simp
    qed (use that s j(2,3) gt [of "i' - 1"] key [of i] key [of i'] size in auto)
  qed
  moreover have "take 8 (nd m' i) = int_key (nd_key m' i) \<and> fits 4 (nd_key m' i)" if "i < bt_GetSize m'" for i
    using that size node [of i] key [of i] ok k j(2) by (auto simp: leaf_ok_def)
  ultimately have okm: "leaf_ok m'" by (simp add: leaf_ok_def)
  have above: "\<forall>i > ?n. nd m' i = nd m i" using sp(1,6) by (simp add: m'_def)
  have e: "leaf_entries m' = take j (leaf_entries m) @ (k, rid) # drop j (leaf_entries m)"
  proof (rule nth_equalityI)
    show "length (leaf_entries m') = length (take j (leaf_entries m) @ (k, rid) # drop j (leaf_entries m))"
      using size j(2) by (simp add: leaf_entries_def)
    fix i assume i: "i < length (leaf_entries m')"
    then have i': "i \<le> ?n" using size by (simp add: leaf_entries_def)
    then show "leaf_entries m' ! i = (take j (leaf_entries m) @ (k, rid) # drop j (leaf_entries m)) ! i"
      using node [OF i'] key [OF i'] size j(2) rid
      by (auto simp: leaf_entries_def nth_append nth_Cons' bytes_rid_bytes simp del: upt_Suc)
  qed
  have upd: "map_of (leaf_entries m') x = ((map_of (leaf_entries m))(k \<mapsto> rid)) x" for x
  proof -
    have "map_of (take j (leaf_entries m)) k = None" using new by (auto simp: map_of_eq_None_iff dest: in_set_takeD)
    moreover have "map_of (leaf_entries m) = map_of (take j (leaf_entries m) @ drop j (leaf_entries m))" by simp
    ultimately show ?thesis unfolding e by (simp only: map_of_append) (auto simp: map_add_def split: option.splits)
  qed
  then have "dom (map_of (leaf_entries m')) = insert k (dom (map_of (leaf_entries m)))" by (auto simp: dom_def)
  then have "set (map fst (leaf_entries m')) = insert k (fst ` set (leaf_entries m))" by (simp add: dom_map_of_conv_image_fst)
  then show ?thesis using run okm size above upd e by blast
qed

lemma leaf_init:
  assumes "length m = PAGE_SIZE"
  shows "\<exists>m'. lf_Init page_id parent_id m = Inr m' \<and> leaf_ok m' \<and> bt_GetSize m' = 0 \<and> (\<forall>i. nd m' i = nd m i)"
proof -
  let ?m = "put_uint 24 8 LEAF_MAX_NODE_SIZE (lf_SetNextPageId INVALID_PAGE_ID (bt_SetParentPageId parent_id (bt_SetPageId page_id
         (bt_SetSize 0 (bt_SetPageType LEAF_PAGE m)))))"
  note defs = lf_SetNextPageId_def bt_SetParentPageId_def bt_SetPageId_def bt_SetSize_def bt_SetPageType_def
  have f: "length ?m = PAGE_SIZE" "bt_max_size ?m = LEAF_MAX_NODE_SIZE" "bt_GetSize ?m = 0" "bt_IsLeafPage ?m" "nd ?m i = nd m i" for i
    using assms by (simp_all add: defs bt_max_size_def bt_GetSize_def bt_IsLeafPage_def nd_def mem_simps)
  have "lf_Init page_id parent_id m = Inr ?m" using f(2) by (simp add: lf_Init_def bt_SetMaxSize_def bt_GetMaxSize_def)
  moreover have "leaf_ok ?m" using f by (simp add: leaf_ok_def leaf_page_def)
  ultimately show ?thesis using f(3,5) by blast
qed

section \<open>Splitting\<close>

lemma leaf_split:
  assumes ok: "leaf_ok m" and full: "bt_GetSize m = LEAF_MAX_NODE_SIZE" and r: "leaf_page r" "bt_GetSize r = 0"
  shows "\<exists>m' r'. lf_MoveHalfTo m r = Inr (m', r') \<and> leaf_ok m' \<and> leaf_ok r' \<and> leaf_entries m' @ leaf_entries r' = leaf_entries m \<and>
     bt_GetSize m' = 101 \<and> bt_GetSize r' = 101 \<and> (\<forall>i. nd m' i = nd m i) \<and> (\<forall>i. 101 \<le> i \<and> i \<le> LEAF_MAX_NODE_SIZE \<longrightarrow> nd r' i = nd r i)"
proof -
  have p: "length m = PAGE_SIZE" "bt_max_size m = LEAF_MAX_NODE_SIZE" "bt_IsLeafPage m" using ok by (auto simp: leaf_ok_def leaf_page_def)
  have q: "length r = PAGE_SIZE" "bt_max_size r = LEAF_MAX_NODE_SIZE" "bt_IsLeafPage r" using r by (auto simp: leaf_page_def)
  define m' where "m' = bt_SetSize 101 m"
  let ?items = "take (LEAF_NODE * 101) (drop (LEAF_NODES + LEAF_NODE * 101) m')"
  define r' where "r' = bt_SetSize 101 (blit LEAF_NODES ?items r)"
  have li: "length ?items = LEAF_NODE * 101" using p(1) by (simp add: m'_def)
  have f: "length (blit LEAF_NODES ?items r) = PAGE_SIZE" "bt_max_size (blit LEAF_NODES ?items r) = LEAF_MAX_NODE_SIZE"
      "bt_IsLeafPage (blit LEAF_NODES ?items r)" "bt_GetSize (blit LEAF_NODES ?items r) = 0"
    using blit_nodes [OF q(1), of LEAF_NODES ?items] li q r(2) by simp_all
  have run: "lf_MoveHalfTo m r = Inr (m', r')"
    using p q r(2) f(4) by (simp add: lf_MoveHalfTo_def bt_GetMaxSize_def bt_GetMinSize_def lf_CopyNFrom_def Let_def m'_def [symmetric]
        bt_IncreaseSize_def r'_def)
  have s: "bt_GetSize m' = 101" "bt_GetSize r' = 101" using p(1) f(1) by (simp_all add: m'_def r'_def)
  have nm: "nd m' i = nd m i" for i using p(1) by (simp add: m'_def)
  have nr: "nd r' i = nd m (101 + i)" if "i < 101" for i
  proof -
    have "nd r' i = nd (blit LEAF_NODES ?items r) i" using f(1) by (simp add: r'_def)
    also have "\<dots> = slice (LEAF_NODE * i) LEAF_NODE ?items"
      unfolding nd_def by (subst slice_blit_inner) (use li q(1) that in simp_all)
    also have "\<dots> = slice (LEAF_NODES + LEAF_NODE * 101 + LEAF_NODE * i) LEAF_NODE m'"
      using slice_slice [of "LEAF_NODE * i" LEAF_NODE "LEAF_NODE * 101" "LEAF_NODES + LEAF_NODE * 101" m'] that by (simp add: slice_def)
    finally show ?thesis using nm [of "101 + i"] by (simp add: nd_def algebra_simps)
  qed
  have k: "nd_key m' i = nd_key m i" "i < 101 \<Longrightarrow> nd_key r' i = nd_key m (101 + i)" for i using nm nr by (simp_all add: nd_key_def)
  have "leaf_page m'" "leaf_page r'" using p s f by (simp_all add: leaf_page_def m'_def r'_def)
  then have oks: "leaf_ok m'" "leaf_ok r'" using ok full s nm nr k by (auto simp: leaf_ok_def)
  have "nd r' i = nd r i" if "101 \<le> i" "i \<le> LEAF_MAX_NODE_SIZE" for i
    using nd_blit_other [OF q(1), of LEAF_NODES ?items i] li that f(1) by (simp add: r'_def)
  moreover have "leaf_entries m' @ leaf_entries r' = leaf_entries m"
    by (rule nth_equalityI) (auto simp: leaf_entries_def s full nth_append nm nr k simp del: upt_Suc upt_rec_numeral)
  ultimately show ?thesis using run oks s nm by blast
qed

section \<open>Properties\<close>

text \<open>
  C14: A leaf page over integer keys is a finite map from keys to record ids. Inserting a key that
  is not there, when the leaf is not full and the key is not the one left over behind the last
  node, keeps the page well formed and sorted; afterwards that key is found with its record id and
  every other key gives what it gave before.
\<close>

theorem leaf_insert_lookup:
  assumes "leaf_ok m" and "bt_GetSize m < LEAF_MAX_NODE_SIZE" and "fits 4 k" and "rid_fits rid"
    and "k \<notin> fst ` set (leaf_entries m)"
    and "bt_GetSize m = 0 \<or> nd_key m (bt_GetSize m) \<noteq> k \<or> (\<exists>i < bt_GetSize m. k < nd_key m i)"
  shows "\<exists>m'. lf_Insert (int_key k) rid Compare_int32 m = Inr m' \<and> leaf_ok m' \<and> bt_GetSize m' = bt_GetSize m + 1 \<and>
     (\<forall>x. fits 4 x \<longrightarrow> lf_Lookup m' (int_key x) Compare_int32 =
        (if x = k then Inr (Some rid) else lf_Lookup m (int_key x) Compare_int32))"
  using leaf_insert_new [OF assms] leaf_lookup assms(1) by force

definition demo_rid :: RID where
  "demo_rid = mk_rid (mk_page_id 0 1) 7"

lemma demo_rid_fits: "rid_fits demo_rid"
  by (simp add: demo_rid_def rid_fits_def mk_rid_def mk_page_id_def fits_def)

definition blank_page :: bytes where
  "blank_page = replicate PAGE_SIZE 0"

lemma demo_leaf:
  assumes "fits 4 k"
  obtains m0 m1 where "lf_Init 3 INVALID_PAGE_ID blank_page = Inr m0" "leaf_ok m0" "bt_GetSize m0 = 0"
    "lf_Insert (int_key k) demo_rid Compare_int32 m0 = Inr m1" "leaf_ok m1" "bt_GetSize m1 = 1" "nd_key m1 0 = k" "nd_key m1 1 = 0"
proof -
  obtain m0 where m0: "lf_Init 3 INVALID_PAGE_ID blank_page = Inr m0" "leaf_ok m0" "bt_GetSize m0 = 0" "\<forall>i. nd m0 i = nd blank_page i"
    using leaf_init [of blank_page 3 INVALID_PAGE_ID] by (auto simp: blank_page_def)
  have "k \<notin> fst ` set (leaf_entries m0)" using m0(3) by (simp add: leaf_entries_def)
  then obtain m1 where m1: "lf_Insert (int_key k) demo_rid Compare_int32 m0 = Inr m1" "leaf_ok m1" "bt_GetSize m1 = 1" "nd m1 1 = nd m0 1"
      "set (map fst (leaf_entries m1)) = insert k (fst ` set (leaf_entries m0))"
    using leaf_insert_new [OF m0(2) _ assms demo_rid_fits] m0(3) by auto
  have "nd_key m1 0 = k" using m1(3,5) m0(3) by (simp add: leaf_entries_def)
  moreover have "nd blank_page 1 = replicate LEAF_NODE 0" by (simp add: nd_def blank_page_def slice_zeros)
  then have "nd_key m1 1 = 0" using m1(4) m0(4) by (simp add: nd_key_def get_int_def slice_zeros bytes_int_def)
  ultimately show thesis using that m0 m1 by blast
qed

theorem leaf_insert_lookup_witness:
  "\<exists>m0 m1. lf_Init 3 INVALID_PAGE_ID blank_page = Inr m0 \<and> lf_Insert (int_key 5) demo_rid Compare_int32 m0 = Inr m1 \<and>
     lf_Lookup m1 (int_key 5) Compare_int32 = Inr (Some demo_rid)"
proof -
  have f: "fits 4 5" by (simp add: fits_def)
  obtain m0 where m0: "lf_Init 3 INVALID_PAGE_ID blank_page = Inr m0" "leaf_ok m0" "bt_GetSize m0 = 0" by (rule demo_leaf [OF f])
  have "5 \<notin> fst ` set (leaf_entries m0)" using m0(3) by (simp add: leaf_entries_def)
  from leaf_insert_lookup [OF m0(2) _ f demo_rid_fits this] m0 f show ?thesis by auto
qed

text \<open>
  C39: A key greater than all keys of a leaf that has some, but equal to the bytes left over behind
  the last node, is dropped: \<^verbatim>\<open>Insert\<close> returns without inserting it and a lookup does not find it.
\<close>

theorem leaf_insert_drops:
  assumes ok: "leaf_ok m" and "0 < bt_GetSize m" and "bt_GetSize m < LEAF_MAX_NODE_SIZE" and k: "fits 4 k"
    and below: "\<forall>i < bt_GetSize m. nd_key m i < k" and stale: "nd_key m (bt_GetSize m) = k"
  shows "lf_Insert (int_key k) rid Compare_int32 m = Inr m \<and> lf_Lookup m (int_key k) Compare_int32 = Inr None"
proof -
  have p: "length m = PAGE_SIZE" "bt_max_size m = LEAF_MAX_NODE_SIZE" using ok by (auto simp: leaf_ok_def leaf_page_def)
  obtain j where j: "lf_FindKeyIndex m (int_key k) Compare_int32 = Inr j" "j \<le> bt_GetSize m"
      "\<forall>i. j \<le> i \<and> i < bt_GetSize m \<longrightarrow> k \<le> nd_key m i"
    using lf_FindKeyIndex_spec [OF ok k] by blast
  have "j = bt_GetSize m" using below j(2,3) by (metis le_neq_implies_less less_le_not_le order_refl)
  then have "rbind (lf_KeyAt m j) (\<lambda>x. rbind (compare Compare_int32 x (int_key k)) (\<lambda>r. Inr (r = 0))) = Inr True"
    using compare_node [OF p(1) _ k, of j] assms(3) stale by (auto simp: rbind_eq_Inr three_way_def)
  then have "lf_Insert (int_key k) rid Compare_int32 m = Inr m"
    using p assms(2,3) j(1) by (simp add: lf_Insert_def bt_GetMaxSize_def)
  moreover have "k \<notin> fst ` set (leaf_entries m)" using below by (force simp: leaf_entries_def)
  ultimately show ?thesis using leaf_lookup [OF ok k] by (simp add: map_of_eq_None_iff [symmetric])
qed

theorem leaf_insert_drops_witness:
  "\<exists>m0 m1. lf_Init 3 INVALID_PAGE_ID blank_page = Inr m0 \<and> lf_Insert (int_key (- 1)) demo_rid Compare_int32 m0 = Inr m1 \<and>
     lf_Insert (int_key 0) demo_rid Compare_int32 m1 = Inr m1 \<and> lf_Lookup m1 (int_key 0) Compare_int32 = Inr None"
proof -
  have f: "fits 4 (- 1)" "fits 4 0" by (simp_all add: fits_def)
  obtain m0 m1 where m: "lf_Init 3 INVALID_PAGE_ID blank_page = Inr m0" "lf_Insert (int_key (- 1)) demo_rid Compare_int32 m0 = Inr m1"
      "leaf_ok m1" "bt_GetSize m1 = 1" "nd_key m1 0 = - 1" "nd_key m1 1 = 0" by (rule demo_leaf [OF f(1)])
  from leaf_insert_drops [OF m(3) _ _ f(2), of demo_rid] m show ?thesis by auto
qed

end
