(* ===== verification/Transactions.thy ===== *)
theory Transactions
  imports Values "HOL-Library.AList" "HOL-Library.Multiset"
begin

text \<open>
  Transactions: \<^verbatim>\<open>concurrency/transaction.hpp\<close>, \<^verbatim>\<open>concurrency/transaction_manager.hpp\<close>,
  \<^verbatim>\<open>concurrency/watermark.hpp\<close>.

  Timestamps are integers; the 64 bits of \<^verbatim>\<open>timestamp_t\<close> are out of reach of a counter that starts
  at 0. The map of current reads is an association list. The loop that looks for the next
  watermark need not end: it is a partial function, and an operation in which it does not end is
  the error \<open>OutOfFuel\<close>. The page set of a transaction is a list of frames; every operation of
  the manager is atomic, as the lock it takes makes it.
\<close>

section \<open>The watermark\<close>

record Watermark =
  wm_commit_ts :: int
  wm_watermark :: int
  current_reads :: "(int \<times> int) list"

definition mk_Watermark :: "int \<Rightarrow> Watermark" where
  "mk_Watermark commit_ts = \<lparr>wm_commit_ts = commit_ts, wm_watermark = commit_ts, current_reads = []\<rparr>"

partial_function (option) probe :: "(int \<times> int) list \<Rightarrow> int \<Rightarrow> int option" where
  "probe reads i = (if map_of reads i \<noteq> None then Some i else probe reads (i + 1))"

definition advance :: "(Watermark, unit) action" where
  "advance w = (case probe (current_reads w) (wm_watermark w) of
     None \<Rightarrow> (Inl OutOfFuel, w) | Some i \<Rightarrow> (Inr (), w\<lparr>wm_watermark := i\<rparr>))"

definition count_of :: "int \<Rightarrow> (int \<times> int) list \<Rightarrow> int" where
  "count_of k m = (case map_of m k of None \<Rightarrow> 0 | Some n \<Rightarrow> n)"

definition AddTxn :: "int \<Rightarrow> (Watermark, unit) action" where
  "AddTxn read_ts =
     bind (gets wm_commit_ts) (\<lambda>commit_ts.
     if read_ts < commit_ts then throw (RuntimeException ''read ts < commit ts'')
     else bind (modify (\<lambda>w. w\<lparr>current_reads := AList.update read_ts (count_of read_ts (current_reads w) + 1) (current_reads w)\<rparr>)) (\<lambda>_.
     advance))"

definition RemoveTxn :: "int \<Rightarrow> (Watermark, unit) action" where
  "RemoveTxn read_ts =
     bind (modify (\<lambda>w. w\<lparr>current_reads := AList.update read_ts (count_of read_ts (current_reads w) - 1) (current_reads w)\<rparr>)) (\<lambda>_.
     bind (modify (\<lambda>w. if count_of read_ts (current_reads w) = 0 then w\<lparr>current_reads := AList.delete read_ts (current_reads w)\<rparr> else w)) (\<lambda>_.
     bind (gets current_reads) (\<lambda>reads.
     if reads = [] then modify (\<lambda>w. w\<lparr>wm_watermark := wm_commit_ts w\<rparr>) else advance)))"

definition UpdateCommitTs :: "int \<Rightarrow> Watermark \<Rightarrow> Watermark" where
  "UpdateCommitTs commit_ts w = w\<lparr>wm_commit_ts := commit_ts\<rparr>"

definition GetWatermark :: "Watermark \<Rightarrow> int" where
  "GetWatermark w = (if current_reads w = [] then wm_commit_ts w else wm_watermark w)"

section \<open>Transactions and their manager\<close>

datatype IsolationLevel = READ_UNCOMMITTED | REPEATABLE_READ | READ_COMMITTED

abbreviation TXN_START_ID :: int where "TXN_START_ID \<equiv> 2 ^ 62"

record Transaction =
  txn_id :: int
  isolation_level :: IsolationLevel
  read_ts :: int
  commit_ts :: int
  page_set :: "nat list"
  deleted_page_set :: "int set"

definition mk_Transaction :: "int \<Rightarrow> IsolationLevel \<Rightarrow> Transaction" where
  "mk_Transaction i l = \<lparr>txn_id = i, isolation_level = l, read_ts = 0, commit_ts = INVALID_TS, page_set = [], deleted_page_set = {}\<rparr>"

definition AddIntoPageSet :: "nat \<Rightarrow> Transaction \<Rightarrow> Transaction" where
  "AddIntoPageSet page t = t\<lparr>page_set := page_set t @ [page]\<rparr>"

record TransactionManager =
  next_txn_id :: int
  txn_map :: "(int \<times> Transaction) list"
  last_commit_ts :: int
  running_txns :: Watermark

definition mk_TransactionManager :: TransactionManager where
  "mk_TransactionManager = \<lparr>next_txn_id = TXN_START_ID, txn_map = [], last_commit_ts = 0, running_txns = mk_Watermark 0\<rparr>"

definition Begin :: "IsolationLevel \<Rightarrow> (TransactionManager, Transaction) action" where
  "Begin level =
     bind (gets next_txn_id) (\<lambda>i.
     bind (modify (\<lambda>m. m\<lparr>next_txn_id := i + 1\<rparr>)) (\<lambda>_.
     bind (gets (\<lambda>m. map_of (txn_map m) i \<noteq> None)) (\<lambda>present.
     if present then throw (RuntimeException ''Failed to insert new transaction.'')
     else bind (gets last_commit_ts) (\<lambda>ts.
       bind (modify (\<lambda>m. m\<lparr>txn_map := txn_map m @ [(i, (mk_Transaction i level)\<lparr>read_ts := ts\<rparr>)]\<rparr>)) (\<lambda>_.
       bind (zoom running_txns (\<lambda>w m. m\<lparr>running_txns := w\<rparr>) (AddTxn ts)) (\<lambda>_.
       ret ((mk_Transaction i level)\<lparr>read_ts := ts\<rparr>)))))))"

definition Commit :: "Transaction \<Rightarrow> (TransactionManager, bool) action" where
  "Commit txn = ret True"

definition Abort :: "Transaction \<Rightarrow> (TransactionManager, unit) action" where
  "Abort txn = ret ()"

definition tm_GetWatermark :: "TransactionManager \<Rightarrow> int" where
  "tm_GetWatermark m = GetWatermark (running_txns m)"

section \<open>What the watermark stands for\<close>

text \<open>
  The commit timestamp does not decrease, no transaction begins with a read timestamp below the
  watermark, and only a transaction that runs is removed. \<open>runs w A\<close>: \<open>w\<close> is reached with the
  multiset \<open>A\<close> of read timestamps of running transactions. \<^verbatim>\<open>TransactionManager::Begin\<close> begins a
  transaction with its last commit timestamp; its \<^verbatim>\<open>Commit\<close> and \<^verbatim>\<open>Abort\<close> are stubs, so that the other two steps
  are so far made by the tests of the watermark only.
\<close>

inductive runs :: "Watermark \<Rightarrow> int multiset \<Rightarrow> bool" where
  start: "runs (mk_Watermark ts) {#}"
| begin_txn: "runs w A \<Longrightarrow> GetWatermark w \<le> ts \<Longrightarrow> AddTxn ts w = (Inr (), w') \<Longrightarrow> runs w' (add_mset ts A)"
| commit: "runs w A \<Longrightarrow> wm_commit_ts w \<le> ts \<Longrightarrow> runs (UpdateCommitTs ts w) A"
| end_txn: "runs w A \<Longrightarrow> ts \<in># A \<Longrightarrow> RemoveTxn ts w = (Inr (), w') \<Longrightarrow> runs w' (A - {#ts#})"

definition wm_inv :: "Watermark \<Rightarrow> int multiset \<Rightarrow> bool" where
  "wm_inv w A \<longleftrightarrow> distinct (map fst (current_reads w)) \<and>
     map_of (current_reads w) = (\<lambda>k. if k \<in># A then Some (int (count A k)) else None) \<and>
     (\<forall>k \<in># A. wm_watermark w \<le> k) \<and> (if A = {#} then wm_watermark w \<le> wm_commit_ts w else wm_watermark w \<in># A)"

lemma probe_finds:
  assumes "map_of reads k \<noteq> None" and "i \<le> k" and "\<forall>j. i \<le> j \<and> j < k \<longrightarrow> map_of reads j = None"
  shows "probe reads i = Some k"
  using assms
proof (induction "nat (k - i)" arbitrary: i)
  case 0
  then show ?case by (subst probe.simps) simp
next
  case (Suc n)
  then have "probe reads (i + 1) = Some k" by (intro Suc.hyps(1)) auto
  moreover have "map_of reads i = None" using Suc.hyps(2) Suc.prems by auto
  ultimately show ?case by (subst probe.simps) simp
qed

lemma empty_reads: "map_of m = (\<lambda>k. if k \<in># A then Some (f k) else None) \<Longrightarrow> m = [] \<longleftrightarrow> A = {#}"
proof -
  assume e: "map_of m = (\<lambda>k. if k \<in># A then Some (f k) else None)"
  have "m = [] \<longleftrightarrow> fst ` set m = {}" by simp
  also have "fst ` set m = dom (map_of m)" by (simp add: dom_map_of_conv_image_fst)
  also have "\<dots> = set_mset A" unfolding e by (auto simp: dom_def)
  finally show ?thesis by simp
qed

lemma advance_to_min:
  assumes "map_of (current_reads w) = (\<lambda>k. if k \<in># A then Some (f k) else None)" and "A \<noteq> {#}"
    and "\<forall>k \<in># A. wm_watermark w \<le> k"
  shows "advance w = (Inr (), w\<lparr>wm_watermark := Min (set_mset A)\<rparr>)"
proof -
  have m: "Min (set_mset A) \<in># A" "\<forall>k \<in># A. Min (set_mset A) \<le> k" using assms(2) by auto
  have "probe (current_reads w) (wm_watermark w) = Some (Min (set_mset A))"
    by (rule probe_finds) (use m assms in \<open>force simp: not_le [symmetric]\<close>)+
  then show ?thesis by (simp add: advance_def)
qed

lemma inv_watermark:
  assumes "wm_inv w A"
  shows "GetWatermark w = (if A = {#} then wm_commit_ts w else wm_watermark w)" and "A \<noteq> {#} \<Longrightarrow> wm_watermark w = Min (set_mset A)"
proof -
  have "current_reads w = [] \<longleftrightarrow> A = {#}" using assms by (intro empty_reads) (auto simp: wm_inv_def)
  then show "GetWatermark w = (if A = {#} then wm_commit_ts w else wm_watermark w)" by (simp add: GetWatermark_def)
  show "wm_watermark w = Min (set_mset A)" if "A \<noteq> {#}" using assms that by (intro Min_eqI [symmetric]) (auto simp: wm_inv_def)
qed

text \<open>The state in which \<^verbatim>\<open>AddTxn\<close> starts to probe.\<close>

definition counted :: "int \<Rightarrow> Watermark \<Rightarrow> Watermark" where
  "counted ts w = w\<lparr>current_reads := AList.update ts (count_of ts (current_reads w) + 1) (current_reads w)\<rparr>"

lemma AddTxn_run: "wm_commit_ts w \<le> ts \<Longrightarrow> AddTxn ts w = advance (counted ts w)"
  by (simp add: AddTxn_def bind_def gets_def modify_def counted_def)

lemma counted_reads:
  assumes "wm_inv w A"
  shows "map_of (current_reads (counted ts w)) = (\<lambda>k. if k \<in># add_mset ts A then Some (int (count (add_mset ts A) k)) else None)"
proof -
  have "count_of ts (current_reads w) = int (count A ts)" using assms by (auto simp: wm_inv_def count_of_def not_in_iff)
  then show ?thesis using assms by (auto simp: counted_def wm_inv_def update_conv' fun_eq_iff)
qed

lemma AddTxn_ok:
  assumes inv: "wm_inv w A" and ts: "GetWatermark w \<le> ts" "wm_commit_ts w \<le> ts"
  obtains w' where "AddTxn ts w = (Inr (), w')" "wm_inv w' (add_mset ts A)"
proof -
  let ?A = "add_mset ts A" and ?w = "counted ts w"
  have "wm_watermark w \<le> ts" using inv ts inv_watermark(1) [OF inv] by (auto simp: wm_inv_def split: if_splits)
  then have le: "\<forall>k \<in># ?A. wm_watermark ?w \<le> k" using inv by (auto simp: wm_inv_def counted_def)
  have adv: "advance ?w = (Inr (), ?w\<lparr>wm_watermark := Min (set_mset ?A)\<rparr>)" by (rule advance_to_min [OF counted_reads [OF inv] _ le]) simp
  have "Min (set_mset ?A) \<in># ?A" by (rule Min_in) auto
  moreover have "\<forall>k \<in># ?A. Min (set_mset ?A) \<le> k" by auto
  moreover have "distinct (map fst (current_reads ?w))" using inv by (simp add: wm_inv_def counted_def distinct_update)
  ultimately have "wm_inv (?w\<lparr>wm_watermark := Min (set_mset ?A)\<rparr>) ?A" using counted_reads [OF inv] by (simp add: wm_inv_def)
  then show ?thesis using that AddTxn_run [OF ts(2)] adv by simp
qed

text \<open>A read timestamp below the watermark is counted and not seen.\<close>

lemma AddTxn_late:
  assumes inv: "wm_inv w A" and ts: "ts < GetWatermark w" "wm_commit_ts w \<le> ts"
  obtains w' where "AddTxn ts w = (Inr (), w')" "GetWatermark w' = GetWatermark w"
proof -
  let ?w = "counted ts w"
  have A: "A \<noteq> {#}" using ts inv_watermark(1) [OF inv] by auto
  then have "wm_watermark w \<in># A" using inv by (simp add: wm_inv_def)
  then have "probe (current_reads ?w) (wm_watermark ?w) = Some (wm_watermark w)"
    using counted_reads [OF inv, of ts] by (intro probe_finds) (simp_all add: counted_def)
  moreover have "current_reads ?w \<noteq> []" using empty_reads [OF counted_reads [OF inv, of ts]] by simp
  ultimately show ?thesis
    using that [of "?w\<lparr>wm_watermark := wm_watermark w\<rparr>"] A inv_watermark(1) [OF inv] AddTxn_run [OF ts(2)] by (simp add: advance_def GetWatermark_def)
qed

lemma RemoveTxn_ok:
  assumes inv: "wm_inv w A" and ts: "ts \<in># A"
  shows "\<exists>w'. RemoveTxn ts w = (Inr (), w') \<and> wm_inv w' (A - {#ts#})"
proof -
  let ?A = "A - {#ts#}"
  define w1 where "w1 = w\<lparr>current_reads := AList.update ts (count_of ts (current_reads w) - 1) (current_reads w)\<rparr>"
  define w2 where "w2 = (if count_of ts (current_reads w1) = 0 then w1\<lparr>current_reads := AList.delete ts (current_reads w1)\<rparr> else w1)"
  have cnt: "count_of ts (current_reads w) = int (count A ts)" using assms by (auto simp: wm_inv_def count_of_def)
  have c1: "count_of ts (current_reads w1) = int (count A ts) - 1" by (simp add: w1_def count_of_def update_conv' cnt [unfolded count_of_def])
  have pos: "count A ts \<noteq> 0" using ts by simp
  have in1: "ts \<in># ?A \<longleftrightarrow> count A ts \<noteq> 1" unfolding in_diff_count using pos by (cases "count A ts") auto
  have mo: "map_of (current_reads w2) = (\<lambda>k. if k \<in># ?A then Some (int (count ?A k)) else None)"
  proof
    fix k
    have "map_of (current_reads w) k = (if k \<in># A then Some (int (count A k)) else None)" using inv by (simp add: wm_inv_def)
    then show "map_of (current_reads w2) k = (if k \<in># ?A then Some (int (count ?A k)) else None)"
      using c1 in1 ts cnt by (cases "k = ts") (auto simp: w2_def w1_def update_conv' delete_conv' in_diff_count not_in_iff of_nat_diff)
  qed
  have same: "wm_watermark w2 = wm_watermark w" "wm_commit_ts w2 = wm_commit_ts w" by (simp_all add: w2_def w1_def)
  have dist: "distinct (map fst (current_reads w2))" using inv by (simp add: wm_inv_def w2_def w1_def distinct_update distinct_delete)
  have le: "\<forall>k \<in># ?A. wm_watermark w2 \<le> k" using inv same by (auto simp: wm_inv_def dest: in_diffD)
  have run: "RemoveTxn ts w = (if current_reads w2 = [] then (Inr (), w2\<lparr>wm_watermark := wm_commit_ts w2\<rparr>) else advance w2)"
    by (simp add: RemoveTxn_def bind_def gets_def modify_def w1_def [symmetric] w2_def [symmetric])
  show ?thesis
  proof (cases "?A = {#}")
    case True
    then show ?thesis using run empty_reads [OF mo] dist mo by (auto simp: wm_inv_def)
  next
    case False
    then have adv: "advance w2 = (Inr (), w2\<lparr>wm_watermark := Min (set_mset ?A)\<rparr>)" using le by (intro advance_to_min [OF mo]) auto
    have "Min (set_mset ?A) \<in># ?A" using False by (intro Min_in) auto
    then have "wm_inv (w2\<lparr>wm_watermark := Min (set_mset ?A)\<rparr>) ?A" using dist mo le by (auto simp: wm_inv_def)
    then show ?thesis using run adv empty_reads [OF mo] False by auto
  qed
qed

lemma runs_inv: "runs w A \<Longrightarrow> wm_inv w A"
proof (induction rule: runs.induct)
  case (start ts)
  then show ?case by (simp add: wm_inv_def mk_Watermark_def fun_eq_iff)
next
  case (begin_txn w A ts w')
  have "wm_commit_ts w \<le> ts" using begin_txn(3) by (auto simp: AddTxn_def bind_def gets_def throw_def split: if_splits)
  then show ?case using AddTxn_ok [OF begin_txn(4,2)] begin_txn(3) by auto
next
  case (commit w A ts)
  then show ?case by (auto simp: wm_inv_def UpdateCommitTs_def)
next
  case (end_txn w A ts w')
  then show ?case using RemoveTxn_ok [of w A ts] by auto
qed

section \<open>Properties\<close>

text \<open>
  C20: As long as the commit timestamp does not decrease and no transaction begins below the watermark, the watermark is the
  least read timestamp of the running transactions, and the last commit timestamp when none runs. The second condition is
  needed and not checked: \<^verbatim>\<open>AddTxn\<close> refuses a read timestamp below the commit timestamp; any other it takes, and the
  search for the next watermark ends; but if the timestamp is below the watermark, the watermark stays above it.
  \<^verbatim>\<open>RemoveTxn\<close> of a running transaction returns too.
\<close>

theorem watermark_is_min:
  assumes "runs w A"
  shows "GetWatermark w = (if A = {#} then wm_commit_ts w else Min (set_mset A)) \<and>
     (\<forall>ts. if ts < wm_commit_ts w then AddTxn ts w = (Inl (RuntimeException ''read ts < commit ts''), w)
        else \<exists>w'. AddTxn ts w = (Inr (), w') \<and>
          GetWatermark w' = (if ts < GetWatermark w then GetWatermark w else Min (set_mset (add_mset ts A)))) \<and>
     (\<forall>ts \<in># A. \<exists>w'. RemoveTxn ts w = (Inr (), w'))"
proof (intro conjI allI ballI)
  have inv: "wm_inv w A" using assms by (rule runs_inv)
  show "GetWatermark w = (if A = {#} then wm_commit_ts w else Min (set_mset A))" using inv_watermark [OF inv] by simp
  show "\<exists>w'. RemoveTxn ts w = (Inr (), w')" if "ts \<in># A" for ts using RemoveTxn_ok [OF inv that] by blast
  fix ts
  consider (low) "ts < wm_commit_ts w" | (late) "wm_commit_ts w \<le> ts" "ts < GetWatermark w" | (good) "wm_commit_ts w \<le> ts" "GetWatermark w \<le> ts" by linarith
  then show "if ts < wm_commit_ts w then AddTxn ts w = (Inl (RuntimeException ''read ts < commit ts''), w)
        else \<exists>w'. AddTxn ts w = (Inr (), w') \<and>
          GetWatermark w' = (if ts < GetWatermark w then GetWatermark w else Min (set_mset (add_mset ts A)))"
  proof cases
    case low
    then show ?thesis by (simp add: AddTxn_def bind_def gets_def throw_def)
  next
    case late
    obtain w' where "AddTxn ts w = (Inr (), w')" "GetWatermark w' = GetWatermark w" by (rule AddTxn_late [OF inv late(2,1)])
    then show ?thesis using late by simp
  next
    case good
    obtain w' where "AddTxn ts w = (Inr (), w')" "wm_inv w' (add_mset ts A)" by (rule AddTxn_ok [OF inv good(2,1)])
    then show ?thesis using good inv_watermark [of w' "add_mset ts A"] by simp
  qed
qed

theorem watermark_is_min_witness:
  "\<exists>w w'. runs w {#5#} \<and> GetWatermark w = 5 \<and> AddTxn 3 w = (Inr (), w') \<and> GetWatermark w' = 5 \<and> (\<exists>w2. runs w2 {#5, 7#} \<and> GetWatermark w2 = 5)"
proof -
  have w0: "GetWatermark (mk_Watermark 0) \<le> 5" "wm_commit_ts (mk_Watermark 0) \<le> 5" by (simp_all add: GetWatermark_def mk_Watermark_def)
  obtain w where w: "AddTxn 5 (mk_Watermark 0) = (Inr (), w)" by (rule AddTxn_ok [OF runs_inv [OF runs.start] w0])
  note r = runs.begin_txn [OF runs.start w0(1) w]
  have c: "wm_commit_ts w = 0"
    using w by (auto simp: AddTxn_def mk_Watermark_def bind_def gets_def modify_def advance_def split: option.splits)
  from watermark_is_min [OF r] have g: "GetWatermark w = 5" by simp
  from watermark_is_min [OF r, THEN conjunct2, THEN conjunct1, THEN spec, of 3] obtain w' where w': "AddTxn 3 w = (Inr (), w')" "GetWatermark w' = 5"
    using g c by auto
  from watermark_is_min [OF r, THEN conjunct2, THEN conjunct1, THEN spec, of 7] obtain w2 where w2: "AddTxn 7 w = (Inr (), w2)"
    using c by auto
  have "runs w2 {#5, 7#}" using runs.begin_txn [OF r _ w2] g by (simp add: add_mset_commute)
  moreover from watermark_is_min [OF this] have "GetWatermark w2 = 5" by simp
  ultimately show ?thesis using r g w' by blast
qed

end
