(* ===== verification/Disks.thy ===== *)
theory Disks
  imports Values
begin

text \<open>
  The disk manager: \<^verbatim>\<open>storage/disk_manager.hpp\<close>, \<^verbatim>\<open>storage/disk_manager.cpp\<close>,
  \<^verbatim>\<open>storage/file_path_manager.hpp\<close> and \<^verbatim>\<open>GetFileSize\<close> of \<^verbatim>\<open>common/fs_utils.hpp\<close>.

  The file system is a map from paths to contents. \<open>cm_names\<close> is the catalog as far as the disk
  manager uses it: \<^verbatim>\<open>Catalog::GetTableName\<close>. \<open>creatable\<close> tells for which paths a file
  can be created, and \<open>io_bad\<close> whether the device fails, which is what \<^verbatim>\<open>bad()\<close> reports
  after a transfer. A write is visible to \<^verbatim>\<open>stat\<close> at once. \<open>disk_page\<close> is the abstraction
  the buffer pool relies on: the contents of a page, zeros past the end of its file.
\<close>

section \<open>Paths\<close>

definition path_append :: "string \<Rightarrow> string \<Rightarrow> string" where
  "path_append a b =
     (if b \<noteq> [] \<and> hd b = CHR ''/'' then b
      else if a = [] \<or> last a = CHR ''/'' then a @ b
      else a @ CHR ''/'' # b)"

definition DEFAULT_DB_NAME :: string where
  "DEFAULT_DB_NAME = ''gavindb''"

definition GetTableMetaPath :: "string \<Rightarrow> string" where
  "GetTableMetaPath table_name =
     path_append (path_append (path_append DEFAULT_DB_NAME ''tables'') table_name) ''meta''"

definition GetTableDataPath :: "string \<Rightarrow> string" where
  "GetTableDataPath table_name =
     path_append (path_append (path_append DEFAULT_DB_NAME ''tables'') table_name) ''data''"

definition GetSystemCatalogPath :: string where
  "GetSystemCatalogPath = path_append DEFAULT_DB_NAME ''system_catalog''"

section \<open>State\<close>

record Disk =
  files :: "string \<Rightarrow> bytes option"
  table_data_files :: "int \<Rightarrow> string option"
  cm_names :: "int \<Rightarrow> string option"
  creatable :: "string \<Rightarrow> bool"
  io_bad :: bool

definition GetFileSize :: "Disk \<Rightarrow> string \<Rightarrow> nat" where
  "GetFileSize d path = (case files d path of Some c \<Rightarrow> length c | None \<Rightarrow> 2 ^ 64 - 1)"

definition cm_GetTableName :: "int \<Rightarrow> (Disk, string) action" where
  "cm_GetTableName tid = bind (gets cm_names) (\<lambda>names.
     case names tid of
       None \<Rightarrow> throw (Exception ''Table not found when getting table name'')
     | Some name \<Rightarrow> ret name)"

section \<open>Operations\<close>

definition data_path_of :: "int \<Rightarrow> (Disk, string) action" where
  "data_path_of tid =
     (if tid = SYSTEM_CATALOG_ID then ret GetSystemCatalogPath
      else bind (cm_GetTableName tid) (\<lambda>name. ret (GetTableDataPath name)))"

definition AddTableDataIfNotExist :: "int \<Rightarrow> (Disk, unit) action" where
  "AddTableDataIfNotExist tid = bind (gets table_data_files) (\<lambda>tdf.
     if tdf tid \<noteq> None then ret ()
     else bind (data_path_of tid) (\<lambda>path.
          bind (gets (\<lambda>d. files d path)) (\<lambda>f.
          bind (case f of
                  Some c \<Rightarrow> ret ()
                | None \<Rightarrow> bind (gets (\<lambda>d. creatable d path)) (\<lambda>ok.
                    if ok then modify (\<lambda>d. d\<lparr>files := (files d)(path \<mapsto> [])\<rparr>)
                    else throw (IOException ''failed to open table data file''))) (\<lambda>_.
          modify (\<lambda>d. d\<lparr>table_data_files := (table_data_files d)(tid \<mapsto> path)\<rparr>)))))"

text \<open>
  A transfer on an open stream. Writing past the end of a file leaves a gap of zeros, reading
  stops at the end; the file behind a stream that was opened stays, also when it is unlinked,
  which the code never does.
\<close>

definition file_write :: "nat \<Rightarrow> bytes \<Rightarrow> bytes \<Rightarrow> bytes" where
  "file_write off bs c = take off (c @ replicate (off - length c) 0) @ bs @ drop (off + length bs) c"

definition fs_write :: "string \<Rightarrow> nat \<Rightarrow> bytes \<Rightarrow> (Disk, unit) action" where
  "fs_write path off bs = modify (\<lambda>d. if io_bad d then d
     else d\<lparr>files := (files d)(path \<mapsto> file_write off bs (case files d path of Some c \<Rightarrow> c | None \<Rightarrow> []))\<rparr>)"

definition fs_read :: "string \<Rightarrow> nat \<Rightarrow> nat \<Rightarrow> Disk \<Rightarrow> bytes" where
  "fs_read path off n d = (case files d path of Some c \<Rightarrow> slice off n c | None \<Rightarrow> [])"

definition open_path :: "int \<Rightarrow> (Disk, string) action" where
  "open_path tid = bind (gets table_data_files) (\<lambda>tdf.
     case tdf tid of None \<Rightarrow> throw OutOfRange | Some path \<Rightarrow> ret path)"

definition write_offset :: "PageId \<Rightarrow> nat" where
  "write_offset page_id = nat ((page_number page_id * int PAGE_SIZE) mod 2 ^ 32)"

definition read_offset :: "PageId \<Rightarrow> nat" where
  "read_offset page_id = nat ((page_number page_id * int PAGE_SIZE) mod 2 ^ 64)"

definition WritePage :: "PageId \<Rightarrow> bytes \<Rightarrow> (Disk, unit) action" where
  "WritePage page_id page_data =
     bind (AddTableDataIfNotExist (table_id page_id)) (\<lambda>_.
     bind (open_path (table_id page_id)) (\<lambda>path.
     bind (fs_write path (write_offset page_id) page_data) (\<lambda>_.
     bind (gets io_bad) (\<lambda>bad.
     if bad then throw (IOException ''failed to write to table data file'') else ret ()))))"

definition ReadPage :: "PageId \<Rightarrow> (Disk, bytes) action" where
  "ReadPage page_id =
     bind (AddTableDataIfNotExist (table_id page_id)) (\<lambda>_.
     bind (cm_GetTableName (table_id page_id)) (\<lambda>name.
     bind (gets (\<lambda>d. GetFileSize d (GetTableDataPath name))) (\<lambda>sz.
     if read_offset page_id > sz then throw (IOException ''read page out of file size'')
     else bind (open_path (table_id page_id)) (\<lambda>path.
     bind (gets io_bad) (\<lambda>bad.
     if bad then throw (IOException ''failed to read from table data file'')
     else bind (gets (fs_read path (read_offset page_id) PAGE_SIZE)) (\<lambda>bs.
     if length bs < PAGE_SIZE
     then let page_data = bs @ replicate (PAGE_SIZE - length bs) 0
          in bind (fs_write path (read_offset page_id) page_data) (\<lambda>_. ret page_data)
     else ret bs))))))"

text \<open>The only caller of \<^verbatim>\<open>ShutDown\<close> is the destructor: the streams go with the object.\<close>

definition ShutDown :: "(Disk, unit) action" where
  "ShutDown = modify (\<lambda>d. d\<lparr>table_data_files := (\<lambda>_. None)\<rparr>)"

section \<open>Abstraction\<close>

definition byte_at :: "bytes \<Rightarrow> nat \<Rightarrow> byte" where
  "byte_at c i = (if i < length c then c ! i else 0)"

definition path_of :: "Disk \<Rightarrow> int \<Rightarrow> string option" where
  "path_of d tid = (if tid = SYSTEM_CATALOG_ID then Some GetSystemCatalogPath
     else map_option GetTableDataPath (cm_names d tid))"

definition content :: "Disk \<Rightarrow> int \<Rightarrow> bytes" where
  "content d tid = (case path_of d tid of None \<Rightarrow> [] | Some p \<Rightarrow> (case files d p of None \<Rightarrow> [] | Some c \<Rightarrow> c))"

definition disk_page :: "Disk \<Rightarrow> PageId \<Rightarrow> bytes" where
  "disk_page d pid = map (\<lambda>i. byte_at (content d (table_id pid)) (PAGE_SIZE * nat (page_number pid) + i)) [0..<PAGE_SIZE]"

text \<open>Page ids whose offset is the same in the 32 bits of a write and the 64 bits of a read.\<close>

definition valid_pid :: "PageId \<Rightarrow> bool" where
  "valid_pid pid \<longleftrightarrow> 0 \<le> page_number pid \<and> page_number pid < 2 ^ 20"

text \<open>Table names that name one directory below \<^verbatim>\<open>tables\<close>.\<close>

definition plain_name :: "string \<Rightarrow> bool" where
  "plain_name n \<longleftrightarrow> n \<noteq> [] \<and> CHR ''/'' \<notin> set n"

definition disk_inv :: "Disk \<Rightarrow> bool" where
  "disk_inv d \<longleftrightarrow>
     (\<forall>tid n. cm_names d tid = Some n \<longrightarrow> plain_name n \<and> tid \<noteq> SYSTEM_CATALOG_ID) \<and>
     (\<forall>a b n. cm_names d a = Some n \<longrightarrow> cm_names d b = Some n \<longrightarrow> a = b) \<and>
     (\<forall>tid p. table_data_files d tid = Some p \<longrightarrow> path_of d tid = Some p \<and> files d p \<noteq> None)"

lemma table_path: "plain_name n \<Longrightarrow> GetTableDataPath n = ''gavindb/tables/'' @ n @ ''/data''"
proof -
  assume n: "plain_name n"
  then have ne: "n \<noteq> []" by (simp add: plain_name_def)
  then have "last n \<in> set n" "hd n \<in> set n" by simp_all
  with n have "last n \<noteq> CHR ''/''" "hd n \<noteq> CHR ''/''" unfolding plain_name_def by metis+
  with ne show ?thesis by (simp add: GetTableDataPath_def path_append_def DEFAULT_DB_NAME_def)
qed

lemma table_path_inj:
  assumes "plain_name a" and "plain_name b" and "GetTableDataPath a = GetTableDataPath b"
  shows "a = b"
  using assms by (simp add: table_path)

lemma table_path_catalog: "plain_name n \<Longrightarrow> GetTableDataPath n \<noteq> GetSystemCatalogPath"
  by (simp add: table_path GetSystemCatalogPath_def path_append_def DEFAULT_DB_NAME_def)

lemma path_of_inj:
  assumes "disk_inv d" and "path_of d a = Some p" and "path_of d b = Some p"
  shows "a = b"
proof -
  have plain: "plain_name n" if "cm_names d t = Some n" for t n
    using assms(1) that by (auto simp: disk_inv_def)
  have uniq: "x = y" if "cm_names d x = Some n" "cm_names d y = Some n" for x y n
    using assms(1) that by (auto simp: disk_inv_def)
  from assms(2,3) show ?thesis
    using plain uniq by (auto simp: path_of_def split: if_splits
        dest: table_path_inj [rotated 2] table_path_catalog table_path_catalog [symmetric])
qed

lemma byte_at_file_write:
  "byte_at (file_write off bs c) i =
     (if off \<le> i \<and> i < off + length bs then bs ! (i - off) else byte_at c i)"
proof -
  have "min (length c) off + (off - length c) = off" by (simp add: min_def)
  then show ?thesis by (auto simp: byte_at_def file_write_def nth_append)
qed

lemma length_file_write: "length (file_write off bs c) = max (length c) (off + length bs)"
  by (auto simp: file_write_def)

lemma offsets:
  assumes "valid_pid pid"
  shows "write_offset pid = PAGE_SIZE * nat (page_number pid)"
    and "read_offset pid = PAGE_SIZE * nat (page_number pid)"
  using assms by (simp_all add: valid_pid_def write_offset_def read_offset_def nat_mult_distrib)

lemma length_disk_page [simp]: "length (disk_page d pid) = PAGE_SIZE"
  by (simp add: disk_page_def)

lemma disk_page_slice:
  assumes "content d (table_id pid) = c"
  shows "disk_page d pid = slice (PAGE_SIZE * nat (page_number pid)) PAGE_SIZE c @
     replicate (PAGE_SIZE - length (slice (PAGE_SIZE * nat (page_number pid)) PAGE_SIZE c)) 0"
  by (rule nth_equalityI) (auto simp: disk_page_def assms byte_at_def nth_append)

lemma path_of_cong: "cm_names d' = cm_names d \<Longrightarrow> path_of d' = path_of d"
  by (simp add: path_of_def fun_eq_iff)

text \<open>Opening a file changes no page.\<close>

definition same_view :: "Disk \<Rightarrow> Disk \<Rightarrow> bool" where
  "same_view d d' \<longleftrightarrow> disk_inv d' \<and> cm_names d' = cm_names d \<and> io_bad d' = io_bad d \<and>
     creatable d' = creatable d \<and> (\<forall>tid. content d' tid = content d tid)"

lemma same_view_page: "same_view d d' \<Longrightarrow> disk_page d' q = disk_page d q"
  by (simp add: same_view_def disk_page_def)

lemma same_view_refl [simp]: "same_view d d \<longleftrightarrow> disk_inv d"
  by (simp add: same_view_def)

lemma same_view_path: "same_view d d' \<Longrightarrow> path_of d' = path_of d"
  by (rule path_of_cong) (simp add: same_view_def)

lemma same_view_inv: "same_view d d' \<Longrightarrow> disk_inv d'"
  by (simp add: same_view_def)

lemma data_path_of_run:
  "data_path_of tid d = (case path_of d tid of
     None \<Rightarrow> (Inl (Exception ''Table not found when getting table name''), d) | Some p \<Rightarrow> (Inr p, d))"
  by (simp add: data_path_of_def cm_GetTableName_def path_of_def act_simps split: option.splits)

lemma AddTable_spec:
  assumes "disk_inv d" and "AddTableDataIfNotExist tid d = (r, d')"
  shows "same_view d d'" and "\<forall>u. r = Inr u \<longrightarrow> (\<exists>p. table_data_files d' tid = Some p \<and> path_of d tid = Some p)"
proof -
  have "same_view d d' \<and> (\<forall>u. r = Inr u \<longrightarrow> (\<exists>p. table_data_files d' tid = Some p \<and> path_of d tid = Some p))"
  proof (cases "table_data_files d tid")
    case (Some p)
    then show ?thesis
      using assms by (auto simp: AddTableDataIfNotExist_def act_simps disk_inv_def)
  next
    case None
    show ?thesis
    proof (cases "path_of d tid")
      case np: None
      then show ?thesis
        using assms None by (auto simp: AddTableDataIfNotExist_def act_simps data_path_of_run)
    next
      case (Some p)
      have view: "same_view d (d\<lparr>files := fs, table_data_files := (table_data_files d)(tid \<mapsto> p)\<rparr>)"
        if "fs = files d \<and> files d p \<noteq> None \<or> fs = (files d)(p \<mapsto> []) \<and> files d p = None" for fs
      proof -
        let ?d = "d\<lparr>files := fs, table_data_files := (table_data_files d)(tid \<mapsto> p)\<rparr>"
        have path: "path_of ?d = path_of d" by (rule path_of_cong) simp
        have "disk_inv ?d" using that assms(1) Some unfolding disk_inv_def path by auto
        moreover have "content ?d t = content d t" for t
          using that unfolding content_def path by (auto split: option.splits if_splits)
        ultimately show ?thesis by (simp add: same_view_def)
      qed
      show ?thesis
        using assms None Some view [of "files d"] view [of "(files d)(p \<mapsto> [])"]
        by (auto simp: AddTableDataIfNotExist_def act_simps data_path_of_run bind_def
            split: option.splits if_splits)
    qed
  qed
  then show "same_view d d'"
    and "\<forall>u. r = Inr u \<longrightarrow> (\<exists>p. table_data_files d' tid = Some p \<and> path_of d tid = Some p)" by auto
qed

text \<open>Writing a range of one table's file.\<close>

lemma write_view:
  fixes off :: nat and bs :: bytes
  assumes "disk_inv d" and "path_of d tid = Some p"
  defines "d' \<equiv> d\<lparr>files := (files d)(p \<mapsto> file_write off bs (case files d p of Some c \<Rightarrow> c | None \<Rightarrow> []))\<rparr>"
  shows "disk_inv d'" and "content d' t = (if t = tid then file_write off bs (content d tid) else content d t)"
    and "path_of d' = path_of d"
proof -
  show p: "path_of d' = path_of d" by (rule path_of_cong) (simp add: d'_def)
  show "disk_inv d'" using assms(1) unfolding disk_inv_def p by (simp add: d'_def)
  show "content d' t = (if t = tid then file_write off bs (content d tid) else content d t)"
    using assms(2) path_of_inj [OF assms(1)] unfolding content_def p
    by (auto simp: d'_def split: option.splits)
qed

lemma write_page_view:
  assumes "\<And>t. content d' t = (if t = table_id pid then file_write (PAGE_SIZE * nat (page_number pid)) bs (content d (table_id pid)) else content d t)"
    and "length bs = PAGE_SIZE" and "valid_pid pid" and "valid_pid q"
  shows "disk_page d' q = (if q = pid then bs else disk_page d q)"
proof (cases "table_id q = table_id pid")
  case False
  then show ?thesis using assms(1) by (auto simp: disk_page_def)
next
  case tid: True
  define n k where "n = nat (page_number pid)" and "k = nat (page_number q)"
  have eq: "q = pid \<longleftrightarrow> k = n"
    using assms(3,4) tid by (auto simp: valid_pid_def n_def k_def intro: PageId.equality)
  have bytes: "disk_page d' q ! i = (if PAGE_SIZE * n \<le> PAGE_SIZE * k + i \<and> PAGE_SIZE * k + i < PAGE_SIZE * n + PAGE_SIZE
      then bs ! (PAGE_SIZE * k + i - PAGE_SIZE * n) else disk_page d q ! i)" if "i < PAGE_SIZE" for i
    using that tid unfolding disk_page_def assms(1) k_def [symmetric] n_def [symmetric]
    by (simp add: byte_at_file_write assms(2))
  show ?thesis
  proof (cases "k = n")
    case True
    have "disk_page d' q = bs" by (rule nth_equalityI) (simp_all add: bytes True assms(2))
    then show ?thesis using eq True by simp
  next
    case False
    have "\<not> (PAGE_SIZE * n \<le> PAGE_SIZE * k + i \<and> PAGE_SIZE * k + i < PAGE_SIZE * n + PAGE_SIZE)"
      if "i < PAGE_SIZE" for i
      using False that by (cases "k < n") auto
    then have "disk_page d' q = disk_page d q" by (intro nth_equalityI) (auto simp: bytes)
    then show ?thesis using eq False by simp
  qed
qed

text \<open>
  What a disk operation did to the pages: the environment is the same, the invariant holds, and
  every page in range has the contents \<open>g\<close> gives it.
\<close>

definition disk_post :: "Disk \<Rightarrow> (PageId \<Rightarrow> bytes) \<Rightarrow> Disk \<Rightarrow> bool" where
  "disk_post d g d' \<longleftrightarrow> disk_inv d' \<and> cm_names d' = cm_names d \<and> io_bad d' = io_bad d \<and>
     creatable d' = creatable d \<and> (\<forall>q. valid_pid q \<longrightarrow> disk_page d' q = g q)"

lemma same_view_post: "same_view d d' \<Longrightarrow> disk_post d (disk_page d) d'"
  by (simp add: disk_post_def same_view_page) (simp add: same_view_def)

lemma WritePage_spec:
  assumes "disk_inv d" and "valid_pid pid" and "length bs = PAGE_SIZE"
    and "WritePage pid bs d = (r, d')"
  shows "disk_post d (case r of Inr _ \<Rightarrow> (disk_page d)(pid := bs) | Inl _ \<Rightarrow> disk_page d) d'"
proof (cases "AddTableDataIfNotExist (table_id pid) d")
  case (Pair r1 d1)
  note add = AddTable_spec [OF assms(1) Pair]
  show ?thesis
  proof (cases r1)
    case (Inl e)
    then show ?thesis
      using assms(4) Pair add(1) by (auto simp: WritePage_def act_simps same_view_post)
  next
    case (Inr u)
    with add(2) obtain p where p: "table_data_files d1 (table_id pid) = Some p" "path_of d (table_id pid) = Some p"
      by auto
    have p1: "path_of d1 (table_id pid) = Some p" using p(2) same_view_path [OF add(1)] by simp
    show ?thesis
    proof (cases "io_bad d1")
      case True
      then show ?thesis
        using assms(4) Pair Inr p add(1)
        by (auto simp: WritePage_def act_simps open_path_def fs_write_def same_view_post)
    next
      case False
      let ?d2 = "d1\<lparr>files := (files d1)(p \<mapsto> file_write (write_offset pid) bs (case files d1 p of Some c \<Rightarrow> c | None \<Rightarrow> []))\<rparr>"
      have "r = Inr ()" "d' = ?d2"
        using assms(4) Pair Inr p False by (auto simp: WritePage_def act_simps open_path_def fs_write_def)
      moreover have "disk_page ?d2 q = (if q = pid then bs else disk_page d1 q)" if "valid_pid q" for q
        using write_view(2) [OF same_view_inv [OF add(1)] p1] offsets(1) [OF assms(2)]
        by (intro write_page_view [OF _ assms(3,2) that]) simp
      ultimately show ?thesis
        using write_view(1) [OF same_view_inv [OF add(1)] p1] add(1)
        by (auto simp: disk_post_def same_view_page) (auto simp: same_view_def)
    qed
  qed
qed

lemma padding_view:
  assumes "length (slice off n c) < n"
  shows "byte_at (file_write off (slice off n c @ replicate (n - length (slice off n c)) 0) c) i = byte_at c i"
  using assms unfolding byte_at_file_write by (auto simp: byte_at_def nth_append)

lemma disk_page_bytes:
  assumes "\<And>i. byte_at (content d' (table_id q)) i = byte_at (content d (table_id q)) i"
  shows "disk_page d' q = disk_page d q"
  by (simp add: disk_page_def assms)

lemma ReadPage_run:
  assumes "disk_inv d" and "valid_pid pid" and "AddTableDataIfNotExist (table_id pid) d = (Inr u, d1)"
    and "table_id pid \<noteq> SYSTEM_CATALOG_ID"
  defines "off \<equiv> PAGE_SIZE * nat (page_number pid)" and "c \<equiv> content d (table_id pid)"
  shows "\<exists>p. path_of d (table_id pid) = Some p \<and> files d1 p = Some c \<and>
     ReadPage pid d =
       (if length c < off then (Inl (IOException ''read page out of file size''), d1)
        else if io_bad d then (Inl (IOException ''failed to read from table data file''), d1)
        else (Inr (disk_page d pid),
              if length (slice off PAGE_SIZE c) < PAGE_SIZE
              then d1\<lparr>files := (files d1)(p \<mapsto> file_write off (disk_page d pid) c)\<rparr> else d1))"
proof -
  note add = AddTable_spec [OF assms(1,3)]
  from add(2) obtain p where p: "table_data_files d1 (table_id pid) = Some p" "path_of d (table_id pid) = Some p"
    by auto
  have p1: "path_of d1 (table_id pid) = Some p" using p(2) same_view_path [OF add(1)] by simp
  have "files d1 p \<noteq> None" using same_view_inv [OF add(1)] p(1) by (auto simp: disk_inv_def)
  then have c: "files d1 p = Some c"
  proof -
    assume "files d1 p \<noteq> None"
    moreover have "content d1 (table_id pid) = c" using add(1) by (simp add: same_view_def c_def)
    ultimately show ?thesis using p1 by (auto simp: content_def)
  qed
  obtain name where name: "cm_names d1 (table_id pid) = Some name" "p = GetTableDataPath name"
    using p1 assms(4) by (auto simp: path_of_def)
  have io: "io_bad d1 = io_bad d" using add(1) by (simp add: same_view_def)
  have page: "disk_page d pid = slice off PAGE_SIZE c @ replicate (PAGE_SIZE - length (slice off PAGE_SIZE c)) 0"
    unfolding off_def by (rule disk_page_slice) (simp add: c_def)
  have full: "length (slice off PAGE_SIZE c) = PAGE_SIZE" if "\<not> length (slice off PAGE_SIZE c) < PAGE_SIZE"
    using that by simp
  have roff: "read_offset pid = off" using offsets(2) [OF assms(2)] by (simp add: off_def)
  have short: "fs_read p off PAGE_SIZE d1 = slice off PAGE_SIZE c" by (simp add: fs_read_def c)
  have "ReadPage pid d = (if length c < off then (Inl (IOException ''read page out of file size''), d1)
        else if io_bad d then (Inl (IOException ''failed to read from table data file''), d1)
        else (Inr (disk_page d pid),
              if length (slice off PAGE_SIZE c) < PAGE_SIZE
              then d1\<lparr>files := (files d1)(p \<mapsto> file_write off (disk_page d pid) c)\<rparr> else d1))"
    unfolding ReadPage_def roff
    using assms(3) name c p(1) io short full page
    by (simp add: act_simps cm_GetTableName_def GetFileSize_def open_path_def fs_write_def Let_def
        del: length_slice)
  with p(2) c show ?thesis by blast
qed

lemma pad_write_post:
  assumes "same_view d d1" and "path_of d (table_id pid) = Some p" and "files d1 p = Some (content d (table_id pid))"
    and "length (slice (PAGE_SIZE * nat (page_number pid)) PAGE_SIZE (content d (table_id pid))) < PAGE_SIZE"
  shows "disk_post d (disk_page d) (d1\<lparr>files := (files d1)(p \<mapsto>
     file_write (PAGE_SIZE * nat (page_number pid)) (disk_page d pid) (content d (table_id pid)))\<rparr>)"
proof -
  let ?off = "PAGE_SIZE * nat (page_number pid)" and ?c = "content d (table_id pid)"
  let ?d2 = "d1\<lparr>files := (files d1)(p \<mapsto> file_write ?off (disk_page d pid) ?c)\<rparr>"
  have p1: "path_of d1 (table_id pid) = Some p" using assms(2) same_view_path [OF assms(1)] by simp
  have c1: "content d1 t = content d t" for t using assms(1) by (simp add: same_view_def)
  note wv = write_view [OF same_view_inv [OF assms(1)] p1, where off = ?off and bs = "disk_page d pid",
      unfolded assms(3) option.case c1]
  have pad: "byte_at (file_write ?off (disk_page d pid) ?c) i = byte_at ?c i" for i
    using padding_view [OF assms(4)] unfolding disk_page_slice [OF refl, of d pid, symmetric] .
  have "disk_page ?d2 q = disk_page d q" for q
  proof (rule disk_page_bytes)
    show "byte_at (content ?d2 (table_id q)) i = byte_at (content d (table_id q)) i" for i
      unfolding wv(2) by (cases "table_id q = table_id pid") (simp_all only: pad if_True if_False simp_thms)
  qed
  then show ?thesis using wv(1) assms(1) unfolding disk_post_def same_view_def by simp
qed

lemma ReadPage_early:
  assumes "AddTableDataIfNotExist (table_id pid) d = (r1, d1)"
    and "(\<exists>e. r1 = Inl e) \<or> cm_names d1 (table_id pid) = None"
  shows "\<exists>e. ReadPage pid d = (Inl e, d1)"
proof (cases r1)
  case (Inl e)
  then show ?thesis using assms(1) by (simp add: ReadPage_def bind_Inl)
next
  case (Inr u)
  then have "cm_GetTableName (table_id pid) d1 = (Inl (Exception ''Table not found when getting table name''), d1)"
    using assms(2) by (simp add: cm_GetTableName_def act_simps)
  then show ?thesis using assms(1) Inr by (simp add: ReadPage_def bind_Inr bind_Inl)
qed

lemma ReadPage_spec:
  assumes "disk_inv d" and "valid_pid pid" and "ReadPage pid d = (r, d')"
  shows "disk_post d (disk_page d) d'" and "\<forall>bs. r = Inr bs \<longrightarrow> bs = disk_page d pid"
proof -
  obtain r1 d1 where Pair: "AddTableDataIfNotExist (table_id pid) d = (r1, d1)" by fastforce
  note add = AddTable_spec [OF assms(1) Pair]
  have "disk_post d (disk_page d) d' \<and> (\<forall>bs. r = Inr bs \<longrightarrow> bs = disk_page d pid)"
  proof (cases "(\<exists>e. r1 = Inl e) \<or> cm_names d1 (table_id pid) = None")
    case True
    with ReadPage_early [OF Pair] assms(3) have "d' = d1" "\<exists>e. r = Inl e" by auto
    then show ?thesis using same_view_post [OF add(1)] by auto
  next
    case False
    then obtain u where r1: "r1 = Inr u" by (cases r1) auto
    have tid: "table_id pid \<noteq> SYSTEM_CATALOG_ID"
      using False same_view_inv [OF add(1)] by (auto simp: disk_inv_def)
    define c where "c = content d (table_id pid)"
    define off where "off = PAGE_SIZE * nat (page_number pid)"
    define short where "short \<longleftrightarrow> length (slice off PAGE_SIZE c) < PAGE_SIZE"
    from ReadPage_run [OF assms(1,2) Pair [unfolded r1] tid, folded c_def off_def, folded short_def] obtain p
      where p: "path_of d (table_id pid) = Some p" and c: "files d1 p = Some c"
        and run: "ReadPage pid d = (if length c < off then (Inl (IOException ''read page out of file size''), d1)
          else if io_bad d then (Inl (IOException ''failed to read from table data file''), d1)
          else (Inr (disk_page d pid),
            if short then d1\<lparr>files := (files d1)(p \<mapsto> file_write off (disk_page d pid) c)\<rparr> else d1))"
      by blast
    have "disk_post d (disk_page d) (d1\<lparr>files := (files d1)(p \<mapsto> file_write off (disk_page d pid) c)\<rparr>)" if short
      using pad_write_post [OF add(1) p] c that unfolding short_def c_def off_def by blast
    then show ?thesis
      using run assms(3) same_view_post [OF add(1)] by (simp split: if_split_asm)
  qed
  then show "disk_post d (disk_page d) d'" and "\<forall>bs. r = Inr bs \<longrightarrow> bs = disk_page d pid" by blast+
qed

text \<open>When nothing stands in the way, both succeed.\<close>

definition reachable_table :: "Disk \<Rightarrow> int \<Rightarrow> bool" where
  "reachable_table d tid \<longleftrightarrow> \<not> io_bad d \<and> (\<exists>n. cm_names d tid = Some n \<and>
     (files d (GetTableDataPath n) \<noteq> None \<or> creatable d (GetTableDataPath n)))"

lemma AddTable_ok:
  assumes "disk_inv d" and "reachable_table d tid"
  obtains d1 where "AddTableDataIfNotExist tid d = (Inr (), d1)"
proof (cases "table_data_files d tid")
  case (Some p)
  then show ?thesis using that by (simp add: AddTableDataIfNotExist_def act_simps)
next
  case None
  obtain n where n: "cm_names d tid = Some n"
      "files d (GetTableDataPath n) \<noteq> None \<or> creatable d (GetTableDataPath n)"
    using assms(2) by (auto simp: reachable_table_def)
  have "tid \<noteq> SYSTEM_CATALOG_ID" using assms(1) n(1) by (auto simp: disk_inv_def)
  then have "data_path_of tid d = (Inr (GetTableDataPath n), d)"
    using n by (simp add: data_path_of_run path_of_def)
  with None n(2) that show ?thesis
    by (cases "files d (GetTableDataPath n)") (auto simp: AddTableDataIfNotExist_def act_simps)
qed

lemma WritePage_ok:
  assumes "disk_inv d" and "reachable_table d (table_id pid)"
  obtains d' where "WritePage pid bs d = (Inr (), d')"
    and "length (content d' (table_id pid)) \<ge> write_offset pid + length bs"
    and "reachable_table d' (table_id pid)"
proof -
  obtain d1 where d1: "AddTableDataIfNotExist (table_id pid) d = (Inr (), d1)"
    using AddTable_ok [OF assms] .
  note add = AddTable_spec [OF assms(1) d1]
  obtain p where p: "table_data_files d1 (table_id pid) = Some p" "path_of d (table_id pid) = Some p"
    using add(2) by auto
  have p1: "path_of d1 (table_id pid) = Some p" using p(2) same_view_path [OF add(1)] by simp
  have ok: "\<not> io_bad d1" using assms(2) add(1) by (simp add: reachable_table_def same_view_def)
  let ?d2 = "d1\<lparr>files := (files d1)(p \<mapsto> file_write (write_offset pid) bs (case files d1 p of Some c \<Rightarrow> c | None \<Rightarrow> []))\<rparr>"
  note wv = write_view [OF same_view_inv [OF add(1)] p1, where off = "write_offset pid" and bs = bs]
  have "WritePage pid bs d = (Inr (), ?d2)"
    using d1 p(1) ok by (simp add: WritePage_def act_simps open_path_def fs_write_def)
  moreover have "length (content ?d2 (table_id pid)) \<ge> write_offset pid + length bs"
    unfolding wv(2) by (simp add: length_file_write)
  moreover have "reachable_table ?d2 (table_id pid)"
  proof -
    have names: "cm_names d1 = cm_names d" using add(1) by (simp add: same_view_def)
    obtain n where n: "cm_names d (table_id pid) = Some n" using assms(2) by (auto simp: reachable_table_def)
    then have "table_id pid \<noteq> SYSTEM_CATALOG_ID" using assms(1) by (auto simp: disk_inv_def)
    then have "p = GetTableDataPath n" using p(2) n by (simp add: path_of_def)
    then show ?thesis using ok n names by (simp add: reachable_table_def)
  qed
  ultimately show ?thesis using that by blast
qed

lemma ReadPage_ok:
  assumes "disk_inv d" and "valid_pid pid" and "reachable_table d (table_id pid)"
    and "PAGE_SIZE * nat (page_number pid) \<le> length (content d (table_id pid))"
  obtains d' where "ReadPage pid d = (Inr (disk_page d pid), d')"
proof -
  obtain d1 where d1: "AddTableDataIfNotExist (table_id pid) d = (Inr (), d1)"
    using AddTable_ok [OF assms(1,3)] .
  have tid: "table_id pid \<noteq> SYSTEM_CATALOG_ID"
    using assms(1,3) by (auto simp: disk_inv_def reachable_table_def)
  have "\<not> io_bad d" using assms(3) by (simp add: reachable_table_def)
  with ReadPage_run [OF assms(1,2) d1 tid] assms(4) that show ?thesis by auto
qed

lemma write_then_read:
  assumes "disk_inv d" and "valid_pid pid" and "length bs = PAGE_SIZE"
    and "reachable_table d (table_id pid)"
  obtains d1 d2 where "WritePage pid bs d = (Inr (), d1)" and "ReadPage pid d1 = (Inr bs, d2)"
    and "disk_post d ((disk_page d)(pid := bs)) d2"
proof -
  obtain d1 where w: "WritePage pid bs d = (Inr (), d1)"
      and len: "length (content d1 (table_id pid)) \<ge> write_offset pid + length bs"
      and reach: "reachable_table d1 (table_id pid)"
    using WritePage_ok [OF assms(1,4)] .
  have post: "disk_post d ((disk_page d)(pid := bs)) d1"
    using WritePage_spec [OF assms(1-3) w] by simp
  then have inv: "disk_inv d1" by (simp add: disk_post_def)
  obtain d2 where r: "ReadPage pid d1 = (Inr (disk_page d1 pid), d2)"
    using ReadPage_ok [OF inv assms(2) reach] len offsets(1) [OF assms(2)] by auto
  have "disk_post d1 (disk_page d1) d2" using ReadPage_spec(1) [OF inv assms(2) r] .
  with post have "disk_post d ((disk_page d)(pid := bs)) d2" by (simp add: disk_post_def)
  moreover have "disk_page d1 pid = bs" using post assms(2) by (simp add: disk_post_def)
  ultimately show ?thesis using that w r by simp
qed

section \<open>Properties\<close>

text \<open>
  C22: A page written to a table the catalog knows is what the next read of it returns, and no
  other page of any table changes: for page numbers below \<open>2 ^ 20\<close>, a device that works and a
  data file that exists or can be created, \<^verbatim>\<open>WritePage\<close> followed by \<^verbatim>\<open>ReadPage\<close>
  returns the bytes written.
\<close>

theorem disk_write_read:
  assumes "disk_inv d" and "valid_pid pid" and "length bs = PAGE_SIZE"
    and "reachable_table d (table_id pid)"
  shows "\<exists>d1 d2. WritePage pid bs d = (Inr (), d1) \<and> ReadPage pid d1 = (Inr bs, d2) \<and> disk_inv d2 \<and>
     (\<forall>q. valid_pid q \<longrightarrow> disk_page d2 q = (if q = pid then bs else disk_page d q))"
proof -
  obtain d1 d2 where "WritePage pid bs d = (Inr (), d1)" "ReadPage pid d1 = (Inr bs, d2)"
      "disk_post d ((disk_page d)(pid := bs)) d2"
    using write_then_read [OF assms] .
  then show ?thesis by (intro exI [of _ d1] exI [of _ d2]) (simp add: disk_post_def)
qed

definition demo_disk :: Disk where
  "demo_disk = \<lparr>files = (\<lambda>_. None), table_data_files = (\<lambda>_. None),
     cm_names = (\<lambda>t. if t = 0 then Some ''t'' else None), creatable = (\<lambda>_. True), io_bad = False\<rparr>"

lemma demo_disk_facts: "disk_inv demo_disk" "reachable_table demo_disk 0" "content demo_disk t = []"
  by (auto simp: demo_disk_def disk_inv_def plain_name_def reachable_table_def content_def
      split: option.splits)

theorem disk_write_read_witness:
  "\<exists>d1 d2. WritePage (mk_page_id 0 3) (replicate PAGE_SIZE 7) demo_disk = (Inr (), d1) \<and>
     ReadPage (mk_page_id 0 3) d1 = (Inr (replicate PAGE_SIZE 7), d2)"
  using disk_write_read [of demo_disk "mk_page_id 0 3" "replicate PAGE_SIZE 7"]
  by (auto simp: demo_disk_facts valid_pid_def)

text \<open>
  C33: The offset of a write is computed in 32 bits, that of a read in 64. A write to page
  \<open>2 ^ 20 + n\<close> of a table therefore lands on page \<open>n\<close>: a read of page \<open>n\<close> then returns
  the bytes meant for the other page.
\<close>

theorem write_offset_wraps:
  assumes "disk_inv d" and "valid_pid (mk_page_id t n)" and "length bs = PAGE_SIZE"
    and "reachable_table d t"
  shows "\<exists>d1 d2. WritePage (mk_page_id t (2 ^ 20 + n)) bs d = (Inr (), d1) \<and>
     ReadPage (mk_page_id t n) d1 = (Inr bs, d2)"
proof -
  have "(2 ^ 20 + n) * 4096 = n * 4096 + (2 ^ 32 :: int)" by simp
  then have "(2 ^ 20 + n) * 4096 mod 2 ^ 32 = n * 4096 mod (2 ^ 32 :: int)" by (simp only: mod_add_self2)
  then have "write_offset (mk_page_id t (2 ^ 20 + n)) = write_offset (mk_page_id t n)"
    by (simp add: write_offset_def)
  then have "WritePage (mk_page_id t (2 ^ 20 + n)) bs = WritePage (mk_page_id t n) bs"
    by (simp add: WritePage_def)
  then show ?thesis using write_then_read [OF assms(1-3)] assms(4) by simp blast
qed

theorem write_offset_wraps_witness:
  "\<exists>d1 d2. WritePage (mk_page_id 0 1048579) (replicate PAGE_SIZE 7) demo_disk = (Inr (), d1) \<and>
     ReadPage (mk_page_id 0 3) d1 = (Inr (replicate PAGE_SIZE 7), d2)"
  using write_offset_wraps [of demo_disk 0 3 "replicate PAGE_SIZE 7"]
  by (simp add: demo_disk_facts valid_pid_def)

end
