(* ===== verification/BufferPools.thy ===== *)
theory BufferPools
  imports Disks
begin

text \<open>
  The buffer pool: \<^verbatim>\<open>storage/page/page.hpp\<close>, \<^verbatim>\<open>storage/buffer/replacer.hpp\<close>,
  \<^verbatim>\<open>storage/buffer/random_replacer.h\<close>, \<^verbatim>\<open>storage/buffer/random_replacer.cpp\<close>,
  \<^verbatim>\<open>storage/buffer/buffer_pool.hpp\<close> and \<^verbatim>\<open>storage/buffer/buffer_pool.cpp\<close>.

  Every operation that takes the pool's mutex is one atomic action. A \<^verbatim>\<open>Page &\<close> is the index
  of its frame, and indexing \<^verbatim>\<open>pages_\<close> out of range is undefined behaviour. The replacer's hash
  map is an association list whose order stands for the iteration order, which the standard
  leaves open: no property depends on it. Pin counts are 16-bit words.

  \<open>logical\<close> is the abstraction: the contents of every page, wherever its newest version is.
\<close>

section \<open>Replacer\<close>

type_synonym frame_store = "(nat \<times> bool) list"

fun Evict :: "frame_store \<Rightarrow> nat option \<times> frame_store" where
  "Evict [] = (None, [])"
| "Evict ((f, evictable) # xs) =
     (if evictable then (Some f, (f, False) # xs)
      else case Evict xs of (r, ys) \<Rightarrow> (r, (f, evictable) # ys))"

definition frame_set :: "nat \<Rightarrow> bool \<Rightarrow> frame_store \<Rightarrow> frame_store" where
  "frame_set f b xs = map (\<lambda>(g, c). if g = f then (g, b) else (g, c)) xs"

definition Replacer_Pin :: "nat \<Rightarrow> frame_store \<Rightarrow> frame_store" where
  "Replacer_Pin f xs = (if f \<in> fst ` set xs then frame_set f False xs else (f, False) # xs)"

definition Replacer_Unpin :: "nat \<Rightarrow> frame_store \<Rightarrow> frame_store" where
  "Replacer_Unpin f xs = (if f \<in> fst ` set xs then frame_set f True xs else xs)"

section \<open>Pages and the pool\<close>

datatype latch = Unlatched | ReadLatched nat | WriteLatched

record Page =
  page_id :: PageId
  is_dirty :: bool
  pin_count :: "16 word"
  rwlatch :: latch
  page_data :: bytes

definition zero_page :: bytes where
  "zero_page = replicate PAGE_SIZE 0"

definition mk_Page :: Page where
  "mk_Page = \<lparr>page_id = default_page_id, is_dirty = False, pin_count = 0, rwlatch = Unlatched,
     page_data = zero_page\<rparr>"

record BufferPool =
  pool_size :: nat
  replacer :: frame_store
  disk_manager :: Disk
  free_list :: "nat list"
  page_table :: "PageId \<Rightarrow> nat option"
  pages :: "Page list"

definition mk_BufferPool :: "nat \<Rightarrow> Disk \<Rightarrow> BufferPool" where
  "mk_BufferPool n d = \<lparr>pool_size = n, replacer = [], disk_manager = d, free_list = [0..<n],
     page_table = (\<lambda>_. None), pages = replicate n mk_Page\<rparr>"

definition on_disk :: "(Disk, 'a) action \<Rightarrow> (BufferPool, 'a) action" where
  "on_disk = zoom disk_manager (\<lambda>d s. s\<lparr>disk_manager := d\<rparr>)"

definition page_at :: "nat \<Rightarrow> (BufferPool, Page) action" where
  "page_at f = bind (gets pages) (\<lambda>ps.
     if f < length ps then ret (ps ! f) else throw (UndefinedBehaviour ''pages_[frame_id]''))"

definition update_page :: "nat \<Rightarrow> (Page \<Rightarrow> Page) \<Rightarrow> (BufferPool, unit) action" where
  "update_page f g = modify (\<lambda>s. s\<lparr>pages := (pages s)[f := g (pages s ! f)]\<rparr>)"

definition ResetMemory :: "Page \<Rightarrow> Page" where
  "ResetMemory p = p\<lparr>page_data := zero_page\<rparr>"

section \<open>Operations\<close>

definition AllocateFrame :: "(BufferPool, nat option) action" where
  "AllocateFrame = bind (gets free_list) (\<lambda>fl.
     case fl of
       f # rest \<Rightarrow> bind (modify (\<lambda>s. s\<lparr>free_list := rest\<rparr>)) (\<lambda>_. ret (Some f))
     | [] \<Rightarrow>
         bind (gets (Evict \<circ> replacer)) (\<lambda>(r, store).
         bind (modify (\<lambda>s. s\<lparr>replacer := store\<rparr>)) (\<lambda>_.
         case r of
           None \<Rightarrow> ret None
         | Some f \<Rightarrow>
             bind (page_at f) (\<lambda>page.
             bind (assert_that (pin_count page = 0) ''pages_[frame_id].pin_count_ == 0'') (\<lambda>_.
             bind (assert_that (page_number (page_id page) \<ge> 0) ''page_number_ >= 0'') (\<lambda>_.
             bind (if is_dirty page then on_disk (WritePage (page_id page) (page_data page)) else ret ()) (\<lambda>_.
             bind (update_page f ResetMemory) (\<lambda>_.
             ret (Some f)))))))))"

definition NewPage_frame :: "(BufferPool, nat) action" where
  "NewPage_frame =
     bind AllocateFrame (\<lambda>r.
     case r of
       None \<Rightarrow> throw (StdRuntimeError ''Failed to allocate frame'')
     | Some f \<Rightarrow>
         bind (gets free_list) (\<lambda>fl.
         bind (assert_that (f \<notin> set fl) ''frame id should not be in the free list'') (\<lambda>_.
         bind (modify (\<lambda>s. s\<lparr>replacer := Replacer_Pin f (replacer s)\<rparr>)) (\<lambda>_.
         bind (page_at f) (\<lambda>page.
         bind (modify (\<lambda>s. s\<lparr>page_table := (page_table s)(page_id page := None)\<rparr>)) (\<lambda>_.
         ret f))))))"

definition NewPage_install :: "nat \<Rightarrow> PageId \<Rightarrow> (BufferPool, unit) action" where
  "NewPage_install f pid =
     bind (page_at f) (\<lambda>page.
     bind (modify (\<lambda>s. s\<lparr>page_table := (page_table s)(pid \<mapsto> f)\<rparr>)) (\<lambda>_.
     bind (gets page_table) (\<lambda>pt.
     bind (assert_that (pt (page_id page) = None) ''page table should not have the old page id'') (\<lambda>_.
     update_page f (\<lambda>p. ResetMemory (p\<lparr>page_id := pid, pin_count := 1, is_dirty := False\<rparr>))))))"

text \<open>The page allocator is an action on a state of its own; the new id is passed back by reference.\<close>

definition NewPage :: "('a, PageId) action \<Rightarrow> (BufferPool \<times> 'a, nat \<times> PageId) action" where
  "NewPage AllocatePage =
     bind (zoom fst (\<lambda>s (_, a). (s, a)) NewPage_frame) (\<lambda>f.
     bind (zoom snd (\<lambda>a (s, _). (s, a)) AllocatePage) (\<lambda>pid.
     bind (zoom fst (\<lambda>s (_, a). (s, a)) (NewPage_install f pid)) (\<lambda>_.
     ret (f, pid))))"

definition FetchPage :: "PageId \<Rightarrow> (BufferPool, nat) action" where
  "FetchPage pid =
     bind (assert_that (page_number pid \<noteq> INVALID_PAGE_ID) ''page number should be valid'') (\<lambda>_.
     bind (gets page_table) (\<lambda>pt.
     case pt pid of
       Some f \<Rightarrow>
         bind (page_at f) (\<lambda>_.
         bind (update_page f (\<lambda>p. p\<lparr>pin_count := pin_count p + 1\<rparr>)) (\<lambda>_.
         bind (modify (\<lambda>s. s\<lparr>replacer := Replacer_Pin f (replacer s)\<rparr>)) (\<lambda>_.
         ret f)))
     | None \<Rightarrow>
         bind AllocateFrame (\<lambda>r.
         case r of
           None \<Rightarrow> throw (StdRuntimeError ''Failed to allocate frame'')
         | Some f \<Rightarrow>
             bind (page_at f) (\<lambda>page.
             bind (modify (\<lambda>s. s\<lparr>page_table := (page_table s)(page_id page := None)\<rparr>)) (\<lambda>_.
             bind (modify (\<lambda>s. s\<lparr>page_table := (page_table s)(pid \<mapsto> f)\<rparr>)) (\<lambda>_.
             bind (update_page f (\<lambda>p. p\<lparr>page_id := pid, pin_count := pin_count p + 1, is_dirty := False\<rparr>)) (\<lambda>_.
             bind (on_disk (ReadPage pid)) (\<lambda>bs.
             bind (update_page f (\<lambda>p. p\<lparr>page_data := bs\<rparr>)) (\<lambda>_.
             ret f)))))))))"

definition UnpinPage :: "PageId \<Rightarrow> bool \<Rightarrow> (BufferPool, bool) action" where
  "UnpinPage pid dirty =
     bind (assert_that (page_number pid \<noteq> INVALID_PAGE_ID) ''page_id.page_number_ != INVALID_PAGE_ID'') (\<lambda>_.
     bind (gets page_table) (\<lambda>pt.
     case pt pid of
       None \<Rightarrow> throw (AssertionFailed ''false'')
     | Some f \<Rightarrow>
         bind (page_at f) (\<lambda>page.
         bind (if dirty then update_page f (\<lambda>p. p\<lparr>is_dirty := True\<rparr>) else ret ()) (\<lambda>_.
         if pin_count page = 0 then ret False
         else bind (update_page f (\<lambda>p. p\<lparr>pin_count := pin_count p - 1\<rparr>)) (\<lambda>_.
              bind (if pin_count page - 1 = 0
                    then modify (\<lambda>s. s\<lparr>replacer := Replacer_Unpin f (replacer s)\<rparr>) else ret ()) (\<lambda>_.
              ret True))))))"

definition FlushPage :: "PageId \<Rightarrow> (BufferPool, bool) action" where
  "FlushPage pid = bind (gets page_table) (\<lambda>pt.
     case pt pid of
       None \<Rightarrow> ret False
     | Some f \<Rightarrow>
         bind (page_at f) (\<lambda>page.
         bind (on_disk (WritePage pid (page_data page))) (\<lambda>_.
         bind (update_page f (\<lambda>p. p\<lparr>is_dirty := False\<rparr>)) (\<lambda>_.
         ret True))))"

fun FlushFrames :: "nat list \<Rightarrow> (BufferPool, unit) action" where
  "FlushFrames [] = ret ()"
| "FlushFrames (i # is) = bind (page_at i) (\<lambda>page. bind (FlushPage (page_id page)) (\<lambda>_. FlushFrames is))"

definition FlushAllPages :: "(BufferPool, unit) action" where
  "FlushAllPages = bind (gets pool_size) (\<lambda>n. FlushFrames [0..<n])"

definition DeletePage :: "PageId \<Rightarrow> (BufferPool, bool) action" where
  "DeletePage pid = bind (gets page_table) (\<lambda>pt.
     case pt pid of
       None \<Rightarrow> ret True
     | Some f \<Rightarrow>
         bind (page_at f) (\<lambda>page.
         if pin_count page > 0 then ret False
         else bind (modify (\<lambda>s. s\<lparr>page_table := (page_table s)(pid := None)\<rparr>)) (\<lambda>_.
              bind (modify (\<lambda>s. s\<lparr>free_list := free_list s @ [f]\<rparr>)) (\<lambda>_.
              bind (update_page f ResetMemory) (\<lambda>_.
              bind (update_page f (\<lambda>p. p\<lparr>page_id := (page_id p)\<lparr>page_number := INVALID_PAGE_ID\<rparr>,
                                          pin_count := 0, is_dirty := False\<rparr>)) (\<lambda>_.
              ret True))))))"

section \<open>Invariant and abstraction\<close>

definition mapped :: "BufferPool \<Rightarrow> nat \<Rightarrow> bool" where
  "mapped s f \<longleftrightarrow> page_table s (page_id (pages s ! f)) = Some f"

definition logical :: "BufferPool \<Rightarrow> PageId \<Rightarrow> bytes" where
  "logical s pid = (case page_table s pid of
     Some f \<Rightarrow> page_data (pages s ! f) | None \<Rightarrow> disk_page (disk_manager s) pid)"

text \<open>
  \<open>X\<close> is the set of frames that an operation has taken and not yet given a page. The last
  clause is what makes eviction safe: an unpinned page that is not marked dirty is on disk.
\<close>

definition table_inv :: "nat set \<Rightarrow> BufferPool \<Rightarrow> bool" where
  "table_inv X s \<longleftrightarrow> (\<forall>pid f. page_table s pid = Some f \<longrightarrow>
     f < pool_size s \<and> page_id (pages s ! f) = pid \<and> f \<notin> set (free_list s) \<and> f \<notin> X \<and> valid_pid pid)"

definition free_inv :: "nat set \<Rightarrow> BufferPool \<Rightarrow> bool" where
  "free_inv X s \<longleftrightarrow> distinct (free_list s) \<and> (\<forall>f \<in> set (free_list s). f < pool_size s \<and> f \<notin> X \<and>
     page_number (page_id (pages s ! f)) = INVALID_PAGE_ID \<and> pin_count (pages s ! f) = 0 \<and>
     page_data (pages s ! f) = zero_page)"

definition replacer_inv :: "nat set \<Rightarrow> BufferPool \<Rightarrow> bool" where
  "replacer_inv X s \<longleftrightarrow> (\<forall>f. (f, True) \<in> set (replacer s) \<longrightarrow>
     f < pool_size s \<and> (f \<in> set (free_list s) \<or> f \<in> X \<or> mapped s f))"

definition data_inv :: "BufferPool \<Rightarrow> bool" where
  "data_inv s \<longleftrightarrow> length (pages s) = pool_size s \<and> (\<forall>f < pool_size s. length (page_data (pages s ! f)) = PAGE_SIZE)"

definition clean_inv :: "BufferPool \<Rightarrow> bool" where
  "clean_inv s \<longleftrightarrow> (\<forall>pid f. page_table s pid = Some f \<longrightarrow> pin_count (pages s ! f) = 0 \<longrightarrow>
     \<not> is_dirty (pages s ! f) \<longrightarrow> page_data (pages s ! f) = disk_page (disk_manager s) pid)"

definition bp_inv_except :: "nat set \<Rightarrow> BufferPool \<Rightarrow> bool" where
  "bp_inv_except X s \<longleftrightarrow> disk_inv (disk_manager s) \<and> table_inv X s \<and> free_inv X s \<and>
     replacer_inv X s \<and> data_inv s \<and> clean_inv s"

abbreviation bp_inv :: "BufferPool \<Rightarrow> bool" where
  "bp_inv \<equiv> bp_inv_except {}"

lemmas bp_inv_defs = bp_inv_except_def table_inv_def free_inv_def replacer_inv_def data_inv_def clean_inv_def

definition same_pages :: "BufferPool \<Rightarrow> BufferPool \<Rightarrow> bool" where
  "same_pages s s' \<longleftrightarrow> (\<forall>q. valid_pid q \<longrightarrow> logical s' q = logical s q)"

text \<open>How often each page is pinned.\<close>

definition pins :: "BufferPool \<Rightarrow> PageId \<Rightarrow> 16 word" where
  "pins s pid = (case page_table s pid of Some f \<Rightarrow> pin_count (pages s ! f) | None \<Rightarrow> 0)"

text \<open>A page that someone holds stays in its frame, with its contents.\<close>

definition pins_stay :: "BufferPool \<Rightarrow> BufferPool \<Rightarrow> bool" where
  "pins_stay s s' \<longleftrightarrow> (\<forall>f < pool_size s. pin_count (pages s ! f) \<noteq> 0 \<longrightarrow>
     page_id (pages s' ! f) = page_id (pages s ! f) \<and> page_data (pages s' ! f) = page_data (pages s ! f) \<and>
     (mapped s f \<longrightarrow> mapped s' f))"

lemma bp_invD:
  assumes "bp_inv_except X s"
  shows "disk_inv (disk_manager s)" and "length (pages s) = pool_size s"
    and "f < pool_size s \<Longrightarrow> length (page_data (pages s ! f)) = PAGE_SIZE"
    and "page_table s pid = Some f \<Longrightarrow> f < pool_size s"
    and "page_table s pid = Some f \<Longrightarrow> page_id (pages s ! f) = pid"
    and "page_table s pid = Some f \<Longrightarrow> f \<notin> set (free_list s)"
    and "page_table s pid = Some f \<Longrightarrow> f \<notin> X"
    and "page_table s pid = Some f \<Longrightarrow> valid_pid pid"
    and "(f, True) \<in> set (replacer s) \<Longrightarrow> f < pool_size s"
    and "(f, True) \<in> set (replacer s) \<Longrightarrow> f \<in> set (free_list s) \<or> f \<in> X \<or> mapped s f"
    and "page_table s pid = Some f \<Longrightarrow> pin_count (pages s ! f) = 0 \<Longrightarrow> \<not> is_dirty (pages s ! f) \<Longrightarrow>
      page_data (pages s ! f) = disk_page (disk_manager s) pid"
    and "distinct (free_list s)"
    and "f \<in> set (free_list s) \<Longrightarrow> f < pool_size s"
    and "f \<in> set (free_list s) \<Longrightarrow> page_number (page_id (pages s ! f)) = INVALID_PAGE_ID"
    and "f \<in> set (free_list s) \<Longrightarrow> pin_count (pages s ! f) = 0"
    and "f \<in> set (free_list s) \<Longrightarrow> page_data (pages s ! f) = zero_page"
  using assms unfolding bp_inv_defs by blast+

lemma length_zero_page [simp]: "length zero_page = PAGE_SIZE"
  by (simp add: zero_page_def)

lemma ResetMemory_simps [simp]:
  "page_data (ResetMemory p) = zero_page" "page_id (ResetMemory p) = page_id p"
  "pin_count (ResetMemory p) = pin_count p" "is_dirty (ResetMemory p) = is_dirty p"
  by (simp_all add: ResetMemory_def)

lemma page_at_run [act_simps]:
  "f < length (pages s) \<Longrightarrow> page_at f s = (Inr (pages s ! f), s)"
  "\<not> f < length (pages s) \<Longrightarrow> page_at f s = (Inl (UndefinedBehaviour ''pages_[frame_id]''), s)"
  by (simp_all add: page_at_def act_simps)

lemma update_page_run [act_simps]:
  "update_page f g s = (Inr (), s\<lparr>pages := (pages s)[f := g (pages s ! f)]\<rparr>)"
  by (simp add: update_page_def act_simps)

lemma upd_disk_same: "disk_manager t = d \<Longrightarrow> t\<lparr>disk_manager := d\<rparr> = t"
  by (cases t) simp

lemma on_disk_run:
  "on_disk m s = (case m (disk_manager s) of (r, d) \<Rightarrow> (r, s\<lparr>disk_manager := d\<rparr>))"
  by (simp add: on_disk_def zoom_def)

lemma on_disk_run_eq [act_simps]:
  "m (disk_manager s) = (r, d) \<Longrightarrow> on_disk m s = (r, s\<lparr>disk_manager := d\<rparr>)"
  by (simp add: on_disk_run)

text \<open>The replacer: what can be evicted afterwards.\<close>

lemma Evict_None: "Evict xs = (None, ys) \<Longrightarrow> ys = xs \<and> (\<forall>f. (f, True) \<notin> set xs)"
  by (induction xs arbitrary: ys rule: Evict.induct) (auto split: if_splits prod.splits)

lemma Evict_Some:
  "Evict xs = (Some f, ys) \<Longrightarrow> (f, True) \<in> set xs \<and> (\<forall>g. (g, True) \<in> set ys \<longrightarrow> (g, True) \<in> set xs)"
  by (induction xs arbitrary: ys rule: Evict.induct) (auto split: if_splits prod.splits)

lemma frame_set_mem:
  "(g, c) \<in> set (frame_set f b xs) \<longleftrightarrow>
     g \<noteq> f \<and> (g, c) \<in> set xs \<or> g = f \<and> c = b \<and> f \<in> fst ` set xs"
  by (induction xs) (auto simp: frame_set_def split: if_splits)

lemma Replacer_Pin_evictable: "(g, True) \<in> set (Replacer_Pin f xs) \<longleftrightarrow> (g, True) \<in> set xs \<and> g \<noteq> f"
  by (auto simp: Replacer_Pin_def frame_set_mem image_iff)

lemma Replacer_Unpin_evictable:
  "(g, True) \<in> set (Replacer_Unpin f xs) \<longleftrightarrow> (g, True) \<in> set xs \<or> g = f \<and> f \<in> fst ` set xs"
  by (auto simp: Replacer_Unpin_def frame_set_mem image_iff)

section \<open>Taking a frame\<close>

lemma evict_step:
  assumes inv: "bp_inv s" and empty: "free_list s = []" and ev: "Evict (replacer s) = (Some f, store)"
  shows "f < pool_size s" and "mapped s f" and "valid_pid (page_id (pages s ! f))"
proof -
  have "(f, True) \<in> set (replacer s)" using Evict_Some [OF ev] by simp
  then show "f < pool_size s" and m: "mapped s f"
    using bp_invD(9,10) [OF inv] empty by fastforce+
  then show "valid_pid (page_id (pages s ! f))"
    using bp_invD(8) [OF inv] by (simp add: mapped_def)
qed

text \<open>The outcomes of \<^verbatim>\<open>AllocateFrame\<close>, as explicit states.\<close>

lemma AllocateFrame_cases:
  assumes inv: "bp_inv s" and run: "AllocateFrame s = (r, s')"
  obtains (free) f rest where "free_list s = f # rest" "r = Inr (Some f)" "s' = s\<lparr>free_list := rest\<rparr>"
  | (full) "free_list s = []" "r = Inr None" "s' = s" "\<forall>f. (f, True) \<notin> set (replacer s)"
  | (fail) e store d where "r = Inl e" "s' = s\<lparr>replacer := store, disk_manager := d\<rparr>"
      "\<forall>g. (g, True) \<in> set store \<longrightarrow> (g, True) \<in> set (replacer s)"
      "disk_post (disk_manager s) (disk_page (disk_manager s)) d"
  | (evict) f store d where "free_list s = []" "r = Inr (Some f)" "f < pool_size s" "mapped s f"
      "pin_count (pages s ! f) = 0" "valid_pid (page_id (pages s ! f))"
      "\<forall>g. (g, True) \<in> set store \<longrightarrow> (g, True) \<in> set (replacer s)"
      "s' = s\<lparr>replacer := store, disk_manager := d, pages := (pages s)[f := ResetMemory (pages s ! f)]\<rparr>"
      "disk_post (disk_manager s) ((disk_page (disk_manager s))(page_id (pages s ! f) := page_data (pages s ! f))) d"
proof (cases "free_list s")
  case (Cons f rest)
  have "r = Inr (Some f)" "s' = s\<lparr>free_list := rest\<rparr>"
    using run Cons by (auto simp: AllocateFrame_def act_simps)
  then show ?thesis using Cons by (intro free) auto
next
  case Nil
  note dinv = bp_invD(1) [OF inv] and len = bp_invD(2) [OF inv]
  have post0: "disk_post (disk_manager s) (disk_page (disk_manager s)) (disk_manager s)"
    using dinv by (intro same_view_post) simp
  obtain ro store where ev: "Evict (replacer s) = (ro, store)" by fastforce
  show ?thesis
  proof (cases ro)
    case None
    note none = Evict_None [OF ev [unfolded None]]
    have "r = Inr None" "s' = s" using run Nil ev None none by (auto simp: AllocateFrame_def act_simps)
    then show ?thesis using none Nil by (intro full) auto
  next
    case (Some f)
    note ev = ev [unfolded Some]
    note st = evict_step [OF inv Nil ev]
    let ?p = "pages s ! f"
    have store: "\<forall>g. (g, True) \<in> set store \<longrightarrow> (g, True) \<in> set (replacer s)"
      using Evict_Some [OF ev] by simp
    have pn: "page_number (page_id ?p) \<ge> 0" using st(3) by (simp add: valid_pid_def)
    have plen: "length (page_data ?p) = PAGE_SIZE" using bp_invD(3) [OF inv st(1)] .
    consider (pinned) "pin_count ?p \<noteq> 0" | (clean) "pin_count ?p = 0" "\<not> is_dirty ?p"
      | (dirty) "pin_count ?p = 0" "is_dirty ?p" by blast
    then show ?thesis
    proof cases
      case pinned
      then have out: "r = Inl (AssertionFailed ''pages_[frame_id].pin_count_ == 0'')"
          "s' = s\<lparr>replacer := store, disk_manager := disk_manager s\<rparr>"
        using run Nil ev st len by (auto simp: AllocateFrame_def act_simps upd_disk_same)
      show ?thesis by (rule fail [OF out store post0])
    next
      case clean
      then have out: "r = Inr (Some f)"
          "s' = s\<lparr>replacer := store, disk_manager := disk_manager s, pages := (pages s)[f := ResetMemory ?p]\<rparr>"
        using run Nil ev st len pn by (auto simp: AllocateFrame_def act_simps upd_disk_same)
      have "page_data ?p = disk_page (disk_manager s) (page_id ?p)"
        using bp_invD(11) [OF inv st(2) [unfolded mapped_def] clean] .
      then have "disk_post (disk_manager s) ((disk_page (disk_manager s))(page_id ?p := page_data ?p)) (disk_manager s)"
        using post0 by simp
      from evict [OF Nil out(1) st(1,2) clean(1) st(3) store out(2) this] show ?thesis .
    next
      case dirty
      obtain rw d where w: "WritePage (page_id ?p) (page_data ?p) (disk_manager s) = (rw, d)" by fastforce
      note ws = WritePage_spec [OF dinv st(3) plen w]
      show ?thesis
      proof (cases rw)
        case (Inl e)
        then have out: "r = Inl e" "s' = s\<lparr>replacer := store, disk_manager := d\<rparr>"
          using run Nil ev st len pn dirty w by (auto simp: AllocateFrame_def act_simps)
        from fail [OF out store] ws Inl show ?thesis by simp
      next
        case (Inr u)
        then have out: "r = Inr (Some f)" "s' = s\<lparr>replacer := store, disk_manager := d, pages := (pages s)[f := ResetMemory ?p]\<rparr>"
          using run Nil ev st len pn dirty w by (auto simp: AllocateFrame_def act_simps)
        from evict [OF Nil out(1) st(1,2) dirty(1) st(3) store out(2)] ws Inr show ?thesis by simp
      qed
    qed
  qed
qed

text \<open>The frame, once its stale table entry is gone: nobody's, unpinned and zeroed.\<close>

definition drop_entry :: "nat \<Rightarrow> BufferPool \<Rightarrow> BufferPool" where
  "drop_entry f s = s\<lparr>page_table := (page_table s)(page_id (pages s ! f) := None)\<rparr>"

definition took :: "BufferPool \<Rightarrow> nat \<Rightarrow> BufferPool \<Rightarrow> bool" where
  "took s f s' \<longleftrightarrow> bp_inv_except {f} s' \<and> same_pages s s' \<and> f < pool_size s \<and> pool_size s' = pool_size s \<and>
     pin_count (pages s ! f) = 0 \<and> pin_count (pages s' ! f) = 0 \<and> page_data (pages s' ! f) = zero_page \<and>
     f \<notin> set (free_list s') \<and> (\<forall>g. g \<noteq> f \<longrightarrow> pages s' ! g = pages s ! g) \<and>
     page_table s' = (\<lambda>q. if page_table s q = Some f then None else page_table s q) \<and>
     cm_names (disk_manager s') = cm_names (disk_manager s) \<and>
     page_table s' (page_id (pages s' ! f)) = None \<and>
     (page_table s (page_id (pages s' ! f)) = Some f \<or> page_number (page_id (pages s' ! f)) = INVALID_PAGE_ID)"

lemma took_free:
  assumes inv: "bp_inv s" and fl: "free_list s = f # rest"
  shows "took s f (drop_entry f (s\<lparr>free_list := rest\<rparr>))"
proof -
  have f: "f \<in> set (free_list s)" using fl by simp
  note ff = bp_invD(13-16) [OF inv f]
  have none: "page_table s (page_id (pages s ! f)) = None"
    using bp_invD(8) [OF inv, of "page_id (pages s ! f)"] ff(2) by (cases "page_table s (page_id (pages s ! f))") (auto simp: valid_pid_def)
  then have pt: "(page_table s)(page_id (pages s ! f) := None) = page_table s" by (simp add: fun_upd_idem)
  have nf: "page_table s q \<noteq> Some f" for q using bp_invD(6) [OF inv] f by blast
  let ?s = "drop_entry f (s\<lparr>free_list := rest\<rparr>)"
  have fields: "pages ?s = pages s" "page_table ?s = page_table s" "disk_manager ?s = disk_manager s"
    "pool_size ?s = pool_size s" "free_list ?s = rest" "replacer ?s = replacer s"
    by (simp_all add: drop_entry_def pt)
  have mp: "mapped ?s g = mapped s g" for g by (simp add: mapped_def fields)
  have "bp_inv_except {f} ?s"
    using inv fl nf unfolding bp_inv_defs fields mp by fastforce
  moreover have "same_pages s ?s" unfolding same_pages_def logical_def fields by simp
  moreover have "f \<notin> set rest" using bp_invD(12) [OF inv] fl by simp
  ultimately show ?thesis using ff none nf by (simp add: took_def fields)
qed

lemma took_evict:
  assumes inv: "bp_inv s" and nil: "free_list s = []" and f: "f < pool_size s" "mapped s f"
    and pin: "pin_count (pages s ! f) = 0"
    and store: "\<forall>g. (g, True) \<in> set store \<longrightarrow> (g, True) \<in> set (replacer s)"
    and post: "disk_post (disk_manager s)
      ((disk_page (disk_manager s))(page_id (pages s ! f) := page_data (pages s ! f))) d"
  defines "s1 \<equiv> s\<lparr>replacer := store, disk_manager := d, pages := (pages s)[f := ResetMemory (pages s ! f)]\<rparr>"
  shows "took s f (drop_entry f s1)"
proof -
  let ?old = "page_id (pages s ! f)" and ?s = "drop_entry f s1"
  note len = bp_invD(2) [OF inv]
  have old: "page_table s ?old = Some f" using f(2) by (simp add: mapped_def)
  have uniq: "page_table s q = Some f \<longleftrightarrow> q = ?old" for q
    using bp_invD(5) [OF inv, of q f] old by auto
  have fields: "pages ?s = (pages s)[f := ResetMemory (pages s ! f)]" "disk_manager ?s = d"
    "page_table ?s = (page_table s)(?old := None)"
    "pool_size ?s = pool_size s" "free_list ?s = []" "replacer ?s = store"
    using f len by (simp_all add: drop_entry_def s1_def nil)
  have nth: "(pages s)[f := ResetMemory (pages s ! f)] ! g = (if g = f then ResetMemory (pages s ! f) else pages s ! g)" for g
    using f(1) len by (cases "g = f") auto
  have mp: "mapped ?s g \<longleftrightarrow> g \<noteq> f \<and> mapped s g" for g
    using old by (auto simp: mapped_def fields nth)
  have disk: "disk_page d q = (if q = ?old then page_data (pages s ! f) else disk_page (disk_manager s) q)"
    if "valid_pid q" for q using post that by (simp add: disk_post_def)
  have pt: "page_table ?s q = Some g \<Longrightarrow> page_table s q = Some g \<and> q \<noteq> ?old \<and> g \<noteq> f" for q g
    using uniq [of q] by (auto simp: fields split: if_splits)
  have "disk_inv d" using post by (simp add: disk_post_def)
  moreover have "table_inv {f} ?s"
    unfolding table_inv_def
  proof (intro allI impI)
    fix q g assume a: "page_table ?s q = Some g"
    note b = pt [OF a]
    then have "page_table s q = Some g" by simp
    note c = bp_invD(4,5,8) [OF inv this]
    then show "g < pool_size ?s \<and> page_id (pages ?s ! g) = q \<and> g \<notin> set (free_list ?s) \<and> g \<notin> {f} \<and> valid_pid q"
      using b by (simp add: fields nth)
  qed
  moreover have "free_inv {f} ?s" by (simp add: free_inv_def fields)
  moreover have "replacer_inv {f} ?s"
    unfolding replacer_inv_def mp fields using store bp_invD(9,10) [OF inv] nil by fastforce
  moreover have "data_inv ?s"
    unfolding data_inv_def fields nth using len bp_invD(3) [OF inv] by auto
  moreover have "clean_inv ?s"
    unfolding clean_inv_def
  proof (intro allI impI)
    fix q g assume a: "page_table ?s q = Some g" "pin_count (pages ?s ! g) = 0" "\<not> is_dirty (pages ?s ! g)"
    note b = pt [OF a(1)]
    then have c: "page_table s q = Some g" by simp
    from b a(2,3) have "pin_count (pages s ! g) = 0" "\<not> is_dirty (pages s ! g)" by (simp_all add: fields nth)
    from bp_invD(11) [OF inv c this] bp_invD(8) [OF inv c] b
    show "page_data (pages ?s ! g) = disk_page (disk_manager ?s) q" by (simp add: fields nth disk)
  qed
  ultimately have "bp_inv_except {f} ?s" by (simp add: bp_inv_except_def fields)
  moreover have "same_pages s ?s"
    unfolding same_pages_def logical_def fields nth
  proof (intro allI impI)
    fix q assume "valid_pid q"
    then show "(case ((page_table s)(?old := None)) q of
        None \<Rightarrow> disk_page d q | Some g \<Rightarrow> page_data (if g = f then ResetMemory (pages s ! f) else pages s ! g)) =
        (case page_table s q of None \<Rightarrow> disk_page (disk_manager s) q | Some g \<Rightarrow> page_data (pages s ! g))"
      using disk [of q] old uniq [of q] by (cases "q = ?old") (auto split: option.splits)
  qed
  moreover have "page_table ?s = (\<lambda>q. if page_table s q = Some f then None else page_table s q)"
    by (simp add: fun_eq_iff uniq fields)
  moreover have "cm_names d = cm_names (disk_manager s)" using post by (simp add: disk_post_def)
  ultimately show ?thesis using f(1) pin old unfolding took_def fields nth by simp
qed

text \<open>No frame was found: nothing a client can see has changed.\<close>

lemma AllocateFrame_none:
  assumes inv: "bp_inv s" and store: "\<forall>g. (g, True) \<in> set store \<longrightarrow> (g, True) \<in> set (replacer s)"
    and post: "disk_post (disk_manager s) (disk_page (disk_manager s)) d"
  defines "s' \<equiv> s\<lparr>replacer := store, disk_manager := d\<rparr>"
  shows "bp_inv s'" and "same_pages s s'" and "pages s' = pages s" and "page_table s' = page_table s"
proof -
  have disk: "disk_page d q = disk_page (disk_manager s) q" if "valid_pid q" for q
    using post that by (simp add: disk_post_def)
  have mp: "mapped s' g = mapped s g" for g by (simp add: mapped_def s'_def)
  have "table_inv {} s'" "free_inv {} s'" "data_inv s'"
    using inv by (simp_all add: bp_inv_except_def table_inv_def free_inv_def data_inv_def s'_def)
  moreover have "replacer_inv {} s'"
    unfolding replacer_inv_def mp using store bp_invD(9,10) [OF inv] by (auto simp: s'_def)
  moreover have "clean_inv s'"
    unfolding clean_inv_def using bp_invD(8,11) [OF inv] disk by (simp add: s'_def)
  moreover have "disk_inv d" using post by (simp add: disk_post_def)
  ultimately show "bp_inv s'" by (simp add: bp_inv_except_def) (simp add: s'_def)
  show "same_pages s s'"
    unfolding same_pages_def logical_def using disk by (auto simp: s'_def split: option.splits)
qed (simp_all add: s'_def)

lemma AllocateFrame_spec:
  assumes inv: "bp_inv s" and run: "AllocateFrame s = (r, s')"
  obtains (got) f where "r = Inr (Some f)" and "took s f (drop_entry f s')"
    and "f < length (pages s')" and "f \<notin> set (free_list s')"
  | (not_got) "\<forall>f. r \<noteq> Inr (Some f)" and "bp_inv s'" and "same_pages s s'" and "pages s' = pages s"
    and "page_table s' = page_table s"
proof (cases rule: AllocateFrame_cases [OF inv run])
  case (1 f rest)
  then show ?thesis using got took_free [OF inv] bp_invD(2,13) [OF inv] bp_invD(12) [OF inv] by simp
next
  case 2
  then show ?thesis using not_got inv by (simp add: same_pages_def)
next
  case (3 e store d)
  then show ?thesis using not_got AllocateFrame_none [OF inv 3(3,4)] by simp
next
  case (4 f store d)
  then show ?thesis using got took_evict [OF inv 4(1,3,4,5,7,9)] bp_invD(2) [OF inv] by simp
qed

section \<open>Filling a frame\<close>

lemma install_page:
  assumes t: "took s f s2" and pid: "valid_pid pid" "page_table s2 pid = None"
    and P: "page_id P = pid" "pin_count P \<noteq> 0" "length (page_data P) = PAGE_SIZE"
    and post: "disk_post (disk_manager s2) (disk_page (disk_manager s2)) d"
  defines "s' \<equiv> s2\<lparr>page_table := (page_table s2)(pid \<mapsto> f), disk_manager := d, pages := (pages s2)[f := P]\<rparr>"
  shows "bp_inv s'" and "valid_pid q \<Longrightarrow> logical s' q = (if q = pid then page_data P else logical s q)"
proof -
  have inv: "bp_inv_except {f} s2" and f: "f < pool_size s2" and nf: "f \<notin> set (free_list s2)"
    using t by (simp_all add: took_def)
  note len = bp_invD(2) [OF inv]
  have nth: "(pages s2)[f := P] ! g = (if g = f then P else pages s2 ! g)" for g
    using f len by (cases "g = f") auto
  have fields: "pages s' = (pages s2)[f := P]" "disk_manager s' = d" "page_table s' = (page_table s2)(pid \<mapsto> f)"
    "pool_size s' = pool_size s2" "free_list s' = free_list s2" "replacer s' = replacer s2"
    by (simp_all add: s'_def)
  have pt: "g \<noteq> f \<and> page_table s2 q = Some g" if "page_table s' q = Some g" "q \<noteq> pid" for q g
    using that bp_invD(7) [OF inv] by (auto simp: fields)
  have other: "mapped s2 g \<Longrightarrow> g \<noteq> f \<Longrightarrow> mapped s' g" for g
    using pid(2) by (auto simp: mapped_def fields nth)
  have self: "mapped s' f" by (simp add: mapped_def fields nth P)
  have disk: "disk_page d q = disk_page (disk_manager s2) q" if "valid_pid q" for q
    using post that by (simp add: disk_post_def)
  have "table_inv {} s'"
    unfolding table_inv_def
  proof (intro allI impI)
    fix q g assume a: "page_table s' q = Some g"
    show "g < pool_size s' \<and> page_id (pages s' ! g) = q \<and> g \<notin> set (free_list s') \<and> g \<notin> {} \<and> valid_pid q"
    proof (cases "q = pid")
      case True
      then show ?thesis using a f nf P pid unfolding fields nth by simp
    next
      case False
      note b = pt [OF a False]
      then show ?thesis using bp_invD(4,5,6,8) [OF inv, of q g] unfolding fields nth by simp
    qed
  qed
  moreover have "free_inv {} s'"
    unfolding free_inv_def fields nth using bp_invD(12-16) [OF inv] nf by auto
  moreover have "replacer_inv {} s'"
    unfolding replacer_inv_def using other self bp_invD(9,10) [OF inv] by (fastforce simp: fields)
  moreover have "data_inv s'"
    unfolding data_inv_def fields nth using len bp_invD(3) [OF inv] P(3) by auto
  moreover have "clean_inv s'"
    unfolding clean_inv_def
  proof (intro allI impI)
    fix q g assume a: "page_table s' q = Some g" "pin_count (pages s' ! g) = 0" "\<not> is_dirty (pages s' ! g)"
    have "q \<noteq> pid" using a P(2) by (auto simp: fields nth)
    note b = pt [OF a(1) this]
    then have c: "page_table s2 q = Some g" by simp
    from b a(2,3) have "pin_count (pages s2 ! g) = 0" "\<not> is_dirty (pages s2 ! g)" by (simp_all add: fields nth)
    from bp_invD(11) [OF inv c this] bp_invD(8) [OF inv c] b
    show "page_data (pages s' ! g) = disk_page (disk_manager s') q" by (simp add: fields nth disk)
  qed
  moreover have "disk_inv d" using post by (simp add: disk_post_def)
  ultimately show "bp_inv s'" unfolding bp_inv_except_def fields by simp
  show "logical s' q = (if q = pid then page_data P else logical s q)" if v: "valid_pid q"
  proof (cases "q = pid")
    case True
    then show ?thesis unfolding logical_def fields nth by simp
  next
    case False
    have "logical s' q = logical s2 q"
      using False disk [OF v] bp_invD(7) [OF inv, of q] unfolding logical_def fields nth
      by (auto split: option.splits)
    then show ?thesis using False t v by (simp add: took_def same_pages_def)
  qed
qed

section \<open>Pins and dirty flags\<close>

definition touch :: "nat \<Rightarrow> 16 word \<Rightarrow> bool \<Rightarrow> frame_store \<Rightarrow> BufferPool \<Rightarrow> BufferPool" where
  "touch f k dirty store s = s\<lparr>pages := (pages s)[f := (pages s ! f)\<lparr>is_dirty := dirty, pin_count := k\<rparr>], replacer := store\<rparr>"

lemma touch_nth:
  assumes "bp_inv_except X s" and "f < pool_size s"
  shows "pages (touch f k dirty store s) ! g =
     (if g = f then (pages s ! f)\<lparr>is_dirty := dirty, pin_count := k\<rparr> else pages s ! g)"
  using assms(2) bp_invD(2) [OF assms(1)] by (cases "g = f") (auto simp: touch_def)

lemma touch_page:
  assumes "bp_inv_except X s" and "f < pool_size s"
  shows "page_id (pages (touch f k dirty store s) ! g) = page_id (pages s ! g)"
    and "page_data (pages (touch f k dirty store s) ! g) = page_data (pages s ! g)"
    and "pin_count (pages (touch f k dirty store s) ! g) = (if g = f then k else pin_count (pages s ! g))"
    and "is_dirty (pages (touch f k dirty store s) ! g) = (if g = f then dirty else is_dirty (pages s ! g))"
  using touch_nth [OF assms, of k dirty store g] by auto

lemma touch_inv:
  assumes inv: "bp_inv s" and pid: "page_table s pid = Some f"
    and store: "\<And>g. (g, True) \<in> set store \<Longrightarrow> (g, True) \<in> set (replacer s) \<or> g = f"
    and clean: "k = 0 \<Longrightarrow> \<not> dirty \<Longrightarrow> page_data (pages s ! f) = disk_page (disk_manager s) pid"
  shows "bp_inv (touch f k dirty store s)" and "logical (touch f k dirty store s) = logical s"
    and "mapped (touch f k dirty store s) g = mapped s g"
proof -
  let ?s = "touch f k dirty store s"
  note f = bp_invD(4) [OF inv pid] and nf = bp_invD(6) [OF inv pid] and pidf = bp_invD(5) [OF inv pid]
  note tp = touch_page [OF inv f, of k dirty store]
  have fields: "disk_manager ?s = disk_manager s" "page_table ?s = page_table s" "length (pages ?s) = length (pages s)"
    "pool_size ?s = pool_size s" "free_list ?s = free_list s" "replacer ?s = store"
    by (simp_all add: touch_def)
  show mp: "mapped ?s g = mapped s g" for g unfolding mapped_def fields tp ..
  have mf: "mapped s f" using pid pidf by (simp add: mapped_def)
  have "table_inv {} ?s" using inv unfolding bp_inv_except_def table_inv_def fields tp by blast
  moreover have "free_inv {} ?s"
    unfolding free_inv_def fields tp using bp_invD(12-16) [OF inv] nf by auto
  moreover have "replacer_inv {} ?s"
    unfolding replacer_inv_def fields mp using store mf f bp_invD(9,10) [OF inv] by blast
  moreover have "data_inv ?s" unfolding data_inv_def fields tp using bp_invD(2,3) [OF inv] by simp
  moreover have "clean_inv ?s"
    unfolding clean_inv_def fields tp
  proof (intro allI impI)
    fix q g assume a: "page_table s q = Some g" "(if g = f then k else pin_count (pages s ! g)) = 0"
      "\<not> (if g = f then dirty else is_dirty (pages s ! g))"
    show "page_data (pages s ! g) = disk_page (disk_manager s) q"
    proof (cases "g = f")
      case True
      then have "q = pid" using bp_invD(5) [OF inv a(1)] pidf by simp
      then show ?thesis using True a(2,3) clean by simp
    next
      case False
      then show ?thesis using bp_invD(11) [OF inv a(1)] a(2,3) by simp
    qed
  qed
  ultimately show "bp_inv ?s" unfolding bp_inv_except_def fields using bp_invD(1) [OF inv] by simp
  show "logical ?s = logical s" unfolding logical_def fields tp ..
qed

lemma touch_noop:
  "s\<lparr>pages := (pages s)[f := (pages s ! f)\<lparr>pin_count := k\<rparr>]\<rparr> = touch f k (is_dirty (pages s ! f)) (replacer s) s"
  "s\<lparr>pages := (pages s)[f := (pages s ! f)\<lparr>pin_count := k\<rparr>], replacer := st\<rparr> = touch f k (is_dirty (pages s ! f)) st s"
  "s\<lparr>pages := (pages s)[f := (pages s ! f)\<lparr>is_dirty := b, pin_count := k\<rparr>]\<rparr> = touch f k b (replacer s) s"
  "s\<lparr>pages := (pages s)[f := (pages s ! f)\<lparr>is_dirty := b\<rparr>]\<rparr> = touch f (pin_count (pages s ! f)) b (replacer s) s"
proof -
  have a: "(pages s ! f)\<lparr>is_dirty := is_dirty (pages s ! f), pin_count := k\<rparr> = (pages s ! f)\<lparr>pin_count := k\<rparr>"
    by (cases "pages s ! f") simp
  have c: "(pages s ! f)\<lparr>is_dirty := b, pin_count := pin_count (pages s ! f)\<rparr> = (pages s ! f)\<lparr>is_dirty := b\<rparr>"
    by (cases "pages s ! f") simp
  have r: "s\<lparr>pages := ps, replacer := replacer s\<rparr> = s\<lparr>pages := ps\<rparr>" for ps by (cases s) simp
  show "s\<lparr>pages := (pages s)[f := (pages s ! f)\<lparr>pin_count := k\<rparr>]\<rparr> = touch f k (is_dirty (pages s ! f)) (replacer s) s"
    "s\<lparr>pages := (pages s)[f := (pages s ! f)\<lparr>pin_count := k\<rparr>], replacer := st\<rparr> = touch f k (is_dirty (pages s ! f)) st s"
    "s\<lparr>pages := (pages s)[f := (pages s ! f)\<lparr>is_dirty := b, pin_count := k\<rparr>]\<rparr> = touch f k b (replacer s) s"
    "s\<lparr>pages := (pages s)[f := (pages s ! f)\<lparr>is_dirty := b\<rparr>]\<rparr> = touch f (pin_count (pages s ! f)) b (replacer s) s"
    unfolding touch_def a c r by simp_all
qed

lemma FetchPage_hit:
  assumes inv: "bp_inv s" and pid: "page_table s pid = Some f"
  shows "FetchPage pid s = (Inr f, touch f (pin_count (pages s ! f) + 1) (is_dirty (pages s ! f)) (Replacer_Pin f (replacer s)) s)"
proof -
  have "page_number pid \<noteq> - 1" using bp_invD(8) [OF inv pid] by (auto simp: valid_pid_def)
  then show ?thesis
    using pid bp_invD(4) [OF inv pid] bp_invD(2) [OF inv] by (simp add: FetchPage_def act_simps touch_noop) (simp add: touch_def)
qed

text \<open>The miss: take a frame, map it, read it.\<close>

lemma FetchPage_miss:
  assumes inv: "bp_inv s" and pid: "page_table s pid = None" "valid_pid pid" and run: "FetchPage pid s = (r, s')"
  obtains (no_frame) "\<exists>e. r = Inl e" and "bp_inv s'" and "same_pages s s'" and "pages s' = pages s"
      and "page_table s' = page_table s"
  | (io_error) e f s2 d where "r = Inl e" "took s f s2" "ReadPage pid (disk_manager s2) = (Inl e, d)"
      "s' = s2\<lparr>page_table := (page_table s2)(pid \<mapsto> f), disk_manager := d,
         pages := (pages s2)[f := (pages s2 ! f)\<lparr>page_id := pid, pin_count := 1, is_dirty := False\<rparr>]\<rparr>"
  | (ok) f s2 d where "r = Inr f" "took s f s2" "ReadPage pid (disk_manager s2) = (Inr (disk_page (disk_manager s2) pid), d)"
      "s' = s2\<lparr>page_table := (page_table s2)(pid \<mapsto> f), disk_manager := d,
         pages := (pages s2)[f := (pages s2 ! f)\<lparr>page_id := pid, pin_count := 1, is_dirty := False,
                                  page_data := disk_page (disk_manager s2) pid\<rparr>]\<rparr>"
proof -
  have pn: "page_number pid \<noteq> - 1" using pid(2) by (auto simp: valid_pid_def)
  obtain ra s1 where al: "AllocateFrame s = (ra, s1)" by fastforce
  show ?thesis
  proof (cases rule: AllocateFrame_spec [OF inv al])
    case not_got: 2
    have "s' = s1" "\<exists>e. r = Inl e"
      using run pid(1) pn al not_got(1) by (cases ra; auto simp: FetchPage_def act_simps split: option.splits)+
    then show ?thesis using no_frame not_got by blast
  next
    case (1 f)
    let ?s2 = "drop_entry f s1"
    have pins: "pin_count (pages s1 ! f) = 0" using 1(2) by (simp add: took_def drop_entry_def)
    have pg: "pages ?s2 = pages s1" "disk_manager ?s2 = disk_manager s1" by (simp_all add: drop_entry_def)
    have dinv: "disk_inv (disk_manager s1)" using 1(2) bp_invD(1) pg(2) by (metis took_def)
    obtain rr d where rd: "ReadPage pid (disk_manager s1) = (rr, d)" by fastforce
    note rs = ReadPage_spec(2) [OF dinv pid(2) rd]
    show ?thesis
    proof (cases rr)
      case (Inl e)
      then have out: "r = Inl e" "s' = ?s2\<lparr>page_table := (page_table ?s2)(pid \<mapsto> f), disk_manager := d,
         pages := (pages ?s2)[f := (pages ?s2 ! f)\<lparr>page_id := pid, pin_count := 1, is_dirty := False\<rparr>]\<rparr>"
        using run pid(1) pn al 1 rd pins by (auto simp: FetchPage_def act_simps drop_entry_def)
      show ?thesis by (rule io_error [OF out(1) 1(2) _ out(2)]) (use rd Inl pg in simp)
    next
      case (Inr bs)
      then have bs: "bs = disk_page (disk_manager s1) pid" using rs by simp
      have out: "r = Inr f" "s' = ?s2\<lparr>page_table := (page_table ?s2)(pid \<mapsto> f), disk_manager := d,
         pages := (pages ?s2)[f := (pages ?s2 ! f)\<lparr>page_id := pid, pin_count := 1, is_dirty := False,
           page_data := disk_page (disk_manager ?s2) pid\<rparr>]\<rparr>"
        using run pid(1) pn al 1 rd pins Inr bs by (auto simp: FetchPage_def act_simps drop_entry_def)
      show ?thesis by (rule ok [OF out(1) 1(2) _ out(2)]) (use rd Inr bs pg in simp)
    qed
  qed
qed

lemma pins_disk [simp]: "pins (s\<lparr>disk_manager := d\<rparr>) = pins s"
  by (simp add: pins_def fun_eq_iff split: option.splits)

lemma took_pins:
  assumes "took s f s2"
  shows "pins s2 = pins s" and "pins_stay s s2"
    and "page_table s2 q = Some g \<Longrightarrow> page_table s q = Some g \<and> pages s2 ! g = pages s ! g"
    and "page_table s q = None \<Longrightarrow> page_table s2 q = None"
proof -
  have pt: "page_table s2 = (\<lambda>q. if page_table s q = Some f then None else page_table s q)"
    and pg: "\<And>g. g \<noteq> f \<Longrightarrow> pages s2 ! g = pages s ! g" and pin: "pin_count (pages s ! f) = 0"
    using assms by (simp_all add: took_def)
  show "pins s2 = pins s" unfolding pins_def pt using pg pin by (auto simp: fun_eq_iff split: option.splits)
  have "g \<noteq> f" if "pin_count (pages s ! g) \<noteq> 0" for g using that pin by auto
  then show "pins_stay s s2" unfolding pins_stay_def mapped_def pt using pg by auto
  show "page_table s2 q = Some g \<Longrightarrow> page_table s q = Some g \<and> pages s2 ! g = pages s ! g"
    unfolding pt using pg by (auto split: if_splits)
  show "page_table s q = None \<Longrightarrow> page_table s2 q = None" unfolding pt by simp
qed

text \<open>A frame filled: whoever holds another page does not notice.\<close>

lemma install_pins:
  fixes d :: Disk
  assumes t: "took s f s2" and pid: "page_table s pid = None" and P: "page_id P = pid"
  defines "s' \<equiv> s2\<lparr>page_table := (page_table s2)(pid \<mapsto> f), disk_manager := d, pages := (pages s2)[f := P]\<rparr>"
  shows "pins s' = (pins s)(pid := pin_count P)" and "pins_stay s s'" and "page_table s' pid = Some f"
    and "pages s' ! f = P" and "pool_size s' = pool_size s"
proof -
  have inv: "bp_inv_except {f} s2" and f: "f < pool_size s2" and sz: "pool_size s2 = pool_size s"
    and pin: "pin_count (pages s ! f) = 0"
    using t by (simp_all add: took_def)
  note tp = took_pins [OF t]
  have nth: "pages s' ! g = (if g = f then P else pages s2 ! g)" for g
    using f bp_invD(2) [OF inv] by (cases "g = f") (auto simp: s'_def)
  have pt: "page_table s' = (page_table s2)(pid \<mapsto> f)" by (simp add: s'_def)
  have nf: "page_table s2 q \<noteq> Some f" for q using bp_invD(7) [OF inv] by blast
  have "pins s' q = ((pins s2)(pid := pin_count P)) q" for q
    unfolding pins_def pt nth using nf [of q] by (auto split: option.splits)
  then show "pins s' = (pins s)(pid := pin_count P)" unfolding tp(1) by blast
  show "pins_stay s s'"
    unfolding pins_stay_def
  proof (intro allI impI)
    fix g assume g: "g < pool_size s" "pin_count (pages s ! g) \<noteq> 0"
    then have gf: "g \<noteq> f" using pin by auto
    have "page_id (pages s2 ! g) = page_id (pages s ! g) \<and> page_data (pages s2 ! g) = page_data (pages s ! g) \<and>
        (mapped s g \<longrightarrow> mapped s2 g)"
      using tp(2) g unfolding pins_stay_def by blast
    moreover have "mapped s2 g \<Longrightarrow> mapped s' g"
      using pid tp(4) unfolding mapped_def pt nth using gf by auto
    ultimately show "page_id (pages s' ! g) = page_id (pages s ! g) \<and> page_data (pages s' ! g) = page_data (pages s ! g) \<and>
        (mapped s g \<longrightarrow> mapped s' g)"
      using gf unfolding nth by simp
  qed
  show "page_table s' pid = Some f" by (simp add: pt)
  show "pages s' ! f = P" by (simp add: nth)
  show "pool_size s' = pool_size s" by (simp add: s'_def sz)
qed

lemma touch_pins:
  assumes inv: "bp_inv s" and pid: "page_table s pid = Some f"
  shows "pins (touch f k dirty store s) = (pins s)(pid := k)" and "pins_stay s (touch f k dirty store s)"
    and "page_table (touch f k dirty store s) = page_table s"
proof -
  note f = bp_invD(4) [OF inv pid]
  note tp = touch_page [OF inv f, of k dirty store]
  show pt: "page_table (touch f k dirty store s) = page_table s" by (simp add: touch_def)
  have uniq: "page_table s q \<noteq> Some f" if "q \<noteq> pid" for q
    using bp_invD(5) [OF inv, of q f] bp_invD(5) [OF inv pid] that by auto
  show "pins (touch f k dirty store s) = (pins s)(pid := k)"
  proof
    fix q show "pins (touch f k dirty store s) q = ((pins s)(pid := k)) q"
      unfolding pins_def pt tp using pid uniq [of q] by (cases "q = pid") (auto split: option.splits)
  qed
  show "pins_stay s (touch f k dirty store s)" unfolding pins_stay_def mapped_def pt tp by simp
qed

lemma FetchPage_ok:
  assumes inv: "bp_inv s" and pid: "valid_pid pid" and pin: "pins s pid \<noteq> - 1"
    and run: "FetchPage pid s = (Inr f, s')"
  shows "bp_inv s'" and "same_pages s s'" and "page_table s' pid = Some f"
    and "page_data (pages s' ! f) = logical s pid" and "pins s' = (pins s)(pid := pins s pid + 1)"
    and "pins_stay s s'"
proof -
  have "bp_inv s' \<and> same_pages s s' \<and> page_table s' pid = Some f \<and> pins s' = (pins s)(pid := pins s pid + 1) \<and> pins_stay s s'"
  proof (cases "page_table s pid")
    case (Some g)
    have g: "f = g" "s' = touch g (pin_count (pages s ! g) + 1) (is_dirty (pages s ! g)) (Replacer_Pin g (replacer s)) s"
      using FetchPage_hit [OF inv Some] run by auto
    have p: "pin_count (pages s ! g) = pins s pid" by (simp add: pins_def Some)
    have "pins s pid + 1 \<noteq> 0" using pin by (simp add: eq_neg_iff_add_eq_0)
    then show ?thesis
      using touch_inv [OF inv Some, of "Replacer_Pin g (replacer s)" "pins s pid + 1"] touch_pins [OF inv Some]
      unfolding g p by (simp add: Replacer_Pin_evictable same_pages_def Some)
  next
    case None
    show ?thesis
    proof (cases rule: FetchPage_miss [OF inv None pid run])
      case (3 g s2 d)
      have dinv: "disk_inv (disk_manager s2)" using 3(2) bp_invD(1) by (auto simp: took_def)
      note post = ReadPage_spec(1) [OF dinv pid 3(3)]
      let ?P = "(pages s2 ! g)\<lparr>page_id := pid, pin_count := 1, is_dirty := False, page_data := disk_page (disk_manager s2) pid\<rparr>"
      have n2: "page_table s2 pid = None" using took_pins(4) [OF 3(2)] None by simp
      have l: "logical s pid = disk_page (disk_manager s2) pid"
      proof -
        have "logical s2 pid = logical s pid" using 3(2) pid by (simp add: took_def same_pages_def)
        then show ?thesis using n2 by (simp add: logical_def [of s2])
      qed
      have "bp_inv s'" "\<forall>q. valid_pid q \<longrightarrow> logical s' q = (if q = pid then page_data ?P else logical s q)"
        using install_page [OF 3(2) pid n2 _ _ _ post, of ?P] unfolding 3(4) by auto
      then show ?thesis
        using install_pins [OF 3(2) None, where P = ?P and d = d] 3(1) l None unfolding 3(4)
        by (simp add: same_pages_def pins_def [of s pid])
    qed auto
  qed
  then show "bp_inv s'" and sp: "same_pages s s'" and pt: "page_table s' pid = Some f"
    and "pins s' = (pins s)(pid := pins s pid + 1)" and "pins_stay s s'" by blast+
  show "page_data (pages s' ! f) = logical s pid"
    using sp pt pid by (auto simp: same_pages_def logical_def)
qed

lemma FetchPage_err:
  assumes inv: "bp_inv s" and pid: "valid_pid pid" and run: "FetchPage pid s = (Inl e, s')"
  shows "bp_inv s'" and "page_table s pid = None" and "pins_stay s s'"
    and "valid_pid q \<Longrightarrow> q \<noteq> pid \<Longrightarrow> logical s' q = logical s q \<and> pins s' q = pins s q"
proof -
  show None: "page_table s pid = None"
    using FetchPage_hit [OF inv] run by (cases "page_table s pid") auto
  have "bp_inv s' \<and> pins_stay s s' \<and> (valid_pid q \<longrightarrow> q \<noteq> pid \<longrightarrow> logical s' q = logical s q \<and> pins s' q = pins s q)"
  proof (cases rule: FetchPage_miss [OF inv None pid run])
    case 1
    then show ?thesis unfolding same_pages_def pins_stay_def pins_def mapped_def 1(4,5) by blast
  next
    case (2 e' g s2 d)
    have dinv: "disk_inv (disk_manager s2)" using 2(2) bp_invD(1) by (auto simp: took_def)
    note post = ReadPage_spec(1) [OF dinv pid 2(3)]
    let ?P = "(pages s2 ! g)\<lparr>page_id := pid, pin_count := 1, is_dirty := False\<rparr>"
    have n2: "page_table s2 pid = None" using took_pins(4) [OF 2(2)] None by simp
    have z: "page_data ?P = zero_page" using 2(2) by (simp add: took_def)
    show ?thesis
      using install_page [OF 2(2) pid n2 _ _ _ post, where P = ?P] install_pins [OF 2(2) None, where P = ?P and d = d] z
      unfolding 2(4) by simp
  qed auto
  then show "bp_inv s'" and "pins_stay s s'"
    and "valid_pid q \<Longrightarrow> q \<noteq> pid \<Longrightarrow> logical s' q = logical s q \<and> pins s' q = pins s q" by blast+
qed

section \<open>Unpinning, flushing, deleting\<close>

lemma UnpinPage_run:
  assumes inv: "bp_inv s" and pid: "page_table s pid = Some f" and pin: "pins s pid \<noteq> 0"
  shows "UnpinPage pid dirty s = (Inr True,
     touch f (pins s pid - 1) (is_dirty (pages s ! f) \<or> dirty)
       (if pins s pid - 1 = 0 then Replacer_Unpin f (replacer s) else replacer s) s)"
proof -
  have "page_number pid \<noteq> - 1" using bp_invD(8) [OF inv pid] by (auto simp: valid_pid_def)
  moreover have p: "pins s pid = pin_count (pages s ! f)" using pid by (simp add: pins_def)
  moreover note f = bp_invD(4) [OF inv pid] and len = bp_invD(2) [OF inv]
  ultimately show ?thesis
    using pid pin f len
    by (cases dirty; cases "pins s pid - 1 = 0")
       (simp_all add: UnpinPage_def act_simps touch_noop, simp_all add: touch_def)
qed

lemma UnpinPage_spec:
  assumes inv: "bp_inv s" and pid: "page_table s pid = Some f" and pin: "pins s pid \<noteq> 0"
    and honest: "pins s pid = 1 \<Longrightarrow> \<not> dirty \<Longrightarrow> \<not> is_dirty (pages s ! f) \<Longrightarrow>
      page_data (pages s ! f) = disk_page (disk_manager s) pid"
    and run: "UnpinPage pid dirty s = (r, s')"
  shows "r = Inr True" and "bp_inv s'" and "logical s' = logical s" and "pins s' = (pins s)(pid := pins s pid - 1)"
    and "pins_stay s s'" and "page_table s' = page_table s"
    and "is_dirty (pages s' ! f) = (is_dirty (pages s ! f) \<or> dirty)"
    and "disk_manager s' = disk_manager s"
proof -
  define store where "store = (if pins s pid - 1 = 0 then Replacer_Unpin f (replacer s) else replacer s)"
  have out: "r = Inr True" "s' = touch f (pins s pid - 1) (is_dirty (pages s ! f) \<or> dirty) store s"
    using UnpinPage_run [OF inv pid pin] run by (auto simp: store_def)
  have ev: "(g, True) \<in> set (replacer s) \<or> g = f" if "(g, True) \<in> set store" for g
    using that by (auto simp: store_def Replacer_Unpin_evictable split: if_splits)
  have "pins s pid = 1" if "pins s pid - 1 = 0" using that by simp
  then have clean: "page_data (pages s ! f) = disk_page (disk_manager s) pid"
    if "pins s pid - 1 = 0" "\<not> (is_dirty (pages s ! f) \<or> dirty)"
    using that honest by blast
  show "r = Inr True" by (rule out)
  show "bp_inv s'" and "logical s' = logical s"
    using touch_inv(1,2) [OF inv pid ev clean] unfolding out by blast+
  show "pins s' = (pins s)(pid := pins s pid - 1)" and "pins_stay s s'" and "page_table s' = page_table s"
    using touch_pins [OF inv pid] unfolding out by blast+
  show "is_dirty (pages s' ! f) = (is_dirty (pages s ! f) \<or> dirty)"
    using touch_page(4) [OF inv bp_invD(4) [OF inv pid]] unfolding out by simp
  show "disk_manager s' = disk_manager s" unfolding out by (simp add: touch_def)
qed

lemma FlushPage_spec:
  assumes inv: "bp_inv s" and run: "FlushPage pid s = (r, s')"
  shows "bp_inv s'" and "same_pages s s'" and "page_table s' = page_table s" and "pins s' = pins s"
    and "r = Inr True \<Longrightarrow> disk_page (disk_manager s') pid = logical s pid"
    and "r = Inr True \<or> r = Inr False \<or> (\<exists>e. r = Inl e)"
    and "r = Inr False \<longleftrightarrow> page_table s pid = None"
    and "pool_size s' = pool_size s" and "page_id (pages s' ! g) = page_id (pages s ! g)"
    and "valid_pid q \<Longrightarrow> q \<noteq> pid \<Longrightarrow> disk_page (disk_manager s') q = disk_page (disk_manager s) q"
proof -
  have "bp_inv s' \<and> same_pages s s' \<and> page_table s' = page_table s \<and> pins s' = pins s \<and>
     pool_size s' = pool_size s \<and> page_id (pages s' ! g) = page_id (pages s ! g) \<and>
     (valid_pid q \<longrightarrow> q \<noteq> pid \<longrightarrow> disk_page (disk_manager s') q = disk_page (disk_manager s) q) \<and>
     (r = Inr True \<longrightarrow> disk_page (disk_manager s') pid = logical s pid) \<and> (r = Inr False \<longleftrightarrow> page_table s pid = None)"
  proof (cases "page_table s pid")
    case None
    then show ?thesis using run inv by (auto simp: FlushPage_def act_simps same_pages_def)
  next
    case (Some f)
    note f = bp_invD(4) [OF inv Some] and v = bp_invD(8) [OF inv Some] and len = bp_invD(2) [OF inv]
    obtain rw d where w: "WritePage pid (page_data (pages s ! f)) (disk_manager s) = (rw, d)" by fastforce
    note ws = WritePage_spec [OF bp_invD(1) [OF inv] v bp_invD(3) [OF inv f] w]
    let ?s1 = "s\<lparr>disk_manager := d\<rparr>"
    have l: "logical s pid = page_data (pages s ! f)" by (simp add: logical_def Some)
    have disk: "disk_page d q = (if q = pid \<and> rw = Inr () then page_data (pages s ! f) else disk_page (disk_manager s) q)"
      if "valid_pid q" for q
      using ws that by (cases rw) (auto simp: disk_post_def)
    have inv1: "bp_inv ?s1"
    proof -
      have "table_inv {} ?s1" "free_inv {} ?s1" "data_inv ?s1" "replacer_inv {} ?s1"
        using inv by (simp_all add: bp_inv_except_def table_inv_def free_inv_def data_inv_def replacer_inv_def mapped_def)
      moreover have "clean_inv ?s1"
        unfolding clean_inv_def
      proof (intro allI impI)
        fix q g assume a: "page_table ?s1 q = Some g" "pin_count (pages ?s1 ! g) = 0" "\<not> is_dirty (pages ?s1 ! g)"
        then have "page_data (pages s ! g) = disk_page (disk_manager s) q" "valid_pid q" "q = pid \<longrightarrow> g = f"
          using bp_invD(11,8) [OF inv, of q g] Some by auto
        then show "page_data (pages ?s1 ! g) = disk_page (disk_manager ?s1) q" using disk [of q] by auto
      qed
      moreover have "disk_inv d" using ws by (simp add: disk_post_def)
      ultimately show ?thesis by (simp add: bp_inv_except_def)
    qed
    have sp1: "same_pages s ?s1"
      unfolding same_pages_def logical_def using disk Some by (auto split: option.splits)
    show ?thesis
    proof (cases rw)
      case (Inl e)
      then have "r = Inl e" "s' = ?s1" using run Some f len w by (auto simp: FlushPage_def act_simps)
      then show ?thesis using inv1 sp1 Some disk [of q] by simp
    next
      case (Inr u)
      have out: "r = Inr True" "s' = touch f (pin_count (pages s ! f)) False (replacer s) ?s1"
        using run Some f len w Inr touch_noop(4) [of ?s1 f False] by (auto simp: FlushPage_def act_simps)
      have Some1: "page_table ?s1 pid = Some f" using Some by simp
      have c: "page_data (pages ?s1 ! f) = disk_page (disk_manager ?s1) pid" using disk [OF v] Inr by simp
      have st: "(g, True) \<in> set (replacer s) \<Longrightarrow> (g, True) \<in> set (replacer ?s1) \<or> g = f" for g by simp
      note ti = touch_inv(1,2) [OF inv1 Some1 st c, where k = "pin_count (pages s ! f)" and dirty = False]
      note tp = touch_pins [OF inv1 Some1, of "pin_count (pages s ! f)" False "replacer s"]
      have "pins s pid = pin_count (pages s ! f)" by (simp add: pins_def Some)
      then have "pins s' = pins s" using tp(1) out(2) by (simp add: fun_upd_idem)
      moreover have "disk_manager s' = d" "pool_size s' = pool_size s" by (simp_all add: out touch_def)
      moreover have "page_id (pages s' ! g) = page_id (pages s ! g)"
        using touch_page(1) [OF inv1, of f] f unfolding out by simp
      ultimately show ?thesis
        using ti tp sp1 out Some disk [OF v] disk [of q] Inr l by (simp add: same_pages_def)
    qed
  qed
  then show "bp_inv s'" and "same_pages s s'" and "page_table s' = page_table s" and "pins s' = pins s"
    and "r = Inr True \<Longrightarrow> disk_page (disk_manager s') pid = logical s pid"
    and "r = Inr False \<longleftrightarrow> page_table s pid = None"
    and "pool_size s' = pool_size s" and "page_id (pages s' ! g) = page_id (pages s ! g)"
    and "valid_pid q \<Longrightarrow> q \<noteq> pid \<Longrightarrow> disk_page (disk_manager s') q = disk_page (disk_manager s) q"
    by blast+
  show "r = Inr True \<or> r = Inr False \<or> (\<exists>e. r = Inl e)" by (cases r) auto
qed

text \<open>Flushing a run of frames brings the disk up to date with each of them.\<close>

definition flushed :: "BufferPool \<Rightarrow> nat \<Rightarrow> bool" where
  "flushed s f \<longleftrightarrow> (mapped s f \<longrightarrow>
     disk_page (disk_manager s) (page_id (pages s ! f)) = logical s (page_id (pages s ! f)))"

lemma FlushPage_flushed:
  assumes inv: "bp_inv s" and run: "FlushPage (page_id (pages s ! i)) s = (Inr b, s')"
  shows "flushed s' i" and "flushed s f \<Longrightarrow> flushed s' f"
proof -
  note fp = FlushPage_spec [OF inv run]
  have up: "disk_page (disk_manager s') q = logical s' q"
    if q: "page_table s q \<noteq> None" "q = page_id (pages s ! i) \<or> disk_page (disk_manager s) q = logical s q" for q
  proof -
    have v: "valid_pid q" using bp_invD(8) [OF inv] q(1) by blast
    have "logical s' q = logical s q" using fp(2) v by (simp add: same_pages_def)
    moreover have "disk_page (disk_manager s') q = logical s q"
      using fp(5,7) fp(10) [OF v] q by (cases b; cases "q = page_id (pages s ! i)") auto
    ultimately show ?thesis by simp
  qed
  show "flushed s' i"
    unfolding flushed_def mapped_def fp(3,9) using up by auto
  show "flushed s f \<Longrightarrow> flushed s' f"
    unfolding flushed_def mapped_def fp(3,9) using up by auto
qed

lemma FlushFrames_spec:
  assumes "bp_inv s" and "FlushFrames js s = (r, s')"
  shows "bp_inv s' \<and> same_pages s s' \<and> page_table s' = page_table s \<and> pins s' = pins s \<and> pool_size s' = pool_size s \<and>
     (r = Inr () \<longrightarrow> (\<forall>f. f \<in> set js \<or> flushed s f \<longrightarrow> flushed s' f))"
  using assms
proof (induction js arbitrary: s)
  case Nil
  then show ?case by (auto simp: act_simps same_pages_def)
next
  case (Cons i js)
  show ?case
  proof (cases "i < length (pages s)")
    case False
    then show ?thesis using Cons.prems by (auto simp: act_simps same_pages_def)
  next
    case True
    obtain r1 s1 where fl: "FlushPage (page_id (pages s ! i)) s = (r1, s1)" by fastforce
    note fp = FlushPage_spec [OF Cons.prems(1) fl]
    show ?thesis
    proof (cases r1)
      case (Inl e)
      then have "r = Inl e" "s' = s1" using Cons.prems(2) True fl by (auto simp: act_simps)
      then show ?thesis using fp by simp
    next
      case (Inr b)
      then have "FlushFrames js s1 = (r, s')" using Cons.prems(2) True fl by (simp add: act_simps)
      from Cons.IH [OF fp(1) this] show ?thesis
        using fp(2,3,4,8) FlushPage_flushed [OF Cons.prems(1) fl [unfolded Inr]]
        by (auto simp: same_pages_def)
    qed
  qed
qed

lemma DeletePage_spec:
  assumes inv: "bp_inv s" and run: "DeletePage pid s = (r, s')"
  shows "bp_inv s'" and "r = Inr (pins s pid = 0)"
    and "valid_pid q \<Longrightarrow> q \<noteq> pid \<Longrightarrow> logical s' q = logical s q \<and> pins s' q = pins s q"
    and "pins s pid = 0 \<Longrightarrow> page_table s' pid = None" and "pins s pid \<noteq> 0 \<Longrightarrow> s' = s"
proof -
  have "bp_inv s' \<and> r = Inr (pins s pid = 0) \<and>
     (valid_pid q \<longrightarrow> q \<noteq> pid \<longrightarrow> logical s' q = logical s q \<and> pins s' q = pins s q) \<and>
     (pins s pid = 0 \<longrightarrow> page_table s' pid = None) \<and> (pins s pid \<noteq> 0 \<longrightarrow> s' = s)"
  proof (cases "page_table s pid")
    case None
    then show ?thesis using run inv by (auto simp: DeletePage_def act_simps pins_def)
  next
    case (Some f)
    note f = bp_invD(4) [OF inv Some] and len = bp_invD(2) [OF inv]
    have p: "pins s pid = pin_count (pages s ! f)" by (simp add: pins_def Some)
    show ?thesis
    proof (cases "pin_count (pages s ! f) = 0")
      case False
      then show ?thesis using run inv Some f len p by (auto simp: DeletePage_def act_simps word_neq_0_conv)
    next
      case True
      define P where "P = (pages s ! f)\<lparr>page_data := zero_page, page_id := (page_id (pages s ! f))\<lparr>page_number := - 1\<rparr>,
        pin_count := 0, is_dirty := False\<rparr>"
      have out: "r = Inr True" "s' = s\<lparr>page_table := (page_table s)(pid := None), free_list := free_list s @ [f],
          pages := (pages s)[f := P]\<rparr>"
        using run Some f len True by (auto simp: DeletePage_def act_simps P_def ResetMemory_def)
      have nth: "(pages s)[f := P] ! g = (if g = f then P else pages s ! g)" for g
        using f len by (cases "g = f") auto
      have P: "page_data P = zero_page" "page_number (page_id P) = - 1" "pin_count P = 0"
        by (simp_all add: P_def)
      have fields: "pages s' = (pages s)[f := P]" "disk_manager s' = disk_manager s"
        "page_table s' = (page_table s)(pid := None)" "pool_size s' = pool_size s"
        "free_list s' = free_list s @ [f]" "replacer s' = replacer s" by (simp_all add: out)
      have pt: "page_table s q = Some g \<and> g \<noteq> f \<and> q \<noteq> pid" if "page_table s' q = Some g" for q g
        using that bp_invD(5) [OF inv, of q g] bp_invD(5) [OF inv Some] by (auto simp: fields split: if_splits)
      have "table_inv {} s'"
        unfolding table_inv_def
      proof (intro allI impI)
        fix q g assume "page_table s' q = Some g"
        note b = pt [OF this]
        then show "g < pool_size s' \<and> page_id (pages s' ! g) = q \<and> g \<notin> set (free_list s') \<and> g \<notin> {} \<and> valid_pid q"
          using bp_invD(4,5,6,8) [OF inv, of q g] unfolding fields nth by simp
      qed
      moreover have "free_inv {} s'"
        unfolding free_inv_def fields nth using bp_invD(12-16) [OF inv] bp_invD(6) [OF inv Some] P f by auto
      moreover have "mapped s' g" if "mapped s g" "g \<noteq> f" for g
        using that bp_invD(5) [OF inv Some] Some unfolding mapped_def fields nth by auto
      then have "replacer_inv {} s'"
        unfolding replacer_inv_def using bp_invD(9,10) [OF inv] by (fastforce simp: fields)
      moreover have "data_inv s'"
        unfolding data_inv_def fields nth using len bp_invD(3) [OF inv] P by auto
      moreover have "clean_inv s'"
        unfolding clean_inv_def
      proof (intro allI impI)
        fix q g assume a: "page_table s' q = Some g" "pin_count (pages s' ! g) = 0" "\<not> is_dirty (pages s' ! g)"
        note b = pt [OF a(1)]
        then show "page_data (pages s' ! g) = disk_page (disk_manager s') q"
          using a(2,3) bp_invD(11) [OF inv, of q g] unfolding fields nth by simp
      qed
      ultimately have "bp_inv s'" unfolding bp_inv_except_def fields using bp_invD(1) [OF inv] by simp
      moreover have "logical s' q = logical s q \<and> pins s' q = pins s q" if "q \<noteq> pid"
        using that bp_invD(5) [OF inv, of q f] bp_invD(5) [OF inv Some]
        unfolding logical_def pins_def fields nth by (auto split: option.splits)
      ultimately show ?thesis using out(1) True p by (simp add: fields)
    qed
  qed
  then show "bp_inv s'" and "r = Inr (pins s pid = 0)"
    and "valid_pid q \<Longrightarrow> q \<noteq> pid \<Longrightarrow> logical s' q = logical s q \<and> pins s' q = pins s q"
    and "pins s pid = 0 \<Longrightarrow> page_table s' pid = None" and "pins s pid \<noteq> 0 \<Longrightarrow> s' = s" by blast+
qed

section \<open>New pages\<close>

lemma took_pin:
  assumes "took s f s2"
  shows "took s f (s2\<lparr>replacer := Replacer_Pin f (replacer s2)\<rparr>)"
proof -
  let ?s = "s2\<lparr>replacer := Replacer_Pin f (replacer s2)\<rparr>"
  have inv: "bp_inv_except {f} s2" using assms by (simp add: took_def)
  have mp: "mapped ?s g = mapped s2 g" for g by (simp add: mapped_def)
  have "replacer_inv {f} ?s"
    unfolding replacer_inv_def mp using bp_invD(9,10) [OF inv] by (auto simp: Replacer_Pin_evictable)
  moreover have "table_inv {f} ?s" "free_inv {f} ?s" "data_inv ?s" "clean_inv ?s"
    using inv by (simp_all add: bp_inv_except_def table_inv_def free_inv_def data_inv_def clean_inv_def)
  ultimately have "bp_inv_except {f} ?s" using bp_invD(1) [OF inv] by (simp add: bp_inv_except_def)
  moreover have l: "logical ?s = logical s2" by (simp add: logical_def fun_eq_iff split: option.splits)
  have fields: "pages ?s = pages s2" "page_table ?s = page_table s2" "disk_manager ?s = disk_manager s2"
    "pool_size ?s = pool_size s2" "free_list ?s = free_list s2" by simp_all
  ultimately show ?thesis using assms unfolding took_def same_pages_def fields l by blast
qed

lemma NewPage_frame_spec:
  assumes inv: "bp_inv s" and run: "NewPage_frame s = (r, s')"
  obtains (got) f where "r = Inr f" and "took s f s'"
  | (not_got) "\<exists>e. r = Inl e" and "bp_inv s'" and "same_pages s s'" and "pages s' = pages s" and "page_table s' = page_table s"
proof -
  obtain ra s1 where al: "AllocateFrame s = (ra, s1)" by fastforce
  show ?thesis
  proof (cases rule: AllocateFrame_spec [OF inv al])
    case 2
    have "s' = s1" "\<exists>e. r = Inl e"
      using run al 2(1) by (cases ra; auto simp: NewPage_frame_def act_simps split: option.splits)+
    then show ?thesis using not_got 2 by blast
  next
    case (1 f)
    have out: "r = Inr f" "s' = (drop_entry f s1)\<lparr>replacer := Replacer_Pin f (replacer (drop_entry f s1))\<rparr>"
      using run al 1 by (auto simp: NewPage_frame_def act_simps drop_entry_def)
    show ?thesis by (rule got [OF out(1)]) (use took_pin [OF 1(2)] out(2) in simp)
  qed
qed

lemma NewPage_install_run:
  assumes t: "took s f s2" and pid: "valid_pid pid" "page_table s pid = None"
  shows "NewPage_install f pid s2 = (Inr (), s2\<lparr>page_table := (page_table s2)(pid \<mapsto> f), disk_manager := disk_manager s2,
     pages := (pages s2)[f := (pages s2 ! f)\<lparr>page_id := pid, pin_count := 1, is_dirty := False, page_data := zero_page\<rparr>]\<rparr>)"
proof -
  have inv: "bp_inv_except {f} s2" and f: "f < pool_size s2" using t by (simp_all add: took_def)
  have "page_id (pages s2 ! f) \<noteq> pid"
    using t pid by (auto simp: took_def valid_pid_def)
  moreover have "page_table s2 (page_id (pages s2 ! f)) = None" using t unfolding took_def by blast
  moreover have "t\<lparr>page_table := pt, disk_manager := disk_manager t, pages := ps\<rparr> = t\<lparr>page_table := pt, pages := ps\<rparr>" for t pt ps
    by (cases t) simp
  ultimately show ?thesis
    using f bp_invD(2) [OF inv] by (simp add: NewPage_install_def act_simps ResetMemory_def)
qed

lemma NewPage_spec:
  assumes inv: "bp_inv s" and alloc: "AllocatePage a = (Inr pid, a')"
    and pid: "valid_pid pid" "page_table s pid = None" "disk_page (disk_manager s) pid = zero_page"
    and run: "NewPage AllocatePage (s, a) = (r, (s', a''))"
  obtains (got) f where "r = Inr (f, pid)" "a'' = a'" "bp_inv s'" "same_pages s s'" "page_table s' pid = Some f"
      "page_data (pages s' ! f) = zero_page" "pins s' = (pins s)(pid := 1)" "pins_stay s s'"
  | (not_got) "\<exists>e. r = Inl e" "a'' = a" "bp_inv s'" "same_pages s s'" "pins s' = pins s" "pins_stay s s'"
proof -
  obtain rf s2 where fr: "NewPage_frame s = (rf, s2)" by fastforce
  show ?thesis
  proof (cases rule: NewPage_frame_spec [OF inv fr])
    case 2
    then have "\<exists>e. r = Inl e" "s' = s2" "a'' = a" using run fr by (auto simp: NewPage_def zoom_def bind_def)
    then show ?thesis using not_got 2 unfolding pins_stay_def pins_def mapped_def by metis
  next
    case (1 f)
    let ?P = "(pages s2 ! f)\<lparr>page_id := pid, pin_count := 1, is_dirty := False, page_data := zero_page\<rparr>"
    let ?s = "s2\<lparr>page_table := (page_table s2)(pid \<mapsto> f), disk_manager := disk_manager s2, pages := (pages s2)[f := ?P]\<rparr>"
    have n2: "page_table s2 pid = None" using took_pins(4) [OF 1(2) pid(2)] .
    have dinv: "disk_inv (disk_manager s2)" using 1(2) bp_invD(1) by (auto simp: took_def)
    have post: "disk_post (disk_manager s2) (disk_page (disk_manager s2)) (disk_manager s2)"
      using dinv by (intro same_view_post) simp
    have l: "logical s pid = zero_page" using pid by (simp add: logical_def)
    have out: "r = Inr (f, pid)" "s' = ?s" "a'' = a'"
      using run fr 1(1) alloc NewPage_install_run [OF 1(2) pid(1,2)]
      by (auto simp: NewPage_def zoom_def bind_def ret_def)
    have "bp_inv s'" "same_pages s s'"
      using install_page [OF 1(2) pid(1) n2 _ _ _ post, where P = ?P] l unfolding out same_pages_def by auto
    with got out install_pins [OF 1(2) pid(2), where P = ?P and d = "disk_manager s2"] show ?thesis by simp
  qed
qed

lemma mk_BufferPool_inv:
  assumes "disk_inv d"
  shows "bp_inv (mk_BufferPool n d)" and "logical (mk_BufferPool n d) = disk_page d" and "pins (mk_BufferPool n d) pid = 0"
  using assms by (auto simp: bp_inv_defs mk_BufferPool_def mk_Page_def default_page_id_def logical_def pins_def mapped_def fun_eq_iff)

section \<open>Sequences of operations\<close>

text \<open>
  The steps a client may take, successful calls only, each with what the code expects of its
  caller: page numbers below \<open>2 ^ 20\<close>, pin counts that do not wrap, an allocator that hands out
  page ids nobody uses, writes only to pages that are pinned, and an honest dirty flag.
\<close>

datatype pool_op = OpFetch PageId | OpUnpin PageId bool | OpFlush PageId | OpFlushAll | OpNew PageId | OpWrite PageId bytes

definition write_frame :: "nat \<Rightarrow> bytes \<Rightarrow> BufferPool \<Rightarrow> BufferPool" where
  "write_frame f bs s = s\<lparr>pages := (pages s)[f := (pages s ! f)\<lparr>page_data := bs\<rparr>]\<rparr>"

inductive pool_step :: "pool_op \<Rightarrow> BufferPool \<Rightarrow> BufferPool \<Rightarrow> bool" where
  fetch: "valid_pid pid \<Longrightarrow> pins s pid \<noteq> - 1 \<Longrightarrow> FetchPage pid s = (Inr f, s') \<Longrightarrow> pool_step (OpFetch pid) s s'"
| unpin: "page_table s pid = Some f \<Longrightarrow> pins s pid \<noteq> 0 \<Longrightarrow>
    dirty \<or> is_dirty (pages s ! f) \<or> page_data (pages s ! f) = disk_page (disk_manager s) pid \<Longrightarrow>
    UnpinPage pid dirty s = (Inr b, s') \<Longrightarrow> pool_step (OpUnpin pid dirty) s s'"
| flush: "FlushPage pid s = (Inr b, s') \<Longrightarrow> pool_step (OpFlush pid) s s'"
| flush_all: "FlushAllPages s = (Inr (), s') \<Longrightarrow> pool_step OpFlushAll s s'"
| new: "AllocatePage a = (Inr pid, a') \<Longrightarrow> valid_pid pid \<Longrightarrow> page_table s pid = None \<Longrightarrow>
    disk_page (disk_manager s) pid = zero_page \<Longrightarrow>
    NewPage AllocatePage (s, a :: int) = (Inr r, (s', a'')) \<Longrightarrow> pool_step (OpNew pid) s s'"
| store: "page_table s pid = Some f \<Longrightarrow> pins s pid \<noteq> 0 \<Longrightarrow> length bs = PAGE_SIZE \<Longrightarrow>
    s' = write_frame f bs s \<Longrightarrow> pool_step (OpWrite pid bs) s s'"

inductive_cases pool_stepE: "pool_step op s s'"

text \<open>The specification: only a write changes a page, and it changes that page only.\<close>

fun spec_step :: "pool_op \<Rightarrow> (PageId \<Rightarrow> bytes) \<Rightarrow> PageId \<Rightarrow> bytes" where
  "spec_step (OpWrite pid bs) m = m(pid := bs)"
| "spec_step _ m = m"

inductive pool_steps :: "pool_op list \<Rightarrow> BufferPool \<Rightarrow> BufferPool \<Rightarrow> bool" where
  none: "pool_steps [] s s"
| more: "pool_step op s s' \<Longrightarrow> pool_steps ops s' s'' \<Longrightarrow> pool_steps (op # ops) s s''"

text \<open>Writing to a page is safe while someone holds it, and also later if it is marked dirty already.\<close>

lemma write_frame_loose:
  assumes inv: "bp_inv s" and pid: "page_table s pid = Some f" and pin: "pins s pid \<noteq> 0 \<or> is_dirty (pages s ! f)"
    and bs: "length bs = PAGE_SIZE"
  shows "bp_inv (write_frame f bs s)" and "logical (write_frame f bs s) = (logical s)(pid := bs)"
    and "pins (write_frame f bs s) = pins s" and "page_table (write_frame f bs s) = page_table s"
    and "disk_manager (write_frame f bs s) = disk_manager s"
    and "pages (write_frame f bs s) ! g = (if g = f then (pages s ! f)\<lparr>page_data := bs\<rparr> else pages s ! g)"
proof -
  let ?s = "write_frame f bs s"
  note f = bp_invD(4) [OF inv pid] and len = bp_invD(2) [OF inv] and nf = bp_invD(6) [OF inv pid]
  have p: "pin_count (pages s ! f) \<noteq> 0 \<or> is_dirty (pages s ! f)" using pin pid by (simp add: pins_def)
  show nth: "pages ?s ! g = (if g = f then (pages s ! f)\<lparr>page_data := bs\<rparr> else pages s ! g)" for g
    using f len by (cases "g = f") (auto simp: write_frame_def)
  then have sel: "page_id (pages ?s ! g) = page_id (pages s ! g)" "pin_count (pages ?s ! g) = pin_count (pages s ! g)"
    "is_dirty (pages ?s ! g) = is_dirty (pages s ! g)"
    "page_data (pages ?s ! g) = (if g = f then bs else page_data (pages s ! g))" for g by auto
  show pt: "page_table ?s = page_table s" and dm: "disk_manager ?s = disk_manager s" by (simp_all add: write_frame_def)
  have fields: "pool_size ?s = pool_size s" "free_list ?s = free_list s" "replacer ?s = replacer s"
    "length (pages ?s) = length (pages s)" by (simp_all add: write_frame_def)
  have mp: "mapped ?s g = mapped s g" for g unfolding mapped_def pt sel ..
  have "table_inv {} ?s" "replacer_inv {} ?s"
    using inv unfolding bp_inv_except_def table_inv_def replacer_inv_def pt fields sel mp by blast+
  moreover have "free_inv {} ?s"
    unfolding free_inv_def fields sel using bp_invD(12-16) [OF inv] nf by auto
  moreover have "data_inv ?s" unfolding data_inv_def fields sel using len bp_invD(3) [OF inv] bs by simp
  moreover have "clean_inv ?s"
    unfolding clean_inv_def pt dm sel
  proof (intro allI impI)
    fix q g assume a: "page_table s q = Some g" "pin_count (pages s ! g) = 0" "\<not> is_dirty (pages s ! g)"
    then show "(if g = f then bs else page_data (pages s ! g)) = disk_page (disk_manager s) q"
      using p bp_invD(11) [OF inv a] by auto
  qed
  ultimately show "bp_inv ?s" unfolding bp_inv_except_def dm using bp_invD(1) [OF inv] by simp
  show "pins ?s = pins s" unfolding pins_def pt sel ..
  have uniq: "page_table s q \<noteq> Some f" if "q \<noteq> pid" for q
    using bp_invD(5) [OF inv, of q f] bp_invD(5) [OF inv pid] that by auto
  show "logical ?s = (logical s)(pid := bs)"
  proof
    fix q show "logical ?s q = ((logical s)(pid := bs)) q"
      unfolding logical_def pt dm sel using uniq [of q] pid by (cases "q = pid") (auto split: option.splits)
  qed
qed

lemma write_frame_spec:
  assumes "bp_inv s" and "page_table s pid = Some f" and "pins s pid \<noteq> 0" and "length bs = PAGE_SIZE"
  shows "bp_inv (write_frame f bs s)" and "logical (write_frame f bs s) = (logical s)(pid := bs)"
    and "pins (write_frame f bs s) = pins s" and "page_table (write_frame f bs s) = page_table s"
    and "disk_manager (write_frame f bs s) = disk_manager s"
    and "pages (write_frame f bs s) ! g = (if g = f then (pages s ! f)\<lparr>page_data := bs\<rparr> else pages s ! g)"
  using write_frame_loose [OF assms(1,2) disjI1 [OF assms(3)] assms(4)] by simp_all

lemma pool_step_refines:
  assumes "pool_step op s s'" and inv: "bp_inv s"
  shows "bp_inv s'" and "valid_pid q \<Longrightarrow> logical s' q = spec_step op (logical s) q"
proof -
  have "bp_inv s' \<and> (valid_pid q \<longrightarrow> logical s' q = spec_step op (logical s) q)"
    using assms(1)
  proof cases
    case (fetch pid f)
    then show ?thesis using FetchPage_ok(1,2) [OF inv fetch(2,3,4)] by (simp add: same_pages_def)
  next
    case (unpin pid f dirty b)
    then show ?thesis using UnpinPage_spec(2,3) [OF inv unpin(2,3) _ unpin(5)] by auto
  next
    case (flush pid b)
    then show ?thesis using FlushPage_spec(1,2) [OF inv] by (auto simp: same_pages_def)
  next
    case flush_all
    then have "FlushFrames [0..<pool_size s] s = (Inr (), s')" by (simp add: FlushAllPages_def act_simps)
    then show ?thesis using FlushFrames_spec [OF inv] flush_all(1) by (auto simp: same_pages_def)
  next
    case (new AllocatePage a pid a' r a'')
    show ?thesis
      by (cases rule: NewPage_spec [OF inv new(2-6)]) (use new(1) in \<open>auto simp: same_pages_def\<close>)
  next
    case (store pid f bs)
    then show ?thesis using write_frame_spec(1,2) [OF inv store(2,3,4)] by simp
  qed
  then show "bp_inv s'" and "valid_pid q \<Longrightarrow> logical s' q = spec_step op (logical s) q" by blast+
qed

lemma spec_step_cong: "(\<And>q. valid_pid q \<Longrightarrow> m q = m' q) \<Longrightarrow> valid_pid q \<Longrightarrow> spec_step op m q = spec_step op m' q"
  by (cases op) auto

lemma pool_steps_refine:
  assumes "pool_steps ops s s'" and "bp_inv s" and "\<And>q. valid_pid q \<Longrightarrow> logical s q = m q"
  shows "bp_inv s' \<and> (\<forall>q. valid_pid q \<longrightarrow> logical s' q = fold spec_step ops m q)"
  using assms
proof (induction arbitrary: m rule: pool_steps.induct)
  case (more op s s' ops s'')
  have "logical s' q = spec_step op m q" if "valid_pid q" for q
    using pool_step_refines(2) [OF more.hyps(1) more.prems(1) that] spec_step_cong [OF more.prems(2) that] by simp
  then show ?case using more.IH pool_step_refines(1) [OF more.hyps(1) more.prems(1)] by simp
qed simp

end
