(* ===== verification/PageGuards.thy ===== *)
theory PageGuards
  imports BufferPools
begin

text \<open>
  Page guards: \<^verbatim>\<open>storage/page/page_guard.hpp\<close>, \<^verbatim>\<open>storage/page/page_guard.cpp\<close>, the latches of
  \<^verbatim>\<open>common/rwlatch.hpp\<close> and the guarded operations at the end of \<^verbatim>\<open>buffer_pool.cpp\<close>.

  A guard is a frame (its \<^verbatim>\<open>page_\<close> pointer, with \<^verbatim>\<open>bpm_\<close> set exactly when it is) and a dirty
  flag. The runs modelled are those of one thread: waiting for a latch nobody else can release is
  the error \<open>Deadlock\<close>, releasing one that is not held is undefined behaviour. \<open>scoped\<close> is
  scope exit: the destructor runs on the exceptional path too.
\<close>

section \<open>Latches\<close>

definition WLatch :: "nat \<Rightarrow> (BufferPool, unit) action" where
  "WLatch f = bind (page_at f) (\<lambda>p. case rwlatch p of
     Unlatched \<Rightarrow> update_page f (\<lambda>p. p\<lparr>rwlatch := WriteLatched\<rparr>)
   | _ \<Rightarrow> throw Deadlock)"

definition RLatch :: "nat \<Rightarrow> (BufferPool, unit) action" where
  "RLatch f = bind (page_at f) (\<lambda>p. case rwlatch p of
     Unlatched \<Rightarrow> update_page f (\<lambda>p. p\<lparr>rwlatch := ReadLatched 1\<rparr>)
   | ReadLatched n \<Rightarrow> update_page f (\<lambda>p. p\<lparr>rwlatch := ReadLatched (n + 1)\<rparr>)
   | WriteLatched \<Rightarrow> throw Deadlock)"

definition WUnlatch :: "nat \<Rightarrow> (BufferPool, unit) action" where
  "WUnlatch f = bind (page_at f) (\<lambda>p. case rwlatch p of
     WriteLatched \<Rightarrow> update_page f (\<lambda>p. p\<lparr>rwlatch := Unlatched\<rparr>)
   | _ \<Rightarrow> throw (UndefinedBehaviour ''unlock of a mutex not owned''))"

definition RUnlatch :: "nat \<Rightarrow> (BufferPool, unit) action" where
  "RUnlatch f = bind (page_at f) (\<lambda>p. case rwlatch p of
     ReadLatched n \<Rightarrow> update_page f (\<lambda>p. p\<lparr>rwlatch := (if n \<le> 1 then Unlatched else ReadLatched (n - 1))\<rparr>)
   | _ \<Rightarrow> throw (UndefinedBehaviour ''unlock_shared of a mutex not owned''))"

section \<open>Guards\<close>

record PageGuard =
  guard_page :: "nat option"
  guard_dirty :: bool

definition mk_guard :: "nat \<Rightarrow> PageGuard" where
  "mk_guard f = \<lparr>guard_page = Some f, guard_dirty = False\<rparr>"

definition empty_guard :: PageGuard where
  "empty_guard = \<lparr>guard_page = None, guard_dirty = False\<rparr>"

definition deref :: "PageGuard \<Rightarrow> ('s, nat) action" where
  "deref g = (case guard_page g of None \<Rightarrow> throw (UndefinedBehaviour ''null page_'') | Some f \<Rightarrow> ret f)"

definition Basic_Drop :: "PageGuard \<Rightarrow> (BufferPool, PageGuard) action" where
  "Basic_Drop g = (case guard_page g of
     None \<Rightarrow> ret g
   | Some f \<Rightarrow>
       bind (page_at f) (\<lambda>p.
       bind (UnpinPage (page_id p) (guard_dirty g)) (\<lambda>_.
       ret (g\<lparr>guard_page := None\<rparr>))))"

definition Read_Drop :: "PageGuard \<Rightarrow> (BufferPool, PageGuard) action" where
  "Read_Drop g =
     bind (case guard_page g of None \<Rightarrow> ret () | Some f \<Rightarrow> RUnlatch f) (\<lambda>_. Basic_Drop g)"

definition Write_Drop :: "PageGuard \<Rightarrow> (BufferPool, PageGuard) action" where
  "Write_Drop g =
     bind (case guard_page g of None \<Rightarrow> ret () | Some f \<Rightarrow> WUnlatch f) (\<lambda>_. Basic_Drop g)"

text \<open>Moves return the guard moved to and the one moved from.\<close>

definition guard_move :: "PageGuard \<Rightarrow> PageGuard \<times> PageGuard" where
  "guard_move that = (that, that\<lparr>guard_page := None\<rparr>)"

definition Basic_assign :: "PageGuard \<Rightarrow> PageGuard \<Rightarrow> (BufferPool, PageGuard \<times> PageGuard) action" where
  "Basic_assign this that = bind (Basic_Drop this) (\<lambda>_. ret (guard_move that))"

definition Read_assign :: "PageGuard \<Rightarrow> PageGuard \<Rightarrow> (BufferPool, PageGuard \<times> PageGuard) action" where
  "Read_assign this that = bind (Read_Drop this) (\<lambda>this. Basic_assign this that)"

definition Write_assign :: "PageGuard \<Rightarrow> PageGuard \<Rightarrow> (BufferPool, PageGuard \<times> PageGuard) action" where
  "Write_assign this that = bind (Write_Drop this) (\<lambda>this. Basic_assign this that)"

text \<open>The upgrades build a new guard from the page: the old guard's dirty flag stays behind.\<close>

definition UpgradeRead :: "PageGuard \<Rightarrow> (BufferPool, PageGuard \<times> PageGuard) action" where
  "UpgradeRead g = bind (deref g) (\<lambda>f. bind (RLatch f) (\<lambda>_. ret (mk_guard f, g\<lparr>guard_page := None\<rparr>)))"

definition UpgradeWrite :: "PageGuard \<Rightarrow> (BufferPool, PageGuard \<times> PageGuard) action" where
  "UpgradeWrite g = bind (deref g) (\<lambda>f. bind (WLatch f) (\<lambda>_. ret (mk_guard f, g\<lparr>guard_page := None\<rparr>)))"

definition Read_UpgradeWrite :: "PageGuard \<Rightarrow> (BufferPool, PageGuard \<times> PageGuard) action" where
  "Read_UpgradeWrite g = bind (deref g) (\<lambda>f. bind (RUnlatch f) (\<lambda>_. UpgradeWrite g))"

definition guard_PageId :: "PageGuard \<Rightarrow> (BufferPool, int) action" where
  "guard_PageId g = bind (deref g) (\<lambda>f. bind (page_at f) (\<lambda>p. ret (page_number (page_id p))))"

definition guard_GetData :: "PageGuard \<Rightarrow> (BufferPool, bytes) action" where
  "guard_GetData g = bind (deref g) (\<lambda>f. bind (page_at f) (\<lambda>p. ret (page_data p)))"

definition guard_GetDataMut :: "PageGuard \<Rightarrow> (BufferPool, PageGuard \<times> nat) action" where
  "guard_GetDataMut g = bind (deref g) (\<lambda>f. ret (g\<lparr>guard_dirty := True\<rparr>, f))"

text \<open>An action on the bytes of a page through the pointer or reference obtained from a guard.\<close>

definition on_page :: "nat \<Rightarrow> (bytes, 'a) action \<Rightarrow> (BufferPool, 'a) action" where
  "on_page f m = bind (page_at f) (\<lambda>p. case m (page_data p) of
     (r, bs) \<Rightarrow> bind (update_page f (\<lambda>p. p\<lparr>page_data := bs\<rparr>)) (\<lambda>_. lift r))"

section \<open>Guarded pool operations\<close>

definition FetchPageBasic :: "PageId \<Rightarrow> (BufferPool, PageGuard) action" where
  "FetchPageBasic pid = bind (FetchPage pid) (\<lambda>f. ret (mk_guard f))"

definition FetchPageRead :: "PageId \<Rightarrow> (BufferPool, PageGuard) action" where
  "FetchPageRead pid = bind (FetchPage pid) (\<lambda>f. bind (RLatch f) (\<lambda>_. ret (mk_guard f)))"

definition FetchPageWrite :: "PageId \<Rightarrow> (BufferPool, PageGuard) action" where
  "FetchPageWrite pid = bind (FetchPage pid) (\<lambda>f. bind (WLatch f) (\<lambda>_. ret (mk_guard f)))"

definition NewPageGuarded :: "('a, PageId) action \<Rightarrow> (BufferPool \<times> 'a, PageGuard \<times> PageId) action" where
  "NewPageGuarded alloc = bind (NewPage alloc) (\<lambda>(f, pid). ret (mk_guard f, pid))"

definition scoped :: "('s, 'a) action \<Rightarrow> ('s, 'b) action \<Rightarrow> ('s, 'a) action" where
  "scoped m fin s = (case m s of (r, s1) \<Rightarrow>
     (case fin s1 of (Inl e, s2) \<Rightarrow> (Inl e, s2) | (Inr _, s2) \<Rightarrow> (r, s2)))"

section \<open>Latches are the guards' business\<close>

definition latches :: "BufferPool \<Rightarrow> latch list" where
  "latches s = map rwlatch (pages s)"

lemma keeps_latches_update:
  assumes "\<And>p. rwlatch (g p) = rwlatch p"
  shows "keeps (\<lambda>s. latches s = L) (update_page f g)"
proof (rule keepsI)
  fix s r s' assume "latches s = L" and "update_page f g s = (r, s')"
  then have s': "s' = s\<lparr>pages := (pages s)[f := g (pages s ! f)]\<rparr>" and L: "L = map rwlatch (pages s)"
    by (auto simp: update_page_run latches_def)
  have "rwlatch ((pages s)[f := g (pages s ! f)] ! i) = rwlatch (pages s ! i)" if "i < length (pages s)" for i
    using that assms by (cases "i = f") simp_all
  then show "latches s' = L" unfolding s' L latches_def by (intro nth_equalityI) simp_all
qed

lemma keeps_latches_modify:
  "(\<And>s. pages (g s) = pages s) \<Longrightarrow> keeps (\<lambda>s. latches s = L) (modify g)"
  by (auto simp: keeps_def modify_def latches_def)

lemma keeps_page_at [intro]: "keeps P (page_at f)"
  by (auto simp: keeps_def page_at_def bind_def gets_def ret_def throw_def)

lemma keeps_latches_disk: "keeps (\<lambda>s. latches s = L) (on_disk m)"
  by (auto simp: keeps_def on_disk_run latches_def split: prod.splits)

lemmas keeps_latches = keeps_bind keeps_page_at keeps_latches_update keeps_latches_modify keeps_latches_disk

lemma AllocateFrame_latches: "keeps (\<lambda>s. latches s = L) AllocateFrame"
  unfolding AllocateFrame_def
  by (auto intro!: keeps_latches simp: ResetMemory_def split: list.splits option.splits prod.splits)

lemma FetchPage_latches: "keeps (\<lambda>s. latches s = L) (FetchPage pid)"
  unfolding FetchPage_def
  by (auto intro!: keeps_latches AllocateFrame_latches split: option.splits)

lemma UnpinPage_latches: "keeps (\<lambda>s. latches s = L) (UnpinPage pid dirty)"
  unfolding UnpinPage_def
  by (auto intro!: keeps_latches split: option.splits)

lemma NewPage_latches:
  assumes "NewPage alloc (s, a) = (r, (s', a'))"
  shows "latches s' = latches s"
proof -
  have 1: "keeps (\<lambda>t. latches t = latches s) NewPage_frame"
    unfolding NewPage_frame_def by (auto intro!: keeps_latches AllocateFrame_latches split: option.splits)
  have 2: "keeps (\<lambda>t. latches t = latches s) (NewPage_install f pid)" for f pid
    unfolding NewPage_install_def by (auto intro!: keeps_latches simp: ResetMemory_def)
  obtain r1 s1 where f1: "NewPage_frame s = (r1, s1)" by fastforce
  have l1: "latches s1 = latches s" using keepsD [OF 1 refl f1] .
  obtain r2 a2 where f2: "alloc a = (r2, a2)" by fastforce
  show ?thesis
  proof (cases r1)
    case (Inl e)
    then show ?thesis using assms f1 l1 by (simp add: NewPage_def bind_def zoom_def)
  next
    case (Inr f)
    show ?thesis
    proof (cases r2)
      case Inl2: (Inl e)
      then show ?thesis using assms f1 f2 l1 Inr by (simp add: NewPage_def bind_def zoom_def)
    next
      case Inr2: (Inr pid)
      obtain r3 s3 where f3: "NewPage_install f pid s1 = (r3, s3)" by fastforce
      have "latches s3 = latches s" using keepsD [OF 2 l1 f3] .
      then show ?thesis
        using assms f1 f2 f3 Inr Inr2 by (cases r3) (simp_all add: NewPage_def bind_def zoom_def ret_def)
    qed
  qed
qed

definition relatch :: "nat \<Rightarrow> latch \<Rightarrow> BufferPool \<Rightarrow> BufferPool" where
  "relatch f l s = s\<lparr>pages := (pages s)[f := (pages s ! f)\<lparr>rwlatch := l\<rparr>]\<rparr>"

lemma relatch_page:
  "page_id (pages (relatch f l s) ! g) = page_id (pages s ! g)"
  "page_data (pages (relatch f l s) ! g) = page_data (pages s ! g)"
  "pin_count (pages (relatch f l s) ! g) = pin_count (pages s ! g)"
  "is_dirty (pages (relatch f l s) ! g) = is_dirty (pages s ! g)"
  "length (pages (relatch f l s)) = length (pages s)"
  "page_table (relatch f l s) = page_table s" "disk_manager (relatch f l s) = disk_manager s"
  "pool_size (relatch f l s) = pool_size s" "free_list (relatch f l s) = free_list s"
  "replacer (relatch f l s) = replacer s"
proof -
  have "pages (relatch f l s) ! g = (if g = f \<and> f < length (pages s) then (pages s ! f)\<lparr>rwlatch := l\<rparr> else pages s ! g)"
    by (cases "f < length (pages s)"; cases "g = f") (simp_all add: relatch_def not_less list_update_beyond)
  then show "page_id (pages (relatch f l s) ! g) = page_id (pages s ! g)"
    "page_data (pages (relatch f l s) ! g) = page_data (pages s ! g)"
    "pin_count (pages (relatch f l s) ! g) = pin_count (pages s ! g)"
    "is_dirty (pages (relatch f l s) ! g) = is_dirty (pages s ! g)"
    by simp_all
qed (simp_all add: relatch_def)

lemma relatch_inv:
  "bp_inv (relatch f l s) = bp_inv s" "logical (relatch f l s) = logical s" "pins (relatch f l s) = pins s"
proof -
  have mp: "mapped (relatch f l s) g = mapped s g" for g unfolding mapped_def relatch_page ..
  show "bp_inv (relatch f l s) = bp_inv s" unfolding bp_inv_defs relatch_page mp ..
  show "logical (relatch f l s) = logical s" "pins (relatch f l s) = pins s"
    unfolding logical_def pins_def relatch_page by (rule refl)+
qed

lemma latches_relatch: "f < length (pages s) \<Longrightarrow> latches (relatch f l s) = (latches s)[f := l]"
  by (simp add: latches_def relatch_def map_update)

lemma nth_latches: "f < length (pages s) \<Longrightarrow> rwlatch (pages s ! f) = latches s ! f"
  by (simp add: latches_def)

lemma latch_runs:
  assumes "f < length (pages s)"
  shows "latches s ! f = Unlatched \<Longrightarrow> WLatch f s = (Inr (), relatch f WriteLatched s)"
    and "latches s ! f = Unlatched \<Longrightarrow> RLatch f s = (Inr (), relatch f (ReadLatched 1) s)"
    and "latches s ! f = WriteLatched \<Longrightarrow> WUnlatch f s = (Inr (), relatch f Unlatched s)"
    and "latches s ! f = ReadLatched 1 \<Longrightarrow> RUnlatch f s = (Inr (), relatch f Unlatched s)"
  using assms
  by (simp_all add: WLatch_def RLatch_def WUnlatch_def RUnlatch_def act_simps nth_latches relatch_def)

section \<open>Guard sessions\<close>

text \<open>What a pool looks like between guards: nobody holds a latch of a page that is not pinned.\<close>

definition gp_inv :: "BufferPool \<Rightarrow> bool" where
  "gp_inv s \<longleftrightarrow> bp_inv s \<and> (\<forall>f < pool_size s. pin_count (pages s ! f) = 0 \<longrightarrow> rwlatch (pages s ! f) = Unlatched)"

lemma logical_mapped: "page_table s pid = Some f \<Longrightarrow> logical s pid = page_data (pages s ! f)"
  by (simp add: logical_def)

lemma fetch_fresh:
  assumes inv: "bp_inv s" and pid: "valid_pid pid" "pins s pid = 0" and run: "FetchPage pid s = (Inr f, s1)"
  shows "f < pool_size s" and "pin_count (pages s ! f) = 0" and "pool_size s1 = pool_size s"
    and "g \<noteq> f \<Longrightarrow> pin_count (pages s1 ! g) = pin_count (pages s ! g) \<and> rwlatch (pages s1 ! g) = rwlatch (pages s ! g)"
    and "pin_count (pages s1 ! f) = 1" and "rwlatch (pages s1 ! f) = rwlatch (pages s ! f)"
    and "\<not> is_dirty (pages s1 ! f) \<Longrightarrow> page_data (pages s1 ! f) = disk_page (disk_manager s1) pid"
proof -
  have ok: "bp_inv s1" "page_table s1 pid = Some f" "pins s1 pid = 1"
    using FetchPage_ok [OF inv pid(1) _ run] pid(2) by simp_all
  have all: "f < pool_size s \<and> pin_count (pages s ! f) = 0 \<and> pool_size s1 = pool_size s \<and>
    (g \<noteq> f \<longrightarrow> pages s1 ! g = pages s ! g) \<and>
    (\<not> is_dirty (pages s1 ! f) \<longrightarrow> page_data (pages s1 ! f) = disk_page (disk_manager s1) pid)"
  proof (cases "page_table s pid")
    case (Some h)
    note run' = FetchPage_hit [OF inv Some]
    note h = bp_invD(4) [OF inv Some]
    have p: "pin_count (pages s ! h) = 0" using pid(2) Some by (simp add: pins_def)
    have fh: "f = h" "s1 = touch h (pin_count (pages s ! h) + 1) (is_dirty (pages s ! h)) (Replacer_Pin h (replacer s)) s"
      using run run' by auto
    show ?thesis
      unfolding fh touch_nth [OF inv h] using h p bp_invD(11) [OF inv Some p] by (simp add: touch_def)
  next
    case None
    show ?thesis
    proof (cases rule: FetchPage_miss [OF inv None pid(1) run])
      case (3 h s2 d)
      note t = 3(2)
      have inv2: "bp_inv_except {h} s2" and h: "h < pool_size s2" using t by (simp_all add: took_def)
      have post: "disk_post (disk_manager s2) (disk_page (disk_manager s2)) d"
        using ReadPage_spec(1) [OF bp_invD(1) [OF inv2] pid(1) 3(3)] .
      have "h < pool_size s" "pin_count (pages s ! h) = 0" "pool_size s2 = pool_size s" "g \<noteq> h \<longrightarrow> pages s2 ! g = pages s ! g"
        using t unfolding took_def by blast+
      then show ?thesis
        using 3(1,4) bp_invD(2) [OF inv2] post pid(1) by (auto simp: disk_post_def)
    qed auto
  qed
  then show "f < pool_size s" and "pin_count (pages s ! f) = 0" and sz: "pool_size s1 = pool_size s"
    and "g \<noteq> f \<Longrightarrow> pin_count (pages s1 ! g) = pin_count (pages s ! g) \<and> rwlatch (pages s1 ! g) = rwlatch (pages s ! g)"
    and "\<not> is_dirty (pages s1 ! f) \<Longrightarrow> page_data (pages s1 ! f) = disk_page (disk_manager s1) pid" by auto
  show "pin_count (pages s1 ! f) = 1" using ok by (simp add: pins_def)
  have "latches s1 = latches s" using keepsD [OF FetchPage_latches refl run] .
  then show "rwlatch (pages s1 ! f) = rwlatch (pages s ! f)"
    using all bp_invD(2) [OF inv] bp_invD(2) [OF ok(1)] sz nth_latches by metis
qed

lemma unpin_last:
  assumes inv: "bp_inv s" and pid: "page_table s pid = Some f" "pins s pid = 1"
    and run: "UnpinPage pid dirty s = (r, s')"
  shows "g \<noteq> f \<Longrightarrow> pages s' ! g = pages s ! g" and "pin_count (pages s' ! f) = 0"
    and "rwlatch (pages s' ! f) = rwlatch (pages s ! f)" and "pool_size s' = pool_size s"
proof -
  define store where "store = (if pins s pid - 1 = 0 then Replacer_Unpin f (replacer s) else replacer s)"
  have out: "s' = touch f (pins s pid - 1) (is_dirty (pages s ! f) \<or> dirty) store s"
    using UnpinPage_run [OF inv pid(1), of dirty] run pid(2) by (simp add: store_def)
  note f = bp_invD(4) [OF inv pid(1)]
  show "g \<noteq> f \<Longrightarrow> pages s' ! g = pages s ! g" and "pin_count (pages s' ! f) = 0"
    and "rwlatch (pages s' ! f) = rwlatch (pages s ! f)"
    unfolding out touch_nth [OF inv f] using pid(2) by simp_all
  show "pool_size s' = pool_size s" by (simp add: out touch_def)
qed

lemma gp_fetch:
  assumes inv: "gp_inv s" and pid: "valid_pid pid" "pins s pid = 0" and run: "FetchPage pid s = (Inr f, s1)"
  shows "gp_inv s1" and "rwlatch (pages s1 ! f) = Unlatched" and "page_table s1 pid = Some f" and "pins s1 = (pins s)(pid := 1)"
    and "same_pages s s1" and "pool_size s1 = pool_size s" and "f < length (pages s1)"
    and "\<not> is_dirty (pages s1 ! f) \<Longrightarrow> page_data (pages s1 ! f) = disk_page (disk_manager s1) pid"
proof -
  have bi: "bp_inv s" using inv by (simp add: gp_inv_def)
  note fr = fetch_fresh [OF bi pid run]
  note ok = FetchPage_ok [OF bi pid(1) _ run]
  show "rwlatch (pages s1 ! f) = Unlatched" using fr(1,2,6) inv by (simp add: gp_inv_def)
  have b1: "bp_inv s1" using ok(1) pid(2) by simp
  moreover have "rwlatch (pages s1 ! g) = Unlatched" if "g < pool_size s1" "pin_count (pages s1 ! g) = 0" for g
  proof -
    have "g \<noteq> f" using that(2) fr(5) by auto
    then show ?thesis using fr(4) [of g] that inv fr(3) by (simp add: gp_inv_def)
  qed
  ultimately show "gp_inv s1" by (simp add: gp_inv_def)
  show "page_table s1 pid = Some f" "pins s1 = (pins s)(pid := 1)" "same_pages s s1" "pool_size s1 = pool_size s"
    using ok pid(2) fr(3) by simp_all
  then show "f < length (pages s1)" using bp_invD(2,4) [OF b1] by metis
  show "\<not> is_dirty (pages s1 ! f) \<Longrightarrow> page_data (pages s1 ! f) = disk_page (disk_manager s1) pid" by (rule fr(7))
qed

lemma gp_relatch:
  assumes "gp_inv s" and "pin_count (pages s ! f) \<noteq> 0"
  shows "gp_inv (relatch f l s)"
proof -
  have "rwlatch (pages (relatch f l s) ! g) = rwlatch (pages s ! g)" if "g \<noteq> f" for g
    using that by (simp add: relatch_def)
  then show ?thesis using assms by (auto simp: gp_inv_def relatch_inv relatch_page) metis
qed

lemma relatch_relatch: "relatch f l (relatch f l' s) = relatch f l s"
  by (cases "f < length (pages s)") (simp_all add: relatch_def not_less list_update_beyond)

lemma relatch_id: "rwlatch (pages s ! f) = l \<Longrightarrow> relatch f l s = s"
proof -
  assume "rwlatch (pages s ! f) = l"
  then have "(pages s ! f)\<lparr>rwlatch := l\<rparr> = pages s ! f" by (cases "pages s ! f") simp
  then show ?thesis by (cases s) (simp add: relatch_def)
qed

lemma gp_unpin:
  assumes inv: "gp_inv s" and pid: "page_table s pid = Some f" "pins s pid = 1" "rwlatch (pages s ! f) = Unlatched"
    and honest: "\<not> dirty \<Longrightarrow> \<not> is_dirty (pages s ! f) \<Longrightarrow> page_data (pages s ! f) = disk_page (disk_manager s) pid"
    and run: "UnpinPage pid dirty s = (r, s')"
  shows "r = Inr True" and "gp_inv s'" and "logical s' = logical s" and "pins s' = (pins s)(pid := 0)"
    and "pool_size s' = pool_size s" and "page_table s' = page_table s"
proof -
  have bi: "bp_inv s" using inv by (simp add: gp_inv_def)
  note us = UnpinPage_spec [OF bi pid(1) _ _ run]
  note ul = unpin_last [OF bi pid(1,2) run]
  show "r = Inr True" "logical s' = logical s" "pins s' = (pins s)(pid := 0)" "page_table s' = page_table s"
    using us pid(2) honest by simp_all
  show sz: "pool_size s' = pool_size s" by (rule ul(4))
  have "bp_inv s'" using us(2) pid(2) honest by simp
  moreover have "rwlatch (pages s' ! g) = Unlatched" if "g < pool_size s'" "pin_count (pages s' ! g) = 0" for g
    using that ul(1) [of g] ul(3) pid(3) inv sz by (cases "g = f") (simp_all add: gp_inv_def)
  ultimately show "gp_inv s'" by (simp add: gp_inv_def)
qed

lemma gp_write:
  assumes inv: "gp_inv s" and pid: "page_table s pid = Some f" "pins s pid \<noteq> 0" and bs: "length bs = PAGE_SIZE"
  shows "gp_inv (write_frame f bs s)"
proof -
  have bi: "bp_inv s" using inv by (simp add: gp_inv_def)
  note w = write_frame_spec [OF bi pid bs]
  have "pool_size (write_frame f bs s) = pool_size s" by (simp add: write_frame_def)
  then show ?thesis using inv w(1,6) by (auto simp: gp_inv_def split: if_splits)
qed

lemma page_update_commute:
  "p\<lparr>rwlatch := l, page_data := bs\<rparr> = (p :: Page)\<lparr>page_data := bs, rwlatch := l\<rparr>"
  by (cases p) simp

lemma on_page_run:
  assumes "f < length (pages s)" and "m (page_data (pages s ! f)) = (r, bs)"
  shows "on_page f m s = (r, write_frame f bs s)"
  using assms by (simp add: on_page_def act_simps write_frame_def)

text \<open>A read guard over a scope: the body sees the page, and nothing else changes.\<close>

definition read_scope :: "PageId \<Rightarrow> (bytes \<Rightarrow> 'a result) \<Rightarrow> (BufferPool, 'a) action" where
  "read_scope pid body = bind (FetchPageRead pid) (\<lambda>g.
     scoped (bind (guard_GetData g) (\<lambda>bs. lift (body bs))) (Read_Drop g))"

definition write_scope :: "PageId \<Rightarrow> (bytes, 'a) action \<Rightarrow> (BufferPool, 'a) action" where
  "write_scope pid body = bind (FetchPageWrite pid) (\<lambda>g.
     bind (guard_GetDataMut g) (\<lambda>(g, f). scoped (on_page f body) (Write_Drop g)))"

lemma read_scope_spec:
  assumes inv: "gp_inv s" and pid: "valid_pid pid" "pins s pid = 0" and run: "read_scope pid body s = (r, s')"
    and ok: "FetchPage pid s = (Inr f, s1)"
  shows "r = body (logical s pid)" and "gp_inv s'" and "same_pages s s'" and "pins s' = pins s"
    and "pool_size s' = pool_size s" and "page_table s' pid \<noteq> None" and "page_table s' = page_table s1"
proof -
  note gf = gp_fetch [OF inv pid ok]
  have l1: "latches s1 ! f = Unlatched" using gf(2,7) by (simp add: nth_latches)
  let ?s2 = "relatch f (ReadLatched 1) s1"
  have len: "f < length (pages ?s2)" using gf(7) by (simp add: relatch_page)
  have fr: "FetchPageRead pid s = (Inr (mk_guard f), ?s2)"
    using ok latch_runs(2) [OF gf(7) l1] by (simp add: FetchPageRead_def act_simps)
  have data: "page_data (pages s1 ! f) = logical s pid"
    using gf(5) pid(1) logical_mapped [OF gf(3)] by (simp add: same_pages_def)
  have body: "bind (guard_GetData (mk_guard f)) (\<lambda>bs. lift (body bs)) ?s2 = (body (logical s pid), ?s2)"
    using len data by (simp add: guard_GetData_def deref_def mk_guard_def act_simps relatch_page bind_def)
  have "latches ?s2 ! f = ReadLatched 1" using gf(7) by (simp add: latches_relatch) (simp add: latches_def)
  then have ru: "RUnlatch f ?s2 = (Inr (), s1)"
    using latch_runs(4) [OF len] gf(2) by (simp add: relatch_relatch relatch_id)
  have bi: "bp_inv s1" using gf(1) by (simp add: gp_inv_def)
  have pidf: "page_id (pages s1 ! f) = pid" using bp_invD(5) [OF bi gf(3)] .
  obtain ru' s4 where un: "UnpinPage pid False s1 = (ru', s4)" by fastforce
  have p1: "pins s1 pid = 1" using gf(4) by simp
  note gu = gp_unpin [OF gf(1,3) p1 gf(2) gf(8) un]
  have drop: "Read_Drop (mk_guard f) ?s2 = (Inr (empty_guard), s4)"
    using ru un gu(1) gf(7) pidf
    by (simp add: Read_Drop_def Basic_Drop_def mk_guard_def empty_guard_def act_simps)
  have out: "r = body (logical s pid)" "s' = s4"
    using run fr body drop by (simp_all add: read_scope_def act_simps scoped_def)
  show "r = body (logical s pid)" by (rule out)
  show "gp_inv s'" "same_pages s s'" "pool_size s' = pool_size s" "page_table s' pid \<noteq> None" "page_table s' = page_table s1"
    using gu gf out by (simp_all add: same_pages_def)
  show "pins s' = pins s" using gu(4) gf(4) out(2) pid(2) by (simp add: fun_eq_iff)
qed

lemma write_scope_spec:
  assumes inv: "gp_inv s" and pid: "valid_pid pid" "pins s pid = 0" and run: "write_scope pid body s = (r, s')"
    and ok: "FetchPage pid s = (Inr f, s1)"
    and body: "body (logical s pid) = (rb, bs)" "length bs = PAGE_SIZE"
  shows "r = rb" and "gp_inv s'" and "pins s' = pins s" and "pool_size s' = pool_size s"
    and "valid_pid q \<Longrightarrow> logical s' q = (if q = pid then bs else logical s q)" and "page_table s' pid \<noteq> None"
    and "\<exists>f. page_table s' pid = Some f \<and> is_dirty (pages s' ! f)" and "page_table s' = page_table s1"
proof -
  note gf = gp_fetch [OF inv pid ok]
  have l1: "latches s1 ! f = Unlatched" using gf(2,7) by (simp add: nth_latches)
  let ?s2 = "relatch f WriteLatched s1" and ?s3 = "relatch f WriteLatched (write_frame f bs s1)"
  have bi: "bp_inv s1" using gf(1) by (simp add: gp_inv_def)
  have p1: "pins s1 pid = 1" using gf(4) by simp
  have fw: "FetchPageWrite pid s = (Inr (mk_guard f), ?s2)"
    using ok latch_runs(1) [OF gf(7) l1] by (simp add: FetchPageWrite_def act_simps)
  have data: "page_data (pages s1 ! f) = logical s pid"
    using gf(5) pid(1) logical_mapped [OF gf(3)] by (simp add: same_pages_def)
  have swap: "write_frame f bs ?s2 = ?s3" using gf(7) by (simp add: write_frame_def relatch_def page_update_commute)
  have bd: "on_page f body ?s2 = (rb, ?s3)"
    using on_page_run [of f ?s2 body rb bs] gf(7) data body(1) swap by (simp add: relatch_page)
  let ?s4 = "write_frame f bs s1"
  note w = write_frame_spec [OF bi gf(3) _ body(2)]
  have len: "f < length (pages ?s4)" "f < length (pages ?s3)" using gf(7) by (simp_all add: relatch_page write_frame_def)
  have l4: "rwlatch (pages ?s4 ! f) = Unlatched" using w(6) [of f] p1 gf(2) by simp
  have "latches ?s3 ! f = WriteLatched" using len(1) by (simp add: latches_relatch) (simp add: latches_def)
  then have wu: "WUnlatch f ?s3 = (Inr (), ?s4)"
    using latch_runs(3) [OF len(2)] l4 by (simp add: relatch_relatch relatch_id)
  have g4: "gp_inv ?s4" using gp_write [OF gf(1,3) _ body(2)] p1 by simp
  have pt4: "page_table ?s4 pid = Some f" and p4: "pins ?s4 pid = 1" using w p1 gf(3) by simp_all
  have b4: "bp_inv ?s4" using g4 by (simp add: gp_inv_def)
  have pidf: "page_id (pages ?s4 ! f) = pid" using bp_invD(5) [OF b4 pt4] .
  obtain ru s5 where un: "UnpinPage pid True ?s4 = (ru, s5)" by fastforce
  note gu = gp_unpin [OF g4 pt4 p4 l4 _ un]
  have drop: "Write_Drop \<lparr>guard_page = Some f, guard_dirty = True\<rparr> ?s3 = (Inr \<lparr>guard_page = None, guard_dirty = True\<rparr>, s5)"
    using wu un gu(1) len(1) pidf by (simp add: Write_Drop_def Basic_Drop_def act_simps)
  have out: "r = rb" "s' = s5"
    using run fw bd drop
    by (simp_all add: write_scope_def act_simps scoped_def guard_GetDataMut_def deref_def mk_guard_def)
  show "r = rb" by (rule out)
  show "gp_inv s'" "pool_size s' = pool_size s" "page_table s' pid \<noteq> None" "page_table s' = page_table s1"
    using gu gf(6) out pt4 by (simp_all add: write_frame_def)
  show "pins s' = pins s" using gu(4) w(3) p1 gf(4) out(2) pid(2) by (simp add: fun_eq_iff)
  show "logical s' q = (if q = pid then bs else logical s q)" if "valid_pid q"
    using gu(3) w(2) p1 gf(5) out(2) that by (simp add: same_pages_def)
  show "\<exists>f. page_table s' pid = Some f \<and> is_dirty (pages s' ! f)"
    using UnpinPage_spec(6,7) [OF b4 pt4 _ _ un] p4 pt4 out(2) by auto
qed

section \<open>Properties\<close>

text \<open>
  C21: A write guard over a scope: fetch the page for writing, change its bytes through
  \<^verbatim>\<open>GetDataMut\<close>, leave the scope, with an exception or without. Nobody else holding the page,
  and provided the fetch succeeds, the body runs on the page's newest contents, its result is
  the result, the page then has the bytes the body left and is marked dirty, every other page is
  what it was, pin counts and latches are as before, and the pool's invariant holds.
\<close>

theorem write_guard_scope:
  assumes "gp_inv s" and "valid_pid pid" and "pins s pid = 0" and "FetchPage pid s = (Inr f, s1)"
    and "body (logical s pid) = (rb, bs)" and "length bs = PAGE_SIZE"
  shows "\<exists>s'. write_scope pid body s = (rb, s') \<and> gp_inv s' \<and> pins s' = pins s \<and>
     (\<forall>q. valid_pid q \<longrightarrow> logical s' q = (if q = pid then bs else logical s q)) \<and>
     (\<exists>f. page_table s' pid = Some f \<and> is_dirty (pages s' ! f))"
proof -
  obtain r s' where run: "write_scope pid body s = (r, s')" by fastforce
  note w = write_scope_spec [OF assms(1-3) run assms(4-6)]
  show ?thesis using run w by blast
qed

lemma gp_mk_BufferPool: "disk_inv d \<Longrightarrow> gp_inv (mk_BufferPool n d)"
  using mk_BufferPool_inv(1) [of d n] by (simp add: gp_inv_def) (simp add: mk_BufferPool_def mk_Page_def)

lemma fresh_pool_fetch:
  assumes "disk_inv d" and "reachable_table d (table_id pid)" and "valid_pid pid"
    and "PAGE_SIZE * nat (page_number pid) \<le> length (content d (table_id pid))"
  obtains s1 where "FetchPage pid (mk_BufferPool (Suc n) d) = (Inr 0, s1)" and "\<not> is_dirty (pages s1 ! 0)"
proof -
  obtain d' where "ReadPage pid d = (Inr (disk_page d pid), d')" using ReadPage_ok [OF assms(1,3,2,4)] .
  moreover have "page_number pid \<noteq> - 1" using assms(3) by (auto simp: valid_pid_def)
  moreover have "[0..<Suc n] = 0 # [1..<Suc n]" by (simp add: upt_conv_Cons)
  ultimately show ?thesis
    using that by (simp add: FetchPage_def AllocateFrame_def act_simps mk_BufferPool_def del: upt_Suc)
qed

theorem write_guard_scope_witness:
  "\<exists>s'. write_scope (mk_page_id 0 0) (modify (\<lambda>_. replicate PAGE_SIZE 9)) (mk_BufferPool 1 demo_disk) = (Inr (), s') \<and>
     logical s' (mk_page_id 0 0) = replicate PAGE_SIZE 9 \<and> pins s' (mk_page_id 0 0) = 0"
proof -
  let ?p = "mk_page_id 0 0" and ?s = "mk_BufferPool 1 demo_disk"
  have v: "valid_pid ?p" by (simp add: valid_pid_def)
  have p: "pins ?s ?p = 0" using mk_BufferPool_inv(3) [OF demo_disk_facts(1)] .
  obtain s1 where "FetchPage ?p ?s = (Inr 0, s1)"
    using fresh_pool_fetch [OF demo_disk_facts(1), of ?p 0] v by (auto simp: demo_disk_facts)
  from write_guard_scope [OF gp_mk_BufferPool [OF demo_disk_facts(1)] v p this, of "modify (\<lambda>_. replicate PAGE_SIZE 9)"]
  show ?thesis using v p by (auto simp: modify_def)
qed

text \<open>
  C31: Upgrading a guard forgets that it was dirty. A page changed through a basic guard that is
  then upgraded for writing and dropped, without being written again, is not marked dirty: it is
  unpinned, clean and different from its version on disk, so evicting it loses the change.
\<close>

theorem upgrade_forgets_dirty:
  assumes "gp_inv s" and "page_table s pid = Some f" and "pins s pid = 1" and "rwlatch (pages s ! f) = Unlatched"
    and "\<not> is_dirty (pages s ! f)" and "length bs = PAGE_SIZE" and "bs \<noteq> disk_page (disk_manager s) pid"
  shows "\<exists>g' g'' s'. bind (guard_GetDataMut (mk_guard f)) (\<lambda>(g, p). bind (on_page p (modify (\<lambda>_. bs))) (\<lambda>_.
       bind (UpgradeWrite g) (\<lambda>(wg, g). bind (Write_Drop wg) (\<lambda>wg. ret (wg, g))))) s = (Inr (g', g''), s') \<and>
     logical s' pid = bs \<and> pins s' pid = 0 \<and> \<not> is_dirty (pages s' ! f) \<and>
     disk_page (disk_manager s') pid \<noteq> logical s' pid"
proof -
  have bi: "bp_inv s" using assms(1) by (simp add: gp_inv_def)
  note w = write_frame_spec [OF bi assms(2) _ assms(6)]
  let ?s1 = "write_frame f bs s"
  have f: "f < length (pages s)" using bp_invD(2) [OF bi] bp_invD(4) [OF bi assms(2)] by simp
  have len: "f < length (pages ?s1)" using f by (simp add: write_frame_def)
  have s1: "bp_inv ?s1" "page_table ?s1 pid = Some f" "pins ?s1 pid = 1" "rwlatch (pages ?s1 ! f) = Unlatched"
    "logical ?s1 pid = bs" "\<not> is_dirty (pages ?s1 ! f)" "disk_manager ?s1 = disk_manager s"
    using w assms(2-5) by simp_all
  have l: "latches ?s1 ! f = Unlatched" using s1(4) len by (simp add: nth_latches)
  let ?s2 = "relatch f WriteLatched ?s1"
  have wl: "WLatch f ?s1 = (Inr (), ?s2)" using latch_runs(1) [OF len l] .
  have len2: "f < length (pages ?s2)" using len by (simp add: relatch_page)
  have "latches ?s2 ! f = WriteLatched" using len by (simp add: latches_relatch) (simp add: latches_def)
  then have wu: "WUnlatch f ?s2 = (Inr (), ?s1)"
    using latch_runs(3) [OF len2] s1(4) by (simp add: relatch_relatch relatch_id)
  have pidf: "page_id (pages ?s1 ! f) = pid" using bp_invD(5) [OF s1(1,2)] .
  let ?s3 = "touch f 0 False (Replacer_Unpin f (replacer ?s1)) ?s1"
  have un: "UnpinPage pid False ?s1 = (Inr True, ?s3)" using UnpinPage_run [OF s1(1,2), of False] s1(3,6) by simp
  have fs: "f < pool_size ?s1" using bp_invD(4) [OF s1(1,2)] .
  note tp = touch_page [OF s1(1) fs, of 0 False "Replacer_Unpin f (replacer ?s1)"]
  have "logical ?s3 pid = bs" "pins ?s3 pid = 0" "\<not> is_dirty (pages ?s3 ! f)" "disk_manager ?s3 = disk_manager s"
    using s1(2,5,7) tp by (simp_all add: logical_def pins_def touch_pins(3) [OF s1(1,2)]) (simp_all add: touch_def s1(7))
  moreover have "bind (guard_GetDataMut (mk_guard f)) (\<lambda>(g, p). bind (on_page p (modify (\<lambda>_. bs))) (\<lambda>_.
       bind (UpgradeWrite g) (\<lambda>(wg, g). bind (Write_Drop wg) (\<lambda>wg. ret (wg, g))))) s =
     (Inr (\<lparr>guard_page = None, guard_dirty = False\<rparr>, \<lparr>guard_page = None, guard_dirty = True\<rparr>), ?s3)"
    using f on_page_run [of f s "modify (\<lambda>_. bs)" "Inr ()" bs] wl wu un pidf len
    by (simp add: guard_GetDataMut_def deref_def mk_guard_def UpgradeWrite_def Write_Drop_def Basic_Drop_def act_simps)
  ultimately show ?thesis using assms(7) by auto
qed

theorem upgrade_forgets_dirty_witness:
  "\<exists>s s' g' g''. bind (guard_GetDataMut (mk_guard 0)) (\<lambda>(g, p). bind (on_page p (modify (\<lambda>_. replicate PAGE_SIZE 9))) (\<lambda>_.
       bind (UpgradeWrite g) (\<lambda>(wg, g). bind (Write_Drop wg) (\<lambda>wg. ret (wg, g))))) s = (Inr (g', g''), s') \<and>
     logical s' (mk_page_id 0 0) = replicate PAGE_SIZE 9 \<and> \<not> is_dirty (pages s' ! 0)"
proof -
  let ?p = "mk_page_id 0 0" and ?s = "mk_BufferPool 1 demo_disk"
  have v: "valid_pid ?p" by (simp add: valid_pid_def)
  have p: "pins ?s ?p = 0" using mk_BufferPool_inv(3) [OF demo_disk_facts(1)] .
  obtain s1 where s1: "FetchPage ?p ?s = (Inr 0, s1)" "\<not> is_dirty (pages s1 ! 0)"
    using fresh_pool_fetch [OF demo_disk_facts(1), of ?p 0] v by (auto simp: demo_disk_facts)
  note gf = gp_fetch [OF gp_mk_BufferPool [OF demo_disk_facts(1)] v p s1(1)]
  have "logical ?s ?p = disk_page demo_disk ?p" using mk_BufferPool_inv(2) [OF demo_disk_facts(1)] by simp
  then have "page_data (pages s1 ! 0) = disk_page demo_disk ?p"
    using gf(5) v logical_mapped [OF gf(3)] by (simp add: same_pages_def)
  then have "disk_page (disk_manager s1) ?p = disk_page demo_disk ?p" using gf(8) s1(2) by simp
  moreover have "disk_page demo_disk ?p ! 0 = 0" by (simp add: disk_page_def demo_disk_facts byte_at_def)
  ultimately have "disk_page (disk_manager s1) ?p ! 0 = 0" by simp
  then have ne: "replicate PAGE_SIZE 9 \<noteq> disk_page (disk_manager s1) ?p"
  proof -
    assume z: "disk_page (disk_manager s1) ?p ! 0 = 0"
    have "replicate PAGE_SIZE (9 :: byte) ! 0 = 9" by (rule nth_replicate) simp
    moreover have "(9 :: byte) \<noteq> 0" by simp
    ultimately show ?thesis using z by metis
  qed
  have p1: "pins s1 ?p = 1" using gf(4) by simp
  show ?thesis using upgrade_forgets_dirty [OF gf(1,3) p1 gf(2) s1(2) _ ne] by auto
qed

end
