(* ===== verification/GuardSteps.thy ===== *)
theory GuardSteps
  imports PageGuards
begin

text \<open>
  Guards step by step, for code that holds several of them at once. \<open>held s pid f l\<close> says that
  exactly one guard holds the page, in frame \<open>f\<close>, with latch \<open>l\<close>. Each lemma takes one guard
  operation from the pages held before it to those held after it.
\<close>

definition held :: "BufferPool \<Rightarrow> PageId \<Rightarrow> nat \<Rightarrow> latch \<Rightarrow> bool" where
  "held s pid f l \<longleftrightarrow> page_table s pid = Some f \<and> pins s pid = 1 \<and> rwlatch (pages s ! f) = l"

lemma held_frame:
  assumes "gp_inv s" and "held s pid f l"
  shows "f < length (pages s)" and "f < pool_size s" and "page_id (pages s ! f) = pid" and "valid_pid pid"
    and "pin_count (pages s ! f) = 1" and "logical s pid = page_data (pages s ! f)" and "latches s ! f = l"
    and "mapped s f" and "bp_inv s" and "length (page_data (pages s ! f)) = PAGE_SIZE"
proof -
  show bi: "bp_inv s" using assms(1) by (simp add: gp_inv_def)
  have pt: "page_table s pid = Some f" using assms(2) by (simp add: held_def)
  show "f < pool_size s" "page_id (pages s ! f) = pid" "valid_pid pid" using bp_invD(4,5,8) [OF bi pt] .
  then show "f < length (pages s)" "mapped s f" "length (page_data (pages s ! f)) = PAGE_SIZE"
    using bp_invD(2,3) [OF bi] pt by (simp_all add: mapped_def)
  then show "latches s ! f = l" using assms(2) by (simp add: held_def latches_def)
  show "pin_count (pages s ! f) = 1" "logical s pid = page_data (pages s ! f)"
    using assms(2) pt by (simp_all add: held_def pins_def logical_def)
qed

lemma held_distinct:
  assumes "gp_inv s" and "held s pid f l" and "held s pid' f' l'" and "pid \<noteq> pid'"
  shows "f \<noteq> f'"
  using held_frame(3) [OF assms(1,2)] held_frame(3) [OF assms(1,3)] assms(4) by auto

lemma relatch_held:
  assumes inv: "gp_inv s" and h: "held s pid f l"
  shows "gp_inv (relatch f l' s)" and "held (relatch f l' s) pid f l'"
    and "held s pid' f' k \<Longrightarrow> pid' \<noteq> pid \<Longrightarrow> held (relatch f l' s) pid' f' k"
    and "logical (relatch f l' s) = logical s" and "pins (relatch f l' s) = pins s"
proof -
  note hf = held_frame [OF inv h]
  show "gp_inv (relatch f l' s)" using gp_relatch [OF inv] hf(5) by simp
  show "logical (relatch f l' s) = logical s" "pins (relatch f l' s) = pins s" by (rule relatch_inv)+
  show "held (relatch f l' s) pid f l'"
    using h hf(1) by (simp add: held_def relatch_inv relatch_page) (simp add: relatch_def)
  show "held (relatch f l' s) pid' f' k" if h': "held s pid' f' k" and ne: "pid' \<noteq> pid"
  proof -
    have "f' \<noteq> f" using held_distinct [OF inv h' h ne] .
    then show ?thesis using h' by (simp add: held_def relatch_inv relatch_page) (simp add: relatch_def)
  qed
qed

text \<open>The only page an operation maps is the one it was asked for.\<close>

lemma FetchPage_table:
  assumes inv: "bp_inv s" and pid: "valid_pid pid" and run: "FetchPage pid s = (Inr f, s')"
    and q: "page_table s q = None" "q \<noteq> pid"
  shows "page_table s' q = None"
proof (cases "page_table s pid")
  case (Some h)
  then show ?thesis using FetchPage_hit [OF inv Some] run q touch_pins(3) [OF inv Some] by auto
next
  case None
  show ?thesis
    by (cases rule: FetchPage_miss [OF inv None pid run]) (use q took_pins(4) in auto)
qed

lemma fetch_held:
  assumes inv: "gp_inv s" and pid: "valid_pid pid" "pins s pid = 0" and run: "FetchPageWrite pid s = (Inr g, s1)"
  obtains f where "g = mk_guard f" and "gp_inv s1" and "held s1 pid f WriteLatched" and "same_pages s s1"
    and "pins s1 = (pins s)(pid := 1)" and "\<And>q. page_table s q = None \<Longrightarrow> q \<noteq> pid \<Longrightarrow> page_table s1 q = None"
proof -
  obtain f s0 where f: "FetchPage pid s = (Inr f, s0)" "bind (WLatch f) (\<lambda>_. ret (mk_guard f)) s0 = (Inr g, s1)"
    using run unfolding FetchPageWrite_def by (rule bind_eq_InrE)
  note gf = gp_fetch [OF inv pid f(1)]
  have l: "latches s0 ! f = Unlatched" using gf(2,7) by (simp add: nth_latches)
  have out: "g = mk_guard f" "s1 = relatch f WriteLatched s0"
    using f(2) latch_runs(1) [OF gf(7) l] by (simp_all add: act_simps)
  have h0: "held s0 pid f Unlatched" using gf by (simp add: held_def)
  note rl = relatch_held [OF gf(1) h0, where l' = WriteLatched]
  show ?thesis
    by (rule that [OF out(1)])
       (use rl gf out FetchPage_table [OF _ pid(1) f(1)] inv in \<open>simp_all add: same_pages_def relatch_page gp_inv_def\<close>)
qed

lemma write_held:
  assumes inv: "gp_inv s" and h: "held s pid f l" and run: "m (logical s pid) = (r, bs)" and len: "length bs = PAGE_SIZE"
  shows "on_page f m s = (r, write_frame f bs s)" and "gp_inv (write_frame f bs s)"
    and "held (write_frame f bs s) pid f l" and "logical (write_frame f bs s) = (logical s)(pid := bs)"
    and "pins (write_frame f bs s) = pins s"
    and "held s pid' f' k \<Longrightarrow> pid' \<noteq> pid \<Longrightarrow> held (write_frame f bs s) pid' f' k"
proof -
  note hf = held_frame [OF inv h]
  have pt: "page_table s pid = Some f" and p: "pins s pid \<noteq> 0" using h by (simp_all add: held_def)
  show "on_page f m s = (r, write_frame f bs s)" using on_page_run [OF hf(1)] run hf(6) by simp
  show "gp_inv (write_frame f bs s)" using gp_write [OF inv pt p len] .
  note w = write_frame_spec [OF hf(9) pt p len]
  show "held (write_frame f bs s) pid f l" using h w by (simp add: held_def)
  show "logical (write_frame f bs s) = (logical s)(pid := bs)" "pins (write_frame f bs s) = pins s" using w by simp_all
  show "held (write_frame f bs s) pid' f' k" if h': "held s pid' f' k" and ne: "pid' \<noteq> pid"
    using h' w held_distinct [OF inv h' h ne] by (simp add: held_def)
qed

lemma unpin_held:
  assumes inv: "gp_inv s" and h: "held s pid f Unlatched" and run: "UnpinPage pid True s = (r, s')"
  shows "r = Inr True" and "gp_inv s'" and "logical s' = logical s" and "pins s' = (pins s)(pid := 0)"
    and "held s pid' f' k \<Longrightarrow> pid' \<noteq> pid \<Longrightarrow> held s' pid' f' k" and "page_table s' = page_table s"
proof -
  note hf = held_frame [OF inv h]
  have pt: "page_table s pid = Some f" "pins s pid = 1" "rwlatch (pages s ! f) = Unlatched" using h by (simp_all add: held_def)
  note gu = gp_unpin [OF inv pt _ run]
  show "r = Inr True" "gp_inv s'" "logical s' = logical s" "pins s' = (pins s)(pid := 0)" "page_table s' = page_table s"
    using gu by simp_all
  show "held s' pid' f' k" if h': "held s pid' f' k" and ne: "pid' \<noteq> pid"
    using h' gu(4,6) unpin_last(1) [OF hf(9) pt(1,2) run] held_distinct [OF inv h' h ne] ne by (simp add: held_def)
qed

lemma write_drop_held:
  assumes inv: "gp_inv s" and h: "held s pid f WriteLatched" and g: "guard_page g = Some f" "guard_dirty g"
  obtains s' where "Write_Drop g s = (Inr (g\<lparr>guard_page := None\<rparr>), s')" and "gp_inv s'" and "logical s' = logical s"
    and "pins s' = (pins s)(pid := 0)" and "page_table s' = page_table s"
    and "\<forall>pid' f' k. held s pid' f' k \<longrightarrow> pid' \<noteq> pid \<longrightarrow> held s' pid' f' k"
proof -
  note hf = held_frame [OF inv h]
  let ?s1 = "relatch f Unlatched s"
  note rl = relatch_held [OF inv h, where l' = Unlatched]
  have wu: "WUnlatch f s = (Inr (), ?s1)" using latch_runs(3) [OF hf(1)] hf(7) by simp
  obtain r s2 where un: "UnpinPage pid True ?s1 = (r, s2)" by fastforce
  note uh = unpin_held [OF rl(1,2) un]
  have run: "Write_Drop g s = (Inr (g\<lparr>guard_page := None\<rparr>), s2)"
    using wu un uh(1) g hf(1,3) by (simp add: Write_Drop_def Basic_Drop_def act_simps relatch_page)
  show ?thesis by (rule that [OF run]) (use uh rl in \<open>simp_all add: relatch_page\<close>)
qed

lemma basic_drop_held:
  assumes inv: "gp_inv s" and h: "held s pid f Unlatched" and g: "guard_page g = Some f" "guard_dirty g"
  obtains s' where "Basic_Drop g s = (Inr (g\<lparr>guard_page := None\<rparr>), s')" and "gp_inv s'" and "logical s' = logical s"
    and "pins s' = (pins s)(pid := 0)" and "page_table s' = page_table s"
proof -
  note hf = held_frame [OF inv h]
  obtain r s2 where un: "UnpinPage pid True s = (r, s2)" by fastforce
  note uh = unpin_held [OF inv h un]
  have run: "Basic_Drop g s = (Inr (g\<lparr>guard_page := None\<rparr>), s2)"
    using un uh(1) g hf(1,3) by (simp add: Basic_Drop_def act_simps)
  show ?thesis by (rule that [OF run]) (use uh in simp_all)
qed

lemma upgrade_held:
  assumes inv: "gp_inv s" and h: "held s pid f Unlatched" and g: "guard_page g = Some f"
  shows "UpgradeWrite g s = (Inr (mk_guard f, g\<lparr>guard_page := None\<rparr>), relatch f WriteLatched s)"
    and "gp_inv (relatch f WriteLatched s)" and "held (relatch f WriteLatched s) pid f WriteLatched"
proof -
  note hf = held_frame [OF inv h]
  show "UpgradeWrite g s = (Inr (mk_guard f, g\<lparr>guard_page := None\<rparr>), relatch f WriteLatched s)"
    using latch_runs(1) [OF hf(1)] hf(7) g by (simp add: UpgradeWrite_def deref_def act_simps)
  show "gp_inv (relatch f WriteLatched s)" "held (relatch f WriteLatched s) pid f WriteLatched"
    using relatch_held [OF inv h] by simp_all
qed

lemma new_held:
  assumes inv: "gp_inv s" and alloc: "alloc a = (Inr pid, a')"
    and pid: "valid_pid pid" "page_table s pid = None" "disk_page (disk_manager s) pid = zero_page"
    and run: "NewPageGuarded alloc (s, a) = (Inr (g, pid'), (s', a''))"
  obtains f where "g = mk_guard f" "pid' = pid" "a'' = a'" "gp_inv s'" "held s' pid f Unlatched" "same_pages s s'"
    "pins s' = (pins s)(pid := 1)" "\<And>p' f' k. held s p' f' k \<Longrightarrow> held s' p' f' k"
    "logical s' pid = zero_page" "\<And>q. page_table s q = None \<Longrightarrow> q \<noteq> pid \<Longrightarrow> page_table s' q = None"
    "\<And>h. h \<noteq> f \<Longrightarrow> pages s' ! h = pages s ! h"
proof -
  have bi: "bp_inv s" using inv by (simp add: gp_inv_def)
  obtain f where run': "NewPage alloc (s, a) = (Inr (f, pid'), (s', a''))" "g = mk_guard f"
    using run by (auto simp: NewPageGuarded_def bind_def ret_def split: prod.splits sum.splits)
  obtain rf s2 where fr: "NewPage_frame s = (rf, s2)" by fastforce
  have t: "rf = Inr f \<and> took s f s2"
    by (cases rule: NewPage_frame_spec [OF bi fr])
       (use run'(1) fr alloc in \<open>auto simp: NewPage_def zoom_def bind_def ret_def split: prod.splits sum.splits\<close>)
  then have tk: "took s f s2" by simp
  have s': "s' = s2\<lparr>page_table := (page_table s2)(pid \<mapsto> f), disk_manager := disk_manager s2,
      pages := (pages s2)[f := (pages s2 ! f)\<lparr>page_id := pid, pin_count := 1, is_dirty := False, page_data := zero_page\<rparr>]\<rparr>"
    using run'(1) fr t alloc NewPage_install_run [OF tk pid(1,2)]
    by (auto simp: NewPage_def zoom_def bind_def ret_def)
  have f: "f < pool_size s" "pin_count (pages s ! f) = 0" "pool_size s2 = pool_size s" "bp_inv_except {f} s2"
    and same: "\<And>h. h \<noteq> f \<Longrightarrow> pages s2 ! h = pages s ! h" using tk unfolding took_def by blast+
  have other: "pages s' ! h = pages s ! h" if "h \<noteq> f" for h using that same by (simp add: s')
  have sz: "pool_size s' = pool_size s" by (simp add: s' f)
  have f2: "f < length (pages s2)" using bp_invD(2) [OF f(4)] f by simp
  then have new: "pin_count (pages s' ! f) = 1" by (simp add: s')
  obtain "pid' = pid" "a'' = a'" and b': "bp_inv s'" and sp: "same_pages s s'" and pt: "page_table s' pid = Some f"
      and zero: "page_data (pages s' ! f) = zero_page"
      and pn: "pins s' = (pins s)(pid := 1)" and ps: "pins_stay s s'"
    by (cases rule: NewPage_spec [OF bi alloc pid run'(1)]) auto
  have lt: "latches s' = latches s" using NewPage_latches [OF run'(1)] .
  have len: "length (pages s) = pool_size s" "length (pages s') = pool_size s'" using bp_invD(2) bi b' by blast+
  have lf: "rwlatch (pages s' ! h) = rwlatch (pages s ! h)" if "h < pool_size s" for h
    using lt that len sz nth_latches by metis
  have "rwlatch (pages s ! f) = Unlatched" using inv f by (simp add: gp_inv_def)
  then have h: "held s' pid f Unlatched" using pt pn lf [OF f(1)] by (simp add: held_def)
  have "rwlatch (pages s' ! h) = Unlatched" if "h < pool_size s'" "pin_count (pages s' ! h) = 0" for h
  proof -
    have "h \<noteq> f" using that(2) new by auto
    then show ?thesis using other [of h] that inv sz by (simp add: gp_inv_def)
  qed
  then have gi: "gp_inv s'" using b' by (simp add: gp_inv_def)
  have keep: "held s' p' f' k" if h': "held s p' f' k" for p' f' k
  proof -
    note hf = held_frame [OF inv h']
    have "p' \<noteq> pid" using h' pid(2) by (auto simp: held_def)
    moreover have "page_id (pages s' ! f') = p'" "mapped s' f'"
      using ps hf(2,3,5,8) by (auto simp: pins_stay_def)
    ultimately show ?thesis using h' pn lf [OF hf(2)] by (simp add: held_def mapped_def)
  qed
  have "logical s' pid = zero_page" using logical_mapped [OF pt] zero by simp
  from that [OF run'(2) \<open>pid' = pid\<close> \<open>a'' = a'\<close> gi h sp pn keep this _ other] took_pins(4) [OF tk] s' show ?thesis by simp
qed

end
