(* ===== verification/Schemas.thy ===== *)
theory Schemas
  imports Values
begin

text \<open>
  Columns, schemas and table metadata: \<^verbatim>\<open>meta/column.hpp\<close>, \<^verbatim>\<open>meta/column.cpp\<close>,
  \<^verbatim>\<open>meta/schema.hpp\<close>, \<^verbatim>\<open>meta/schema.cpp\<close>, \<^verbatim>\<open>storage/table/table_meta.hpp\<close>.

  The schema constructor lays the columns out: each gets the next free offset of the inline
  part of a tuple, a variable-length column only four bytes for the offset of its data. The
  lemmas give this layout in closed form (\<open>layout\<close>, \<open>inline_size\<close>, \<open>uninlined\<close>).
\<close>

section \<open>Columns\<close>

record Column =
  column_name :: string
  column_type :: TypeId
  column_length :: nat
  storage_offset :: nat
  schema_offset :: nat
  is_auto_increment :: bool

definition mk_column_rec :: "string \<Rightarrow> TypeId \<Rightarrow> nat \<Rightarrow> Column" where
  "mk_column_rec n t len = \<lparr>column_name = n, column_type = t, column_length = len,
     storage_offset = 0, schema_offset = 0, is_auto_increment = False\<rparr>"

definition Column_fixed :: "string \<Rightarrow> TypeId \<Rightarrow> Column result" where
  "Column_fixed n t =
     rbind (TypeSize t 0) (\<lambda>len.
     rbind (rassert (t \<noteq> VARCHAR) ''Wrong constructor for VARCHAR type.'') (\<lambda>_.
     rbind (rassert (len > 0) ''Invalid column length'') (\<lambda>_.
     Inr (mk_column_rec n t len))))"

definition Column_varlen :: "string \<Rightarrow> TypeId \<Rightarrow> nat \<Rightarrow> Column result" where
  "Column_varlen n t l =
     rbind (TypeSize t l) (\<lambda>len.
     rbind (rassert (t = VARCHAR) ''Wrong constructor for non-VARCHAR type.'') (\<lambda>_.
     rbind (rassert (len > 0) ''Invalid column length'') (\<lambda>_.
     Inr (mk_column_rec n t len))))"

definition IsInlined :: "Column \<Rightarrow> bool" where
  "IsInlined c \<longleftrightarrow> column_type c \<noteq> VARCHAR"

definition Column_ToString :: "Column \<Rightarrow> bool \<Rightarrow> string result" where
  "Column_ToString c simplified =
     rbind (TypeIdToString (column_type c)) (\<lambda>t.
       Inr (if simplified
            then if column_type c = VARCHAR
                 then column_name c @ '':'' @ t @ ''('' @ dec_nat (column_length c) @ '')''
                 else column_name c @ '':'' @ t
            else ''Column['' @ column_name c @ '', '' @ t @ '', Offset:'' @ dec_nat (storage_offset c)
                 @ '', Length:'' @ dec_nat (column_length c) @ '']''))"

section \<open>Schemas\<close>

record Schema =
  columns :: "Column list"
  uninlined_columns :: "nat list"
  tuple_inline_part_storage_size :: nat

definition empty_schema :: Schema where
  "empty_schema = \<lparr>columns = [], uninlined_columns = [], tuple_inline_part_storage_size = 0\<rparr>"

fun Schema_loop :: "Column list \<Rightarrow> nat \<Rightarrow> nat \<Rightarrow> Schema \<Rightarrow> Schema result" where
  "Schema_loop [] index curr_offset s = Inr (s\<lparr>tuple_inline_part_storage_size := curr_offset\<rparr>)"
| "Schema_loop (c # cs) index curr_offset s =
     (let s1 = (if \<not> IsInlined c then s\<lparr>uninlined_columns := uninlined_columns s @ [index]\<rparr> else s);
          c1 = c\<lparr>storage_offset := curr_offset, schema_offset := index\<rparr>;
          curr_offset1 = (if IsInlined c then (curr_offset + column_length c) mod 2 ^ 32
                          else (curr_offset + 4) mod 2 ^ 32)
      in rbind (rassert (column_length c > 0) ''Invalid column length'') (\<lambda>_.
           Schema_loop cs (index + 1) curr_offset1 (s1\<lparr>columns := columns s1 @ [c1]\<rparr>)))"

definition mk_Schema :: "Column list \<Rightarrow> Schema result" where
  "mk_Schema cs =
     rbind (Schema_loop cs 0 0 empty_schema) (\<lambda>s.
     rbind (rassert (length cs = length (columns s)) ''Column count mismatch'') (\<lambda>_. Inr s))"

definition at_index :: "'a list \<Rightarrow> nat \<Rightarrow> 'a result" where
  "at_index xs i = (if i < length xs then Inr (xs ! i)
                    else Inl (UndefinedBehaviour ''vector index out of range''))"

definition GetColumn :: "Schema \<Rightarrow> nat \<Rightarrow> Column result" where
  "GetColumn s i = at_index (columns s) i"

fun find_col :: "Column list \<Rightarrow> nat \<Rightarrow> string \<Rightarrow> nat option" where
  "find_col [] i n = None"
| "find_col (c # cs) i n = (if column_name c = n then Some i else find_col cs (i + 1) n)"

definition TryGetColIdx :: "Schema \<Rightarrow> string \<Rightarrow> nat option" where
  "TryGetColIdx s n = find_col (columns s) 0 n"

definition GetColumnCount :: "Schema \<Rightarrow> nat" where
  "GetColumnCount s = length (columns s)"

definition TypeMatch :: "Schema \<Rightarrow> Schema \<Rightarrow> bool" where
  "TypeMatch a b \<longleftrightarrow> map column_type (columns a) = map column_type (columns b)"

section \<open>Table metadata\<close>

record TableMeta =
  tm_schema :: Schema
  tm_name :: string
  tm_table_oid :: int
  last_table_data_page_id :: int
  last_table_heap_data_page_id :: int
  tuple_count :: "64 word"

definition mk_TableMeta :: "Schema \<Rightarrow> string \<Rightarrow> int \<Rightarrow> TableMeta" where
  "mk_TableMeta s n oid = \<lparr>tm_schema = s, tm_name = n, tm_table_oid = oid,
     last_table_data_page_id = INVALID_PAGE_ID, last_table_heap_data_page_id = INVALID_PAGE_ID,
     tuple_count = 0\<rparr>"

text \<open>\<^verbatim>\<open>++last_table_data_page_id_\<close> on the largest \<^verbatim>\<open>int32_t\<close> is signed overflow.\<close>

definition IncrementTableDataPageId :: "(TableMeta, int) action" where
  "IncrementTableDataPageId m =
     (if tm_table_oid m = INVALID_TABLE_OID
      then (Inl (AssertionFailed ''table_oid_ != INVALID_TABLE_OID''), m)
      else if last_table_data_page_id m = INVALID_PAGE_ID
      then (Inr 0, m\<lparr>last_table_data_page_id := 0\<rparr>)
      else if last_table_data_page_id m = 2 ^ 31 - 1
      then (Inl (UndefinedBehaviour ''signed integer overflow''), m)
      else let p = last_table_data_page_id m + 1 in (Inr p, m\<lparr>last_table_data_page_id := p\<rparr>))"

definition IncreaseTupleCount :: "TableMeta \<Rightarrow> TableMeta" where
  "IncreaseTupleCount m = m\<lparr>tuple_count := tuple_count m + 1\<rparr>"

section \<open>The layout in closed form\<close>

definition col_width :: "Column \<Rightarrow> nat" where
  "col_width c = (if IsInlined c then column_length c else 4)"

fun layout :: "Column list \<Rightarrow> nat \<Rightarrow> nat \<Rightarrow> Column list" where
  "layout [] i off = []"
| "layout (c # cs) i off =
     c\<lparr>storage_offset := off, schema_offset := i\<rparr> # layout cs (Suc i) (off + col_width c)"

fun uninlined :: "Column list \<Rightarrow> nat \<Rightarrow> nat list" where
  "uninlined [] i = []"
| "uninlined (c # cs) i = (if IsInlined c then [] else [i]) @ uninlined cs (Suc i)"

definition inline_size :: "Column list \<Rightarrow> nat" where
  "inline_size cs = sum_list (map col_width cs)"

lemma inline_size_simps [simp]:
  "inline_size [] = 0"
  "inline_size (c # cs) = col_width c + inline_size cs"
  by (simp_all add: inline_size_def)

lemma length_layout [simp]: "length (layout cs i off) = length cs"
  by (induction cs arbitrary: i off) auto

lemma Schema_loop_layout:
  assumes "\<forall>c \<in> set cs. column_length c > 0" and "off + inline_size cs < 2 ^ 32"
  shows "Schema_loop cs i off s =
     Inr \<lparr>columns = columns s @ layout cs i off,
          uninlined_columns = uninlined_columns s @ uninlined cs i,
          tuple_inline_part_storage_size = off + inline_size cs\<rparr>"
  using assms
proof (induction cs arbitrary: i off s)
  case (Cons c cs)
  from Cons.prems have "off + col_width c + inline_size cs < 2 ^ 32" by (simp add: add.assoc)
  then have w: "(if IsInlined c then (off + column_length c) mod 2 ^ 32 else (off + 4) mod 2 ^ 32)
     = off + col_width c"
    by (auto simp: col_width_def split: if_splits)
  show ?case
    using Cons w by (simp add: Let_def add.assoc)
qed simp

lemma Schema_loop_bad:
  "\<exists>c \<in> set cs. column_length c = 0 \<Longrightarrow>
     Schema_loop cs i off s = Inl (AssertionFailed ''Invalid column length'')"
  by (induction cs arbitrary: i off s) (auto simp: Let_def rassert_def)

lemma mk_Schema_layout:
  assumes "\<forall>c \<in> set cs. column_length c > 0" and "inline_size cs < 2 ^ 32"
  shows "mk_Schema cs = Inr \<lparr>columns = layout cs 0 0, uninlined_columns = uninlined cs 0,
     tuple_inline_part_storage_size = inline_size cs\<rparr>"
  using assms by (simp add: mk_Schema_def Schema_loop_layout empty_schema_def)

lemma nth_layout:
  "k < length cs \<Longrightarrow> layout cs i off ! k =
     (cs ! k)\<lparr>storage_offset := off + inline_size (take k cs), schema_offset := i + k\<rparr>"
proof (induction cs arbitrary: i off k)
  case (Cons c cs)
  then show ?case by (cases k) (simp_all add: add.assoc)
qed simp

lemma col_width_update [simp]:
  "col_width (c\<lparr>storage_offset := a, schema_offset := b\<rparr>) = col_width c"
  "IsInlined (c\<lparr>storage_offset := a, schema_offset := b\<rparr>) = IsInlined c"
  by (simp_all add: col_width_def IsInlined_def)

lemma set_uninlined: "set (uninlined cs i) = {i + k | k. k < length cs \<and> \<not> IsInlined (cs ! k)}"
proof (induction cs arbitrary: i)
  case (Cons c cs)
  have "{i + k |k. k < length (c # cs) \<and> \<not> IsInlined ((c # cs) ! k)} =
     (if IsInlined c then {} else {i}) \<union> {Suc i + k |k. k < length cs \<and> \<not> IsInlined (cs ! k)}"
    (is "?L = ?R")
  proof
    show "?L \<subseteq> ?R"
    proof
      fix x assume "x \<in> ?L"
      then obtain k where "x = i + k" "k < length (c # cs)" "\<not> IsInlined ((c # cs) ! k)" by blast
      then show "x \<in> ?R" by (cases k) auto
    qed
    show "?R \<subseteq> ?L" by (auto split: if_splits)
  qed
  with Cons show ?case by simp
qed simp

lemma inline_size_take_mono: "j \<le> k \<Longrightarrow> inline_size (take j cs) \<le> inline_size (take k cs)"
proof (induction cs arbitrary: j k)
  case (Cons c cs)
  then show ?case by (cases j; cases k) auto
qed simp

lemma inline_size_take_Suc:
  "k < length cs \<Longrightarrow> inline_size (take (Suc k) cs) = inline_size (take k cs) + col_width (cs ! k)"
  by (simp add: inline_size_def take_Suc_conv_app_nth)

lemma inline_size_take_le: "inline_size (take k cs) \<le> inline_size cs"
  using inline_size_take_mono [of k "max k (length cs)" cs] by simp

section \<open>Properties\<close>

text \<open>C27: The schema constructor lays the columns out without overlap and without gaps. For columns of positive
  length whose inline part fits in 32 bits it succeeds; column \<open>k\<close> keeps its name, type and
  length, records its own index, and starts where the widths of the columns before it end; the inline part is exactly as
  long as all widths together, so that the windows of two columns are disjoint and fill it; and exactly the
  VARCHAR columns are listed as uninlined.\<close>

theorem schema_layout:
  assumes "\<forall>c \<in> set cs. column_length c > 0" and "inline_size cs < 2 ^ 32"
  shows "\<exists>s. mk_Schema cs = Inr s \<and> length (columns s) = length cs \<and>
     set (uninlined_columns s) = {k. k < length cs \<and> column_type (cs ! k) = VARCHAR} \<and>
     (\<forall>k < length cs.
        (let c = columns s ! k in
         column_name c = column_name (cs ! k) \<and> column_type c = column_type (cs ! k) \<and>
         column_length c = column_length (cs ! k) \<and> schema_offset c = k \<and>
         storage_offset c = sum_list (map col_width (take k cs)))) \<and>
     tuple_inline_part_storage_size s = sum_list (map col_width cs) \<and>
     (\<forall>j k. j < k \<and> k < length cs \<longrightarrow>
        storage_offset (columns s ! j) + col_width (columns s ! j) \<le> storage_offset (columns s ! k))"
proof (intro exI conjI)
  let ?s = "\<lparr>columns = layout cs 0 0, uninlined_columns = uninlined cs 0,
     tuple_inline_part_storage_size = inline_size cs\<rparr>"
  show "mk_Schema cs = Inr ?s" using assms by (rule mk_Schema_layout)
  have win: "inline_size (take k cs) + col_width (cs ! k) = inline_size (take (Suc k) cs)"
    if "k < length cs" for k using that by (simp add: inline_size_take_Suc)
  show "\<forall>j k. j < k \<and> k < length cs \<longrightarrow>
        storage_offset (columns ?s ! j) + col_width (columns ?s ! j) \<le> storage_offset (columns ?s ! k)"
  proof (intro allI impI)
    fix j k assume "j < k \<and> k < length cs"
    then show "storage_offset (columns ?s ! j) + col_width (columns ?s ! j) \<le> storage_offset (columns ?s ! k)"
      using inline_size_take_mono [of "Suc j" k cs] by (simp add: nth_layout win)
  qed
  show "tuple_inline_part_storage_size ?s = sum_list (map col_width cs)" by (simp add: inline_size_def)
  show "\<forall>k < length cs. (let c = columns ?s ! k in
         column_name c = column_name (cs ! k) \<and> column_type c = column_type (cs ! k) \<and>
         column_length c = column_length (cs ! k) \<and> schema_offset c = k \<and>
         storage_offset c = sum_list (map col_width (take k cs)))"
    by (simp add: nth_layout inline_size_def)
qed (auto simp: set_uninlined IsInlined_def)

theorem schema_layout_witness:
  "\<exists>s. mk_Schema [mk_column_rec ''id'' INTEGER 4, mk_column_rec ''name'' VARCHAR 40] = Inr s \<and>
     storage_offset (columns s ! 0) = 0 \<and> storage_offset (columns s ! 1) = 4 \<and> tuple_inline_part_storage_size s = 8"
proof -
  define cs where "cs = [mk_column_rec ''id'' INTEGER 4, mk_column_rec ''name'' VARCHAR 40]"
  have hyps: "\<forall>c \<in> set cs. column_length c > 0" "inline_size cs < 2 ^ 32"
    by (simp_all add: cs_def mk_column_rec_def col_width_def IsInlined_def)
  obtain s where s: "mk_Schema cs = Inr s" "tuple_inline_part_storage_size s = sum_list (map col_width cs)"
    and off: "\<forall>k < length cs. storage_offset (columns s ! k) = sum_list (map col_width (take k cs))"
    using schema_layout [OF hyps] by (auto simp: Let_def)
  have "storage_offset (columns s ! 0) = 0" "storage_offset (columns s ! 1) = 4"
    using off by (simp_all add: cs_def mk_column_rec_def col_width_def IsInlined_def)
  moreover have "tuple_inline_part_storage_size s = 8" using s(2) by (simp add: cs_def mk_column_rec_def col_width_def IsInlined_def)
  ultimately show ?thesis using s(1) unfolding cs_def by blast
qed

lemma increment_page_id:
  assumes "tm_table_oid m \<noteq> INVALID_TABLE_OID"
    and "INVALID_PAGE_ID \<le> last_table_data_page_id m" and "last_table_data_page_id m < 2 ^ 31 - 1"
  shows "IncrementTableDataPageId m =
     (Inr (last_table_data_page_id m + 1),
      m\<lparr>last_table_data_page_id := last_table_data_page_id m + 1\<rparr>)"
  using assms by (auto simp: IncrementTableDataPageId_def Let_def)

end
