(* ===== verification/Tuples.thy ===== *)
theory Tuples
  imports Schemas
begin

text \<open>
  Tuples: \<^verbatim>\<open>storage/table/tuple.hpp\<close> and \<^verbatim>\<open>storage/table/tuple.cpp\<close>.

  A tuple is a byte vector: the inline part, laid out by the schema, followed by the data of the
  variable-length columns in column order, each preceded by its length; the inline part holds
  the offset of that data. \<open>fill\<close> is the constructor's second loop, \<open>add_varlen\<close> its first.
\<close>

record TupleMeta =
  is_deleted :: bool

record Tuple =
  tuple_rid :: RID
  tuple_data :: bytes

definition default_rid :: RID where
  "default_rid = mk_rid default_page_id 0"

fun add_varlen :: "Value list \<Rightarrow> Schema \<Rightarrow> nat list \<Rightarrow> nat \<Rightarrow> nat result" where
  "add_varlen vs s [] tuple_size = Inr tuple_size"
| "add_varlen vs s (u # us) tuple_size =
     rbind (at_index vs u) (\<lambda>v.
     rbind (Value_GetStorageSize v) (\<lambda>len.
     rbind (GetColumn s u) (\<lambda>c.
     if len > column_length c
     then Inl (Exception ''Value length exceeds schema max length for column'')
     else add_varlen vs s us ((tuple_size + 4 + len) mod 2 ^ 32))))"

fun fill :: "Column list \<Rightarrow> Value list \<Rightarrow> nat \<Rightarrow> bytes \<Rightarrow> bytes result" where
  "fill (c # cs) (v # vs) offset m =
     (if \<not> IsInlined c
      then rbind (store_at (storage_offset c) (nat_bytes 4 offset) m) (\<lambda>m1.
           rbind (SerializeTo v offset m1) (\<lambda>m2.
           rbind (Value_GetStorageSize v) (\<lambda>len.
           fill cs vs ((offset + len + 4) mod 2 ^ 32) m2)))
      else rbind (SerializeTo v (storage_offset c) m) (\<lambda>m1. fill cs vs offset m1))"
| "fill _ _ offset m = Inr m"

definition mk_Tuple :: "Value list \<Rightarrow> Schema \<Rightarrow> Tuple result" where
  "mk_Tuple vs s =
     rbind (rassert (length vs = GetColumnCount s) ''values.size() == schema.GetColumnCount()'') (\<lambda>_.
     let inline = tuple_inline_part_storage_size s in
     rbind (rassert (inline > 0) ''Tuple size must be greater than 0'') (\<lambda>_.
     rbind (rassert (inline < PAGE_SIZE) ''Tuple size must be less than PAGE_SIZE'') (\<lambda>_.
     rbind (add_varlen vs s (uninlined_columns s) inline) (\<lambda>tuple_size.
     rbind (fill (columns s) vs inline (replicate tuple_size 0)) (\<lambda>d.
     Inr \<lparr>tuple_rid = default_rid, tuple_data = d\<rparr>)))))"

definition Tuple_GetStorageSize :: "Tuple \<Rightarrow> nat" where
  "Tuple_GetStorageSize t = length (tuple_data t) mod 2 ^ 32"

definition Tuple_SerializeTo :: "Tuple \<Rightarrow> nat \<Rightarrow> bytes \<Rightarrow> bytes result" where
  "Tuple_SerializeTo t off m = store_at off (tuple_data t) m"

definition Tuple_DeserializeFrom :: "Tuple \<Rightarrow> bytes \<Rightarrow> nat \<Rightarrow> nat \<Rightarrow> Tuple result" where
  "Tuple_DeserializeFrom t m off sz =
     rbind (load_at off sz m) (\<lambda>bs.
     rbind (store_at 0 bs (tuple_data t)) (\<lambda>d. Inr (t\<lparr>tuple_data := d\<rparr>)))"

definition GetDataPtr :: "Tuple \<Rightarrow> Column \<Rightarrow> nat result" where
  "GetDataPtr t c =
     (if IsInlined c
      then rbind (rassert (storage_offset c < length (tuple_data t)) ''offset out of range'')
             (\<lambda>_. Inr (storage_offset c))
      else rbind (load_at (storage_offset c) 4 (tuple_data t)) (\<lambda>bs.
           if bytes_int bs < 0 then Inl (UndefinedBehaviour ''pointer before the buffer'')
           else Inr (nat (bytes_int bs))))"

definition GetValue :: "Tuple \<Rightarrow> Column \<Rightarrow> Value result" where
  "GetValue t c = rbind (GetDataPtr t c) (\<lambda>p. DeserializeFrom (tuple_data t) p (column_type c))"

definition GetValue_idx :: "Tuple \<Rightarrow> Schema \<Rightarrow> nat \<Rightarrow> Value result" where
  "GetValue_idx t s i = rbind (GetColumn s i) (GetValue t)"

fun join :: "string \<Rightarrow> string list \<Rightarrow> string" where
  "join sep [] = []"
| "join sep [x] = x"
| "join sep (x # xs) = x @ sep @ join sep xs"

fun collect_strings :: "Tuple \<Rightarrow> Column list \<Rightarrow> string list result" where
  "collect_strings t [] = Inr []"
| "collect_strings t (c # cs) =
     rbind (GetValue t c) (\<lambda>v. rbind (Value_ToString v) (\<lambda>x.
     rbind (collect_strings t cs) (\<lambda>xs. Inr (x # xs))))"

definition Tuple_ToString :: "Tuple \<Rightarrow> Schema \<Rightarrow> string result" where
  "Tuple_ToString t s =
     rbind (collect_strings t (columns s)) (\<lambda>xs. Inr (''('' @ join '', '' xs @ '')''))"

section \<open>Well-typed rows\<close>

text \<open>A column as its constructor leaves it, and a value that fits it.\<close>

definition wf_column :: "Column \<Rightarrow> bool" where
  "wf_column c \<longleftrightarrow> column_length c > 0 \<and>
     (case column_type c of VARCHAR \<Rightarrow> True | t \<Rightarrow> TypeSize t 0 = Inr (column_length c))"

definition conforms :: "Column \<Rightarrow> Value \<Rightarrow> bool" where
  "conforms c v \<longleftrightarrow> wf_column c \<and> readable v \<and> column_type c = type_id v \<and>
     (case val v of Str s \<Rightarrow> length s \<le> column_length c | _ \<Rightarrow> True)"

fun var_size :: "Column list \<Rightarrow> Value list \<Rightarrow> nat" where
  "var_size (c # cs) (v # vs) =
     (if IsInlined c then 0 else length (val_bytes (val v))) + var_size cs vs"
| "var_size _ _ = 0"

definition tuple_size_of :: "Column list \<Rightarrow> Value list \<Rightarrow> nat" where
  "tuple_size_of cs vs = inline_size cs + var_size cs vs"

text \<open>Where the value of a column is found in a finished tuple.\<close>

definition stored :: "bytes \<Rightarrow> Column \<Rightarrow> Value \<Rightarrow> bool" where
  "stored m c v \<longleftrightarrow>
     (if IsInlined c
      then storage_offset c + length (val_bytes (val v)) \<le> length m \<and>
           slice (storage_offset c) (length (val_bytes (val v))) m = val_bytes (val v)
      else \<exists>p. storage_offset c + 4 \<le> length m \<and> p < 2 ^ 31 \<and>
           slice (storage_offset c) 4 m = nat_bytes 4 p \<and> p + length (val_bytes (val v)) \<le> length m \<and>
           slice p (length (val_bytes (val v))) m = val_bytes (val v))"

lemma conforms_cases:
  assumes "conforms c v"
  obtains (int) i where "column_type c = INTEGER" "column_length c = 4"
      "v = \<lparr>type_id = INTEGER, val = Int32 i, is_null = False\<rparr>"
  | (ts) u where "column_type c = TIMESTAMP" "column_length c = 8"
      "v = \<lparr>type_id = TIMESTAMP, val = UInt64 u, is_null = False\<rparr>"
  | (str) s where "column_type c = VARCHAR" "v = \<lparr>type_id = VARCHAR, val = Str s, is_null = False\<rparr>"
      "length s \<le> column_length c" "length s < PAGE_SIZE"
proof -
  from assms have "wf_value v" by (simp add: conforms_def readable_def)
  then show thesis
  proof (cases rule: wf_valueE)
    case (bool b)
    with assms show thesis by (simp add: conforms_def readable_def)
  next
    case (int i)
    show thesis by (rule that(1) [OF _ _ int]) (use int assms in \<open>auto simp: conforms_def wf_column_def\<close>)
  next
    case (ts u)
    show thesis by (rule that(2) [OF _ _ ts]) (use ts assms in \<open>auto simp: conforms_def wf_column_def\<close>)
  next
    case (str s)
    show thesis by (rule that(3) [OF _ str(1)]) (use str assms in \<open>auto simp: conforms_def readable_def\<close>)
  qed
qed

lemma conforms_facts:
  assumes "conforms c v"
  shows "wf_value v" and "readable v" and "type_id v = column_type c"
    and "IsInlined c \<Longrightarrow> length (val_bytes (val v)) = col_width c"
    and "IsInlined c \<Longrightarrow> 0 < col_width c"
    and "\<not> IsInlined c \<Longrightarrow> Value_GetStorageSize v = Inr (length (val_bytes (val v)) - 4)"
    and "\<not> IsInlined c \<Longrightarrow> length (val_bytes (val v)) - 4 \<le> column_length c"
    and "\<not> IsInlined c \<Longrightarrow> 4 \<le> length (val_bytes (val v))"
proof -
  show "wf_value v" "readable v" "type_id v = column_type c"
    using assms by (simp_all add: conforms_def readable_def)
qed (use assms in \<open>cases rule: conforms_cases,
      simp_all add: col_width_def IsInlined_def Value_GetStorageSize_def GetVarlenStorageSize_def\<close>)+

lemma stored_GetValue:
  assumes "conforms c v" and "stored (tuple_data t) c v"
  shows "GetValue t c = Inr (v\<lparr>val := reread_val (val v)\<rparr>)"
proof (cases "IsInlined c")
  case True
  have "DeserializeFrom (tuple_data t) (storage_offset c) (type_id v) =
     Inr (v\<lparr>val := reread_val (val v)\<rparr>)"
    using assms True by (intro DeserializeFrom_stored) (auto simp: stored_def conforms_def)
  moreover have "storage_offset c < length (tuple_data t)"
    using assms(2) True conforms_facts(4,5) [OF assms(1)] by (auto simp: stored_def)
  ultimately show ?thesis
    using True conforms_facts(3) [OF assms(1)] by (simp add: GetValue_def GetDataPtr_def)
next
  case False
  with assms(2) obtain p where p: "storage_offset c + 4 \<le> length (tuple_data t)" "p < 2 ^ 31"
    "slice (storage_offset c) 4 (tuple_data t) = nat_bytes 4 p"
    "p + length (val_bytes (val v)) \<le> length (tuple_data t)"
    "slice p (length (val_bytes (val v))) (tuple_data t) = val_bytes (val v)"
    by (auto simp: stored_def)
  have "bytes_int (nat_bytes 4 p) = int p"
    using p(2) by (simp add: bytes_int_def bytes_nat_nat_bytes)
  then have "GetDataPtr t c = Inr p"
    using False p by (simp add: GetDataPtr_def load_at_ok)
  moreover have "DeserializeFrom (tuple_data t) p (type_id v) = Inr (v\<lparr>val := reread_val (val v)\<rparr>)"
    using assms(1) p by (intro DeserializeFrom_stored) (auto simp: conforms_def)
  ultimately show ?thesis
    using conforms_facts(3) [OF assms(1)] by (simp add: GetValue_def)
qed

section \<open>The constructor\<close>

text \<open>
  \<open>agree lo hi off m m'\<close>: the buffers differ at most in the windows \<open>[lo, hi)\<close> and from
  \<open>off\<close> on, which is all that a run of \<open>fill\<close> over a suffix of the columns may touch.
\<close>

definition agree :: "nat \<Rightarrow> nat \<Rightarrow> nat \<Rightarrow> bytes \<Rightarrow> bytes \<Rightarrow> bool" where
  "agree lo hi off m m' \<longleftrightarrow> length m' = length m \<and>
     (\<forall>i < length m. i < lo \<or> hi \<le> i \<and> i < off \<longrightarrow> m' ! i = m ! i)"

lemma agree_slice:
  assumes "agree lo hi off m m'" and "a + n \<le> lo \<or> hi \<le> a \<and> a + n \<le> off"
  shows "slice a n m' = slice a n m"
  using assms by (intro slice_cong) (auto simp: agree_def)

lemma agree_trans:
  assumes "agree lo hi off m m1" and "agree lo1 hi1 off1 m1 m2"
    and "lo \<le> lo1" "hi1 \<le> hi" "off \<le> off1"
  shows "agree lo hi off m m2"
  using assms by (auto simp: agree_def)

lemma agree_blit:
  "a + length bs \<le> length m \<Longrightarrow> lo \<le> a \<and> (a + length bs \<le> hi \<or> off \<le> a) \<Longrightarrow> agree lo hi off m (blit a bs m)"
  by (auto simp: agree_def nth_blit)

lemma stored_agree:
  assumes "agree lo hi off m m'"
    and "storage_offset c + col_width c \<le> lo" and "stored m c v" and "conforms c v"
    and "\<And>p. \<not> IsInlined c \<Longrightarrow> slice (storage_offset c) 4 m = nat_bytes 4 p \<Longrightarrow> p < 2 ^ 31 \<Longrightarrow>
           hi \<le> p \<and> p + length (val_bytes (val v)) \<le> off"
  shows "stored m' c v"
proof (cases "IsInlined c")
  case True
  then have w: "length (val_bytes (val v)) = col_width c" using conforms_facts(4) [OF assms(4)] by simp
  have "slice (storage_offset c) (col_width c) m' = slice (storage_offset c) (col_width c) m"
    using assms(1,2) by (intro agree_slice) auto
  with True w assms(1,3) show ?thesis by (auto simp: stored_def agree_def)
next
  case False
  then have w: "col_width c = 4" by (simp add: col_width_def)
  from False assms(3) obtain p where p: "storage_offset c + 4 \<le> length m" "p < 2 ^ 31"
    "slice (storage_offset c) 4 m = nat_bytes 4 p"
    "p + length (val_bytes (val v)) \<le> length m"
    "slice p (length (val_bytes (val v))) m = val_bytes (val v)"
    by (auto simp: stored_def)
  have "slice (storage_offset c) 4 m' = slice (storage_offset c) 4 m"
    using assms(1,2) w by (intro agree_slice) auto
  moreover have "slice p (length (val_bytes (val v))) m' = slice p (length (val_bytes (val v))) m"
    using assms(1) assms(5) [OF False p(3,2)] by (intro agree_slice) auto
  ultimately show ?thesis
    using False p assms(1) by (auto simp: stored_def agree_def)
qed

fun contig :: "nat \<Rightarrow> Column list \<Rightarrow> bool" where
  "contig lo [] = True"
| "contig lo (c # cs) \<longleftrightarrow> storage_offset c = lo \<and> contig (lo + col_width c) cs"

lemma contig_layout: "contig off (layout cs i off)"
  by (induction cs arbitrary: i off) auto

lemma nat_bytes_inj: "nat_bytes n a = nat_bytes n b \<Longrightarrow> a < 256 ^ n \<Longrightarrow> b < 256 ^ n \<Longrightarrow> a = b"
  by (metis bytes_nat_nat_bytes_id)

text \<open>One column of the constructor's loop.\<close>

lemma fill_inlined:
  assumes "conforms c v" and "IsInlined c" and "storage_offset c + col_width c \<le> length m"
  shows "fill (c # cs) (v # vs) off m = fill cs vs off (blit (storage_offset c) (val_bytes (val v)) m)"
    and "stored (blit (storage_offset c) (val_bytes (val v)) m) c v"
  using assms conforms_facts(1,4) [OF assms(1)]
  by (auto simp: SerializeTo_wf stored_def mem_simps)

lemma fill_uninlined:
  assumes "conforms c v" and "\<not> IsInlined c" and "storage_offset c + 4 \<le> off"
    and "off + length (val_bytes (val v)) \<le> length m" and "length m < 2 ^ 31"
  defines "m2 \<equiv> blit off (val_bytes (val v)) (blit (storage_offset c) (nat_bytes 4 off) m)"
  shows "fill (c # cs) (v # vs) off m = fill cs vs (off + length (val_bytes (val v))) m2"
    and "stored m2 c v"
proof -
  have "off + length (val_bytes (val v)) < 2 ^ 31" using assms(4,5) by simp
  then have wrap: "(off + (length (val_bytes (val v)) - 4) + 4) mod 2 ^ 32 = off + length (val_bytes (val v))"
    using conforms_facts(8) [OF assms(1,2)] by simp
  show "fill (c # cs) (v # vs) off m = fill cs vs (off + length (val_bytes (val v))) m2"
    using assms conforms_facts(1,6) [OF assms(1)] wrap
    by (simp add: store_at_def SerializeTo_wf)
  have "slice (storage_offset c) 4 m2 = nat_bytes 4 off"
    using assms(3,4) by (simp add: m2_def mem_simps)
  moreover have "slice off (length (val_bytes (val v))) m2 = val_bytes (val v)"
    using assms(3,4) by (simp add: m2_def mem_simps)
  moreover have "length m2 = length m" using assms(3,4) by (simp add: m2_def)
  ultimately show "stored m2 c v"
    using assms(2-5) unfolding stored_def by (auto intro!: exI [of _ off])
qed

lemma fill_ok:
  assumes "list_all2 conforms cs vs" and "contig lo cs" and "lo + inline_size cs \<le> off"
    and "off + var_size cs vs \<le> length m" and "length m < 2 ^ 31"
  shows "\<exists>m'. fill cs vs off m = Inr m' \<and> agree lo (lo + inline_size cs) off m m' \<and>
     list_all2 (stored m') cs vs"
  using assms
proof (induction cs vs arbitrary: lo off m rule: list_all2_induct)
  case Nil
  then show ?case by (simp add: agree_def)
next
  case (Cons c cs v vs)
  let ?b = "val_bytes (val v)"
  have lo: "storage_offset c = lo" using Cons.prems by simp
  show ?case
  proof (cases "IsInlined c")
    case True
    let ?m1 = "blit (storage_offset c) ?b m"
    have w: "length ?b = col_width c" using Cons.hyps(1) True by (rule conforms_facts(4))
    have room: "lo + col_width c \<le> length m" using Cons.prems by simp
    have "\<exists>m'. fill cs vs off ?m1 = Inr m' \<and>
        agree (lo + col_width c) (lo + col_width c + inline_size cs) off ?m1 m' \<and> list_all2 (stored m') cs vs"
      using Cons.prems True w room lo by (intro Cons.IH) auto
    then obtain m' where m': "fill cs vs off ?m1 = Inr m'"
      "agree (lo + col_width c) (lo + col_width c + inline_size cs) off ?m1 m'"
      "list_all2 (stored m') cs vs" by blast
    have "stored m' c v"
    proof (rule stored_agree [OF m'(2) _ _ Cons.hyps(1)])
      show "stored ?m1 c v" using fill_inlined(2) [OF Cons.hyps(1) True, of m] lo room by simp
    qed (use True lo in simp_all)
    moreover have "agree lo (lo + inline_size (c # cs)) off m m'"
      by (rule agree_trans [OF agree_blit m'(2)]) (use w room lo in simp_all)
    ultimately show ?thesis
      using m'(1,3) lo room fill_inlined(1) [OF Cons.hyps(1) True, of m cs vs off] by simp
  next
    case False
    let ?m2 = "blit off ?b (blit (storage_offset c) (nat_bytes 4 off) m)"
    have w: "col_width c = 4" using False by (simp add: col_width_def)
    have room: "storage_offset c + 4 \<le> off" "off + length ?b \<le> length m"
      using Cons.prems False w lo by auto
    have "\<exists>m'. fill cs vs (off + length ?b) ?m2 = Inr m' \<and>
        agree (lo + 4) (lo + 4 + inline_size cs) (off + length ?b) ?m2 m' \<and> list_all2 (stored m') cs vs"
      using Cons.prems False w room lo by (intro Cons.IH) auto
    then obtain m' where m': "fill cs vs (off + length ?b) ?m2 = Inr m'"
      "agree (lo + 4) (lo + 4 + inline_size cs) (off + length ?b) ?m2 m'"
      "list_all2 (stored m') cs vs" by blast
    note step = fill_uninlined [OF Cons.hyps(1) False room Cons.prems(4)]
    have m2off: "slice (storage_offset c) 4 ?m2 = nat_bytes 4 off"
      using room by (simp add: mem_simps)
    have "stored m' c v"
    proof (rule stored_agree [OF m'(2)])
      fix p assume "slice (storage_offset c) 4 ?m2 = nat_bytes 4 p" "p < 2 ^ 31"
      with m2off room Cons.prems(4) have "p = off" by (intro nat_bytes_inj [of 4]) auto
      then show "lo + 4 + inline_size cs \<le> p \<and> p + length ?b \<le> off + length ?b"
        using Cons.prems w by simp
    qed (use lo w step(2) Cons.hyps(1) in simp_all)
    moreover have "agree lo (lo + inline_size (c # cs)) off m m'"
    proof -
      have "agree lo (lo + inline_size (c # cs)) off m (blit (storage_offset c) (nat_bytes 4 off) m)"
        using lo w room by (intro agree_blit) auto
      moreover have "agree lo (lo + inline_size (c # cs)) off (blit (storage_offset c) (nat_bytes 4 off) m) ?m2"
        using lo w room by (intro agree_blit) auto
      ultimately show ?thesis using m'(2) w by (auto simp: agree_def)
    qed
    ultimately show ?thesis using m'(1,3) step(1) [of cs vs] by simp
  qed
qed

lemma add_varlen_ok:
  assumes "list_all2 conforms (drop i cols) (drop i vs)" and "length vs = length cols"
    and "n + var_size (drop i cols) (drop i vs) < 2 ^ 32"
    and "map column_type (columns s) = map column_type cols"
    and "map column_length (columns s) = map column_length cols"
  shows "add_varlen vs s (uninlined (drop i cols) i) n = Inr (n + var_size (drop i cols) (drop i vs))"
  using assms
proof (induction "length cols - i" arbitrary: i n)
  case 0
  then show ?case by simp
next
  case (Suc d)
  then have i: "i < length cols" by simp
  have dc: "drop i cols = cols ! i # drop (Suc i) cols" "drop i vs = vs ! i # drop (Suc i) vs"
    using i Suc.prems(2) by (simp_all add: Cons_nth_drop_Suc)
  have cf: "conforms (cols ! i) (vs ! i)" using Suc.prems(1) by (simp add: dc)
  have len: "length (columns s) = length cols" using Suc.prems(4) by (metis length_map)
  have cl: "column_length (columns s ! i) = column_length (cols ! i)"
    using Suc.prems(5) i len by (metis nth_map)
  have IH: "add_varlen vs s (uninlined (drop (Suc i) cols) (Suc i)) n' =
      Inr (n' + var_size (drop (Suc i) cols) (drop (Suc i) vs))"
    if "n' + var_size (drop (Suc i) cols) (drop (Suc i) vs) < 2 ^ 32" for n'
    using Suc.hyps(2) Suc.prems that by (intro Suc.hyps(1)) (auto simp: dc)
  show ?case
  proof (cases "IsInlined (cols ! i)")
    case True
    with IH [of n] Suc.prems(3) show ?thesis by (simp add: dc)
  next
    case False
    let ?b = "length (val_bytes (val (vs ! i)))"
    have "(n + 4 + (?b - 4)) mod 2 ^ 32 = n + ?b"
      using Suc.prems(3) False conforms_facts(8) [OF cf False] by (simp add: dc)
    with False IH [of "n + ?b"] Suc.prems(2,3) i len cl conforms_facts(6,7) [OF cf False]
    show ?thesis by (simp add: dc at_index_def GetColumn_def add.assoc)
  qed
qed

lemma layout_maps [simp]:
  "map column_type (layout cs i off) = map column_type cs"
  "map column_length (layout cs i off) = map column_length cs"
  by (induction cs arbitrary: i off) auto

lemma conforms_layout [simp]:
  "conforms (c\<lparr>storage_offset := a, schema_offset := b\<rparr>) v = conforms c v"
  by (cases "column_type c"; cases "val v") (simp_all add: conforms_def wf_column_def)

lemma layout_conforms: "list_all2 conforms cs vs \<Longrightarrow> list_all2 conforms (layout cs i off) vs"
  by (induction cs vs arbitrary: i off rule: list_all2_induct) auto

lemma layout_sizes [simp]:
  "inline_size (layout cs i off) = inline_size cs"
  "var_size (layout cs i off) vs = var_size cs vs"
proof -
  show "inline_size (layout cs i off) = inline_size cs"
    by (induction cs arbitrary: i off) auto
  show "var_size (layout cs i off) vs = var_size cs vs"
    by (induction cs vs arbitrary: i off rule: var_size.induct) auto
qed

lemma mk_Tuple_stored:
  assumes "list_all2 conforms cs vs" and "cs \<noteq> []" and "inline_size cs < PAGE_SIZE"
    and "tuple_size_of cs vs < 2 ^ 31"
  shows "\<exists>s t. mk_Schema cs = Inr s \<and> mk_Tuple vs s = Inr t \<and> columns s = layout cs 0 0 \<and>
     length (tuple_data t) = tuple_size_of cs vs \<and> list_all2 (stored (tuple_data t)) (columns s) vs"
proof -
  have len: "length vs = length cs" using assms(1) by (simp add: list_all2_lengthD)
  have pos: "\<forall>c \<in> set cs. column_length c > 0"
    using assms(1) by (auto simp: list_all2_conv_all_nth conforms_def wf_column_def in_set_conv_nth)
  let ?s = "\<lparr>columns = layout cs 0 0, uninlined_columns = uninlined cs 0,
     tuple_inline_part_storage_size = inline_size cs\<rparr>"
  have s: "mk_Schema cs = Inr ?s" using pos assms(3) by (intro mk_Schema_layout) auto
  have "0 < inline_size cs" using assms(2) pos by (cases cs) (auto simp: col_width_def)
  moreover have "add_varlen vs ?s (uninlined cs 0) (inline_size cs) = Inr (tuple_size_of cs vs)"
    using add_varlen_ok [of 0 cs vs "inline_size cs" ?s] assms len by (simp add: tuple_size_of_def)
  moreover have "\<exists>m'. fill (layout cs 0 0) vs (inline_size cs) (replicate (tuple_size_of cs vs) 0) = Inr m' \<and>
      agree 0 (0 + inline_size (layout cs 0 0)) (inline_size cs) (replicate (tuple_size_of cs vs) 0) m' \<and>
      list_all2 (stored m') (layout cs 0 0) vs"
    using assms by (intro fill_ok) (auto simp: layout_conforms contig_layout tuple_size_of_def)
  ultimately show ?thesis
    using s assms(3) len
    by (auto simp: mk_Tuple_def GetColumnCount_def agree_def)
qed

section \<open>Properties\<close>

text \<open>C8: A tuple gives back the row it was built from. For any nonempty list of columns as the
  column constructors make them, and any row whose values conform to them (right type, not null and not BOOLEAN, strings shorter than a page and
  no longer than declared), building the schema and the tuple succeeds, the tuple has exactly
  the size of the inline part plus the stored strings, and reading column \<open>k\<close> returns the
  \<open>k\<close>-th value (a TIMESTAMP modulo $2^{32}$, see \<^verbatim>\<open>value_store_load\<close>).\<close>

theorem tuple_roundtrip:
  assumes "list_all2 conforms cs vs" and "cs \<noteq> []" and "inline_size cs < PAGE_SIZE"
    and "tuple_size_of cs vs < 2 ^ 31"
  shows "\<exists>s t. mk_Schema cs = Inr s \<and> mk_Tuple vs s = Inr t \<and>
     length (tuple_data t) = tuple_size_of cs vs \<and>
     (\<forall>k < length vs. GetValue_idx t s k = Inr ((vs ! k)\<lparr>val := reread_val (val (vs ! k))\<rparr>))"
proof -
  obtain s t where st: "mk_Schema cs = Inr s" "mk_Tuple vs s = Inr t" "columns s = layout cs 0 0"
    "length (tuple_data t) = tuple_size_of cs vs" "list_all2 (stored (tuple_data t)) (columns s) vs"
    using mk_Tuple_stored [OF assms] by blast
  have "GetValue_idx t s k = Inr ((vs ! k)\<lparr>val := reread_val (val (vs ! k))\<rparr>)" if "k < length vs" for k
  proof -
    have k: "k < length (columns s)" using that st(5) by (simp add: list_all2_lengthD)
    have "conforms (columns s ! k) (vs ! k)"
      using layout_conforms [OF assms(1), of 0 0] k st(3) by (auto dest: list_all2_nthD)
    moreover have "stored (tuple_data t) (columns s ! k) (vs ! k)"
      using st(5) k by (rule list_all2_nthD)
    ultimately have "GetValue t (columns s ! k) = Inr ((vs ! k)\<lparr>val := reread_val (val (vs ! k))\<rparr>)"
      by (rule stored_GetValue)
    then show ?thesis using k by (simp add: GetValue_idx_def GetColumn_def at_index_def)
  qed
  with st show ?thesis by blast
qed

theorem tuple_roundtrip_witness:
  "\<exists>s t. mk_Schema [mk_column_rec ''id'' INTEGER 4, mk_column_rec ''name'' VARCHAR 40] = Inr s \<and>
     mk_Tuple [\<lparr>type_id = INTEGER, val = Int32 2, is_null = False\<rparr>,
               \<lparr>type_id = VARCHAR, val = Str ''gavin'', is_null = False\<rparr>] s = Inr t \<and>
     length (tuple_data t) = 17 \<and>
     GetValue_idx t s 1 = Inr \<lparr>type_id = VARCHAR, val = Str ''gavin'', is_null = False\<rparr>"
proof -
  define cs where "cs = [mk_column_rec ''id'' INTEGER 4, mk_column_rec ''name'' VARCHAR 40]"
  define vs where "vs = [\<lparr>type_id = INTEGER, val = Int32 2, is_null = False\<rparr>,
               \<lparr>type_id = VARCHAR, val = Str ''gavin'', is_null = False\<rparr>]"
  have conf: "list_all2 conforms cs vs"
    by (simp add: cs_def vs_def conforms_def wf_column_def readable_def wf_value_def mk_column_rec_def)
  have size: "tuple_size_of cs vs = 17" "inline_size cs = 8"
    by (simp_all add: cs_def vs_def tuple_size_of_def mk_column_rec_def col_width_def IsInlined_def)
  obtain s t where st: "mk_Schema cs = Inr s" "mk_Tuple vs s = Inr t"
    "length (tuple_data t) = tuple_size_of cs vs"
    "\<forall>k < length vs. GetValue_idx t s k = Inr ((vs ! k)\<lparr>val := reread_val (val (vs ! k))\<rparr>)"
    using tuple_roundtrip [OF conf] size by (auto simp: cs_def)
  then have "GetValue_idx t s 1 = Inr \<lparr>type_id = VARCHAR, val = Str ''gavin'', is_null = False\<rparr>"
    by (simp add: vs_def)
  with st size show ?thesis unfolding cs_def vs_def by auto
qed

lemma add_varlen_too_long:
  assumes "\<forall>u \<in> set us. u < length vs \<and> u < length (columns s) \<and> Value_GetStorageSize (vs ! u) = Inr (len u)"
    and "\<exists>u \<in> set us. column_length (columns s ! u) < len u"
  shows "add_varlen vs s us n = Inl (Exception ''Value length exceeds schema max length for column'')"
  using assms by (induction us arbitrary: n) (auto simp: at_index_def GetColumn_def)

text \<open>A string longer than its column is refused. If some VARCHAR value of a row is longer than
  the declared length of its column, the tuple constructor throws, whatever the other values
  are, and no tuple is built.\<close>

theorem overlong_string_refused:
  assumes "mk_Schema cs = Inr s" and "length vs = length cs" and "cs \<noteq> []"
    and "\<forall>c \<in> set cs. column_length c > 0" and "inline_size cs < PAGE_SIZE"
    and "\<forall>k < length cs. column_type (cs ! k) = VARCHAR \<longrightarrow>
           wf_value (vs ! k) \<and> type_id (vs ! k) = VARCHAR"
    and "k < length cs" and "column_type (cs ! k) = VARCHAR"
    and "val (vs ! k) = Str str" and "column_length (cs ! k) < length str"
  shows "mk_Tuple vs s = Inl (Exception ''Value length exceeds schema max length for column'')"
proof -
  define strlen where "strlen j = (case val (vs ! j) of Str x \<Rightarrow> length x | _ \<Rightarrow> 0)" for j
  have s: "s = \<lparr>columns = layout cs 0 0, uninlined_columns = uninlined cs 0,
     tuple_inline_part_storage_size = inline_size cs\<rparr>"
    using mk_Schema_layout [OF assms(4)] assms(1,5) by simp
  have un: "set (uninlined cs 0) = {j. j < length cs \<and> column_type (cs ! j) = VARCHAR}"
    by (auto simp: set_uninlined IsInlined_def)
  have size: "Value_GetStorageSize (vs ! j) = Inr (strlen j)"
    if "j < length cs" "column_type (cs ! j) = VARCHAR" for j
  proof -
    from assms(6) that have "wf_value (vs ! j)" "type_id (vs ! j) = VARCHAR" by auto
    then show ?thesis
      by (cases rule: wf_valueE)
        (auto simp: strlen_def Value_GetStorageSize_def GetVarlenStorageSize_def)
  qed
  have "0 < inline_size cs" using assms(3,4) by (cases cs) (auto simp: col_width_def)
  moreover have "add_varlen vs s (uninlined_columns s) n =
      Inl (Exception ''Value length exceeds schema max length for column'')" for n
  proof (rule add_varlen_too_long [where len = strlen])
    show "\<forall>u \<in> set (uninlined_columns s). u < length vs \<and> u < length (columns s) \<and>
        Value_GetStorageSize (vs ! u) = Inr (strlen u)"
      using size assms(2) by (simp add: s un)
    show "\<exists>u \<in> set (uninlined_columns s). column_length (columns s ! u) < strlen u"
      using assms(7-10) by (auto simp: s un nth_layout strlen_def intro!: exI [of _ k])
  qed
  ultimately show ?thesis
    using assms(2,5) by (simp add: mk_Tuple_def s GetColumnCount_def)
qed

theorem overlong_string_refused_witness:
  "\<exists>s. mk_Schema [mk_column_rec ''name'' VARCHAR 3] = Inr s \<and>
     mk_Tuple [\<lparr>type_id = VARCHAR, val = Str ''hii4'', is_null = False\<rparr>] s =
       Inl (Exception ''Value length exceeds schema max length for column'')"
proof -
  let ?cs = "[mk_column_rec ''name'' VARCHAR 3]"
  let ?vs = "[\<lparr>type_id = VARCHAR, val = Str ''hii4'', is_null = False\<rparr>]"
  have pos: "\<forall>c \<in> set ?cs. column_length c > 0" "inline_size ?cs < PAGE_SIZE"
    by (simp_all add: mk_column_rec_def col_width_def IsInlined_def)
  obtain s where s: "mk_Schema ?cs = Inr s"
    using mk_Schema_layout [OF pos(1)] pos(2) by auto
  have "mk_Tuple ?vs s = Inl (Exception ''Value length exceeds schema max length for column'')"
    by (rule overlong_string_refused [OF s _ _ pos, where k = 0 and str = "''hii4''"])
      (auto simp: mk_column_rec_def wf_value_def)
  with s show ?thesis by blast
qed

end
