(* ===== verification/TablePages.thy ===== *)
theory TablePages
  imports Tuples
begin

text \<open>
  Slotted table pages: \<^verbatim>\<open>storage/page/table_page.hpp\<close> and \<^verbatim>\<open>storage/page/table_page.cpp\<close>.

  The model works on the bytes of the page, as the code does after its \<^verbatim>\<open>reinterpret_cast\<close>:
  next page id (4 bytes), number of tuples (2), number of deleted tuples (2), then one six-byte
  slot per tuple (offset, size, deletion flag, in the order \<^verbatim>\<open>TupleInfo\<close> declares them), while the tuple data grows
  down from the end of the page. \<open>tp_inv\<close> is the page invariant, \<open>tp_tuples\<close> the abstraction
  to a list of tuples; the locale \<open>slotted_store\<close> is what a table heap relies on.
\<close>

section \<open>Fields\<close>

abbreviation TABLE_PAGE_HEADER_SIZE :: nat where "TABLE_PAGE_HEADER_SIZE \<equiv> 8"
abbreviation TUPLE_INFO_SIZE :: nat where "TUPLE_INFO_SIZE \<equiv> 6"

definition GetNextPageId :: "bytes \<Rightarrow> int" where
  "GetNextPageId m = get_int 0 4 m"

definition SetNextPageId :: "int \<Rightarrow> bytes \<Rightarrow> bytes" where
  "SetNextPageId p m = put_int 0 4 p m"

definition GetNumTuples :: "bytes \<Rightarrow> nat" where
  "GetNumTuples m = get_uint 4 2 m"

definition num_deleted_tuples :: "bytes \<Rightarrow> nat" where
  "num_deleted_tuples m = get_uint 6 2 m"

definition slot_pos :: "nat \<Rightarrow> nat" where
  "slot_pos i = TABLE_PAGE_HEADER_SIZE + TUPLE_INFO_SIZE * i"

definition slot_off :: "bytes \<Rightarrow> nat \<Rightarrow> nat" where
  "slot_off m i = get_uint (slot_pos i) 2 m"

definition slot_size :: "bytes \<Rightarrow> nat \<Rightarrow> nat" where
  "slot_size m i = get_uint (slot_pos i + 2) 2 m"

definition slot_meta :: "bytes \<Rightarrow> nat \<Rightarrow> TupleMeta" where
  "slot_meta m i = \<lparr>is_deleted = (get_uint (slot_pos i + 4) 1 m \<noteq> 0)\<rparr>"

definition put_tuple_info :: "nat \<Rightarrow> nat \<Rightarrow> nat \<Rightarrow> TupleMeta \<Rightarrow> bytes \<Rightarrow> bytes" where
  "put_tuple_info i off sz meta m =
     put_uint (slot_pos i + 4) 1 (if is_deleted meta then 1 else 0)
       (put_uint (slot_pos i + 2) 2 sz (put_uint (slot_pos i) 2 off m))"

section \<open>Operations\<close>

definition TablePage_Init :: "bytes \<Rightarrow> bytes" where
  "TablePage_Init m = put_uint 6 2 0 (put_uint 4 2 0 (put_int 0 4 INVALID_PAGE_ID m))"

definition GetNextTupleOffset :: "bytes \<Rightarrow> Tuple \<Rightarrow> nat option result" where
  "GetNextTupleOffset m t =
     (let num_tuples = GetNumTuples m;
          slot_end_offset = (if num_tuples > 0 then slot_off m (num_tuples - 1) else PAGE_SIZE);
          sz = Tuple_GetStorageSize t
      in rbind (rassert (slot_end_offset \<ge> TABLE_PAGE_HEADER_SIZE) ''invalid slot end offset'') (\<lambda>_.
         rbind (rassert (sz \<le> PAGE_SIZE - TABLE_PAGE_HEADER_SIZE) ''tuple is too large'') (\<lambda>_.
         if sz > slot_end_offset then Inr None
         else let tuple_offset = slot_end_offset - sz;
                  offset_size = TABLE_PAGE_HEADER_SIZE + TUPLE_INFO_SIZE * (num_tuples + 1)
              in if tuple_offset < offset_size then Inr None
                 else rbind (rassert (tuple_offset \<ge> TABLE_PAGE_HEADER_SIZE \<and> tuple_offset < PAGE_SIZE)
                        ''invalid tuple offset'') (\<lambda>_. Inr (Some (tuple_offset mod 2 ^ 16))))))"

definition on_memory :: "(bytes \<Rightarrow> bytes result) \<Rightarrow> (bytes, unit) action" where
  "on_memory f m = (case f m of Inl e \<Rightarrow> (Inl e, m) | Inr m' \<Rightarrow> (Inr (), m'))"

definition TablePage_InsertTuple :: "TupleMeta \<Rightarrow> Tuple \<Rightarrow> (bytes, nat option) action" where
  "TablePage_InsertTuple meta t =
     bind (gets (\<lambda>m. GetNextTupleOffset m t)) (\<lambda>r.
     bind (lift r) (\<lambda>tuple_offset.
     case tuple_offset of
       None \<Rightarrow> ret None
     | Some off \<Rightarrow>
         bind (gets GetNumTuples) (\<lambda>tuple_id.
         bind (modify (put_tuple_info tuple_id off (Tuple_GetStorageSize t) meta)) (\<lambda>_.
         bind (modify (\<lambda>m. put_uint 4 2 (GetNumTuples m + 1) m)) (\<lambda>_.
         bind (assert_that (off + Tuple_GetStorageSize t \<le> PAGE_SIZE) ''tuple out of range'') (\<lambda>_.
         bind (on_memory (Tuple_SerializeTo t off)) (\<lambda>_.
         ret (Some tuple_id))))))))"

definition TablePage_UpdateTupleMeta :: "TupleMeta \<Rightarrow> RID \<Rightarrow> (bytes, unit) action" where
  "TablePage_UpdateTupleMeta meta rid =
     (let tuple_id = rid_slot_num rid in
      bind (gets GetNumTuples) (\<lambda>num_tuples.
      if tuple_id \<ge> num_tuples then throw (Exception ''Tuple ID out of range'')
      else bind (gets (\<lambda>m. slot_meta m tuple_id)) (\<lambda>old_meta.
           bind (if \<not> is_deleted old_meta \<and> is_deleted meta
                 then modify (\<lambda>m. put_uint 6 2 (num_deleted_tuples m + 1) m) else ret ()) (\<lambda>_.
           modify (\<lambda>m. put_tuple_info tuple_id (slot_off m tuple_id) (slot_size m tuple_id) meta m)))))"

definition TablePage_GetTuple :: "bytes \<Rightarrow> RID \<Rightarrow> (TupleMeta \<times> Tuple) result" where
  "TablePage_GetTuple m rid =
     (let tuple_id = rid_slot_num rid in
      if tuple_id \<ge> GetNumTuples m
      then Inl (Exception (''Tuple ID out of range, '' @ dec_nat tuple_id @ '' >= '' @ dec_nat (GetNumTuples m)))
      else let off = slot_off m tuple_id; sz = slot_size m tuple_id
           in rbind (rassert (off + sz \<le> PAGE_SIZE) ''tuple out of range'') (\<lambda>_.
              rbind (Tuple_DeserializeFrom \<lparr>tuple_rid = default_rid, tuple_data = replicate sz 0\<rparr> m off sz)
                (\<lambda>t. Inr (slot_meta m tuple_id, t\<lparr>tuple_rid := rid\<rparr>))))"

definition TablePage_GetTupleMeta :: "bytes \<Rightarrow> RID \<Rightarrow> TupleMeta result" where
  "TablePage_GetTupleMeta m rid =
     (if rid_slot_num rid \<ge> GetNumTuples m then Inl (Exception ''Tuple ID out of range'')
      else Inr (slot_meta m (rid_slot_num rid)))"

section \<open>Invariant and abstraction\<close>

definition slot_end :: "bytes \<Rightarrow> nat \<Rightarrow> nat" where
  "slot_end m i = (if i = 0 then PAGE_SIZE else slot_off m (i - 1))"

definition tp_inv :: "bytes \<Rightarrow> bool" where
  "tp_inv m \<longleftrightarrow> length m = PAGE_SIZE \<and>
     (\<forall>i < GetNumTuples m. slot_off m i + slot_size m i = slot_end m i) \<and>
     slot_pos (GetNumTuples m) \<le> slot_end m (GetNumTuples m)"

definition tp_tuple :: "bytes \<Rightarrow> nat \<Rightarrow> TupleMeta \<times> bytes" where
  "tp_tuple m i = (slot_meta m i, slice (slot_off m i) (slot_size m i) m)"

definition tp_tuples :: "bytes \<Rightarrow> (TupleMeta \<times> bytes) list" where
  "tp_tuples m = map (tp_tuple m) [0..<GetNumTuples m]"

definition tp_free :: "bytes \<Rightarrow> nat" where
  "tp_free m = slot_end m (GetNumTuples m) - slot_pos (GetNumTuples m)"

lemma slot_end_antimono:
  assumes "\<forall>i < n. slot_off m i + slot_size m i = slot_end m i" and "i \<le> j" and "j \<le> n"
  shows "slot_end m j \<le> slot_end m i"
  using assms(2,3)
proof (induction j)
  case (Suc j)
  have "slot_end m (Suc j) \<le> slot_end m j"
  proof -
    have "slot_off m j + slot_size m j = slot_end m j" using assms(1) Suc.prems(2) by simp
    then show ?thesis by (simp add: slot_end_def)
  qed
  with Suc show ?case by (cases "i = Suc j") auto
qed simp

lemma tp_inv_bounds:
  assumes "tp_inv m"
  shows "slot_end m (GetNumTuples m) \<le> PAGE_SIZE"
    and "GetNumTuples m \<le> 681"
    and "i < GetNumTuples m \<Longrightarrow> slot_end m (GetNumTuples m) \<le> slot_off m i"
    and "i < GetNumTuples m \<Longrightarrow> slot_off m i + slot_size m i \<le> PAGE_SIZE"
proof -
  have chain: "\<forall>i < GetNumTuples m. slot_off m i + slot_size m i = slot_end m i"
    using assms by (simp add: tp_inv_def)
  have mono: "slot_end m j \<le> slot_end m i" if "i \<le> j" "j \<le> GetNumTuples m" for i j
    using chain that by (rule slot_end_antimono)
  show le: "slot_end m (GetNumTuples m) \<le> PAGE_SIZE"
    using mono [of 0 "GetNumTuples m"] by (simp add: slot_end_def)
  then have "slot_pos (GetNumTuples m) \<le> PAGE_SIZE" using assms by (simp add: tp_inv_def)
  then show "GetNumTuples m \<le> 681" by (simp add: slot_pos_def)
  show "slot_end m (GetNumTuples m) \<le> slot_off m i" if "i < GetNumTuples m"
    using mono [of "Suc i" "GetNumTuples m"] that by (simp add: slot_end_def)
  show "slot_off m i + slot_size m i \<le> PAGE_SIZE" if "i < GetNumTuples m"
    using chain mono [of 0 i] that by (simp add: slot_end_def)
qed

lemma tp_length [simp]: "tp_inv m \<Longrightarrow> length m = PAGE_SIZE"
  by (simp add: tp_inv_def)

text \<open>What the field accessors read after writes elsewhere in the page.\<close>

lemma slot_bound: "i < n \<Longrightarrow> slot_pos i + 6 \<le> slot_pos n"
  by (simp add: slot_pos_def)

lemma length_put_tuple_info [simp]:
  "slot_pos i + 5 \<le> length m \<Longrightarrow> length (put_tuple_info i off sz meta m) = length m"
  by (simp add: put_tuple_info_def)

lemma put_tuple_info_same:
  assumes "slot_pos i + 5 \<le> length m" and "off < 2 ^ 16" and "sz < 2 ^ 16"
  shows "slot_off (put_tuple_info i off sz meta m) i = off"
    and "slot_size (put_tuple_info i off sz meta m) i = sz"
    and "slot_meta (put_tuple_info i off sz meta m) i = meta"
  using assms by (simp_all add: slot_off_def slot_size_def slot_meta_def put_tuple_info_def mem_simps)

lemma put_tuple_info_elsewhere:
  assumes "slot_pos i + 5 \<le> length m" and "a + n \<le> slot_pos i \<or> slot_pos i + 5 \<le> a"
  shows "slice a n (put_tuple_info i off sz meta m) = slice a n m"
    and "get_uint a n (put_tuple_info i off sz meta m) = get_uint a n m"
    and "get_int a n (put_tuple_info i off sz meta m) = get_int a n m"
  using assms by (auto simp: put_tuple_info_def mem_simps)

text \<open>
  Two pages that agree on everything a reader of slots below \<open>n\<close> looks at: the slots and the
  data they point to.
\<close>

lemma slot_slice_cong:
  assumes "slice (slot_pos i) 5 m' = slice (slot_pos i) 5 m"
  shows "slot_off m' i = slot_off m i" and "slot_size m' i = slot_size m i"
    and "slot_meta m' i = slot_meta m i"
proof -
  have "slice (slot_pos i + a) n m' = slice (slot_pos i + a) n m" if "a + n \<le> 5" for a n
    using slice_slice [OF that, of "slot_pos i"] assms by metis
  from this [of 0 2] this [of 2 2] this [of 4 1]
  show "slot_off m' i = slot_off m i" and "slot_size m' i = slot_size m i"
    and "slot_meta m' i = slot_meta m i"
    by (simp_all add: slot_off_def slot_size_def slot_meta_def get_uint_def)
qed

lemma put_num_elsewhere:
  assumes "length m = PAGE_SIZE"
  shows "slice (slot_pos i) 5 (put_uint 4 2 k m) = slice (slot_pos i) 5 m"
    and "slice (slot_pos i) 5 (put_uint 6 2 k m) = slice (slot_pos i) 5 m"
    and "8 \<le> a \<Longrightarrow> slice a n (put_uint 4 2 k m) = slice a n m"
    and "8 \<le> a \<Longrightarrow> slice a n (put_uint 6 2 k m) = slice a n m"
  using assms by (simp_all add: slot_pos_def mem_simps)


lemma slot_frame:
  assumes "slice (slot_pos i) 5 m' = slice (slot_pos i) 5 m"
    and "slice (slot_off m i) (slot_size m i) m' = slice (slot_off m i) (slot_size m i) m"
  shows "tp_tuple m' i = tp_tuple m i"
  using assms slot_slice_cong [OF assms(1)] by (simp add: tp_tuple_def)

section \<open>Initialisation\<close>

lemma Init_inv:
  assumes "length m = PAGE_SIZE"
  shows "tp_inv (TablePage_Init m)" and "tp_tuples (TablePage_Init m) = []"
    and "GetNextPageId (TablePage_Init m) = INVALID_PAGE_ID"
    and "num_deleted_tuples (TablePage_Init m) = 0"
proof -
  have n: "GetNumTuples (TablePage_Init m) = 0"
    using assms by (simp add: TablePage_Init_def GetNumTuples_def mem_simps)
  have "length (TablePage_Init m) = PAGE_SIZE" using assms by (simp add: TablePage_Init_def)
  with n show "tp_inv (TablePage_Init m)" by (simp add: tp_inv_def slot_pos_def slot_end_def)
  show "tp_tuples (TablePage_Init m) = []" using n by (simp add: tp_tuples_def)
  show "GetNextPageId (TablePage_Init m) = INVALID_PAGE_ID"
    using assms by (simp add: GetNextPageId_def TablePage_Init_def mem_simps fits_def)
  show "num_deleted_tuples (TablePage_Init m) = 0"
    using assms by (simp add: num_deleted_tuples_def TablePage_Init_def mem_simps)
qed

section \<open>Insertion\<close>

definition small_tuple :: "Tuple \<Rightarrow> bool" where
  "small_tuple t \<longleftrightarrow> 0 < length (tuple_data t) \<and> length (tuple_data t) \<le> PAGE_SIZE - TABLE_PAGE_HEADER_SIZE"

lemma small_size: "small_tuple t \<Longrightarrow> Tuple_GetStorageSize t = length (tuple_data t)"
  by (simp add: small_tuple_def Tuple_GetStorageSize_def)

lemma GetNextTupleOffset_spec:
  assumes "tp_inv m" and "small_tuple t"
  shows "GetNextTupleOffset m t =
     Inr (if length (tuple_data t) + TUPLE_INFO_SIZE \<le> tp_free m
          then Some (slot_end m (GetNumTuples m) - length (tuple_data t)) else None)"
proof -
  define e p L where "e = slot_end m (GetNumTuples m)" and "p = slot_pos (GetNumTuples m)"
    and "L = length (tuple_data t)"
  have ep: "e \<le> PAGE_SIZE" "p \<le> e" "8 \<le> p"
    using assms(1) tp_inv_bounds(1) by (auto simp: tp_inv_def slot_pos_def e_def p_def)
  have e: "(if GetNumTuples m > 0 then slot_off m (GetNumTuples m - 1) else PAGE_SIZE) = e"
    by (simp add: slot_end_def e_def)
  have L: "0 < L" "L \<le> 4088" using assms(2) by (auto simp: small_tuple_def L_def)
  have p: "8 + 6 * (GetNumTuples m + 1) = p + 6" by (simp add: slot_pos_def p_def)
  show ?thesis
    unfolding GetNextTupleOffset_def small_size [OF assms(2)] Let_def tp_free_def e p
      e_def [symmetric] p_def [symmetric] L_def [symmetric]
    using ep L by (auto simp: rassert_def not_less)
qed

definition inserted :: "nat \<Rightarrow> TupleMeta \<Rightarrow> bytes \<Rightarrow> bytes \<Rightarrow> bytes" where
  "inserted off meta d m =
     blit off d (put_uint 4 2 (GetNumTuples m + 1)
       (put_tuple_info (GetNumTuples m) off (length d) meta m))"

lemma InsertTuple_steps:
  assumes "tp_inv m" and "small_tuple t"
  shows "TablePage_InsertTuple meta t m =
     (let d = tuple_data t; off = slot_end m (GetNumTuples m) - length d in
      if length d + TUPLE_INFO_SIZE \<le> tp_free m
      then (Inr (Some (GetNumTuples m)), inserted off meta d m) else (Inr None, m))"
proof (cases "length (tuple_data t) + 6 \<le> tp_free m")
  case True
  let ?n = "GetNumTuples m" and ?d = "tuple_data t"
  let ?off = "slot_end m ?n - length ?d"
  have len: "length m = 4096" using assms(1) by simp
  have e: "slot_end m ?n \<le> 4096" using tp_inv_bounds(1) [OF assms(1)] .
  have off: "slot_pos ?n + 6 \<le> ?off" "?off + length ?d = slot_end m ?n"
    using True by (auto simp: tp_free_def)
  then have p: "slot_pos ?n + 5 \<le> length m" using e len by simp
  have num: "GetNumTuples (put_tuple_info ?n ?off (length ?d) meta m) = ?n"
    using put_tuple_info_elsewhere(2) [OF p, of 4 2] by (simp add: GetNumTuples_def slot_pos_def)
  have st: "store_at ?off ?d (put_uint 4 2 (?n + 1) (put_tuple_info ?n ?off (length ?d) meta m)) =
      Inr (inserted ?off meta ?d m)"
    using p off e len by (simp add: store_at_def inserted_def)
  show ?thesis
    unfolding TablePage_InsertTuple_def
    using True num st off e
    by (simp add: act_simps GetNextTupleOffset_spec [OF assms] small_size [OF assms(2)]
        on_memory_def Tuple_SerializeTo_def Let_def)
next
  case False
  then show ?thesis
    by (simp add: TablePage_InsertTuple_def act_simps GetNextTupleOffset_spec [OF assms])
qed

lemma inserted_fields:
  assumes "tp_inv m" and "length d + TUPLE_INFO_SIZE \<le> tp_free m" and "0 < length d"
  defines "n \<equiv> GetNumTuples m" and "off \<equiv> slot_end m (GetNumTuples m) - length d"
  shows "GetNumTuples (inserted off meta d m) = n + 1"
    and "length (inserted off meta d m) = PAGE_SIZE"
    and "slot_off (inserted off meta d m) n = off"
    and "tp_tuple (inserted off meta d m) n = (meta, d)"
    and "slot_size (inserted off meta d m) n = length d"
    and "i < n \<Longrightarrow> slice (slot_pos i) 5 (inserted off meta d m) = slice (slot_pos i) 5 m"
    and "i < n \<Longrightarrow> tp_tuple (inserted off meta d m) i = tp_tuple m i"
    and "GetNextPageId (inserted off meta d m) = GetNextPageId m"
    and "num_deleted_tuples (inserted off meta d m) = num_deleted_tuples m"
proof -
  have len: "length m = 4096" using assms(1) by simp
  have e: "slot_end m n \<le> 4096" and n: "n \<le> 681"
    using tp_inv_bounds(1,2) [OF assms(1)] by (auto simp: n_def)
  have off: "slot_pos n + 6 \<le> off" "off + length d = slot_end m n"
    using assms(2) by (auto simp: tp_free_def off_def n_def)
  then have p: "slot_pos n + 5 \<le> length m" "slot_pos n + 6 \<le> 4096" "off + length d \<le> 4096" "8 \<le> slot_pos n"
    using e len by (auto simp: slot_pos_def)
  let ?m1 = "put_tuple_info n off (length d) meta m"
  define k where "k = n + 1"
  let ?m2 = "put_uint 4 2 k ?m1"
  have ins: "inserted off meta d m = blit off d ?m2" by (simp add: inserted_def n_def k_def)
  have l1: "length ?m1 = 4096" using p len by simp
  then have l2: "length ?m2 = 4096" by simp
  have low: "get_uint a j (blit off d ?m2) = get_uint a j ?m2" "get_int a j (blit off d ?m2) = get_int a j ?m2"
    "slice a j (blit off d ?m2) = slice a j ?m2" if "a + j \<le> off" for a j
    using that p l2 by (simp_all add: mem_simps)
  show "GetNumTuples (inserted off meta d m) = n + 1"
    unfolding ins GetNumTuples_def using l1 n off p by (simp add: low mem_simps k_def)
  show "length (inserted off meta d m) = PAGE_SIZE"
    unfolding ins using l2 p by simp
  have slot_n: "slice (slot_pos n) 5 (blit off d ?m2) = slice (slot_pos n) 5 ?m1"
    using off l1 p by (simp add: low mem_simps)
  have bounds: "off < 2 ^ 16" "length d < 2 ^ 16" using p assms(3) by auto
  note same = put_tuple_info_same [OF p(1) bounds]
  show so: "slot_off (inserted off meta d m) n = off"
    unfolding ins using slot_slice_cong [OF slot_n] same by simp
  show ss: "slot_size (inserted off meta d m) n = length d"
    unfolding ins using slot_slice_cong [OF slot_n] same by simp
  have "slot_meta (inserted off meta d m) n = meta"
    unfolding ins using slot_slice_cong [OF slot_n] same by simp
  with so ss show "tp_tuple (inserted off meta d m) n = (meta, d)"
    unfolding tp_tuple_def using l2 p by (simp add: ins mem_simps)
  show sl: "slice (slot_pos i) 5 (inserted off meta d m) = slice (slot_pos i) 5 m" if "i < n" for i
    unfolding ins using slot_bound [OF that] off p l1
    by (simp add: low put_num_elsewhere put_tuple_info_elsewhere)
  show "tp_tuple (inserted off meta d m) i = tp_tuple m i" if "i < n" for i
  proof (rule slot_frame [OF sl [OF that]])
    have "off + length d \<le> slot_off m i"
      using tp_inv_bounds(3) [OF assms(1)] that off(2) by (simp add: n_def)
    then show "slice (slot_off m i) (slot_size m i) (inserted off meta d m) =
        slice (slot_off m i) (slot_size m i) m"
      unfolding ins using off p l1 l2
      by (simp add: slice_blit_other put_num_elsewhere put_tuple_info_elsewhere)
  qed
  show "GetNextPageId (inserted off meta d m) = GetNextPageId m"
    unfolding ins GetNextPageId_def using off p l1 by (simp add: low mem_simps put_tuple_info_elsewhere)
  show "num_deleted_tuples (inserted off meta d m) = num_deleted_tuples m"
    unfolding ins num_deleted_tuples_def using off p l1 by (simp add: low mem_simps put_tuple_info_elsewhere)
qed

lemma inserted_inv:
  assumes "tp_inv m" and "length d + TUPLE_INFO_SIZE \<le> tp_free m" and "0 < length d"
  shows "tp_inv (inserted (slot_end m (GetNumTuples m) - length d) meta d m)"
proof -
  define n off where "n = GetNumTuples m" and "off = slot_end m (GetNumTuples m) - length d"
  define m' where "m' = inserted off meta d m"
  note fields = inserted_fields [OF assms, where meta = meta, folded off_def n_def, folded m'_def]
  have off: "slot_pos n + 6 \<le> off" "off + length d = slot_end m n"
    using assms(2) by (auto simp: tp_free_def n_def off_def)
  have old: "slot_off m' i = slot_off m i" "slot_size m' i = slot_size m i" if "i < n" for i
    using slot_slice_cong [OF fields(6) [OF that]] by auto
  have ends: "slot_end m' i = slot_end m i" if "i \<le> n" for i
    using old(1) [of "i - 1"] that by (auto simp: slot_end_def)
  have "slot_off m' i + slot_size m' i = slot_end m' i" if "i < n + 1" for i
  proof (cases "i = n")
    case True
    then show ?thesis using fields(3,5) ends [of n] off(2) by simp
  next
    case False
    then have "i < n" using that by simp
    then show ?thesis using old [of i] ends [of i] assms(1) by (simp add: tp_inv_def n_def)
  qed
  moreover have "slot_end m' (n + 1) = off" using fields(3) by (simp add: slot_end_def)
  moreover have "slot_pos (n + 1) \<le> off" using off(1) by (simp add: slot_pos_def)
  ultimately have "tp_inv m'" unfolding tp_inv_def fields(1) using fields(2) by simp
  then show ?thesis by (simp add: m'_def off_def)
qed

lemma inserted_tuples:
  assumes "tp_inv m" and "length d + TUPLE_INFO_SIZE \<le> tp_free m" and "0 < length d"
  shows "tp_tuples (inserted (slot_end m (GetNumTuples m) - length d) meta d m) =
     tp_tuples m @ [(meta, d)]"
  using inserted_fields [OF assms, where meta = meta] by (simp add: tp_tuples_def)

lemma inserted_free:
  assumes "tp_inv m" and "length d + TUPLE_INFO_SIZE \<le> tp_free m" and "0 < length d"
  shows "tp_free (inserted (slot_end m (GetNumTuples m) - length d) meta d m) =
     tp_free m - (length d + TUPLE_INFO_SIZE)"
proof -
  let ?m' = "inserted (slot_end m (GetNumTuples m) - length d) meta d m"
  have "slot_end ?m' (GetNumTuples ?m') = slot_end m (GetNumTuples m) - length d"
    using inserted_fields(1,3) [OF assms, where meta = meta] by (simp add: slot_end_def [of ?m'])
  then show ?thesis
    using inserted_fields(1) [OF assms, where meta = meta] by (simp add: tp_free_def slot_pos_def)
qed

lemma length_tp_tuples [simp]: "length (tp_tuples m) = GetNumTuples m"
  by (simp add: tp_tuples_def)

section \<open>The interface a table heap relies on\<close>

text \<open>
  A store of items in a fixed space: an insertion that finds room returns the next index and
  appends, one that does not leaves the store as it is, and no insertion disturbs what earlier
  indices hold.
\<close>

locale slotted_store =
  fixes inv :: "'s \<Rightarrow> bool"
    and items :: "'s \<Rightarrow> 'i list"
    and room :: "'s \<Rightarrow> nat"
    and cost :: "'i \<Rightarrow> nat"
    and good :: "'i \<Rightarrow> bool"
    and insert_item :: "'i \<Rightarrow> 's \<Rightarrow> nat option result \<times> 's"
  assumes insert_room: "inv s \<Longrightarrow> good x \<Longrightarrow> cost x \<le> room s \<Longrightarrow>
      \<exists>s'. insert_item x s = (Inr (Some (length (items s))), s') \<and> inv s' \<and>
           items s' = items s @ [x] \<and> room s' = room s - cost x"
    and insert_full: "inv s \<Longrightarrow> good x \<Longrightarrow> room s < cost x \<Longrightarrow> insert_item x s = (Inr None, s)"
begin

fun insert_all :: "'i list \<Rightarrow> 's \<Rightarrow> nat option list \<times> 's" where
  "insert_all [] s = ([], s)"
| "insert_all (x # xs) s =
     (case insert_item x s of
        (Inl e, s') \<Rightarrow> ([], s')
      | (Inr r, s') \<Rightarrow> (case insert_all xs s' of (rs, s'') \<Rightarrow> (r # rs, s'')))"

text \<open>Items that fit one after the other get consecutive indices, and nothing is lost.\<close>

lemma insert_all_fit:
  assumes "inv s" and "\<forall>x \<in> set xs. good x" and "sum_list (map cost xs) \<le> room s"
  shows "\<exists>s'. insert_all xs s = (map (\<lambda>i. Some (length (items s) + i)) [0..<length xs], s') \<and>
     inv s' \<and> items s' = items s @ xs \<and> room s' = room s - sum_list (map cost xs)"
  using assms
proof (induction xs arbitrary: s)
  case (Cons x xs)
  from Cons.prems obtain s1 where s1: "insert_item x s = (Inr (Some (length (items s))), s1)" "inv s1"
      "items s1 = items s @ [x]" "room s1 = room s - cost x"
    using insert_room [of s x] by auto
  moreover have "sum_list (map cost xs) \<le> room s1" using s1(4) Cons.prems(3) by simp
  ultimately obtain s2 where s2:
      "insert_all xs s1 = (map (\<lambda>i. Some (length (items s1) + i)) [0..<length xs], s2)" "inv s2"
      "items s2 = items s1 @ xs" "room s2 = room s1 - sum_list (map cost xs)"
    using Cons.prems Cons.IH [of s1] by auto
  have idx: "map (\<lambda>i. Some (length (items s) + i)) [0..<length (x # xs)] =
      Some (length (items s)) # map (\<lambda>i. Some (length (items s1) + i)) [0..<length xs]"
    by (simp add: s1(3) upt_conv_Cons map_Suc_upt [symmetric] comp_def del: upt_Suc)
  show ?case unfolding idx using s1 s2 by simp
qed simp

text \<open>Whatever is inserted, full or not, no earlier item moves.\<close>

lemma insert_all_stable:
  assumes "inv s" and "\<forall>x \<in> set xs. good x"
  shows "inv (snd (insert_all xs s)) \<and> take (length (items s)) (items (snd (insert_all xs s))) = items s"
  using assms
proof (induction xs arbitrary: s)
  case (Cons x xs)
  obtain r s1 where s1: "insert_item x s = (Inr r, s1)" "inv s1" "\<exists>ys. items s1 = items s @ ys"
  proof (cases "cost x \<le> room s")
    case True
    with Cons.prems insert_room [of s x] that show ?thesis by auto
  next
    case False
    with Cons.prems insert_full [of s x] that [of None s] show ?thesis by simp
  qed
  have IH: "inv (snd (insert_all xs s1))" "take (length (items s1)) (items (snd (insert_all xs s1))) = items s1"
    using Cons.IH [OF s1(2)] Cons.prems by auto
  have "take (length (items s)) (items (snd (insert_all xs s1))) =
      take (length (items s)) (take (length (items s1)) (items (snd (insert_all xs s1))))"
    using s1(3) by (auto simp: min_def)
  also have "\<dots> = items s" using s1(3) by (auto simp: IH(2))
  finally show ?case using s1(1) IH(1) by (auto split: prod.splits)
qed simp

end

definition insert_raw :: "TupleMeta \<times> bytes \<Rightarrow> (bytes, nat option) action" where
  "insert_raw x = TablePage_InsertTuple (fst x) \<lparr>tuple_rid = default_rid, tuple_data = snd x\<rparr>"

definition item_cost :: "TupleMeta \<times> bytes \<Rightarrow> nat" where
  "item_cost x = length (snd x) + TUPLE_INFO_SIZE"

definition item_ok :: "TupleMeta \<times> bytes \<Rightarrow> bool" where
  "item_ok x \<longleftrightarrow> 0 < length (snd x) \<and> length (snd x) \<le> PAGE_SIZE - TABLE_PAGE_HEADER_SIZE"

lemma insert_raw_spec:
  assumes "tp_inv m" and "item_ok x"
  shows "insert_raw x m = (if item_cost x \<le> tp_free m
     then (Inr (Some (GetNumTuples m)),
           inserted (slot_end m (GetNumTuples m) - length (snd x)) (fst x) (snd x) m)
     else (Inr None, m))"
  using assms InsertTuple_steps [of m "\<lparr>tuple_rid = default_rid, tuple_data = snd x\<rparr>" "fst x"]
  by (simp add: insert_raw_def item_cost_def item_ok_def small_tuple_def Let_def)

interpretation tp: slotted_store tp_inv tp_tuples tp_free item_cost item_ok insert_raw
proof
  fix m x assume a: "tp_inv m" "item_ok x"
  then have pos: "0 < length (snd x)" by (simp add: item_ok_def)
  show "insert_raw x m = (Inr None, m)" if "tp_free m < item_cost x"
    using insert_raw_spec [OF a] that by simp
  show "\<exists>m'. insert_raw x m = (Inr (Some (length (tp_tuples m))), m') \<and> tp_inv m' \<and>
      tp_tuples m' = tp_tuples m @ [x] \<and> tp_free m' = tp_free m - item_cost x"
    if fit: "item_cost x \<le> tp_free m"
    using insert_raw_spec [OF a] fit inserted_inv [OF a(1) _ pos, of "fst x"]
      inserted_tuples [OF a(1) _ pos, of "fst x"] inserted_free [OF a(1) _ pos, of "fst x"]
    by (simp add: item_cost_def)
qed

section \<open>Properties\<close>

text \<open>
  C9: On a page that satisfies the slotted-page invariant, inserting a tuple that fits an empty
  page at all either finds room (its bytes plus one slot), and then appends the tuple with the
  flag given, returns its slot number, keeps the invariant and every earlier tuple, and leaves
  the next-page link alone; or it finds none, returns nothing and does not touch the page.
\<close>

theorem table_page_insert:
  assumes "tp_inv m" and "small_tuple t"
  shows "\<exists>r m'. TablePage_InsertTuple meta t m = (Inr r, m') \<and> tp_inv m' \<and>
     GetNextPageId m' = GetNextPageId m \<and>
     (if length (tuple_data t) + TUPLE_INFO_SIZE \<le> tp_free m
      then r = Some (length (tp_tuples m)) \<and> tp_tuples m' = tp_tuples m @ [(meta, tuple_data t)] \<and>
           tp_free m' = tp_free m - (length (tuple_data t) + TUPLE_INFO_SIZE)
      else r = None \<and> m' = m)"
proof (cases "length (tuple_data t) + 6 \<le> tp_free m")
  case True
  have pos: "0 < length (tuple_data t)" using assms(2) by (simp add: small_tuple_def)
  show ?thesis
    using True InsertTuple_steps [OF assms] inserted_inv [OF assms(1) True pos]
      inserted_tuples [OF assms(1) True pos] inserted_free [OF assms(1) True pos]
      inserted_fields(8) [OF assms(1) True pos]
    by (simp add: Let_def)
next
  case False
  then show ?thesis using InsertTuple_steps [OF assms] assms(1) by (simp add: Let_def)
qed

definition demo_page :: bytes where
  "demo_page = TablePage_Init (replicate PAGE_SIZE 0)"

lemma demo_page_facts: "tp_inv demo_page" "tp_tuples demo_page = []" "tp_free demo_page = 4088"
proof -
  show inv: "tp_inv demo_page" and none: "tp_tuples demo_page = []"
    by (simp_all add: demo_page_def Init_inv)
  from none have "GetNumTuples demo_page = 0" by (simp add: tp_tuples_def)
  then show "tp_free demo_page = 4088" by (simp add: tp_free_def slot_end_def slot_pos_def)
qed

theorem table_page_insert_witness:
  "\<exists>r m'. TablePage_InsertTuple \<lparr>is_deleted = False\<rparr> \<lparr>tuple_rid = default_rid, tuple_data = [1, 2, 3]\<rparr> demo_page = (Inr r, m') \<and>
     tp_inv m' \<and> r = Some 0 \<and> tp_tuples m' = [(\<lparr>is_deleted = False\<rparr>, [1, 2, 3])] \<and> tp_free m' = 4079"
  using table_page_insert [of demo_page "\<lparr>tuple_rid = default_rid, tuple_data = [1, 2, 3]\<rparr>" "\<lparr>is_deleted = False\<rparr>"]
  by (auto simp: demo_page_facts small_tuple_def)

text \<open>Reading a slot: the data the page holds for it, under the record id asked for.\<close>

lemma GetTuple_spec:
  assumes "tp_inv m" and "rid_slot_num rid < GetNumTuples m"
  shows "TablePage_GetTuple m rid =
     (case tp_tuples m ! rid_slot_num rid of (meta, d) \<Rightarrow> Inr (meta, \<lparr>tuple_rid = rid, tuple_data = d\<rparr>))"
proof -
  let ?i = "rid_slot_num rid"
  have b: "slot_off m ?i + slot_size m ?i \<le> 4096" using tp_inv_bounds(4) [OF assms] .
  then have ld: "load_at (slot_off m ?i) (slot_size m ?i) m =
      Inr (slice (slot_off m ?i) (slot_size m ?i) m)"
    using assms(1) by (simp add: load_at_ok)
  have "length (slice (slot_off m ?i) (slot_size m ?i) m) = slot_size m ?i"
    using b assms(1) by simp
  then have st: "store_at 0 (slice (slot_off m ?i) (slot_size m ?i) m) (replicate (slot_size m ?i) 0) =
      Inr (slice (slot_off m ?i) (slot_size m ?i) m)"
    by (simp add: store_at_def del: length_slice)
  show ?thesis
    unfolding TablePage_GetTuple_def Tuple_DeserializeFrom_def Let_def
    using assms(2) b ld st by (simp add: tp_tuples_def tp_tuple_def not_le [symmetric])
qed

text \<open>
  C18: A run of insertions into a freshly initialised page whose total size, slots included, is at
  most the 4088 bytes the page offers, succeeds throughout: the slot numbers are 0, 1, 2 and so
  on, and afterwards reading slot \<open>i\<close> returns exactly the \<open>i\<close>-th tuple and flag inserted.
\<close>

theorem table_page_fill:
  assumes "length m = PAGE_SIZE"
    and "\<forall>x \<in> set xs. 0 < length (snd x)"
    and "sum_list (map (\<lambda>x. length (snd x) + TUPLE_INFO_SIZE) xs) \<le> PAGE_SIZE - TABLE_PAGE_HEADER_SIZE"
  shows "\<exists>m'. tp.insert_all xs (TablePage_Init m) = (map Some [0..<length xs], m') \<and> tp_inv m' \<and>
     (\<forall>pid. \<forall>i < length xs. TablePage_GetTuple m' (mk_rid pid i) =
        Inr (fst (xs ! i), \<lparr>tuple_rid = mk_rid pid i, tuple_data = snd (xs ! i)\<rparr>))"
proof -
  have none: "tp_tuples (TablePage_Init m) = []" using Init_inv(2) [OF assms(1)] .
  then have "GetNumTuples (TablePage_Init m) = 0" by (simp add: tp_tuples_def)
  then have free: "tp_free (TablePage_Init m) = 4088" by (simp add: tp_free_def slot_end_def slot_pos_def)
  have cost: "map item_cost xs = map (\<lambda>x. length (snd x) + 6) xs" by (simp add: item_cost_def)
  have "item_ok x" if "x \<in> set xs" for x
  proof -
    have "length (snd x) + 6 \<le> sum_list (map (\<lambda>x. length (snd x) + 6) xs)"
      using that by (intro member_le_sum_list) auto
    then show ?thesis using assms(2,3) that by (simp add: item_ok_def)
  qed
  with tp.insert_all_fit [of "TablePage_Init m" xs] assms(3) free none
  obtain m' where m': "tp.insert_all xs (TablePage_Init m) = (map Some [0..<length xs], m')"
      "tp_inv m'" "tp_tuples m' = xs"
    using Init_inv(1) [OF assms(1)] unfolding cost by auto
  have "GetNumTuples m' = length xs" using m'(3) length_tp_tuples by metis
  then show ?thesis using m' by (auto simp: GetTuple_spec mk_rid_def split: prod.splits)
qed

theorem table_page_fill_witness:
  "\<exists>m'. tp.insert_all [(\<lparr>is_deleted = False\<rparr>, [1, 2, 3]), (\<lparr>is_deleted = True\<rparr>, [4])] (TablePage_Init (replicate PAGE_SIZE 0)) =
     ([Some 0, Some 1], m') \<and>
     TablePage_GetTuple m' (mk_rid default_page_id 1) =
       Inr (\<lparr>is_deleted = True\<rparr>, \<lparr>tuple_rid = mk_rid default_page_id 1, tuple_data = [4]\<rparr>)"
proof -
  let ?xs = "[(\<lparr>is_deleted = False\<rparr>, [1, 2, 3]), (\<lparr>is_deleted = True\<rparr>, [4])] :: (TupleMeta \<times> bytes) list"
  obtain m' where m': "tp.insert_all ?xs (TablePage_Init (replicate PAGE_SIZE 0)) = (map Some [0..<length ?xs], m')"
      "\<forall>pid. \<forall>i < length ?xs. TablePage_GetTuple m' (mk_rid pid i) =
         Inr (fst (?xs ! i), \<lparr>tuple_rid = mk_rid pid i, tuple_data = snd (?xs ! i)\<rparr>)"
    using table_page_fill [of "replicate PAGE_SIZE 0" ?xs] by auto
  then have "TablePage_GetTuple m' (mk_rid default_page_id 1) =
      Inr (fst (?xs ! 1), \<lparr>tuple_rid = mk_rid default_page_id 1, tuple_data = snd (?xs ! 1)\<rparr>)"
    by simp
  with m'(1) show ?thesis by (auto simp: upt_rec)
qed

section \<open>Deletion flags\<close>

lemma UpdateTupleMeta_steps:
  assumes "tp_inv m" and "rid_slot_num rid < GetNumTuples m"
  shows "TablePage_UpdateTupleMeta meta rid m = (Inr (),
     (let i = rid_slot_num rid;
          m1 = (if \<not> is_deleted (slot_meta m i) \<and> is_deleted meta
                then put_uint 6 2 (num_deleted_tuples m + 1) m else m)
      in put_tuple_info i (slot_off m i) (slot_size m i) meta m1))"
proof -
  have len: "length m = 4096" using assms(1) by simp
  have "slot_off (put_uint 6 2 k m) i = slot_off m i" "slot_size (put_uint 6 2 k m) i = slot_size m i" for k i
    using slot_slice_cong [OF put_num_elsewhere(2) [OF len]] by auto
  then show ?thesis
    using assms(2) by (simp add: TablePage_UpdateTupleMeta_def act_simps Let_def not_le [symmetric])
qed

definition count_deletion :: "bool \<Rightarrow> bytes \<Rightarrow> bytes" where
  "count_deletion b m = (if b then put_uint 6 2 (num_deleted_tuples m + 1) m else m)"

lemma flag_update_fields:
  fixes meta :: TupleMeta and b :: bool
  assumes inv: "tp_inv m" and i: "i < GetNumTuples m"
  defines "m' \<equiv> put_tuple_info i (slot_off m i) (slot_size m i) meta (count_deletion b m)"
  shows "length m' = PAGE_SIZE" and "GetNumTuples m' = GetNumTuples m"
    and "num_deleted_tuples m' = (num_deleted_tuples m + (if b then 1 else 0)) mod 2 ^ 16"
    and "slot_off m' j = slot_off m j" and "slot_size m' j = slot_size m j"
    and "slot_meta m' j = (if j = i then meta else slot_meta m j)"
    and "j < GetNumTuples m \<Longrightarrow>
      slice (slot_off m j) (slot_size m j) m' = slice (slot_off m j) (slot_size m j) m"
proof -
  let ?m1 = "count_deletion b m"
  have len: "length m = 4096" "length ?m1 = 4096" using inv by (simp_all add: count_deletion_def)
  have pos: "slot_pos (GetNumTuples m) \<le> slot_end m (GetNumTuples m)" "slot_end m (GetNumTuples m) \<le> slot_off m j"
    if "j < GetNumTuples m" for j
    using inv tp_inv_bounds(3) [OF inv] that by (auto simp: tp_inv_def)
  have p: "slot_pos i + 5 \<le> length ?m1" "8 \<le> slot_pos i"
    using slot_bound [OF i] pos [OF i] tp_inv_bounds(1) [OF inv] len by (auto simp: slot_pos_def)
  have high: "slice a n ?m1 = slice a n m" if "8 \<le> a" for a n
    using that len by (simp add: count_deletion_def put_num_elsewhere)
  have bd: "slot_off m i < 2 ^ 16" "slot_size m i < 2 ^ 16" "num_deleted_tuples m < 2 ^ 16"
    using get_uint_bound [of _ 2 m] by (simp_all add: slot_off_def slot_size_def num_deleted_tuples_def)
  note same = put_tuple_info_same [OF p(1) bd(1,2), of meta, folded m'_def]
  note other = put_tuple_info_elsewhere [OF p(1), where off = "slot_off m i" and sz = "slot_size m i" and meta = meta, folded m'_def]
  show "length m' = PAGE_SIZE" using len p(1) by (simp add: m'_def)
  show "GetNumTuples m' = GetNumTuples m"
    using other(2) [of 4 2] p(2) len by (simp add: GetNumTuples_def count_deletion_def mem_simps)
  show "num_deleted_tuples m' = (num_deleted_tuples m + (if b then 1 else 0)) mod 2 ^ 16"
    using other(2) [of 6 2] p(2) len bd(3) by (simp add: num_deleted_tuples_def count_deletion_def mem_simps)
  have "slice (slot_pos j) 5 m' = slice (slot_pos j) 5 m" if "j \<noteq> i"
  proof -
    have "slot_pos j + 5 \<le> slot_pos i \<or> slot_pos i + 5 \<le> slot_pos j"
      using that slot_bound [of i j] slot_bound [of j i] by linarith
    then show ?thesis using other(1) high by (simp add: slot_pos_def)
  qed
  from slot_slice_cong [OF this] same
  show "slot_off m' j = slot_off m j" "slot_size m' j = slot_size m j"
    "slot_meta m' j = (if j = i then meta else slot_meta m j)"
    by (cases "j = i"; auto)+
  show "slice (slot_off m j) (slot_size m j) m' = slice (slot_off m j) (slot_size m j) m"
    if "j < GetNumTuples m"
    using other(1) [of "slot_off m j" "slot_size m j"] slot_bound [OF i] pos [OF that] p(2)
      high [of "slot_off m j"] by simp
qed

lemma UpdateTupleMeta_spec:
  assumes inv: "tp_inv m" and i: "rid_slot_num rid < GetNumTuples m"
  obtains m' where "TablePage_UpdateTupleMeta meta rid m = (Inr (), m')" and "tp_inv m'"
    and "tp_tuples m' = (tp_tuples m)[rid_slot_num rid := (meta, snd (tp_tuples m ! rid_slot_num rid))]"
    and "num_deleted_tuples m' = (num_deleted_tuples m +
         (if \<not> is_deleted (fst (tp_tuples m ! rid_slot_num rid)) \<and> is_deleted meta then 1 else 0)) mod 2 ^ 16"
    and "GetNextPageId m' = GetNextPageId m" and "GetNumTuples m' = GetNumTuples m"
proof -
  let ?i = "rid_slot_num rid"
  define b where "b = (\<not> is_deleted (slot_meta m ?i) \<and> is_deleted meta)"
  define m' where "m' = put_tuple_info ?i (slot_off m ?i) (slot_size m ?i) meta (count_deletion b m)"
  have run: "TablePage_UpdateTupleMeta meta rid m = (Inr (), m')"
    using UpdateTupleMeta_steps [OF inv i] by (simp add: m'_def b_def count_deletion_def Let_def)
  note f = flag_update_fields [OF inv i, where meta = meta and b = b, folded m'_def]
  have "slot_end m' j = slot_end m j" for j by (simp only: slot_end_def f(4))
  then have inv': "tp_inv m'" using inv by (metis tp_inv_def f(1,2,4,5))
  have "tp_tuple m' j = (if j = ?i then (meta, snd (tp_tuple m j)) else tp_tuple m j)"
    if "j < GetNumTuples m" for j
    using that by (simp add: tp_tuple_def f(4,5,6) f(7) [OF that])
  then have tuples: "tp_tuples m' = (tp_tuples m)[?i := (meta, snd (tp_tuples m ! ?i))]"
    using i by (intro nth_equalityI) (auto simp: tp_tuples_def f(2) nth_list_update)
  have b: "b \<longleftrightarrow> \<not> is_deleted (fst (tp_tuples m ! ?i)) \<and> is_deleted meta"
    using i by (simp add: b_def tp_tuples_def tp_tuple_def)
  have len: "length m = 4096" "length (count_deletion b m) = 4096" using inv by (simp_all add: count_deletion_def)
  have "slot_pos ?i + 5 \<le> 4096" using slot_bound [OF i] tp_inv_bounds(1,2) [OF inv] inv by (simp add: tp_inv_def)
  then have "GetNextPageId m' = GetNextPageId (count_deletion b m)"
    using len by (simp add: m'_def GetNextPageId_def put_tuple_info_elsewhere slot_pos_def)
  also have "\<dots> = GetNextPageId m" using len by (simp add: count_deletion_def GetNextPageId_def mem_simps)
  also note next_page = calculation
  show ?thesis by (rule that [OF run inv' tuples _ next_page f(2)]) (simp only: f(3) b)
qed

text \<open>
  Updating the flag of an existing slot changes that flag and nothing else the readers see:
  the data of every tuple, the other flags and the number of tuples stay, the invariant holds,
  and the counter of deleted tuples grows by one exactly when the flag goes from clear to set. A
  slot number at or past the number of tuples raises and leaves the page as it was.
\<close>

theorem table_page_update_meta:
  assumes "tp_inv m" and "num_deleted_tuples m < 65535"
  shows "if rid_slot_num rid < GetNumTuples m
     then \<exists>m'. TablePage_UpdateTupleMeta meta rid m = (Inr (), m') \<and> tp_inv m' \<and>
       tp_tuples m' = (tp_tuples m)[rid_slot_num rid := (meta, snd (tp_tuples m ! rid_slot_num rid))] \<and>
       num_deleted_tuples m' = num_deleted_tuples m +
         (if \<not> is_deleted (fst (tp_tuples m ! rid_slot_num rid)) \<and> is_deleted meta then 1 else 0)
     else TablePage_UpdateTupleMeta meta rid m = (Inl (Exception ''Tuple ID out of range''), m)"
proof (cases "rid_slot_num rid < GetNumTuples m")
  case True
  obtain m' where m': "TablePage_UpdateTupleMeta meta rid m = (Inr (), m')" "tp_inv m'"
      "tp_tuples m' = (tp_tuples m)[rid_slot_num rid := (meta, snd (tp_tuples m ! rid_slot_num rid))]"
      "num_deleted_tuples m' = (num_deleted_tuples m +
         (if \<not> is_deleted (fst (tp_tuples m ! rid_slot_num rid)) \<and> is_deleted meta then 1 else 0)) mod 2 ^ 16"
    using UpdateTupleMeta_spec [OF assms(1) True] .
  have "(num_deleted_tuples m + (if c then 1 else 0)) mod 2 ^ 16 = num_deleted_tuples m + (if c then 1 else 0)" for c
    using assms(2) by simp
  with True m' show ?thesis by (simp only: if_True) blast
qed (simp add: TablePage_UpdateTupleMeta_def act_simps Let_def)

theorem table_page_update_meta_witness:
  "TablePage_UpdateTupleMeta \<lparr>is_deleted = True\<rparr> (mk_rid default_page_id 0) demo_page =
     (Inl (Exception ''Tuple ID out of range''), demo_page) \<and>
   (\<exists>m1 m2. TablePage_InsertTuple \<lparr>is_deleted = False\<rparr> \<lparr>tuple_rid = default_rid, tuple_data = [7]\<rparr> demo_page = (Inr (Some 0), m1) \<and>
     TablePage_UpdateTupleMeta \<lparr>is_deleted = True\<rparr> (mk_rid default_page_id 0) m1 = (Inr (), m2) \<and>
     tp_tuples m2 = [(\<lparr>is_deleted = True\<rparr>, [7])] \<and> num_deleted_tuples m2 = 1)"
proof -
  let ?t = "\<lparr>tuple_rid = default_rid, tuple_data = [7]\<rparr>" and ?r = "mk_rid default_page_id 0"
  have n: "GetNumTuples demo_page = 0" using demo_page_facts(2) by (simp add: tp_tuples_def)
  have d: "num_deleted_tuples demo_page = 0" by (simp add: demo_page_def Init_inv)
  let ?m1 = "inserted (slot_end demo_page (GetNumTuples demo_page) - length [7::byte]) \<lparr>is_deleted = False\<rparr> [7] demo_page"
  have fit: "length [7::byte] + 6 \<le> tp_free demo_page" by (simp add: demo_page_facts)
  have run: "TablePage_InsertTuple \<lparr>is_deleted = False\<rparr> ?t demo_page = (Inr (Some 0), ?m1)"
    using InsertTuple_steps [of demo_page ?t] fit by (simp add: demo_page_facts small_tuple_def Let_def n)
  have m1: "tp_inv ?m1" "tp_tuples ?m1 = [(\<lparr>is_deleted = False\<rparr>, [7])]" "GetNumTuples ?m1 = 1" "num_deleted_tuples ?m1 = 0"
    using inserted_inv [OF demo_page_facts(1) fit] inserted_tuples [OF demo_page_facts(1) fit]
      inserted_fields(1,9) [OF demo_page_facts(1) fit] demo_page_facts(2) n d by simp_all
  have "\<exists>m2. TablePage_UpdateTupleMeta \<lparr>is_deleted = True\<rparr> ?r ?m1 = (Inr (), m2) \<and>
     tp_tuples m2 = [(\<lparr>is_deleted = True\<rparr>, [7])] \<and> num_deleted_tuples m2 = 1"
    using table_page_update_meta [OF m1(1), of ?r "\<lparr>is_deleted = True\<rparr>"] m1 by (auto simp: mk_rid_def)
  moreover have "TablePage_UpdateTupleMeta \<lparr>is_deleted = True\<rparr> ?r demo_page =
      (Inl (Exception ''Tuple ID out of range''), demo_page)"
    using table_page_update_meta [OF demo_page_facts(1), of ?r] n d by simp
  ultimately show ?thesis using run by blast
qed

end
