(* ===== verification/TableHeaps.thy ===== *)
theory TableHeaps
  imports GuardSteps TablePages
begin

text \<open>
  Table heaps: \<^verbatim>\<open>storage/table/table_heap.hpp\<close>, \<^verbatim>\<open>storage/table/table_heap.cpp\<close>,
  \<^verbatim>\<open>storage/table/table_iterator.hpp\<close> and \<^verbatim>\<open>storage/table/table_iterator.cpp\<close>.

  A heap runs on the pool and the table's metadata. Its pages form a list linked through the
  pages' next-page fields; \<open>heap_inv\<close> says so for a ghost list of page numbers and
  \<open>heap_tuples\<close> is the sequence of records the heap stands for. The loop of
  \<^verbatim>\<open>InsertTuple\<close> has fuel: two rounds are enough, because a page just initialised either has
  room for the tuple or fails the assertion that it is not empty.
\<close>

type_synonym heap = "BufferPool \<times> TableMeta"

definition in_pool :: "(BufferPool, 'a) action \<Rightarrow> (heap, 'a) action" where
  "in_pool m h = (case m (fst h) of (r, s) \<Rightarrow> (r, (s, snd h)))"

definition in_meta :: "(TableMeta, 'a) action \<Rightarrow> (heap, 'a) action" where
  "in_meta m h = (case m (snd h) of (r, t) \<Rightarrow> (r, (fst h, t)))"

text \<open>Unwinding: \<open>on_throw m c\<close> runs the destructors \<open>c\<close> when \<open>m\<close> throws.\<close>

definition on_throw :: "('s, 'a) action \<Rightarrow> ('s, 'b) action \<Rightarrow> ('s, 'a) action" where
  "on_throw m c s = (case m s of (Inr x, s1) \<Rightarrow> (Inr x, s1)
     | (Inl e, s1) \<Rightarrow> (case c s1 of (Inl e', s2) \<Rightarrow> (Inl e', s2) | (Inr _, s2) \<Rightarrow> (Inl e, s2)))"

section \<open>Operations\<close>

definition TableHeap_AllocatePage :: "(TableMeta, PageId) action" where
  "TableHeap_AllocatePage =
     bind (gets tm_table_oid) (\<lambda>oid.
     bind (assert_that (oid \<noteq> INVALID_TABLE_OID) ''table_meta_.table_oid_ != INVALID_TABLE_OID'') (\<lambda>_.
     bind IncrementTableDataPageId (\<lambda>p.
     bind (modify (\<lambda>m. m\<lparr>last_table_heap_data_page_id := p\<rparr>)) (\<lambda>_.
     bind (gets last_table_data_page_id) (\<lambda>q.
     ret (mk_page_id oid q))))))"

definition mk_TableHeap :: "(heap, unit) action" where
  "mk_TableHeap =
     bind (gets (last_table_heap_data_page_id \<circ> snd)) (\<lambda>l.
     bind (if l = INVALID_PAGE_ID
           then bind (NewPageGuarded TableHeap_AllocatePage) (\<lambda>(g, pid).
                bind (assert_that (page_number pid \<noteq> INVALID_PAGE_ID \<and> page_number pid \<ge> 0) ''table heap create page failed'') (\<lambda>_.
                bind (in_pool (guard_GetDataMut g)) (\<lambda>(g, f).
                scoped (in_pool (on_page f (modify TablePage_Init))) (in_pool (Basic_Drop g)))))
           else ret ()) (\<lambda>_.
     bind (gets (last_table_heap_data_page_id \<circ> snd)) (\<lambda>l.
     assert_that (l \<ge> 0) ''table_meta_.GetLastTableHeapDataPageId() >= 0'')))"

fun insert_loop :: "nat \<Rightarrow> Tuple \<Rightarrow> PageGuard \<Rightarrow> (heap, PageGuard) action" where
  "insert_loop 0 t g = throw OutOfFuel"
| "insert_loop (Suc n) t g =
     bind (in_pool (guard_GetDataMut g)) (\<lambda>(g, f).
     bind (in_pool (guard_GetData g)) (\<lambda>page.
     bind (lift (GetNextTupleOffset page t)) (\<lambda>off.
     if off \<noteq> None then ret g
     else bind (assert_that (GetNumTuples page \<noteq> 0) ''tuple is too large'') (\<lambda>_.
          bind (on_throw (NewPageGuarded TableHeap_AllocatePage) (in_pool (Write_Drop g))) (\<lambda>(npg, next_pid).
          bind (assert_that (page_number next_pid \<noteq> INVALID_PAGE_ID) ''cannot allocate page'') (\<lambda>_.
          bind (in_pool (on_page f (modify (SetNextPageId (page_number next_pid))))) (\<lambda>_.
          bind (in_pool (guard_GetDataMut npg)) (\<lambda>(npg, nf).
          bind (in_pool (on_page nf (modify TablePage_Init))) (\<lambda>_.
          bind (in_pool (Write_Drop g)) (\<lambda>g.
          bind (in_pool (UpgradeWrite npg)) (\<lambda>(wg, npg).
          bind (in_pool (Write_assign g wg)) (\<lambda>(g, wg).
          insert_loop n t g))))))))))))"

definition TableHeap_InsertTuple :: "TupleMeta \<Rightarrow> Tuple \<Rightarrow> (heap, RID option) action" where
  "TableHeap_InsertTuple meta t =
     bind (gets (tm_table_oid \<circ> snd)) (\<lambda>oid.
     bind (gets (last_table_heap_data_page_id \<circ> snd)) (\<lambda>l.
     bind (in_pool (FetchPageWrite (mk_page_id oid l))) (\<lambda>g.
     bind (insert_loop 2 t g) (\<lambda>g.
     bind (gets (last_table_heap_data_page_id \<circ> snd)) (\<lambda>last_page_id.
     bind (in_pool (guard_GetDataMut g)) (\<lambda>(g, f).
     bind (in_pool (on_page f (TablePage_InsertTuple meta t))) (\<lambda>slot.
     case slot of
       None \<Rightarrow> throw (UndefinedBehaviour ''dereference of nullopt'')
     | Some slot_id \<Rightarrow>
         bind (in_pool (Write_Drop g)) (\<lambda>_.
         bind (in_meta (modify IncreaseTupleCount)) (\<lambda>_.
         ret (Some (mk_rid (mk_page_id oid last_page_id) slot_id)))))))))))"

definition TableHeap_UpdateTupleMeta :: "TupleMeta \<Rightarrow> RID \<Rightarrow> (heap, unit) action" where
  "TableHeap_UpdateTupleMeta meta rid =
     in_pool (write_scope (rid_page_id rid) (TablePage_UpdateTupleMeta meta rid))"

definition TableHeap_GetTuple :: "RID \<Rightarrow> (heap, (TupleMeta \<times> Tuple) option) action" where
  "TableHeap_GetTuple rid =
     in_pool (read_scope (rid_page_id rid) (\<lambda>page.
       rbind (TablePage_GetTuple page rid) (\<lambda>(meta, t). Inr (Some (meta, t\<lparr>tuple_rid := rid\<rparr>)))))"

definition TableHeap_GetTupleMeta :: "RID \<Rightarrow> (heap, TupleMeta) action" where
  "TableHeap_GetTupleMeta rid =
     in_pool (read_scope (rid_page_id rid) (\<lambda>page. TablePage_GetTupleMeta page rid))"

section \<open>Iterators\<close>

record TableIterator =
  it_rid :: RID
  it_stop_at_rid :: RID

definition MakeIterator :: "(heap, TableIterator) action" where
  "MakeIterator =
     bind (gets (tm_table_oid \<circ> snd)) (\<lambda>oid.
     bind (gets (last_table_heap_data_page_id \<circ> snd)) (\<lambda>l.
     bind (in_pool (read_scope (mk_page_id oid l) (\<lambda>page. Inr (GetNumTuples page)))) (\<lambda>num_tuples.
     ret \<lparr>it_rid = mk_rid (mk_page_id oid 1) 0, it_stop_at_rid = mk_rid (mk_page_id oid l) num_tuples\<rparr>)))"

definition Iterator_GetTuple :: "TableIterator \<Rightarrow> (heap, (TupleMeta \<times> Tuple) option) action" where
  "Iterator_GetTuple it = TableHeap_GetTuple (it_rid it)"

definition Iterator_IsEnd :: "TableIterator \<Rightarrow> bool" where
  "Iterator_IsEnd it \<longleftrightarrow> page_number (rid_page_id (it_rid it)) = INVALID_PAGE_ID"

definition next_rid :: "int \<Rightarrow> RID \<Rightarrow> RID \<Rightarrow> bytes \<Rightarrow> RID result" where
  "next_rid oid rid stop page =
     (let next_tuple_id = (rid_slot_num rid + 1) mod 2 ^ 32 in
      rbind (if page_number (rid_page_id stop) \<noteq> INVALID_PAGE_ID
             then rassert (page_number (rid_page_id rid) < page_number (rid_page_id stop) \<or>
                    rid_page_id rid = rid_page_id stop \<and> next_tuple_id \<le> rid_slot_num stop) ''iterate out of bound''
             else Inr ()) (\<lambda>_.
      let new_rid = mk_rid (rid_page_id rid) next_tuple_id in
      Inr (if new_rid = stop then mk_rid (mk_page_id oid INVALID_PAGE_ID) 0
           else if next_tuple_id < GetNumTuples page then new_rid
           else mk_rid (mk_page_id oid (GetNextPageId page)) 0)))"

definition Iterator_next :: "TableIterator \<Rightarrow> (heap, TableIterator) action" where
  "Iterator_next it =
     bind (gets (tm_table_oid \<circ> snd)) (\<lambda>oid.
     bind (in_pool (read_scope (rid_page_id (it_rid it)) (next_rid oid (it_rid it) (it_stop_at_rid it)))) (\<lambda>rid.
     ret (it\<lparr>it_rid := rid\<rparr>)))"

section \<open>Invariant and abstraction\<close>

fun linked :: "(int \<Rightarrow> bytes) \<Rightarrow> int list \<Rightarrow> bool" where
  "linked v [] \<longleftrightarrow> False"
| "linked v [p] \<longleftrightarrow> GetNextPageId (v p) = INVALID_PAGE_ID"
| "linked v (p # q # ps) \<longleftrightarrow> GetNextPageId (v p) = q \<and> linked v (q # ps)"

definition view :: "heap \<Rightarrow> int \<Rightarrow> bytes" where
  "view h p = logical (fst h) (mk_page_id (tm_table_oid (snd h)) p)"

definition heap_core :: "int list \<Rightarrow> heap \<Rightarrow> bool" where
  "heap_core ps h \<longleftrightarrow> (case h of (s, m) \<Rightarrow>
     tm_table_oid m \<noteq> INVALID_TABLE_OID \<and> linked (view h) ps \<and> sorted_wrt (<) ps \<and>
     last ps = last_table_heap_data_page_id m \<and>
     (\<forall>p \<in> set ps. 0 \<le> p \<and> p \<le> last_table_data_page_id m \<and> tp_inv (view h p)) \<and>
     last_table_data_page_id m < 2 ^ 20 - 1 \<and>
     (\<forall>p. last_table_data_page_id m < p \<and> p < 2 ^ 20 \<longrightarrow>
        page_table s (mk_page_id (tm_table_oid m) p) = None \<and> view h p = zero_page))"

definition heap_inv :: "int list \<Rightarrow> heap \<Rightarrow> bool" where
  "heap_inv ps h \<longleftrightarrow> gp_inv (fst h) \<and> heap_core ps h \<and>
     (\<forall>p \<in> set ps. pins (fst h) (mk_page_id (tm_table_oid (snd h)) p) = 0)"

definition page_records :: "int \<Rightarrow> int \<Rightarrow> bytes \<Rightarrow> (RID \<times> TupleMeta \<times> bytes) list" where
  "page_records oid p page = map (\<lambda>i. (mk_rid (mk_page_id oid p) i, tp_tuples page ! i)) [0..<GetNumTuples page]"

definition heap_tuples :: "int list \<Rightarrow> heap \<Rightarrow> (RID \<times> TupleMeta \<times> bytes) list" where
  "heap_tuples ps h = concat (map (\<lambda>p. page_records (tm_table_oid (snd h)) p (view h p)) ps)"

lemma linked_nonempty: "linked v ps \<Longrightarrow> ps \<noteq> []"
  by (cases ps) auto

lemma linked_cong: "linked v ps \<Longrightarrow> (\<And>p. p \<in> set ps \<Longrightarrow> GetNextPageId (v' p) = GetNextPageId (v p)) \<Longrightarrow> linked v' ps"
  by (induction v ps rule: linked.induct) auto

lemma linked_snoc:
  assumes "linked v ps" and "q \<notin> set ps" and "distinct ps"
    and "\<And>p. p \<in> set ps \<Longrightarrow> p \<noteq> last ps \<Longrightarrow> GetNextPageId (v' p) = GetNextPageId (v p)"
    and "GetNextPageId (v' (last ps)) = q" and "GetNextPageId (v' q) = INVALID_PAGE_ID"
  shows "linked v' (ps @ [q])"
  using assms
proof (induction v ps rule: linked.induct)
  case (3 v p r ps)
  have "last (r # ps) \<in> set (r # ps)" by (rule last_in_set) simp
  then have "p \<noteq> last (r # ps)" using 3(4) by auto
  then have "GetNextPageId (v' p) = r" using 3(2) 3(5) [of p] by simp
  moreover have "linked v' ((r # ps) @ [q])" using 3 by auto
  ultimately show ?case by simp
qed auto

lemma SetNextPageId_spec:
  assumes "tp_inv m" and "fits 4 q"
  shows "tp_inv (SetNextPageId q m)" and "tp_tuples (SetNextPageId q m) = tp_tuples m"
    and "GetNextPageId (SetNextPageId q m) = q" and "GetNumTuples (SetNextPageId q m) = GetNumTuples m"
    and "length (SetNextPageId q m) = PAGE_SIZE"
proof -
  have len: "length m = 4096" using assms(1) by simp
  then show "length (SetNextPageId q m) = PAGE_SIZE" by (simp add: SetNextPageId_def)
  show num: "GetNumTuples (SetNextPageId q m) = GetNumTuples m"
    using len by (simp add: SetNextPageId_def GetNumTuples_def mem_simps)
  show "GetNextPageId (SetNextPageId q m) = q"
    using len assms(2) by (simp add: SetNextPageId_def GetNextPageId_def mem_simps)
  have high: "slice a n (SetNextPageId q m) = slice a n m" if "8 \<le> a" for a n
    using that len by (simp add: SetNextPageId_def mem_simps)
  have sl: "slot_off (SetNextPageId q m) i = slot_off m i" "slot_size (SetNextPageId q m) i = slot_size m i" for i
    using slot_slice_cong [of i "SetNextPageId q m" m] high [of "slot_pos i" 5] by (simp_all add: slot_pos_def)
  have se: "slot_end (SetNextPageId q m) i = slot_end m i" for i by (simp only: slot_end_def sl)
  have "length (SetNextPageId q m) = length m" using len by (simp add: SetNextPageId_def)
  then show "tp_inv (SetNextPageId q m)" using assms(1) unfolding tp_inv_def num sl se by simp
  have "tp_tuple (SetNextPageId q m) i = tp_tuple m i" if "i < GetNumTuples m" for i
  proof (rule slot_frame)
    show "slice (slot_pos i) 5 (SetNextPageId q m) = slice (slot_pos i) 5 m" by (rule high) (simp add: slot_pos_def)
    have "slot_pos (GetNumTuples m) \<le> slot_off m i"
      using tp_inv_bounds(3) [OF assms(1) that] assms(1) by (simp add: tp_inv_def)
    then show "slice (slot_off m i) (slot_size m i) (SetNextPageId q m) = slice (slot_off m i) (slot_size m i) m"
      by (intro high) (simp add: slot_pos_def)
  qed
  then show "tp_tuples (SetNextPageId q m) = tp_tuples m" by (simp add: tp_tuples_def num)
qed

section \<open>Insertion\<close>

lemmas insert_loop_simps = insert_loop.simps
declare insert_loop.simps [simp del]

lemma in_pool_run [act_simps]: "m s = (r, s') \<Longrightarrow> in_pool m (s, t) = (r, (s', t))"
  by (simp add: in_pool_def)

lemma in_meta_run [act_simps]: "m t = (r, t') \<Longrightarrow> in_meta m (s, t) = (r, (s, t'))"
  by (simp add: in_meta_def)

lemma on_throw_Inr: "on_throw m c s = (Inr x, s') \<longleftrightarrow> m s = (Inr x, s')"
  by (auto simp: on_throw_def split: prod.splits sum.splits)

lemma guard_data_held:
  assumes "gp_inv s" and "held s pid f l" and "guard_page g = Some f"
  shows "guard_GetData g s = (Inr (logical s pid), s)"
    and "guard_GetDataMut g s = (Inr (g\<lparr>guard_dirty := True\<rparr>, f), s)"
  using held_frame(1,6) [OF assms(1,2)] assms(3)
  by (simp_all add: guard_GetData_def guard_GetDataMut_def deref_def act_simps)

lemma loop_fits:
  assumes inv: "gp_inv s" and h: "held s pid f l" and g: "guard_page g = Some f"
    and t: "tp_inv (logical s pid)" "small_tuple t" "length (tuple_data t) + TUPLE_INFO_SIZE \<le> tp_free (logical s pid)"
  shows "insert_loop (Suc n) t g (s, m) = (Inr (g\<lparr>guard_dirty := True\<rparr>), (s, m))"
  using guard_data_held [OF inv h, of g] guard_data_held [OF inv h, of "g\<lparr>guard_dirty := True\<rparr>"] g
    GetNextTupleOffset_spec [OF t(1,2)] t(3)
  by (simp add: act_simps insert_loop_simps)

lemma empty_page_free: "tp_inv m \<Longrightarrow> GetNumTuples m = 0 \<Longrightarrow> tp_free m = PAGE_SIZE - TABLE_PAGE_HEADER_SIZE"
  by (simp add: tp_free_def slot_end_def slot_pos_def)

text \<open>The round that starts a new page: link it, initialise it, let go of the old one.\<close>

lemma new_page_round:
  assumes inv: "gp_inv s" and h: "held s pid f WriteLatched" and g: "guard_page g = Some f"
    and page: "tp_inv (logical s pid)"
    and alloc: "TableHeap_AllocatePage m = (Inr npid, m')"
    and npid: "valid_pid npid" "page_table s npid = None" "logical s npid = zero_page" "fits 4 (page_number npid)"
    and new: "NewPageGuarded TableHeap_AllocatePage (s, m) = (Inr (npg, npid'), (s1, m1))"
  obtains nf s' where "npid' = npid" "m1 = m'" "npg = mk_guard nf" "gp_inv s'" "held s' npid nf WriteLatched"
    "\<forall>q. valid_pid q \<longrightarrow> logical s' q = (if q = npid then TablePage_Init zero_page
        else if q = pid then SetNextPageId (page_number npid) (logical s pid) else logical s q)"
    "pins s' = (pins s)(pid := 0, npid := 1)"
    "\<forall>q. page_table s q = None \<longrightarrow> q \<noteq> npid \<longrightarrow> page_table s' q = None"
    "bind (in_pool (on_page f (modify (SetNextPageId (page_number npid))))) (\<lambda>_.
       bind (in_pool (guard_GetDataMut npg)) (\<lambda>(npg, nf).
       bind (in_pool (on_page nf (modify TablePage_Init))) (\<lambda>_.
       bind (in_pool (Write_Drop (g\<lparr>guard_dirty := True\<rparr>))) (\<lambda>g.
       bind (in_pool (UpgradeWrite npg)) (\<lambda>(wg, npg).
       bind (in_pool (Write_assign g wg)) k))))) (s1, m1) =
     k (mk_guard nf, (mk_guard nf)\<lparr>guard_page := None\<rparr>) (s', m')"
proof -
  have pid: "valid_pid pid" using held_frame(4) [OF inv h] .
  have ne: "npid \<noteq> pid" "pid \<noteq> npid" using h npid(2) by (auto simp: held_def)
  have dz: "disk_page (disk_manager s) npid = zero_page" using npid(2,3) by (simp add: logical_def)
  obtain nf where nh: "npg = mk_guard nf" "npid' = npid" "m1 = m'" "gp_inv s1" "held s1 npid nf Unlatched" "same_pages s s1"
      "pins s1 = (pins s)(npid := 1)" "\<And>p' f' k. held s p' f' k \<Longrightarrow> held s1 p' f' k"
      "logical s1 npid = zero_page" "\<And>q. page_table s q = None \<Longrightarrow> q \<noteq> npid \<Longrightarrow> page_table s1 q = None"
    using new_held [OF inv alloc npid(1,2) dz new] by metis
  note h1 = nh(8) [OF h]
  have lp: "logical s1 pid = logical s pid" using nh(6) pid by (simp add: same_pages_def)
  let ?b = "SetNextPageId (page_number npid) (logical s pid)"
  have bl: "length ?b = PAGE_SIZE" using SetNextPageId_spec(5) [OF page npid(4)] .
  have m1: "modify (SetNextPageId (page_number npid)) (logical s1 pid) = (Inr (), ?b)" by (simp add: modify_def lp)
  note w1 = write_held [where m = "modify (SetNextPageId (page_number npid))", OF nh(4) h1 m1 bl]
  define s2 where "s2 = write_frame f ?b s1"
  note w1 = w1 [folded s2_def]
  have h2: "held s2 npid nf Unlatched" using w1(6) [OF nh(5) ne(1)] .
  have il: "length (TablePage_Init zero_page) = PAGE_SIZE" by (simp add: TablePage_Init_def)
  have m2: "modify TablePage_Init (logical s2 npid) = (Inr (), TablePage_Init zero_page)"
    by (simp add: modify_def w1(4) ne nh(9))
  note w2 = write_held [where m = "modify TablePage_Init", OF w1(2) h2 m2 il]
  define s3 where "s3 = write_frame nf (TablePage_Init zero_page) s2"
  note w2 = w2 [folded s3_def]
  have h3: "held s3 pid f WriteLatched" using w2(6) [OF w1(3) ne(2)] .
  have gd: "guard_page (g\<lparr>guard_dirty := True\<rparr>) = Some f" "guard_dirty (g\<lparr>guard_dirty := True\<rparr>)" using g by simp_all
  obtain s4 where d: "Write_Drop (g\<lparr>guard_dirty := True\<rparr>) s3 = (Inr (g\<lparr>guard_dirty := True, guard_page := None\<rparr>), s4)"
      "gp_inv s4" "logical s4 = logical s3" "pins s4 = (pins s3)(pid := 0)" "page_table s4 = page_table s3"
      "\<forall>pid' f' k. held s3 pid' f' k \<longrightarrow> pid' \<noteq> pid \<longrightarrow> held s4 pid' f' k"
    using write_drop_held [OF w2(2) h3 gd] .
  have h4: "held s4 npid nf Unlatched" using d(6) w2(3) ne(1) by blast
  let ?npg = "(mk_guard nf)\<lparr>guard_dirty := True\<rparr>"
  have "guard_page ?npg = Some nf" by (simp add: mk_guard_def)
  note up = upgrade_held [OF d(2) h4 this]
  define s5 where "s5 = relatch nf WriteLatched s4"
  note up = up [folded s5_def]
  have pt: "page_table s5 = page_table s1" using d(5) by (simp add: s5_def relatch_page s3_def s2_def write_frame_def)
  show ?thesis
  proof (rule that [OF nh(2,3,1), where s' = s5])
    show "gp_inv s5" "held s5 npid nf WriteLatched" using up(2,3) .
    show "\<forall>q. valid_pid q \<longrightarrow> logical s5 q = (if q = npid then TablePage_Init zero_page else if q = pid then ?b else logical s q)"
      using nh(6) by (simp add: s5_def relatch_inv d(3) w2(4) w1(4) same_pages_def)
    show "pins s5 = (pins s)(pid := 0, npid := 1)"
      by (simp add: s5_def relatch_inv d(4) w2(5) w1(5) nh(7) fun_upd_twist [OF ne(2)])
    show "\<forall>q. page_table s q = None \<longrightarrow> q \<noteq> npid \<longrightarrow> page_table s5 q = None" using nh(10) pt by simp
    have gm: "guard_GetDataMut npg s2 = (Inr (?npg, nf), s2)"
      using guard_data_held(2) [OF w1(2) h2, of npg] nh(1) by (simp add: mk_guard_def)
    show "bind (in_pool (on_page f (modify (SetNextPageId (page_number npid))))) (\<lambda>_.
       bind (in_pool (guard_GetDataMut npg)) (\<lambda>(npg, nf).
       bind (in_pool (on_page nf (modify TablePage_Init))) (\<lambda>_.
       bind (in_pool (Write_Drop (g\<lparr>guard_dirty := True\<rparr>))) (\<lambda>g.
       bind (in_pool (UpgradeWrite npg)) (\<lambda>(wg, npg).
       bind (in_pool (Write_assign g wg)) k))))) (s1, m1) =
      k (mk_guard nf, (mk_guard nf)\<lparr>guard_page := None\<rparr>) (s5, m')"
      using w1(1) w2(1) d(1) up(1) gm
      by (simp add: act_simps nh(3) Write_assign_def Write_Drop_def Basic_Drop_def Basic_assign_def guard_move_def mk_guard_def)
  qed
qed

lemma heap_coreD:
  assumes "heap_core ps (s, m)"
  shows "tm_table_oid m \<noteq> INVALID_TABLE_OID" and "linked (view (s, m)) ps" and "sorted_wrt (<) ps"
    and "last ps = last_table_heap_data_page_id m" and "p \<in> set ps \<Longrightarrow> 0 \<le> p \<and> p \<le> last_table_data_page_id m"
    and "p \<in> set ps \<Longrightarrow> tp_inv (view (s, m) p)" and "last_table_data_page_id m < 2 ^ 20 - 1"
    and "last_table_data_page_id m < p \<Longrightarrow> p < 2 ^ 20 \<Longrightarrow> page_table s (mk_page_id (tm_table_oid m) p) = None"
    and "last_table_data_page_id m < p \<Longrightarrow> p < 2 ^ 20 \<Longrightarrow> view (s, m) p = zero_page"
    and "last_table_heap_data_page_id m \<in> set ps" and "0 \<le> last_table_data_page_id m"
    and "p \<in> set ps \<Longrightarrow> valid_pid (mk_page_id (tm_table_oid m) p)" and "distinct ps"
proof -
  show a: "tm_table_oid m \<noteq> INVALID_TABLE_OID" "linked (view (s, m)) ps" "sorted_wrt (<) ps"
    "last ps = last_table_heap_data_page_id m" "last_table_data_page_id m < 2 ^ 20 - 1"
    using assms by (simp_all add: heap_core_def)
  show b: "p \<in> set ps \<Longrightarrow> 0 \<le> p \<and> p \<le> last_table_data_page_id m" for p
    using assms by (simp add: heap_core_def)
  show "p \<in> set ps \<Longrightarrow> tp_inv (view (s, m) p)"
    "last_table_data_page_id m < p \<Longrightarrow> p < 2 ^ 20 \<Longrightarrow> page_table s (mk_page_id (tm_table_oid m) p) = None"
    "last_table_data_page_id m < p \<Longrightarrow> p < 2 ^ 20 \<Longrightarrow> view (s, m) p = zero_page"
    using assms by (simp_all add: heap_core_def)
  show c: "last_table_heap_data_page_id m \<in> set ps" using a(4) last_in_set [OF linked_nonempty [OF a(2)]] by simp
  show "0 \<le> last_table_data_page_id m" using b [OF c] by simp
  show "p \<in> set ps \<Longrightarrow> valid_pid (mk_page_id (tm_table_oid m) p)" using b [of p] a(5) by (simp add: valid_pid_def)
  show "distinct ps" using a(3) by (simp add: strict_sorted_iff)
qed

lemma core_update:
  assumes c: "heap_core ps (s, m)" and L: "L \<in> set ps" and oid: "tm_table_oid m' = tm_table_oid m"
    and meta: "last_table_data_page_id m' = last_table_data_page_id m" "last_table_heap_data_page_id m' = last_table_heap_data_page_id m"
    and view: "\<And>p. 0 \<le> p \<Longrightarrow> p < 2 ^ 20 \<Longrightarrow> view (s', m') p = (if p = L then page else view (s, m) p)"
    and page: "tp_inv page" "GetNextPageId page = GetNextPageId (view (s, m) L)"
    and table: "\<And>q. page_table s q = None \<Longrightarrow> q \<noteq> mk_page_id (tm_table_oid m) L \<Longrightarrow> page_table s' q = None"
  shows "heap_core ps (s', m')"
proof -
  note d = heap_coreD [OF c]
  have last: "L \<le> last_table_data_page_id m" using d(5) [OF L] by simp
  have rng: "0 \<le> p" "p < 2 ^ 20" if "p \<in> set ps" for p using d(5) [OF that] d(7) by auto
  have vp: "view (s', m') p = (if p = L then page else view (s, m) p)" if "p \<in> set ps" for p
    using view [OF rng [OF that]] .
  have "linked (view (s', m')) ps" by (rule linked_cong [OF d(2)]) (simp add: vp page(2))
  moreover have "tp_inv (view (s', m') p)" if "p \<in> set ps" for p using that d(6) page(1) by (simp add: vp)
  moreover have "view (s', m') p = zero_page" if "last_table_data_page_id m < p" "p < 2 ^ 20" for p
    using that d(9,11) last by (simp add: view)
  moreover have "page_table s' (mk_page_id (tm_table_oid m) p) = None" if "last_table_data_page_id m < p" "p < 2 ^ 20" for p
    using that d(8) table last by simp
  ultimately show ?thesis using d by (simp add: heap_core_def oid meta)
qed

lemma core_extend:
  assumes c: "heap_core ps (s, m)" and q: "q = last_table_data_page_id m + 1" "q < 2 ^ 20 - 1"
    and m': "m' = m\<lparr>last_table_data_page_id := q, last_table_heap_data_page_id := q\<rparr>"
    and view: "\<And>p. 0 \<le> p \<Longrightarrow> p < 2 ^ 20 \<Longrightarrow> view (s', m') p = (if p = q then TablePage_Init zero_page
        else if p = last_table_heap_data_page_id m then SetNextPageId q (view (s, m) p) else view (s, m) p)"
    and table: "\<And>r. page_table s r = None \<Longrightarrow> r \<noteq> mk_page_id (tm_table_oid m) q \<Longrightarrow> page_table s' r = None"
  shows "heap_core (ps @ [q]) (s', m')"
proof -
  note d = heap_coreD [OF c]
  have q0: "0 \<le> q" using q d(11) by simp
  have lt: "p < q" if "p \<in> set ps" for p using d(5) [OF that] q by simp
  have rng: "0 \<le> p" "p < 2 ^ 20" if "p \<in> set ps" for p using d(5) [OF that] d(7) by auto
  have fits: "fits 4 q" using q0 q(2) by (simp add: fits_def)
  have ini: "tp_inv (TablePage_Init zero_page)" "GetNextPageId (TablePage_Init zero_page) = - 1"
    using Init_inv by (simp_all)
  note sn = SetNextPageId_spec [OF d(6) [OF d(10)] fits]
  have vq: "view (s', m') q = TablePage_Init zero_page" using view [OF q0] q(2) by simp
  have vp: "view (s', m') p = (if p = last_table_heap_data_page_id m then SetNextPageId q (view (s, m) p) else view (s, m) p)"
    if "p \<in> set ps" for p using view [OF rng [OF that]] lt [OF that] by simp
  have "linked (view (s', m')) (ps @ [q])"
    by (rule linked_snoc [OF d(2) _ d(13)]) (use lt vp vq ini sn d(4,10) in auto)
  moreover have "tp_inv (view (s', m') p)" if "p \<in> set (ps @ [q])" for p
    using that vp vq ini sn d(6) by auto
  moreover have "view (s', m') p = zero_page" "page_table s' (mk_page_id (tm_table_oid m) p) = None" if "q < p" "p < 2 ^ 20" for p
  proof -
    have "p \<noteq> last_table_heap_data_page_id m" using lt [OF d(10)] that by auto
    then show "view (s', m') p = zero_page" using view [of p] that q0 d(9) q by simp
    show "page_table s' (mk_page_id (tm_table_oid m) p) = None" using table d(8) that q by simp
  qed
  moreover have "sorted_wrt (<) (ps @ [q])" using d(3) lt by (simp add: sorted_wrt_append)
  moreover have "0 \<le> p \<and> p \<le> q" if "p \<in> set (ps @ [q])" for p using that rng lt q0 by fastforce
  moreover have "tm_table_oid m' = tm_table_oid m" "last_table_data_page_id m' = q" "last_table_heap_data_page_id m' = q"
    by (simp_all add: m')
  ultimately show ?thesis unfolding heap_core_def using d(1) q(2) by simp
qed

lemma AllocatePage_run:
  assumes "heap_core ps (s, m)"
  shows "TableHeap_AllocatePage m = (Inr (mk_page_id (tm_table_oid m) (last_table_data_page_id m + 1)),
     m\<lparr>last_table_data_page_id := last_table_data_page_id m + 1, last_table_heap_data_page_id := last_table_data_page_id m + 1\<rparr>)"
  using heap_coreD(1,7,11) [OF assms]
  by (simp add: TableHeap_AllocatePage_def act_simps IncrementTableDataPageId_def Let_def bind_def gets_def modify_def ret_def)

text \<open>The state in which the tuple goes in: the last page of the heap is held and has room.\<close>

definition ready :: "int list \<Rightarrow> heap \<Rightarrow> nat \<Rightarrow> Tuple \<Rightarrow> bool" where
  "ready ps h f t \<longleftrightarrow> (case h of (s, m) \<Rightarrow>
     gp_inv s \<and> heap_core ps h \<and> held s (mk_page_id (tm_table_oid m) (last_table_heap_data_page_id m)) f WriteLatched \<and>
     (\<forall>p \<in> set ps. p \<noteq> last_table_heap_data_page_id m \<longrightarrow> pins s (mk_page_id (tm_table_oid m) p) = 0) \<and>
     length (tuple_data t) + TUPLE_INFO_SIZE \<le> tp_free (view h (last_table_heap_data_page_id m)))"

definition page_tuple :: "Tuple \<Rightarrow> bool" where
  "page_tuple t \<longleftrightarrow> 0 < length (tuple_data t) \<and> length (tuple_data t) + TUPLE_INFO_SIZE \<le> PAGE_SIZE - TABLE_PAGE_HEADER_SIZE"

lemma page_tuple_small: "page_tuple t \<Longrightarrow> small_tuple t"
  by (simp add: page_tuple_def small_tuple_def)

lemma view_eq: "logical s (mk_page_id (tm_table_oid m) p) = view (s, m) p"
  by (simp add: view_def)

lemma heap_tuples_cong:
  "tm_table_oid m' = tm_table_oid m \<Longrightarrow> (\<And>p. p \<in> set ps \<Longrightarrow> tp_tuples (view (s', m') p) = tp_tuples (view (s, m) p)) \<Longrightarrow>
   heap_tuples ps (s', m') = heap_tuples ps (s, m)"
  unfolding heap_tuples_def page_records_def
  by (intro arg_cong [where f = concat] map_cong) (auto simp: length_tp_tuples [symmetric] simp del: length_tp_tuples)

text \<open>What the loop needs to go on: room on the last page, or a frame for a new one.\<close>

definition frame_for :: "Tuple \<Rightarrow> heap \<Rightarrow> bool" where
  "frame_for t h \<longleftrightarrow> length (tuple_data t) + TUPLE_INFO_SIZE \<le> tp_free (view h (last_table_heap_data_page_id (snd h))) \<or>
     (\<exists>x h'. NewPageGuarded TableHeap_AllocatePage h = (Inr x, h'))"

lemma insert_loop_new:
  assumes inv: "gp_inv s" and h: "held s pid f l" and tp: "tp_inv (logical s pid)" and t: "page_tuple t"
    and full: "\<not> length (tuple_data t) + TUPLE_INFO_SIZE \<le> tp_free (logical s pid)"
  shows "insert_loop 2 t (mk_guard f) (s, m) =
       bind (on_throw (NewPageGuarded TableHeap_AllocatePage) (in_pool (Write_Drop ((mk_guard f)\<lparr>guard_dirty := True\<rparr>)))) (\<lambda>(npg, next_pid).
       bind (assert_that (page_number next_pid \<noteq> INVALID_PAGE_ID) ''cannot allocate page'') (\<lambda>_.
       bind (in_pool (on_page f (modify (SetNextPageId (page_number next_pid))))) (\<lambda>_.
       bind (in_pool (guard_GetDataMut npg)) (\<lambda>(npg, nf).
       bind (in_pool (on_page nf (modify TablePage_Init))) (\<lambda>_.
       bind (in_pool (Write_Drop ((mk_guard f)\<lparr>guard_dirty := True\<rparr>))) (\<lambda>g.
       bind (in_pool (UpgradeWrite npg)) (\<lambda>(wg, npg).
       bind (in_pool (Write_assign g wg)) (\<lambda>(g, wg). insert_loop 1 t g)))))))) (s, m)"
proof -
  let ?g = "(mk_guard f)\<lparr>guard_dirty := True\<rparr>"
  have st: "small_tuple t" using t by (rule page_tuple_small)
  have gp: "guard_page (mk_guard f) = Some f" by (simp add: mk_guard_def)
  have nz: "GetNumTuples (logical s pid) \<noteq> 0" using empty_page_free [OF tp] full t by (auto simp: page_tuple_def)
  have gd: "guard_GetDataMut (mk_guard f) s = (Inr (?g, f), s)" "guard_GetData ?g s = (Inr (logical s pid), s)"
    using guard_data_held [OF inv h gp] guard_data_held [OF inv h, of ?g] gp by simp_all
  have off: "GetNextTupleOffset (logical s pid) t = Inr None" using GetNextTupleOffset_spec [OF tp st] full by simp
  show ?thesis using gd off nz by (simp add: numeral_2_eq_2 insert_loop_simps(2) act_simps)
qed

lemma insert_loop_ready:
  assumes inv: "gp_inv s" and core: "heap_core ps (s, m)" and t: "page_tuple t"
    and h: "held s (mk_page_id (tm_table_oid m) (last_table_heap_data_page_id m)) f WriteLatched"
    and pins: "\<forall>p \<in> set ps. p \<noteq> last_table_heap_data_page_id m \<longrightarrow> pins s (mk_page_id (tm_table_oid m) p) = 0"
    and room: "last_table_data_page_id m + 1 < 2 ^ 20 - 1" and frame: "frame_for t (s, m)"
  obtains ps' nf s' m' where "insert_loop 2 t (mk_guard f) (s, m) = (Inr ((mk_guard nf)\<lparr>guard_dirty := True\<rparr>), (s', m'))"
    "ready ps' (s', m') nf t" "heap_tuples ps' (s', m') = heap_tuples ps (s, m)"
    "ps' = ps \<or> (\<exists>q. ps' = ps @ [q])" "tm_table_oid m' = tm_table_oid m" "tuple_count m' = tuple_count m"
    "length (tuple_data t) + TUPLE_INFO_SIZE \<le> tp_free (view (s, m) (last_table_heap_data_page_id m)) \<longrightarrow> ps' = ps"
proof -
  let ?L = "last_table_heap_data_page_id m" and ?oid = "tm_table_oid m"
  note d = heap_coreD [OF core]
  have tp: "tp_inv (logical s (mk_page_id ?oid ?L))" using d(6) [OF d(10)] by (simp add: view_eq)
  have st: "small_tuple t" using t by (rule page_tuple_small)
  have gp: "guard_page (mk_guard f) = Some f" by (simp add: mk_guard_def)
  show ?thesis
  proof (cases "length (tuple_data t) + TUPLE_INFO_SIZE \<le> tp_free (logical s (mk_page_id ?oid ?L))")
    case True
    have "insert_loop 2 t (mk_guard f) (s, m) = (Inr ((mk_guard f)\<lparr>guard_dirty := True\<rparr>), (s, m))"
      using loop_fits [OF inv h gp tp st True, of "Suc 0" m] by (simp add: numeral_2_eq_2)
    moreover have "ready ps (s, m) f t" using inv core h pins True by (simp add: ready_def view_eq)
    ultimately show ?thesis using that by blast
  next
    case False
    let ?g = "(mk_guard f)\<lparr>guard_dirty := True\<rparr>" and ?q = "last_table_data_page_id m + 1"
    let ?npid = "mk_page_id ?oid ?q"
    let ?m' = "m\<lparr>last_table_data_page_id := ?q, last_table_heap_data_page_id := ?q\<rparr>"
    define k where "k = (\<lambda>(g :: PageGuard, wg :: PageGuard). insert_loop 1 t g)"
    have npid: "valid_pid ?npid" "page_table s ?npid = None" "logical s ?npid = zero_page" "fits 4 (page_number ?npid)"
      using d(8,9) [of ?q] d(11) room by (simp_all add: valid_pid_def fits_def view_eq)
    note step = insert_loop_new [OF inv h tp t, where m = m, folded k_def] False
    from frame False obtain npg npid' s1 m1 where new: "NewPageGuarded TableHeap_AllocatePage (s, m) = (Inr (npg, npid'), (s1, m1))"
      by (auto simp: frame_for_def view_eq)
    obtain nf s5 where r: "npid' = ?npid" "m1 = ?m'" "npg = mk_guard nf" "gp_inv s5" "held s5 ?npid nf WriteLatched"
        "\<forall>q. valid_pid q \<longrightarrow> logical s5 q = (if q = ?npid then TablePage_Init zero_page
          else if q = mk_page_id ?oid ?L then SetNextPageId (page_number ?npid) (logical s (mk_page_id ?oid ?L)) else logical s q)"
        "pins s5 = (pins s)(mk_page_id ?oid ?L := 0, ?npid := 1)"
        "\<forall>q. page_table s q = None \<longrightarrow> q \<noteq> ?npid \<longrightarrow> page_table s5 q = None"
        "bind (in_pool (on_page f (modify (SetNextPageId (page_number ?npid))))) (\<lambda>_.
           bind (in_pool (guard_GetDataMut npg)) (\<lambda>(npg, nf).
           bind (in_pool (on_page nf (modify TablePage_Init))) (\<lambda>_.
           bind (in_pool (Write_Drop ?g)) (\<lambda>g.
           bind (in_pool (UpgradeWrite npg)) (\<lambda>(wg, npg).
           bind (in_pool (Write_assign g wg)) k))))) (s1, m1) =
          k (mk_guard nf, (mk_guard nf)\<lparr>guard_page := None\<rparr>) (s5, ?m')"
      using new_page_round [OF inv h gp tp AllocatePage_run [OF core] npid new] .
    have lt: "?L < ?q" using d(5) [OF d(10)] by simp
    have vw: "view (s5, ?m') p = (if p = ?q then TablePage_Init zero_page else if p = ?L then SetNextPageId ?q (view (s, m) p) else view (s, m) p)"
      if "0 \<le> p" "p < 2 ^ 20" for p
    proof -
      have "valid_pid (mk_page_id ?oid p)" using that by (simp add: valid_pid_def)
      then show ?thesis using r(6) by (simp add: view_def)
    qed
    have core5: "heap_core (ps @ [?q]) (s5, ?m')"
      by (rule core_extend [OF core refl room refl vw]) (use r(8) in simp_all)
    have q0: "0 \<le> ?q" using d(11) by simp
    have vq: "view (s5, ?m') ?q = TablePage_Init zero_page" using vw [OF q0] room by simp
    have zl: "length zero_page = PAGE_SIZE" by simp
    have free: "tp_free (TablePage_Init zero_page) = PAGE_SIZE - TABLE_PAGE_HEADER_SIZE"
      using empty_page_free [OF Init_inv(1) [OF zl]] Init_inv(2) [OF zl] length_tp_tuples [of "TablePage_Init zero_page"] by simp
    have fitsn: "length (tuple_data t) + TUPLE_INFO_SIZE \<le> tp_free (logical s5 ?npid)"
      using free t vq by (simp add: page_tuple_def view_def)
    have tpn: "tp_inv (logical s5 ?npid)" using Init_inv(1) [OF zl] vq by (simp add: view_def)
    have gn: "guard_page (mk_guard nf) = Some nf" by (simp add: mk_guard_def)
    have "insert_loop 2 t (mk_guard f) (s, m) = k (mk_guard nf, (mk_guard nf)\<lparr>guard_page := None\<rparr>) (s5, ?m')"
      using step new r(1,9) q0 by (simp add: act_simps on_throw_def bind_def)
    then have out: "insert_loop 2 t (mk_guard f) (s, m) = (Inr ((mk_guard nf)\<lparr>guard_dirty := True\<rparr>), (s5, ?m'))"
      using loop_fits [OF r(4,5) gn tpn st fitsn, of 0 ?m'] by (simp add: k_def)
    have "pins s5 (mk_page_id ?oid p) = 0" if "p \<in> set (ps @ [?q])" "p \<noteq> ?q" for p
      using that pins r(7) lt by auto
    then have "ready (ps @ [?q]) (s5, ?m') nf t" using r(4,5) core5 fitsn by (simp add: ready_def view_def)
    moreover have "tp_tuples (view (s5, ?m') p) = tp_tuples (view (s, m) p)" if "p \<in> set ps" for p
      using vw [of p] d(5) [OF that] d(7) d(6) [OF that] SetNextPageId_spec(2) [OF _ npid(4)] that by auto
    then have "heap_tuples (ps @ [?q]) (s5, ?m') = heap_tuples ps (s, m)"
      using heap_tuples_cong [of ?m' m ps s5 s] Init_inv(2) [OF zl] length_tp_tuples [of "TablePage_Init zero_page"] vq
      by (simp add: heap_tuples_def page_records_def)
    ultimately show ?thesis using that [OF out, of "ps @ [?q]"] False by (simp add: view_eq)
  qed
qed

text \<open>The tail of the insertion, from a page that is held and has room.\<close>

lemma finish_insert:
  assumes rd: "ready ps (s, m) f t" and t: "page_tuple t"
  defines "L \<equiv> last_table_heap_data_page_id m" and "oid \<equiv> tm_table_oid m"
  defines "n \<equiv> GetNumTuples (view (s, m) L)"
  obtains s' where "on_page f (TablePage_InsertTuple meta t) s = (Inr (Some n), s')" "gp_inv s'"
    "held s' (mk_page_id oid L) f WriteLatched" "pins s' = pins s" "heap_core ps (s', m)"
    "heap_tuples ps (s', m) = heap_tuples ps (s, m) @ [(mk_rid (mk_page_id oid L) n, meta, tuple_data t)]"
proof -
  let ?pid = "mk_page_id oid L" and ?d = "tuple_data t"
  have inv: "gp_inv s" and core: "heap_core ps (s, m)" and h: "held s ?pid f WriteLatched"
    and fit: "length ?d + TUPLE_INFO_SIZE \<le> tp_free (view (s, m) L)"
    using rd by (simp_all add: ready_def L_def oid_def)
  note d = heap_coreD [OF core, folded L_def]
  have tp: "tp_inv (view (s, m) L)" using d(6) [OF d(10)] .
  have lv: "logical s ?pid = view (s, m) L" by (simp add: view_def oid_def)
  define page where "page = inserted (slot_end (view (s, m) L) n - length ?d) meta ?d (view (s, m) L)"
  have pos: "0 < length ?d" using t by (simp add: page_tuple_def)
  have run: "TablePage_InsertTuple meta t (logical s ?pid) = (Inr (Some n), page)"
    using InsertTuple_steps [OF tp page_tuple_small [OF t], of meta] fit by (simp add: lv Let_def page_def n_def)
  note ins = inserted_inv [OF tp fit pos, of meta, folded n_def, folded page_def]
    inserted_tuples [OF tp fit pos, of meta, folded n_def, folded page_def]
    inserted_fields(1,2,8) [OF tp fit pos, of meta, folded n_def, folded page_def]
  note w = write_held [where m = "TablePage_InsertTuple meta t", OF inv h run ins(4)]
  let ?s' = "write_frame f page s"
  have vw: "view (?s', m) p = (if p = L then page else view (s, m) p)" for p
    by (simp add: view_def w(4) oid_def)
  have "heap_core ps (?s', m)"
    by (rule core_update [OF core d(10) refl refl refl _ ins(1)])
       (use vw ins(5) in \<open>simp_all add: L_def write_frame_def\<close>)
  moreover have "heap_tuples ps (?s', m) = heap_tuples ps (s, m) @ [(mk_rid ?pid n, meta, ?d)]"
  proof -
    obtain qs where ps: "ps = qs @ [L]" using d(2,4) linked_nonempty by (metis append_butlast_last_id)
    have "L \<notin> set qs" using d(13) ps by simp
    then have qs: "heap_tuples qs (?s', m) = heap_tuples qs (s, m)" by (intro heap_tuples_cong) (auto simp: vw)
    have nth: "tp_tuples page ! i = tp_tuples (view (s, m) L) ! i" if "i < n" for i
      using that by (simp add: ins(2) nth_append n_def)
    have "tp_tuples page ! n = (meta, ?d)" by (simp add: ins(2) nth_append n_def)
    then have "page_records oid L page = page_records oid L (view (s, m) L) @ [(mk_rid ?pid n, meta, ?d)]"
      using nth by (simp add: page_records_def ins(3) flip: n_def)
    then show ?thesis using qs by (simp add: ps heap_tuples_def vw oid_def)
  qed
  ultimately show ?thesis using that w by blast
qed

lemma fetch_core:
  assumes inv: "heap_inv ps (s, m)" and pid: "p \<in> set ps"
    and sp: "same_pages s s1" and tb: "\<And>q. page_table s q = None \<Longrightarrow> q \<noteq> mk_page_id (tm_table_oid m) p \<Longrightarrow> page_table s1 q = None"
  shows "heap_core ps (s1, m)" and "heap_tuples ps (s1, m) = heap_tuples ps (s, m)"
proof -
  have core: "heap_core ps (s, m)" using inv by (simp add: heap_inv_def)
  note d = heap_coreD [OF core]
  have vw: "view (s1, m) q = view (s, m) q" if "0 \<le> q" "q < 2 ^ 20" for q
    using sp that by (simp add: view_def same_pages_def valid_pid_def)
  have rng: "0 \<le> q" "q < 2 ^ 20" if "q \<in> set ps" for q using d(5) [OF that] d(7) by auto
  have "page_table s1 (mk_page_id (tm_table_oid m) q) = None" if "last_table_data_page_id m < q" "q < 2 ^ 20" for q
    using that tb d(8) d(5) [OF pid] by simp
  moreover have same: "view (s1, m) q = view (s, m) q" if "q \<in> set ps" for q using vw rng [OF that] .
  moreover have "linked (view (s1, m)) ps" by (rule linked_cong [OF d(2)]) (simp only: same)
  moreover have "view (s1, m) q = zero_page" if "last_table_data_page_id m < q" "q < 2 ^ 20" for q
    using that d(9,11) vw by simp
  moreover have "\<forall>q \<in> set ps. 0 \<le> q \<and> q \<le> last_table_data_page_id m \<and> tp_inv (view (s1, m) q)"
    using d(5,6) same by simp
  ultimately show "heap_core ps (s1, m)" using d(1,3,4,7) by (simp add: heap_core_def)
  show "heap_tuples ps (s1, m) = heap_tuples ps (s, m)" by (rule heap_tuples_cong) (simp_all only: same)
qed

lemma InsertTuple_spec:
  assumes inv: "heap_inv ps (s, m)" and t: "page_tuple t" and room: "last_table_data_page_id m + 1 < 2 ^ 20 - 1"
    and fw: "FetchPageWrite (mk_page_id (tm_table_oid m) (last_table_heap_data_page_id m)) s = (Inr g, s1)"
    and frame: "frame_for t (s1, m)"
  obtains ps' rid s' m' where "TableHeap_InsertTuple meta t (s, m) = (Inr (Some rid), (s', m'))" "heap_inv ps' (s', m')"
    "heap_tuples ps' (s', m') = heap_tuples ps (s, m) @ [(rid, meta, tuple_data t)]"
    "ps' = ps \<or> (\<exists>q. ps' = ps @ [q])" "tm_table_oid m' = tm_table_oid m" "tuple_count m' = tuple_count m + 1"
    "page_table s' (rid_page_id rid) \<noteq> None" "length (tuple_data t) + TUPLE_INFO_SIZE \<le> tp_free (view (s, m) (last_table_heap_data_page_id m)) \<longrightarrow> ps' = ps"
proof -
  let ?oid = "tm_table_oid m" and ?L = "last_table_heap_data_page_id m"
  have gi: "gp_inv s" and core: "heap_core ps (s, m)" and pins: "\<forall>p \<in> set ps. pins s (mk_page_id ?oid p) = 0"
    using inv by (simp_all add: heap_inv_def)
  note d = heap_coreD [OF core]
  obtain f where f: "g = mk_guard f" "gp_inv s1" "held s1 (mk_page_id ?oid ?L) f WriteLatched" "same_pages s s1"
      "pins s1 = (pins s)(mk_page_id ?oid ?L := 1)" "\<And>q. page_table s q = None \<Longrightarrow> q \<noteq> mk_page_id ?oid ?L \<Longrightarrow> page_table s1 q = None"
    using fetch_held [OF gi d(12) [OF d(10)] _ fw] pins d(10) by blast
  have c1: "heap_core ps (s1, m)" "heap_tuples ps (s1, m) = heap_tuples ps (s, m)"
    using fetch_core [OF inv d(10) f(4)] f(6) by blast+
  have p1: "\<forall>p \<in> set ps. p \<noteq> ?L \<longrightarrow> pins s1 (mk_page_id ?oid p) = 0" using pins f(5) by simp
  have split: "TableHeap_InsertTuple meta t (s, m) = bind (insert_loop 2 t (mk_guard f)) (\<lambda>g.
     bind (gets (last_table_heap_data_page_id \<circ> snd)) (\<lambda>last_page_id.
     bind (in_pool (guard_GetDataMut g)) (\<lambda>(g, f).
     bind (in_pool (on_page f (TablePage_InsertTuple meta t))) (\<lambda>slot.
     case slot of
       None \<Rightarrow> throw (UndefinedBehaviour ''dereference of nullopt'')
     | Some slot_id \<Rightarrow>
         bind (in_pool (Write_Drop g)) (\<lambda>_.
         bind (in_meta (modify IncreaseTupleCount)) (\<lambda>_.
         ret (Some (mk_rid (mk_page_id ?oid last_page_id) slot_id)))))))) (s1, m)"
    using fw f(1) by (simp add: TableHeap_InsertTuple_def act_simps)
  obtain ps' nf s2 m2 where il: "insert_loop 2 t (mk_guard f) (s1, m) = (Inr ((mk_guard nf)\<lparr>guard_dirty := True\<rparr>), (s2, m2))"
      and rd: "ready ps' (s2, m2) nf t"
      "heap_tuples ps' (s2, m2) = heap_tuples ps (s1, m)" "ps' = ps \<or> (\<exists>q. ps' = ps @ [q])"
      "tm_table_oid m2 = ?oid" "tuple_count m2 = tuple_count m"
      "length (tuple_data t) + TUPLE_INFO_SIZE \<le> tp_free (view (s1, m) ?L) \<longrightarrow> ps' = ps"
    using insert_loop_ready [OF f(2) c1(1) t f(3) p1 room frame] .
  define g2 where "g2 = (mk_guard nf)\<lparr>guard_dirty := True\<rparr>"
  note il = il [folded g2_def]
  let ?L2 = "last_table_heap_data_page_id m2"
  let ?n = "GetNumTuples (view (s2, m2) ?L2)"
  obtain s3 where w: "on_page nf (TablePage_InsertTuple meta t) s2 = (Inr (Some ?n), s3)" "gp_inv s3"
    "held s3 (mk_page_id ?oid ?L2) nf WriteLatched" "pins s3 = pins s2" "heap_core ps' (s3, m2)"
    "heap_tuples ps' (s3, m2) = heap_tuples ps' (s2, m2) @ [(mk_rid (mk_page_id ?oid ?L2) ?n, meta, tuple_data t)]"
    using finish_insert [OF rd(1) t, of meta] rd(4) by metis
  have g2: "guard_page g2 = Some nf" "guard_dirty g2" "g2\<lparr>guard_dirty := True\<rparr> = g2" by (simp_all add: g2_def mk_guard_def)
  have h2: "gp_inv s2" "held s2 (mk_page_id ?oid ?L2) nf WriteLatched" using rd(1,4) by (simp_all add: ready_def)
  obtain s4 where dr: "Write_Drop g2 s3 = (Inr (g2\<lparr>guard_page := None\<rparr>), s4)" "gp_inv s4" "logical s4 = logical s3"
      "pins s4 = (pins s3)(mk_page_id ?oid ?L2 := 0)" "page_table s4 = page_table s3"
      "\<forall>pid' f' k. held s3 pid' f' k \<longrightarrow> pid' \<noteq> mk_page_id ?oid ?L2 \<longrightarrow> held s4 pid' f' k"
    using write_drop_held [OF w(2,3) g2(1,2)] .
  define m' where "m' = IncreaseTupleCount m2"
  have out: "TableHeap_InsertTuple meta t (s, m) = (Inr (Some (mk_rid (mk_page_id ?oid ?L2) ?n)), (s4, m'))"
    using il guard_data_held(2) [OF h2 g2(1)] g2(3) w(1) dr(1) unfolding split m'_def by (simp add: act_simps)
  have vw: "view (s4, m') p = view (s3, m2) p" for p by (simp add: view_def dr(3) m'_def IncreaseTupleCount_def)
  have "heap_core ps' (s4, m')"
    using core_update [OF w(5), of ?L2 m' s4 "view (s3, m2) ?L2"] vw heap_coreD(6,10) [OF w(5)] dr(5)
    by (simp add: m'_def IncreaseTupleCount_def)
  moreover have "heap_tuples ps' (s4, m') = heap_tuples ps' (s3, m2)"
    by (rule heap_tuples_cong) (simp_all only: vw, simp add: m'_def IncreaseTupleCount_def)
  moreover have "\<forall>p \<in> set ps'. pins s4 (mk_page_id (tm_table_oid m') p) = 0"
    using rd(1,4) dr(4) w(4) by (auto simp: ready_def m'_def IncreaseTupleCount_def)
  moreover have "page_table s4 (mk_page_id ?oid ?L2) \<noteq> None" using w(3) dr(5) by (simp add: held_def)
  moreover have "view (s1, m) ?L = view (s, m) ?L" using f(4) d(12) [OF d(10)] by (simp add: view_def same_pages_def)
  ultimately show ?thesis
    using that [OF out] dr(2) w(6) rd(2-6) c1(2) by (simp add: heap_inv_def m'_def IncreaseTupleCount_def)
qed

lemma InsertTuple_needs:
  assumes inv: "heap_inv ps (s, m)" and t: "page_tuple t" and run: "TableHeap_InsertTuple meta t (s, m) = (Inr r, h)"
  obtains g s1 where "FetchPageWrite (mk_page_id (tm_table_oid m) (last_table_heap_data_page_id m)) s = (Inr g, s1)"
    and "frame_for t (s1, m)"
proof -
  let ?pid = "mk_page_id (tm_table_oid m) (last_table_heap_data_page_id m)"
  have gi: "gp_inv s" and core: "heap_core ps (s, m)" and pin: "pins s ?pid = 0"
    using inv heap_coreD(10) by (auto simp: heap_inv_def)
  note d = heap_coreD [OF core]
  obtain g s1 g2 h2 where fw: "FetchPageWrite ?pid s = (Inr g, s1)" and il: "insert_loop 2 t g (s1, m) = (Inr g2, h2)"
    using run unfolding TableHeap_InsertTuple_def
    by (elim bind_eq_InrE) (auto simp: in_pool_def gets_def split: prod.splits)
  obtain f where f: "g = mk_guard f" "gp_inv s1" "held s1 ?pid f WriteLatched" "same_pages s s1"
    using fetch_held [OF gi d(12) [OF d(10)] pin fw] by blast
  have tp: "tp_inv (logical s1 ?pid)"
    using d(6) [OF d(10)] d(12) [OF d(10)] f(4) by (simp add: view_def same_pages_def)
  have "frame_for t (s1, m)"
  proof (rule ccontr)
    assume no: "\<not> frame_for t (s1, m)"
    then have "\<not> length (tuple_data t) + TUPLE_INFO_SIZE \<le> tp_free (logical s1 ?pid)" by (simp add: frame_for_def view_def)
    note il [unfolded f(1) insert_loop_new [OF f(2,3) tp t this]]
    then show False using no by (elim bind_eq_InrE) (auto simp: on_throw_Inr frame_for_def)
  qed
  then show ?thesis using that fw by blast
qed

end
