(* ===== verification/Streams.thy ===== *)
theory Streams
  imports Prelude
begin

text \<open>
  Byte streams: \<^verbatim>\<open>storage/serializer/write_stream.hpp\<close>, \<^verbatim>\<open>read_stream.hpp\<close>,
  \<^verbatim>\<open>memory_stream.hpp\<close>, \<^verbatim>\<open>memory_stream.cpp\<close>, \<^verbatim>\<open>file_stream.hpp\<close>,
  \<^verbatim>\<open>file_stream.cpp\<close>.

  The two abstract classes are the locales \<open>write_stream\<close> and \<open>read_stream\<close>: what a
  stream has taken in, and what it still has to give. Both concrete streams are models of both.
  Sizes and positions are 64-bit; their sums and products wrap. The bytes of a buffer that
  \<^verbatim>\<open>malloc\<close> and \<^verbatim>\<open>realloc\<close> leave unspecified are given by the field \<open>ms_fresh\<close>. The loop that
  doubles the buffer has fuel: 64 doublings of a 64-bit capacity leave 0.
\<close>

lemma bind_basic [act_simps]:
  "bind (gets f) g s = g (f s) s" "bind (modify u) h s = h () (u s)" "bind (ret x) g s = g x s"
  "bind (throw e) g s = (Inl e, s)"
  by (simp_all add: bind_def gets_def modify_def ret_def throw_def)

section \<open>Memory streams\<close>

record MemoryStream =
  ms_position :: nat
  ms_capacity :: nat
  ms_owns_data :: bool
  ms_data :: bytes
  ms_fresh :: "nat \<Rightarrow> byte"

definition mk_MemoryStream :: "(nat \<Rightarrow> byte) \<Rightarrow> nat \<Rightarrow> MemoryStream" where
  "mk_MemoryStream fresh capacity = \<lparr>ms_position = 0, ms_capacity = capacity, ms_owns_data = True,
     ms_data = map fresh [0..<capacity], ms_fresh = fresh\<rparr>"

definition mk_MemoryStream_over :: "bytes \<Rightarrow> nat \<Rightarrow> MemoryStream" where
  "mk_MemoryStream_over buffer capacity = \<lparr>ms_position = 0, ms_capacity = capacity, ms_owns_data = False,
     ms_data = buffer, ms_fresh = (\<lambda>_. 0)\<rparr>"

definition ms_realloc :: "nat \<Rightarrow> MemoryStream \<Rightarrow> MemoryStream" where
  "ms_realloc c s = s\<lparr>ms_capacity := c,
     ms_data := take c (ms_data s) @ map (ms_fresh s) [length (take c (ms_data s))..<c]\<rparr>"

fun ms_grow :: "nat \<Rightarrow> nat \<Rightarrow> (MemoryStream, unit) action" where
  "ms_grow fuel write_size =
     bind (gets (\<lambda>s. ms_capacity s < (ms_position s + write_size) mod 2 ^ 64)) (\<lambda>full.
     if \<not> full then ret ()
     else bind (gets ms_owns_data) (\<lambda>own.
       if own
       then (case fuel of
               0 \<Rightarrow> throw OutOfFuel
             | Suc n \<Rightarrow> bind (modify (\<lambda>s. ms_realloc (ms_capacity s * 2 mod 2 ^ 64) s)) (\<lambda>_. ms_grow n write_size))
       else throw (Exception ''Failed to serialize: not enough space in buffer to fulfill write request'')))"

declare ms_grow.simps [simp del]

text \<open>\<^verbatim>\<open>memcpy\<close> outside the buffer is undefined behaviour.\<close>

definition ms_WriteData :: "bytes \<Rightarrow> (MemoryStream, unit) action" where
  "ms_WriteData buffer =
     bind (ms_grow 64 (length buffer)) (\<lambda>_.
     bind (gets (\<lambda>s. ms_position s + length buffer \<le> length (ms_data s))) (\<lambda>inside.
     if \<not> inside then throw (UndefinedBehaviour ''memcpy past the end of the buffer'')
     else modify (\<lambda>s. s\<lparr>ms_data := blit (ms_position s) buffer (ms_data s),
                       ms_position := (ms_position s + length buffer) mod 2 ^ 64\<rparr>)))"

definition ms_ReadData :: "nat \<Rightarrow> (MemoryStream, bytes) action" where
  "ms_ReadData read_size =
     bind (gets (\<lambda>s. ms_capacity s < (ms_position s + read_size) mod 2 ^ 64)) (\<lambda>short.
     if short then throw (Exception ''Failed to deserialize: not enough data_ in buffer to fulfill read request'')
     else bind (gets (\<lambda>s. ms_position s + read_size \<le> length (ms_data s))) (\<lambda>inside.
     if \<not> inside then throw (UndefinedBehaviour ''memcpy past the end of the buffer'')
     else bind (gets (\<lambda>s. slice (ms_position s) read_size (ms_data s))) (\<lambda>bs.
     bind (modify (\<lambda>s. s\<lparr>ms_position := (ms_position s + read_size) mod 2 ^ 64\<rparr>)) (\<lambda>_. ret bs))))"

definition ms_Rewind :: "MemoryStream \<Rightarrow> MemoryStream" where
  "ms_Rewind s = s\<lparr>ms_position := 0\<rparr>"

definition ms_Release :: "MemoryStream \<Rightarrow> MemoryStream" where
  "ms_Release s = s\<lparr>ms_owns_data := False\<rparr>"

definition ms_GetPosition :: "MemoryStream \<Rightarrow> nat" where
  "ms_GetPosition s = ms_position s"

definition ms_GetCapacity :: "MemoryStream \<Rightarrow> nat" where
  "ms_GetCapacity s = ms_capacity s"

definition ms_GetData :: "MemoryStream \<Rightarrow> bytes" where
  "ms_GetData s = ms_data s"

section \<open>File streams\<close>

text \<open>
  A \<^verbatim>\<open>std::fstream\<close> opened for reading and writing: one position for both, no truncation on
  opening, a read that comes up short sets the fail and end-of-file bits. A stream in a failed
  state refuses every operation until \<^verbatim>\<open>clear\<close>; on a device that works, which \<open>fs_bad\<close> denies,
  the end of the file is what failed it.
\<close>

record FileStream =
  fs_path :: string
  fs_owns_file :: bool
  fs_content :: bytes
  fs_pos :: nat
  fs_failed :: bool
  fs_bad :: bool

definition mk_FileStream :: "(string \<Rightarrow> bytes option) \<Rightarrow> bool \<Rightarrow> string \<Rightarrow> FileStream result" where
  "mk_FileStream files bad path =
     (case files path of
        None \<Rightarrow> Inl (Exception (''Failed to open file: '' @ path))
      | Some c \<Rightarrow> Inr \<lparr>fs_path = path, fs_owns_file = True, fs_content = c, fs_pos = 0, fs_failed = False, fs_bad = bad\<rparr>)"

definition fs_WriteData :: "bytes \<Rightarrow> (FileStream, unit) action" where
  "fs_WriteData buffer =
     bind (gets (\<lambda>s. fs_failed s \<or> fs_bad s)) (\<lambda>fail.
     if fail then bind (modify (\<lambda>s. s\<lparr>fs_failed := True\<rparr>)) (\<lambda>_. throw (Exception ''Failed to write data to file''))
     else modify (\<lambda>s. s\<lparr>fs_content := take (fs_pos s) (fs_content s) @ buffer @ drop (fs_pos s + length buffer) (fs_content s),
                       fs_pos := fs_pos s + length buffer\<rparr>))"

definition fs_ReadData :: "nat \<Rightarrow> (FileStream, bytes) action" where
  "fs_ReadData read_size =
     bind (gets (\<lambda>s. fs_failed s \<or> fs_bad s)) (\<lambda>fail.
     if fail then bind (modify (\<lambda>s. s\<lparr>fs_failed := True\<rparr>)) (\<lambda>_. bind (gets fs_bad) (\<lambda>bad.
       throw (Exception (''Failed to read data from file. Reason: '' @
         (if bad then ''Logical error on i/o operation.'' else ''End of file reached.'')))))
     else bind (gets (\<lambda>s. slice (fs_pos s) read_size (fs_content s))) (\<lambda>bs.
     bind (modify (\<lambda>s. s\<lparr>fs_pos := fs_pos s + length bs, fs_failed := length bs < read_size\<rparr>)) (\<lambda>_.
     if length bs < read_size then throw (Exception ''Failed to read data from file. Reason: End of file reached.'')
     else ret bs)))"

definition fs_Rewind :: "FileStream \<Rightarrow> FileStream" where
  "fs_Rewind s = s\<lparr>fs_failed := False, fs_pos := 0\<rparr>"

definition fs_Release :: "FileStream \<Rightarrow> FileStream" where
  "fs_Release s = s\<lparr>fs_owns_file := False\<rparr>"

definition fs_GetPosition :: "FileStream \<Rightarrow> nat" where
  "fs_GetPosition s = fs_pos s"

definition fs_GetFilePath :: "FileStream \<Rightarrow> string" where
  "fs_GetFilePath s = fs_path s"

section \<open>The interfaces\<close>

locale write_stream =
  fixes WriteData :: "bytes \<Rightarrow> ('s, unit) action" and ready :: "'s \<Rightarrow> bool" and written :: "'s \<Rightarrow> bytes" and limit :: nat
  assumes WriteData_appends: "ready s \<Longrightarrow> length (written s) + length bs \<le> limit \<Longrightarrow>
      \<exists>s'. WriteData bs s = (Inr (), s') \<and> ready s' \<and> written s' = written s @ bs"

locale read_stream =
  fixes ReadData :: "nat \<Rightarrow> ('s, bytes) action" and can_read :: "'s \<Rightarrow> bool" and remaining :: "'s \<Rightarrow> bytes"
  assumes ReadData_takes: "can_read s \<Longrightarrow> remaining s = bs @ rest \<Longrightarrow>
      \<exists>s'. ReadData (length bs) s = (Inr bs, s') \<and> can_read s' \<and> remaining s' = rest"

section \<open>Memory streams implement them\<close>

definition ms_inv :: "MemoryStream \<Rightarrow> bool" where
  "ms_inv s \<longleftrightarrow> ms_position s \<le> ms_capacity s \<and> length (ms_data s) = ms_capacity s \<and> ms_capacity s < 2 ^ 63"

definition ms_ready :: "MemoryStream \<Rightarrow> bool" where
  "ms_ready s \<longleftrightarrow> ms_inv s \<and> ms_owns_data s \<and> 0 < ms_capacity s"

definition ms_written :: "MemoryStream \<Rightarrow> bytes" where
  "ms_written s = take (ms_position s) (ms_data s)"

definition ms_remaining :: "MemoryStream \<Rightarrow> bytes" where
  "ms_remaining s = drop (ms_position s) (ms_data s)"

abbreviation ms_limit :: nat where "ms_limit \<equiv> 2 ^ 62"

lemma ms_realloc_grows:
  assumes "ms_ready s" and "ms_capacity s * 2 < 2 ^ 63"
  shows "ms_ready (ms_realloc (ms_capacity s * 2) s)" and "ms_written (ms_realloc (ms_capacity s * 2) s) = ms_written s"
    and "ms_position (ms_realloc (ms_capacity s * 2) s) = ms_position s"
    and "ms_capacity (ms_realloc (ms_capacity s * 2) s) = ms_capacity s * 2"
  using assms by (auto simp: ms_realloc_def ms_ready_def ms_inv_def ms_written_def)

lemma ms_grow_done: "(ms_position s + n) mod 2 ^ 64 \<le> ms_capacity s \<Longrightarrow> ms_grow fuel n s = (Inr (), s)"
  by (subst ms_grow.simps) (simp add: act_simps)

text \<open>Doubling a positive capacity reaches any size up to the limit within 64 rounds.\<close>

lemma ms_grow_ok:
  assumes "ms_ready s" and "ms_position s + n \<le> ms_limit" and "ms_limit \<le> ms_capacity s * 2 ^ fuel"
  shows "\<exists>s'. ms_grow fuel n s = (Inr (), s') \<and> ms_ready s' \<and> ms_written s' = ms_written s \<and>
     ms_position s' = ms_position s \<and> ms_position s + n \<le> ms_capacity s'"
  using assms
proof (induction fuel arbitrary: s)
  case 0
  then have "(ms_position s + n) mod 2 ^ 64 \<le> ms_capacity s" by simp
  from ms_grow_done [OF this] 0 show ?case by simp
next
  case (Suc fuel)
  have m: "(ms_position s + n) mod 2 ^ 64 = ms_position s + n" using Suc.prems(2) by simp
  show ?case
  proof (cases "ms_position s + n \<le> ms_capacity s")
    case True
    then show ?thesis using ms_grow_done [of s n "Suc fuel"] Suc.prems m by simp
  next
    case False
    then have c: "ms_capacity s * 2 < 2 ^ 63" using Suc.prems(2) by simp
    note g = ms_realloc_grows [OF Suc.prems(1) c]
    have "ms_capacity s * 2 mod 2 ^ 64 = ms_capacity s * 2" using c by simp
    then have step: "ms_grow (Suc fuel) n s = ms_grow fuel n (ms_realloc (ms_capacity s * 2) s)"
      using False m Suc.prems(1) by (subst ms_grow.simps) (simp add: act_simps ms_ready_def)
    have "ms_limit \<le> ms_capacity (ms_realloc (ms_capacity s * 2) s) * 2 ^ fuel" using Suc.prems(3) g(4) by (simp add: mult.assoc)
    from Suc.IH [OF g(1) _ this] Suc.prems(2) g show ?thesis unfolding step by simp
  qed
qed

lemma ms_WriteData_ok:
  assumes "ms_ready s" and "length (ms_written s) + length bs \<le> ms_limit"
  shows "\<exists>s'. ms_WriteData bs s = (Inr (), s') \<and> ms_ready s' \<and> ms_written s' = ms_written s @ bs"
proof -
  have l: "length (ms_written s) = ms_position s" using assms(1) by (simp add: ms_ready_def ms_inv_def ms_written_def)
  have "1 \<le> ms_capacity s" using assms(1) by (simp add: ms_ready_def)
  then have "ms_limit \<le> ms_capacity s * 2 ^ 64" by simp
  with ms_grow_ok [OF assms(1), of "length bs" 64] assms(2) l
  obtain s1 where g: "ms_grow 64 (length bs) s = (Inr (), s1)" "ms_ready s1" "ms_written s1 = ms_written s"
      "ms_position s1 = ms_position s" "ms_position s + length bs \<le> ms_capacity s1" by auto
  let ?s2 = "s1\<lparr>ms_data := blit (ms_position s1) bs (ms_data s1), ms_position := (ms_position s1 + length bs) mod 2 ^ 64\<rparr>"
  have inside: "ms_position s1 + length bs \<le> length (ms_data s1)" using g by (simp add: ms_ready_def ms_inv_def)
  have m: "(ms_position s1 + length bs) mod 2 ^ 64 = ms_position s1 + length bs" using g(4) assms(2) l by simp
  have run: "ms_WriteData bs s = (Inr (), ?s2)" using g(1) inside by (simp add: ms_WriteData_def act_simps)
  have "take (ms_position s1 + length bs) (blit (ms_position s1) bs (ms_data s1)) = take (ms_position s1) (ms_data s1) @ bs"
    using inside by (simp add: blit_def)
  then have "ms_written ?s2 = ms_written s @ bs" using m g(3) by (simp add: ms_written_def)
  moreover have "ms_ready ?s2" using g(2) inside m by (simp add: ms_ready_def ms_inv_def)
  ultimately show ?thesis using run by blast
qed

lemma ms_ReadData_ok:
  assumes "ms_inv s" and "ms_remaining s = bs @ rest"
  shows "\<exists>s'. ms_ReadData (length bs) s = (Inr bs, s') \<and> ms_inv s' \<and> ms_remaining s' = rest"
proof -
  have len: "length bs + length rest = ms_capacity s - ms_position s"
    using arg_cong [OF assms(2), of length] assms(1) by (simp add: ms_remaining_def ms_inv_def)
  then have fit: "ms_position s + length bs \<le> ms_capacity s" using assms(1) unfolding ms_inv_def by linarith
  have m: "(ms_position s + length bs) mod 2 ^ 64 = ms_position s + length bs" using fit assms(1) by (simp add: ms_inv_def)
  have "slice (ms_position s) (length bs) (ms_data s) = bs" using assms(2) by (simp add: slice_def ms_remaining_def)
  then have run: "ms_ReadData (length bs) s = (Inr bs, s\<lparr>ms_position := ms_position s + length bs\<rparr>)"
    using fit m assms(1) by (simp add: ms_ReadData_def act_simps ms_inv_def)
  have "drop (ms_position s + length bs) (ms_data s) = rest"
    using assms(2) by (simp add: ms_remaining_def drop_drop [symmetric] add.commute)
  then show ?thesis using run fit assms(1) by (simp add: ms_inv_def ms_remaining_def)
qed

interpretation ms_out: write_stream ms_WriteData ms_ready ms_written ms_limit
  by unfold_locales (rule ms_WriteData_ok)

interpretation ms_in: read_stream ms_ReadData ms_inv ms_remaining
  by unfold_locales (rule ms_ReadData_ok)

section \<open>File streams implement them\<close>

definition fs_ready :: "FileStream \<Rightarrow> bool" where
  "fs_ready s \<longleftrightarrow> \<not> fs_failed s \<and> \<not> fs_bad s \<and> fs_pos s \<le> length (fs_content s)"

definition fs_written :: "FileStream \<Rightarrow> bytes" where
  "fs_written s = take (fs_pos s) (fs_content s)"

definition fs_remaining :: "FileStream \<Rightarrow> bytes" where
  "fs_remaining s = drop (fs_pos s) (fs_content s)"

lemma fs_WriteData_run:
  assumes "fs_ready s"
  shows "\<exists>s'. fs_WriteData bs s = (Inr (), s') \<and> fs_ready s' \<and> fs_written s' = fs_written s @ bs \<and>
     fs_content s' = take (fs_pos s) (fs_content s) @ bs @ drop (fs_pos s + length bs) (fs_content s)"
proof -
  let ?s = "s\<lparr>fs_content := take (fs_pos s) (fs_content s) @ bs @ drop (fs_pos s + length bs) (fs_content s),
       fs_pos := fs_pos s + length bs\<rparr>"
  have "fs_WriteData bs s = (Inr (), ?s)" using assms by (simp add: fs_WriteData_def act_simps fs_ready_def)
  then show ?thesis using assms by (simp add: fs_ready_def fs_written_def)
qed

lemma fs_ReadData_ok:
  assumes "fs_ready s" and "fs_remaining s = bs @ rest"
  shows "\<exists>s'. fs_ReadData (length bs) s = (Inr bs, s') \<and> fs_ready s' \<and> fs_remaining s' = rest"
proof -
  have "length bs + length rest = length (fs_content s) - fs_pos s"
    using arg_cong [OF assms(2), of length] by (simp add: fs_remaining_def)
  then have fit: "fs_pos s + length bs \<le> length (fs_content s)" using assms(1) unfolding fs_ready_def by linarith
  have "slice (fs_pos s) (length bs) (fs_content s) = bs" using assms(2) by (simp add: slice_def fs_remaining_def)
  moreover have "drop (fs_pos s + length bs) (fs_content s) = rest"
    using assms(2) by (simp add: fs_remaining_def drop_drop [symmetric] add.commute)
  moreover from this(1) fit have "fs_ReadData (length bs) s = (Inr bs, s\<lparr>fs_pos := fs_pos s + length bs, fs_failed := False\<rparr>)"
    if "slice (fs_pos s) (length bs) (fs_content s) = bs"
    using that assms(1) by (simp add: fs_ReadData_def act_simps fs_ready_def)
  ultimately show ?thesis using fit assms(1) by (simp add: fs_ready_def fs_remaining_def)
qed

interpretation fs_out: write_stream fs_WriteData fs_ready fs_written n for n
  by unfold_locales (use fs_WriteData_run in blast)

interpretation fs_in: read_stream fs_ReadData fs_ready fs_remaining
  by unfold_locales (rule fs_ReadData_ok)

section \<open>Properties\<close>

text \<open>
  A memory stream of capacity 0 cannot be written to: \<^verbatim>\<open>WriteData\<close> of at least one byte
  doubles the capacity again and again and never gets past 0, however long the loop runs.
\<close>

theorem empty_stream_never_grows:
  assumes "0 < n" and "n < 2 ^ 64"
  shows "fst (ms_grow fuel n (mk_MemoryStream fresh 0)) = Inl OutOfFuel"
proof (induction fuel)
  case 0
  then show ?case using assms by (subst ms_grow.simps) (simp add: act_simps mk_MemoryStream_def)
next
  case (Suc fuel)
  have "ms_realloc (ms_capacity s * 2 mod 2 ^ 64) s = s" if "s = mk_MemoryStream fresh 0" for s
    unfolding that by (simp add: ms_realloc_def mk_MemoryStream_def)
  then show ?case using assms Suc by (subst ms_grow.simps) (simp add: act_simps, simp add: mk_MemoryStream_def act_simps)
qed

theorem empty_stream_never_grows_witness:
  "fst (ms_grow 64 1 (mk_MemoryStream (\<lambda>_. 0) 0)) = Inl OutOfFuel"
  using empty_stream_never_grows [of 1 64] by simp

end
