(* ===== verification/Serializers.thy ===== *)
theory Serializers
  imports Streams Values "HOL-Library.AList"
begin

text \<open>
  The binary serializer: \<^verbatim>\<open>storage/serializer/serializer.hpp\<close>, \<^verbatim>\<open>binary_serializer.hpp\<close>,
  \<^verbatim>\<open>binary_serializer.cpp\<close>, \<^verbatim>\<open>deserializer.hpp\<close>, \<^verbatim>\<open>binary_deserializer.hpp\<close>,
  \<^verbatim>\<open>binary_deserializer.cpp\<close>.

  The stream is a parameter: \<open>wd\<close> is its \<^verbatim>\<open>WriteData\<close>, \<open>rd\<close> its \<^verbatim>\<open>ReadData\<close>. The
  overloads and templates of \<^verbatim>\<open>WriteValue\<close> and \<^verbatim>\<open>Read\<close> are one definition per kind of
  type, those of element types passed as arguments. An \<^verbatim>\<open>unordered_map\<close> is an association list
  with distinct keys, in the order in which the container is iterated, a \<^verbatim>\<open>set\<close> the list of its
  elements. The overloads for
  \<^verbatim>\<open>float\<close> and \<^verbatim>\<open>double\<close>, which nothing serialised here has, are left out.

  \<open>emits\<close> says which bytes an action appends to the stream, \<open>yields\<close> what an action
  reads back from which bytes; the lemmas about them are proved once for any pair of streams, in
  the locale \<open>streams\<close>, and hold of memory and of file streams by interpretation.
\<close>

abbreviation MESSAGE_TERMINATOR_FIELD_ID :: nat where "MESSAGE_TERMINATOR_FIELD_ID \<equiv> 65535"

section \<open>Writing\<close>

type_synonym 's writer = "bytes \<Rightarrow> ('s, unit) action"

definition Write :: "'s writer \<Rightarrow> nat \<Rightarrow> nat \<Rightarrow> ('s, unit) action" where
  "Write wd width k = wd (nat_bytes width k)"

definition WriteValue_bool :: "'s writer \<Rightarrow> bool \<Rightarrow> ('s, unit) action" where
  "WriteValue_bool wd b = Write wd 1 (if b then 1 else 0)"

definition WriteValue_uint :: "'s writer \<Rightarrow> nat \<Rightarrow> nat \<Rightarrow> ('s, unit) action" where
  "WriteValue_uint wd width k = Write wd width k"

definition WriteValue_int :: "'s writer \<Rightarrow> nat \<Rightarrow> int \<Rightarrow> ('s, unit) action" where
  "WriteValue_int wd width i = wd (int_bytes width i)"

definition WriteValue_string :: "'s writer \<Rightarrow> string \<Rightarrow> ('s, unit) action" where
  "WriteValue_string wd s =
     (let len = length s mod 2 ^ 32 in
      bind (Write wd 4 len) (\<lambda>_. wd (take len (string_bytes s))))"

definition WriteValue_cstring :: "'s writer \<Rightarrow> string \<Rightarrow> ('s, unit) action" where
  "WriteValue_cstring wd s = WriteValue_string wd (takeWhile (\<lambda>c. c \<noteq> CHR 0x00) s)"

definition WriteDataPtr :: "'s writer \<Rightarrow> bytes \<Rightarrow> nat \<Rightarrow> ('s, unit) action" where
  "WriteDataPtr wd ptr count =
     bind (Write wd 8 count) (\<lambda>_.
     if length ptr < count then throw (UndefinedBehaviour ''read past the end of the buffer'')
     else wd (take count ptr))"

definition ser_OnPropertyBegin :: "'s writer \<Rightarrow> nat \<Rightarrow> ('s, unit) action" where
  "ser_OnPropertyBegin wd field_id =
     bind (assert_that (field_id \<noteq> MESSAGE_TERMINATOR_FIELD_ID) ''Field id cannot be MESSAGE_TERMINATOR_FIELD_ID'')
       (\<lambda>_. Write wd 2 field_id)"

definition ser_OnOptionalPropertyBegin :: "'s writer \<Rightarrow> nat \<Rightarrow> bool \<Rightarrow> ('s, unit) action" where
  "ser_OnOptionalPropertyBegin wd field_id present = (if present then ser_OnPropertyBegin wd field_id else ret ())"

definition ser_OnObjectEnd :: "'s writer \<Rightarrow> ('s, unit) action" where
  "ser_OnObjectEnd wd = Write wd 2 MESSAGE_TERMINATOR_FIELD_ID"

definition ser_OnListBegin :: "'s writer \<Rightarrow> nat \<Rightarrow> ('s, unit) action" where
  "ser_OnListBegin wd count = Write wd 8 count"

definition ser_OnNullableBegin :: "'s writer \<Rightarrow> bool \<Rightarrow> ('s, unit) action" where
  "ser_OnNullableBegin wd present = WriteValue_bool wd present"

definition WriteProperty :: "'s writer \<Rightarrow> nat \<Rightarrow> ('s, unit) action \<Rightarrow> ('s, unit) action" where
  "WriteProperty wd field_id write_value = bind (ser_OnPropertyBegin wd field_id) (\<lambda>_. write_value)"

definition WritePropertyWithDefault :: "'s writer \<Rightarrow> bool \<Rightarrow> nat \<Rightarrow> ('a \<Rightarrow> ('s, unit) action) \<Rightarrow> 'a \<Rightarrow> 'a \<Rightarrow> ('s, unit) action" where
  "WritePropertyWithDefault wd serialize_default_values field_id WriteValue v default_value =
     (if \<not> serialize_default_values \<and> v = default_value
      then ser_OnOptionalPropertyBegin wd field_id False
      else bind (ser_OnOptionalPropertyBegin wd field_id True) (\<lambda>_. WriteValue v))"

definition WriteValue_ptr :: "'s writer \<Rightarrow> ('a \<Rightarrow> ('s, unit) action) \<Rightarrow> 'a option \<Rightarrow> ('s, unit) action" where
  "WriteValue_ptr wd WriteValue ptr =
     (case ptr of
        None \<Rightarrow> ser_OnNullableBegin wd False
      | Some x \<Rightarrow> bind (ser_OnNullableBegin wd True) (\<lambda>_. WriteValue x))"

definition WriteValue_object :: "'s writer \<Rightarrow> ('s, unit) action \<Rightarrow> ('s, unit) action" where
  "WriteValue_object wd Serialize = bind Serialize (\<lambda>_. ser_OnObjectEnd wd)"

definition WriteValue_pair :: "'s writer \<Rightarrow> ('a \<Rightarrow> ('s, unit) action) \<Rightarrow> ('b \<Rightarrow> ('s, unit) action) \<Rightarrow> 'a \<times> 'b \<Rightarrow> ('s, unit) action" where
  "WriteValue_pair wd W1 W2 p =
     WriteValue_object wd (bind (WriteProperty wd 0 (W1 (fst p))) (\<lambda>_. WriteProperty wd 1 (W2 (snd p))))"

fun write_each :: "('a \<Rightarrow> ('s, unit) action) \<Rightarrow> 'a list \<Rightarrow> ('s, unit) action" where
  "write_each W [] = ret ()"
| "write_each W (x # xs) = bind (W x) (\<lambda>_. write_each W xs)"

definition WriteValue_vector :: "'s writer \<Rightarrow> ('a \<Rightarrow> ('s, unit) action) \<Rightarrow> 'a list \<Rightarrow> ('s, unit) action" where
  "WriteValue_vector wd W xs = bind (ser_OnListBegin wd (length xs)) (\<lambda>_. write_each W xs)"

definition WriteValue_set :: "'s writer \<Rightarrow> ('a \<Rightarrow> ('s, unit) action) \<Rightarrow> 'a list \<Rightarrow> ('s, unit) action" where
  "WriteValue_set wd W xs = bind (ser_OnListBegin wd (length xs)) (\<lambda>_. write_each W xs)"

definition WriteValue_map :: "'s writer \<Rightarrow> ('k \<Rightarrow> ('s, unit) action) \<Rightarrow> ('v \<Rightarrow> ('s, unit) action) \<Rightarrow> ('k \<times> 'v) list \<Rightarrow> ('s, unit) action" where
  "WriteValue_map wd WK WV m = bind (ser_OnListBegin wd (length m)) (\<lambda>_. write_each (WriteValue_pair wd WK WV) m)"

definition BinarySerializer_Serialize :: "'s writer \<Rightarrow> ('s, unit) action \<Rightarrow> ('s, unit) action" where
  "BinarySerializer_Serialize wd Serialize = bind Serialize (\<lambda>_. ser_OnObjectEnd wd)"

section \<open>Reading\<close>

record 's BinaryDeserializer =
  des_stream :: 's
  nesting_level :: "64 word"
  has_buffered_field :: bool
  buffered_field :: nat

definition mk_BinaryDeserializer :: "'s \<Rightarrow> 's BinaryDeserializer" where
  "mk_BinaryDeserializer s = \<lparr>des_stream = s, nesting_level = 0, has_buffered_field = False, buffered_field = 0\<rparr>"

type_synonym 's reader = "nat \<Rightarrow> ('s, bytes) action"
type_synonym ('s, 'a) des = "('s BinaryDeserializer, 'a) action"

definition des_ReadData :: "'s reader \<Rightarrow> nat \<Rightarrow> ('s, bytes) des" where
  "des_ReadData rd n = zoom des_stream (\<lambda>s d. d\<lparr>des_stream := s\<rparr>) (rd n)"

definition ReadUnsigned :: "'s reader \<Rightarrow> nat \<Rightarrow> ('s, nat) des" where
  "ReadUnsigned rd width = bind (des_ReadData rd width) (\<lambda>bs. ret (bytes_nat bs))"

definition ReadSigned :: "'s reader \<Rightarrow> nat \<Rightarrow> ('s, int) des" where
  "ReadSigned rd width = bind (des_ReadData rd width) (\<lambda>bs. ret (bytes_int bs))"

definition ReadBool :: "'s reader \<Rightarrow> ('s, bool) des" where
  "ReadBool rd = bind (ReadUnsigned rd 1) (\<lambda>k. ret (k \<noteq> 0))"

definition ReadString :: "'s reader \<Rightarrow> ('s, string) des" where
  "ReadString rd = bind (ReadUnsigned rd 4) (\<lambda>len.
     if len = 0 then ret [] else bind (des_ReadData rd len) (\<lambda>bs. ret (bytes_string bs)))"

definition ReadDataPtr :: "'s reader \<Rightarrow> nat \<Rightarrow> ('s, bytes) des" where
  "ReadDataPtr rd count = bind (ReadUnsigned rd 8) (\<lambda>len.
     if len \<noteq> count
     then throw (SerializationException (''Tried to read blob of '' @ dec_nat count @ '' size, but only '' @ dec_nat len @ '' elements are available''))
     else des_ReadData rd count)"

definition PeekField :: "'s reader \<Rightarrow> ('s, nat) des" where
  "PeekField rd = bind (gets has_buffered_field) (\<lambda>b.
     bind (if \<not> b then bind (ReadUnsigned rd 2) (\<lambda>f. modify (\<lambda>d. d\<lparr>buffered_field := f, has_buffered_field := True\<rparr>)) else ret ()) (\<lambda>_.
     gets buffered_field))"

definition ConsumeField :: "'s reader \<Rightarrow> ('s, unit) des" where
  "ConsumeField rd = bind (gets has_buffered_field) (\<lambda>b.
     if \<not> b then bind (ReadUnsigned rd 2) (\<lambda>f. modify (\<lambda>d. d\<lparr>buffered_field := f\<rparr>))
     else modify (\<lambda>d. d\<lparr>has_buffered_field := False\<rparr>))"

definition NextField :: "'s reader \<Rightarrow> ('s, nat) des" where
  "NextField rd = bind (gets has_buffered_field) (\<lambda>b.
     if b then bind (modify (\<lambda>d. d\<lparr>has_buffered_field := False\<rparr>)) (\<lambda>_. gets buffered_field)
     else ReadUnsigned rd 2)"

definition des_OnPropertyBegin :: "'s reader \<Rightarrow> nat \<Rightarrow> ('s, unit) des" where
  "des_OnPropertyBegin rd field_id = bind (NextField rd) (\<lambda>field.
     if field \<noteq> field_id
     then throw (SerializationException (''Failed to deserialize: field id mismatch, expected: '' @ dec_nat field_id @ '', but got: '' @ dec_nat field))
     else ret ())"

definition des_OnOptionalPropertyBegin :: "'s reader \<Rightarrow> nat \<Rightarrow> ('s, bool) des" where
  "des_OnOptionalPropertyBegin rd field_id = bind (PeekField rd) (\<lambda>next_field.
     bind (if next_field = field_id then ConsumeField rd else ret ()) (\<lambda>_. ret (next_field = field_id)))"

definition des_OnObjectBegin :: "('s, unit) des" where
  "des_OnObjectBegin = modify (\<lambda>d. d\<lparr>nesting_level := nesting_level d + 1\<rparr>)"

definition des_OnObjectEnd :: "'s reader \<Rightarrow> ('s, unit) des" where
  "des_OnObjectEnd rd = bind (NextField rd) (\<lambda>next_field.
     if next_field \<noteq> MESSAGE_TERMINATOR_FIELD_ID
     then throw (SerializationException (''Failed to deserialize: expected end of object, but found field id: '' @ dec_nat next_field))
     else modify (\<lambda>d. d\<lparr>nesting_level := nesting_level d - 1\<rparr>))"

definition des_OnListBegin :: "'s reader \<Rightarrow> ('s, nat) des" where
  "des_OnListBegin rd = ReadUnsigned rd 8"

definition des_OnNullableBegin :: "'s reader \<Rightarrow> ('s, bool) des" where
  "des_OnNullableBegin rd = ReadBool rd"

definition ReadProperty :: "'s reader \<Rightarrow> nat \<Rightarrow> ('s, 'a) des \<Rightarrow> ('s, 'a) des" where
  "ReadProperty rd field_id Read = bind (des_OnPropertyBegin rd field_id) (\<lambda>_. Read)"

definition ReadPropertyWithDefault :: "'s reader \<Rightarrow> nat \<Rightarrow> ('s, 'a) des \<Rightarrow> 'a \<Rightarrow> ('s, 'a) des" where
  "ReadPropertyWithDefault rd field_id Read default_value = bind (des_OnOptionalPropertyBegin rd field_id) (\<lambda>present.
     if \<not> present then ret default_value else Read)"

definition Read_object :: "'s reader \<Rightarrow> ('s, 'a) des \<Rightarrow> ('s, 'a) des" where
  "Read_object rd Deserialize = bind des_OnObjectBegin (\<lambda>_. bind Deserialize (\<lambda>v. bind (des_OnObjectEnd rd) (\<lambda>_. ret v)))"

definition Read_unique_ptr :: "'s reader \<Rightarrow> ('s, 'a) des \<Rightarrow> ('s, 'a option) des" where
  "Read_unique_ptr rd Deserialize = bind (des_OnNullableBegin rd) (\<lambda>is_present.
     if is_present then bind (Read_object rd Deserialize) (\<lambda>v. ret (Some v)) else ret None)"

definition Read_unique_ptr_of_value :: "'s reader \<Rightarrow> ('s, 'a) des \<Rightarrow> ('s, 'a option) des" where
  "Read_unique_ptr_of_value rd Read = bind (des_OnNullableBegin rd) (\<lambda>is_present.
     if is_present then bind des_OnObjectBegin (\<lambda>_. bind Read (\<lambda>v. bind (des_OnObjectEnd rd) (\<lambda>_. ret (Some v)))) else ret None)"

definition Read_shared_ptr :: "'s reader \<Rightarrow> ('s, 'a) des \<Rightarrow> ('s, 'a option) des" where
  "Read_shared_ptr rd Deserialize = bind (des_OnNullableBegin rd) (\<lambda>is_present.
     if is_present then bind des_OnObjectBegin (\<lambda>_. bind Deserialize (\<lambda>v. bind (des_OnObjectEnd rd) (\<lambda>_. ret (Some v)))) else ret None)"

fun read_times :: "nat \<Rightarrow> ('s, 'a) action \<Rightarrow> ('s, 'a list) action" where
  "read_times 0 R = ret []"
| "read_times (Suc n) R = bind R (\<lambda>x. bind (read_times n R) (\<lambda>xs. ret (x # xs)))"

definition Read_vector :: "'s reader \<Rightarrow> ('s, 'a) des \<Rightarrow> ('s, 'a list) des" where
  "Read_vector rd R = bind (des_OnListBegin rd) (\<lambda>count. read_times count R)"

definition read_entry :: "'s reader \<Rightarrow> ('s, 'k) des \<Rightarrow> ('s, 'v) des \<Rightarrow> ('s, 'k \<times> 'v) des" where
  "read_entry rd RK RV = Read_object rd (bind (ReadProperty rd 0 RK) (\<lambda>k. bind (ReadProperty rd 1 RV) (\<lambda>v. ret (k, v))))"

fun read_map :: "nat \<Rightarrow> ('s, 'k \<times> 'v) action \<Rightarrow> ('k \<times> 'v) list \<Rightarrow> ('s, ('k \<times> 'v) list) action" where
  "read_map 0 R m = ret m"
| "read_map (Suc n) R m = bind R (\<lambda>(k, v). read_map n R (AList.update k v m))"

definition Read_map :: "'s reader \<Rightarrow> ('s, 'k) des \<Rightarrow> ('s, 'v) des \<Rightarrow> ('s, ('k \<times> 'v) list) des" where
  "Read_map rd RK RV = bind (des_OnListBegin rd) (\<lambda>count. read_map count (read_entry rd RK RV) [])"

definition DeserializeRaw :: "'s reader \<Rightarrow> ('s, 'a) des \<Rightarrow> ('s, 'a) action" where
  "DeserializeRaw rd Deserialize s =
     (case bind (Read_object rd Deserialize) (\<lambda>v.
        bind (gets nesting_level) (\<lambda>l. bind (assert_that (l = 0) ''nesting_level_ == 0'') (\<lambda>_. ret v)))
        (mk_BinaryDeserializer s) of (r, d) \<Rightarrow> (r, des_stream d))"

section \<open>The format\<close>

definition enc_property :: "nat \<Rightarrow> bytes \<Rightarrow> bytes" where
  "enc_property field_id bs = nat_bytes 2 field_id @ bs"

definition enc_object :: "bytes \<Rightarrow> bytes" where
  "enc_object bs = bs @ nat_bytes 2 MESSAGE_TERMINATOR_FIELD_ID"

definition enc_bool :: "bool \<Rightarrow> bytes" where
  "enc_bool b = nat_bytes 1 (if b then 1 else 0)"

definition enc_string :: "string \<Rightarrow> bytes" where
  "enc_string s = nat_bytes 4 (length s) @ string_bytes s"

definition enc_vector :: "('a \<Rightarrow> bytes) \<Rightarrow> 'a list \<Rightarrow> bytes" where
  "enc_vector enc xs = nat_bytes 8 (length xs) @ concat (map enc xs)"

definition enc_entry :: "('k \<Rightarrow> bytes) \<Rightarrow> ('v \<Rightarrow> bytes) \<Rightarrow> 'k \<times> 'v \<Rightarrow> bytes" where
  "enc_entry ek ev p = enc_object (enc_property 0 (ek (fst p)) @ enc_property 1 (ev (snd p)))"

fun enc_ptr :: "('a \<Rightarrow> bytes) \<Rightarrow> 'a option \<Rightarrow> bytes" where
  "enc_ptr enc None = enc_bool False"
| "enc_ptr enc (Some x) = enc_bool True @ enc x"

section \<open>What is written and read\<close>

definition emits :: "('s \<Rightarrow> bool) \<Rightarrow> ('s \<Rightarrow> bytes) \<Rightarrow> nat \<Rightarrow> ('s, unit) action \<Rightarrow> bytes \<Rightarrow> bool" where
  "emits ready written limit m bs \<longleftrightarrow> (\<forall>s. ready s \<longrightarrow> length (written s) + length bs \<le> limit \<longrightarrow>
     (\<exists>s'. m s = (Inr (), s') \<and> ready s' \<and> written s' = written s @ bs))"

text \<open>
  The input of a deserializer is its stream, with the buffered field before it. \<open>yields True\<close>
  is for actions that may start with a field in the buffer, \<open>yields False\<close> for those that
  may not; both end with an empty buffer.
\<close>

definition des_input :: "('s \<Rightarrow> bytes) \<Rightarrow> 's BinaryDeserializer \<Rightarrow> bytes" where
  "des_input remaining d = (if has_buffered_field d then nat_bytes 2 (buffered_field d) else []) @ remaining (des_stream d)"

definition des_ok :: "('s \<Rightarrow> bool) \<Rightarrow> 's BinaryDeserializer \<Rightarrow> bool" where
  "des_ok can_read d \<longleftrightarrow> can_read (des_stream d) \<and> buffered_field d < 2 ^ 16"

definition yields :: "('s \<Rightarrow> bool) \<Rightarrow> ('s \<Rightarrow> bytes) \<Rightarrow> bool \<Rightarrow> ('s, 'a) des \<Rightarrow> bytes \<Rightarrow> 'a \<Rightarrow> bool" where
  "yields can_read remaining buf m bs x \<longleftrightarrow> (\<forall>d rest. des_ok can_read d \<longrightarrow> (has_buffered_field d \<longrightarrow> buf) \<longrightarrow>
     des_input remaining d = bs @ rest \<longrightarrow>
     (\<exists>d'. m d = (Inr x, d') \<and> des_ok can_read d' \<and> \<not> has_buffered_field d' \<and> des_input remaining d' = rest \<and>
       nesting_level d' = nesting_level d))"

named_theorems codec_intros

lemma emits_bind [codec_intros]:
  assumes "emits r w l m as" and "emits r w l k bs"
  shows "emits r w l (bind m (\<lambda>_. k)) (as @ bs)"
  unfolding emits_def
proof (intro allI impI)
  fix s assume s: "r s" "length (w s) + length (as @ bs) \<le> l"
  then obtain s1 where "m s = (Inr (), s1)" "r s1" "w s1 = w s @ as" using assms(1) unfolding emits_def by fastforce
  moreover from this s obtain s2 where "k s1 = (Inr (), s2)" "r s2" "w s2 = w s1 @ bs"
    using assms(2) unfolding emits_def by fastforce
  ultimately show "\<exists>s'. bind m (\<lambda>_. k) s = (Inr (), s') \<and> r s' \<and> w s' = w s @ as @ bs" by (simp add: act_simps)
qed

lemma emits_ret: "emits r w l (ret ()) []"
  by (simp add: emits_def act_simps)

lemma emits_each:
  assumes "\<And>x. x \<in> set xs \<Longrightarrow> emits r w l (W x) (enc x)"
  shows "emits r w l (write_each W xs) (concat (map enc xs))"
  using assms by (induction xs) (auto intro: emits_ret emits_bind)

lemma yieldsD:
  assumes "yields r p b m bs x" and "des_ok r d" and "has_buffered_field d \<longrightarrow> b" and "des_input p d = bs @ rest"
  obtains d' where "m d = (Inr x, d')" "des_ok r d'" "\<not> has_buffered_field d'" "des_input p d' = rest" "nesting_level d' = nesting_level d"
  using assms unfolding yields_def by blast

lemma yields_weaken: "yields r p True m bs x \<Longrightarrow> yields r p b m bs x"
  unfolding yields_def by blast

lemma yields_bind:
  assumes "yields r p b m as x" and "yields r p False (k x) bs y"
  shows "yields r p b (bind m k) (as @ bs) y"
  unfolding yields_def
proof (intro allI impI)
  fix d rest assume d: "des_ok r d" "has_buffered_field d \<longrightarrow> b" "des_input p d = (as @ bs) @ rest"
  have e: "des_input p d = as @ bs @ rest" using d(3) by simp
  obtain d1 where d1: "m d = (Inr x, d1)" "des_ok r d1" "\<not> has_buffered_field d1" "des_input p d1 = bs @ rest" "nesting_level d1 = nesting_level d"
    using yieldsD [OF assms(1) d(1,2) e] .
  have "has_buffered_field d1 \<longrightarrow> False" using d1(3) by simp
  then obtain d2 where "k x d1 = (Inr y, d2)" "des_ok r d2" "\<not> has_buffered_field d2" "des_input p d2 = rest" "nesting_level d2 = nesting_level d1"
    using yieldsD [OF assms(2) d1(2) _ d1(4)] by metis
  then show "\<exists>d'. bind m k d = (Inr y, d') \<and> des_ok r d' \<and> \<not> has_buffered_field d' \<and> des_input p d' = rest \<and> nesting_level d' = nesting_level d"
    using d1 by (simp add: act_simps)
qed

lemma yields_ret: "yields r p False (ret x) [] x"
  by (simp add: yields_def act_simps)

lemma yields_bind_ret: "yields r p b m bs x \<Longrightarrow> yields r p b (bind m (\<lambda>x. ret (f x))) bs (f x)"
  using yields_bind [of r p b m bs x "\<lambda>x. ret (f x)" "[]"] yields_ret by fastforce

lemma yields_times:
  assumes "\<And>x. x \<in> set xs \<Longrightarrow> yields r p False R (enc x) (back x)"
  shows "yields r p False (read_times (length xs) R) (concat (map enc xs)) (map back xs)"
  using assms
proof (induction xs)
  case (Cons x xs)
  have "yields r p False (bind (read_times (length xs) R) (\<lambda>ys. ret (back x # ys))) (concat (map enc xs)) (back x # map back xs)"
    by (rule yields_bind_ret) (use Cons in simp)
  then show ?case using yields_bind [OF Cons.prems [of x]] by simp
qed (simp add: yields_ret)

lemma update_new: "k \<notin> fst ` set m \<Longrightarrow> AList.update k v m = m @ [(k, v)]"
  by (induction m) auto

lemma yields_entries:
  assumes "\<And>x. x \<in> set xs \<Longrightarrow> yields r p False R (enc x) (fst x, back (snd x))"
    and "distinct (map fst xs)" and "fst ` set m \<inter> fst ` set xs = {}"
  shows "yields r p False (read_map (length xs) R m) (concat (map enc xs)) (m @ map (apsnd back) xs)"
  using assms
proof (induction xs arbitrary: m)
  case (Cons x xs)
  have "yields r p False (read_map (length xs) R (m @ [(fst x, back (snd x))])) (concat (map enc xs))
      ((m @ [(fst x, back (snd x))]) @ map (apsnd back) xs)"
    by (rule Cons.IH) (use Cons.prems in auto)
  moreover have "AList.update (fst x) (back (snd x)) m = m @ [(fst x, back (snd x))]" using Cons.prems(3) by (intro update_new) auto
  ultimately show ?case
    using yields_bind [where k = "\<lambda>(k, v). read_map (length xs) R (AList.update k v m)", OF Cons.prems(1) [of x]] by (cases x) simp
qed (simp add: yields_ret)

locale streams = write_stream WriteData ready written limit + read_stream ReadData can_read remaining
  for WriteData :: "bytes \<Rightarrow> ('w, unit) action" and ready :: "'w \<Rightarrow> bool" and written :: "'w \<Rightarrow> bytes" and limit :: nat
    and ReadData :: "nat \<Rightarrow> ('r, bytes) action" and can_read :: "'r \<Rightarrow> bool" and remaining :: "'r \<Rightarrow> bytes"
begin

abbreviation "out \<equiv> emits ready written limit"
abbreviation "inp \<equiv> yields can_read remaining"

lemma out_Write: "out (WriteData bs) bs"
  unfolding emits_def using WriteData_appends by blast

lemma out_basic [codec_intros]:
  "out (WriteValue_uint WriteData n k) (nat_bytes n k)" "out (WriteValue_int WriteData n i) (int_bytes n i)"
  "out (WriteValue_bool WriteData b) (enc_bool b)" "out (ser_OnObjectEnd WriteData) (nat_bytes 2 MESSAGE_TERMINATOR_FIELD_ID)"
  by (simp_all add: WriteValue_uint_def WriteValue_int_def WriteValue_bool_def ser_OnObjectEnd_def Write_def enc_bool_def out_Write)

lemma out_string [codec_intros]: "length s < 2 ^ 32 \<Longrightarrow> out (WriteValue_string WriteData s) (enc_string s)"
  unfolding WriteValue_string_def enc_string_def Let_def Write_def by (auto intro: emits_bind out_Write)

lemma out_property [codec_intros]:
  assumes "field_id \<noteq> MESSAGE_TERMINATOR_FIELD_ID" and "out m bs"
  shows "out (WriteProperty WriteData field_id m) (enc_property field_id bs)"
proof -
  have "out (ser_OnPropertyBegin WriteData field_id) (nat_bytes 2 field_id)"
    using out_Write assms(1) unfolding emits_def ser_OnPropertyBegin_def Write_def by (simp add: act_simps)
  then show ?thesis unfolding WriteProperty_def enc_property_def using assms(2) by (rule emits_bind)
qed

lemma out_object [codec_intros]: "out m bs \<Longrightarrow> out (WriteValue_object WriteData m) (enc_object bs)"
  unfolding WriteValue_object_def enc_object_def by (rule emits_bind [OF _ out_basic(4)])

lemma out_vector [codec_intros]:
  "(\<And>x. x \<in> set xs \<Longrightarrow> out (W x) (enc x)) \<Longrightarrow> out (WriteValue_vector WriteData W xs) (enc_vector enc xs)"
  unfolding WriteValue_vector_def enc_vector_def ser_OnListBegin_def Write_def by (intro emits_bind out_Write emits_each)

lemma out_map [codec_intros]:
  assumes "\<And>k v. (k, v) \<in> set m \<Longrightarrow> out (WK k) (ek k) \<and> out (WV v) (ev v)"
  shows "out (WriteValue_map WriteData WK WV m) (enc_vector (enc_entry ek ev) m)"
proof -
  have "out (WriteValue_pair WriteData WK WV p) (enc_entry ek ev p)" if "p \<in> set m" for p
    unfolding WriteValue_pair_def enc_entry_def using that assms [of "fst p" "snd p"]
    by (intro out_object emits_bind out_property) simp_all
  then show ?thesis
    unfolding WriteValue_map_def enc_vector_def ser_OnListBegin_def Write_def by (intro emits_bind out_Write emits_each)
qed

lemma out_ptr [codec_intros]:
  assumes "\<And>x. p = Some x \<Longrightarrow> out (W x) (enc x)"
  shows "out (WriteValue_ptr WriteData W p) (enc_ptr enc p)"
  using assms by (cases p) (auto simp: WriteValue_ptr_def ser_OnNullableBegin_def intro: out_basic emits_bind)

lemma inp_data: "inp False (des_ReadData ReadData (length bs)) bs bs"
  unfolding yields_def
proof (intro allI impI)
  fix d rest assume d: "des_ok can_read d" "has_buffered_field d \<longrightarrow> False" "des_input remaining d = bs @ rest"
  then obtain s' where "ReadData (length bs) (des_stream d) = (Inr bs, s')" "can_read s'" "remaining s' = rest"
    using ReadData_takes [of "des_stream d" bs rest] by (auto simp: des_ok_def des_input_def)
  then show "\<exists>d'. des_ReadData ReadData (length bs) d = (Inr bs, d') \<and> des_ok can_read d' \<and> \<not> has_buffered_field d' \<and>
      des_input remaining d' = rest \<and> nesting_level d' = nesting_level d"
    using d by (auto simp: des_ReadData_def zoom_def des_ok_def des_input_def)
qed

lemma inp_uint [codec_intros]: "k < 256 ^ n \<Longrightarrow> inp False (ReadUnsigned ReadData n) (nat_bytes n k) k"
  unfolding ReadUnsigned_def using yields_bind_ret [OF inp_data [of "nat_bytes n k"], of bytes_nat] by simp

lemma inp_int [codec_intros]: "fits n i \<Longrightarrow> 0 < n \<Longrightarrow> inp False (ReadSigned ReadData n) (int_bytes n i) i"
  unfolding ReadSigned_def using yields_bind_ret [OF inp_data [of "int_bytes n i"], of bytes_int] by (simp add: bytes_int_int_bytes)

lemma inp_bool [codec_intros]: "inp False (ReadBool ReadData) (enc_bool b) b"
  unfolding ReadBool_def enc_bool_def
  using yields_bind_ret [OF inp_uint [of "if b then 1 else 0" 1], of "\<lambda>k. k \<noteq> 0"] by (cases b) simp_all

lemma inp_string [codec_intros]:
  assumes "length s < 2 ^ 32"
  shows "inp False (ReadString ReadData) (enc_string s) s"
proof -
  have l: "inp False (ReadUnsigned ReadData 4) (nat_bytes 4 (length s)) (length s)" using assms by (intro inp_uint) simp
  have "inp False (bind (des_ReadData ReadData (length s)) (\<lambda>bs. ret (bytes_string bs))) (string_bytes s) s"
    using yields_bind_ret [OF inp_data [of "string_bytes s"], of bytes_string] by simp
  then have "inp False (if length s = 0 then ret [] else bind (des_ReadData ReadData (length s)) (\<lambda>bs. ret (bytes_string bs))) (string_bytes s) s"
    using yields_ret by (auto simp: string_bytes_def)
  from yields_bind [where k = "\<lambda>len. if len = 0 then ret [] else bind (des_ReadData ReadData len) (\<lambda>bs. ret (bytes_string bs))", OF l this]
  show ?thesis by (simp add: ReadString_def enc_string_def)
qed

lemma inp_NextField:
  assumes "f < 2 ^ 16"
  shows "inp True (NextField ReadData) (nat_bytes 2 f) f"
  unfolding yields_def
proof (intro allI impI)
  fix d rest assume d: "des_ok can_read d" "has_buffered_field d \<longrightarrow> True" "des_input remaining d = nat_bytes 2 f @ rest"
  show "\<exists>d'. NextField ReadData d = (Inr f, d') \<and> des_ok can_read d' \<and> \<not> has_buffered_field d' \<and>
      des_input remaining d' = rest \<and> nesting_level d' = nesting_level d"
  proof (cases "has_buffered_field d")
    case True
    then have e: "nat_bytes 2 (buffered_field d) = nat_bytes 2 f" "remaining (des_stream d) = rest" using d(3) by (auto simp: des_input_def)
    have "buffered_field d = f" using arg_cong [OF e(1), of bytes_nat] d(1) assms by (simp add: des_ok_def)
    then show ?thesis using True e(2) d(1) by (simp add: NextField_def act_simps des_ok_def des_input_def)
  next
    case False
    then show ?thesis using inp_uint [of f 2] d assms by (auto simp: NextField_def act_simps yields_def)
  qed
qed

lemma inp_property [codec_intros]:
  assumes "field_id < 2 ^ 16" and "inp False m bs x"
  shows "inp True (ReadProperty ReadData field_id m) (enc_property field_id bs) x"
proof -
  have "inp True (des_OnPropertyBegin ReadData field_id) (nat_bytes 2 field_id @ []) ()"
    unfolding des_OnPropertyBegin_def by (rule yields_bind [OF inp_NextField [OF assms(1)]]) (simp add: yields_ret)
  then show ?thesis unfolding ReadProperty_def enc_property_def using yields_bind assms(2) by fastforce
qed

lemma inp_object [codec_intros]:
  assumes "inp False m bs x"
  shows "inp False (Read_object ReadData m) (enc_object bs) x"
  unfolding yields_def
proof (intro allI impI)
  fix d rest assume d: "des_ok can_read d" "has_buffered_field d \<longrightarrow> False" "des_input remaining d = enc_object bs @ rest"
  let ?t = "nat_bytes 2 MESSAGE_TERMINATOR_FIELD_ID" and ?d0 = "d\<lparr>nesting_level := nesting_level d + 1\<rparr>"
  have d0: "des_ok can_read ?d0" "\<not> has_buffered_field ?d0" "des_input remaining ?d0 = bs @ ?t @ rest"
    using d by (auto simp: des_ok_def des_input_def enc_object_def)
  obtain d1 where d1: "m ?d0 = (Inr x, d1)" "des_ok can_read d1" "\<not> has_buffered_field d1" "des_input remaining d1 = ?t @ rest"
      "nesting_level d1 = nesting_level d + 1"
    using assms [unfolded yields_def, rule_format, OF d0(1) _ d0(3)] d0(2) by auto
  obtain d2 where d2: "NextField ReadData d1 = (Inr MESSAGE_TERMINATOR_FIELD_ID, d2)" "des_ok can_read d2" "\<not> has_buffered_field d2"
      "des_input remaining d2 = rest" "nesting_level d2 = nesting_level d + 1"
    using inp_NextField [of MESSAGE_TERMINATOR_FIELD_ID, unfolded yields_def, rule_format, OF _ d1(2) _ d1(4)] d1(5) by auto
  have "Read_object ReadData m d = (Inr x, d2\<lparr>nesting_level := nesting_level d\<rparr>)"
    using d1(1) d2(1,5) by (simp add: Read_object_def des_OnObjectBegin_def des_OnObjectEnd_def act_simps)
  then show "\<exists>d'. Read_object ReadData m d = (Inr x, d') \<and> des_ok can_read d' \<and> \<not> has_buffered_field d' \<and>
      des_input remaining d' = rest \<and> nesting_level d' = nesting_level d"
    using d2 by (simp add: des_ok_def des_input_def)
qed

lemma inp_vector [codec_intros]:
  assumes "length xs < 2 ^ 64" and "\<And>x. x \<in> set xs \<Longrightarrow> inp False R (enc x) (back x)"
  shows "inp False (Read_vector ReadData R) (enc_vector enc xs) (map back xs)"
proof -
  have "inp False (ReadUnsigned ReadData 8) (nat_bytes 8 (length xs)) (length xs)" using assms(1) by (intro inp_uint) simp
  moreover have "inp False (read_times (length xs) R) (concat (map enc xs)) (map back xs)" by (rule yields_times) (rule assms(2))
  ultimately have "inp False (bind (ReadUnsigned ReadData 8) (\<lambda>n. read_times n R)) (nat_bytes 8 (length xs) @ concat (map enc xs)) (map back xs)"
    by (rule yields_bind)
  then show ?thesis by (simp add: Read_vector_def des_OnListBegin_def enc_vector_def)
qed

lemma inp_map [codec_intros]:
  assumes "length m < 2 ^ 64" and "distinct (map fst m)"
    and "\<And>k v. (k, v) \<in> set m \<Longrightarrow> inp False RK (ek k) k \<and> inp False RV (ev v) (back v)"
  shows "inp False (Read_map ReadData RK RV) (enc_vector (enc_entry ek ev) m) (map (apsnd back) m)"
proof -
  have "inp False (read_entry ReadData RK RV) (enc_entry ek ev x) (fst x, back (snd x))" if "x \<in> set m" for x
  proof -
    have k: "inp False RK (ek (fst x)) (fst x)" "inp False RV (ev (snd x)) (back (snd x))" using assms(3) that by (metis prod.collapse)+
    note p = yields_weaken [OF inp_property [OF _ k(1), of 0], of False] yields_weaken [OF inp_property [OF _ k(2), of 1], of False]
    have "inp False (bind (ReadProperty ReadData 1 RV) (\<lambda>v. ret (fst x, v))) (enc_property 1 (ev (snd x))) (fst x, back (snd x))"
      using yields_bind_ret [OF p(2)] by simp
    from yields_bind [OF p(1), of "\<lambda>k. bind (ReadProperty ReadData 1 RV) (\<lambda>v. ret (k, v))", OF _ this]
    show ?thesis unfolding read_entry_def enc_entry_def by (intro inp_object) simp
  qed
  from yields_entries [OF this assms(2), of "[]"]
  have "inp False (read_map (length m) (read_entry ReadData RK RV) []) (concat (map (enc_entry ek ev) m)) (map (apsnd back) m)" by simp
  moreover have "inp False (ReadUnsigned ReadData 8) (nat_bytes 8 (length m)) (length m)" using assms(1) by (intro inp_uint) simp
  ultimately show ?thesis unfolding Read_map_def des_OnListBegin_def enc_vector_def by (rule yields_bind [rotated])
qed

lemma inp_ptr [codec_intros]:
  assumes "\<And>x. p = Some x \<Longrightarrow> inp False D (enc x) (back x)"
  shows "inp False (Read_unique_ptr ReadData D) (enc_ptr (\<lambda>x. enc_object (enc x)) p) (map_option back p)"
proof (cases p)
  case None
  then show ?thesis
    using yields_bind [OF inp_bool [of False], of "\<lambda>b. if b then bind (Read_object ReadData D) (\<lambda>v. ret (Some v)) else ret None" "[]"]
    by (simp add: Read_unique_ptr_def des_OnNullableBegin_def yields_ret)
next
  case (Some x)
  have "inp False (bind (Read_object ReadData D) (\<lambda>v. ret (Some v))) (enc_object (enc x)) (Some (back x))"
    by (rule yields_bind_ret [OF inp_object [OF assms [OF Some]]])
  then show ?thesis
    using yields_bind [OF inp_bool [of True], of "\<lambda>b. if b then bind (Read_object ReadData D) (\<lambda>v. ret (Some v)) else ret None"]
    by (simp add: Read_unique_ptr_def des_OnNullableBegin_def Some)
qed

lemma inp_raw:
  assumes "inp False D bs x" and "can_read s" and "remaining s = enc_object bs @ rest"
  shows "\<exists>s'. DeserializeRaw ReadData D s = (Inr x, s') \<and> can_read s' \<and> remaining s' = rest"
proof -
  have ok: "des_ok can_read (mk_BinaryDeserializer s)" "\<not> has_buffered_field (mk_BinaryDeserializer s)"
      "des_input remaining (mk_BinaryDeserializer s) = enc_object bs @ rest" "nesting_level (mk_BinaryDeserializer s) = 0"
    using assms(2,3) by (simp_all add: des_ok_def mk_BinaryDeserializer_def des_input_def)
  obtain d where "Read_object ReadData D (mk_BinaryDeserializer s) = (Inr x, d)" "des_ok can_read d" "\<not> has_buffered_field d"
      "des_input remaining d = rest" "nesting_level d = 0"
    using inp_object [OF assms(1), unfolded yields_def, rule_format, OF ok(1) _ ok(3)] ok(2,4) by auto
  then show ?thesis by (auto simp: DeserializeRaw_def act_simps des_ok_def des_input_def)
qed

text \<open>
  Properties with a default. One that is there is read like any other; one that is not leaves the
  id of the next field in the buffer.
\<close>

lemma out_default:
  assumes "field_id \<noteq> MESSAGE_TERMINATOR_FIELD_ID" and "v \<noteq> dflt \<Longrightarrow> out (W v) bs"
  shows "out (WritePropertyWithDefault WriteData False field_id W v dflt) (if v = dflt then [] else enc_property field_id bs)"
proof (cases "v = dflt")
  case False
  from out_property [OF assms(1) assms(2) [OF this]] False show ?thesis
    by (simp add: WritePropertyWithDefault_def ser_OnOptionalPropertyBegin_def WriteProperty_def)
qed (simp add: WritePropertyWithDefault_def ser_OnOptionalPropertyBegin_def emits_ret)

lemma peek:
  assumes d: "des_ok can_read d" "des_input remaining d = nat_bytes 2 f @ rest" and "f < 2 ^ 16"
  obtains d' where "PeekField ReadData d = (Inr f, d')" "des_ok can_read d'" "has_buffered_field d'" "buffered_field d' = f"
    "des_input remaining d' = nat_bytes 2 f @ rest" "nesting_level d' = nesting_level d"
proof (cases "has_buffered_field d")
  case True
  then have "nat_bytes 2 (buffered_field d) = nat_bytes 2 f" using d(2) by (auto simp: des_input_def)
  from arg_cong [OF this, of bytes_nat] d(1) assms(3) have "buffered_field d = f" by (simp add: des_ok_def)
  with that True d show thesis by (simp add: PeekField_def act_simps)
next
  case False
  obtain d1 where "ReadUnsigned ReadData 2 d = (Inr f, d1)" "des_ok can_read d1" "\<not> has_buffered_field d1"
      "des_input remaining d1 = rest" "nesting_level d1 = nesting_level d"
    by (rule yieldsD [OF inp_uint [of f 2] d(1) _ d(2)]) (use False assms(3) in simp_all)
  with that [of "d1\<lparr>buffered_field := f, has_buffered_field := True\<rparr>"] False assms(3) show thesis
    by (simp add: PeekField_def act_simps des_ok_def des_input_def)
qed

lemma inp_present:
  assumes "inp False R bs x" and "inp False (k x) rest y" and f: "field_id < 2 ^ 16"
  shows "inp True (bind (ReadPropertyWithDefault ReadData field_id R dflt) k) (enc_property field_id bs @ rest) y"
proof -
  have "inp True (des_OnOptionalPropertyBegin ReadData field_id) (nat_bytes 2 field_id) True"
    unfolding yields_def
  proof (intro allI impI)
    fix d rest assume d: "des_ok can_read d" "has_buffered_field d \<longrightarrow> True" "des_input remaining d = nat_bytes 2 field_id @ rest"
    obtain d' where "PeekField ReadData d = (Inr field_id, d')" "des_ok can_read d'" "has_buffered_field d'"
        "des_input remaining d' = nat_bytes 2 field_id @ rest" "nesting_level d' = nesting_level d" "buffered_field d' = field_id"
      by (rule peek [OF d(1,3) f])
    then show "\<exists>d'. des_OnOptionalPropertyBegin ReadData field_id d = (Inr True, d') \<and> des_ok can_read d' \<and>
        \<not> has_buffered_field d' \<and> des_input remaining d' = rest \<and> nesting_level d' = nesting_level d"
      by (simp add: des_OnOptionalPropertyBegin_def ConsumeField_def act_simps des_ok_def des_input_def)
  qed
  from yields_bind [where k = "\<lambda>present. if \<not> present then ret dflt else R", OF this] assms(1)
  have "inp True (ReadPropertyWithDefault ReadData field_id R dflt) (enc_property field_id bs) x"
    by (simp add: ReadPropertyWithDefault_def enc_property_def)
  from yields_bind [where k = k, OF this assms(2)] show ?thesis .
qed

lemma inp_absent:
  assumes "inp True (k dflt) (enc_property g bs) y" and "g < 2 ^ 16" and "g \<noteq> field_id"
  shows "inp True (bind (ReadPropertyWithDefault ReadData field_id R dflt) k) (enc_property g bs) y"
  unfolding yields_def
proof (intro allI impI)
  fix d rest assume d: "des_ok can_read d" "has_buffered_field d \<longrightarrow> True" "des_input remaining d = enc_property g bs @ rest"
  have i: "des_input remaining d = nat_bytes 2 g @ bs @ rest" using d(3) by (simp add: enc_property_def)
  obtain d1 where d1: "PeekField ReadData d = (Inr g, d1)" "des_ok can_read d1"
      "des_input remaining d1 = nat_bytes 2 g @ bs @ rest" "nesting_level d1 = nesting_level d"
    by (rule peek [OF d(1) i assms(2)])
  then have "bind (ReadPropertyWithDefault ReadData field_id R dflt) k d = k dflt d1"
    using assms(3) by (simp add: ReadPropertyWithDefault_def des_OnOptionalPropertyBegin_def act_simps)
  moreover have "des_input remaining d1 = enc_property g bs @ rest" using d1(3) by (simp add: enc_property_def)
  ultimately show "\<exists>d'. bind (ReadPropertyWithDefault ReadData field_id R dflt) k d = (Inr y, d') \<and> des_ok can_read d' \<and>
      \<not> has_buffered_field d' \<and> des_input remaining d' = rest \<and> nesting_level d' = nesting_level d"
    using assms(1) d1(2,4) unfolding yields_def by auto
qed

end

text \<open>A stream that is written, rewound and read.\<close>

locale rewindable = streams WriteData ready written limit ReadData can_read remaining
  for WriteData :: "bytes \<Rightarrow> ('s, unit) action" and ready :: "'s \<Rightarrow> bool" and written :: "'s \<Rightarrow> bytes" and limit :: nat
    and ReadData :: "nat \<Rightarrow> ('s, bytes) action" and can_read :: "'s \<Rightarrow> bool" and remaining :: "'s \<Rightarrow> bytes" +
  fixes Rewind :: "'s \<Rightarrow> 's"
  assumes Rewind_reads: "ready s \<Longrightarrow> can_read (Rewind s) \<and> (\<exists>rest. remaining (Rewind s) = written s @ rest)"
begin

lemma roundtrip:
  assumes "out S bs" and "inp False D bs x" and "ready s" and "written s = []" and "length (enc_object bs) \<le> limit"
  shows "\<exists>s'. BinarySerializer_Serialize WriteData S s = (Inr (), s') \<and> fst (DeserializeRaw ReadData D (Rewind s')) = Inr x"
proof -
  have "out (BinarySerializer_Serialize WriteData S) (enc_object bs)"
    using out_object [OF assms(1)] by (simp add: WriteValue_object_def BinarySerializer_Serialize_def)
  then obtain s' where s': "BinarySerializer_Serialize WriteData S s = (Inr (), s')" "ready s'" "written s' = enc_object bs"
    using assms(3,4,5) by (auto simp: emits_def)
  then obtain rest where "can_read (Rewind s')" "remaining (Rewind s') = enc_object bs @ rest" using Rewind_reads by metis
  from inp_raw [OF assms(2) this] s'(1) show ?thesis by auto
qed

end

interpretation ms: streams ms_WriteData ms_ready ms_written ms_limit ms_ReadData ms_inv ms_remaining
  by unfold_locales

interpretation fs: streams fs_WriteData fs_ready fs_written n fs_ReadData fs_ready fs_remaining for n
  by unfold_locales

interpretation ms_re: rewindable ms_WriteData ms_ready ms_written ms_limit ms_ReadData ms_inv ms_remaining ms_Rewind
proof unfold_locales
  fix s assume "ms_ready s"
  then show "ms_inv (ms_Rewind s) \<and> (\<exists>rest. ms_remaining (ms_Rewind s) = ms_written s @ rest)"
    by (auto simp: ms_ready_def ms_inv_def ms_Rewind_def ms_remaining_def ms_written_def intro: append_take_drop_id [symmetric])
qed

interpretation fs_re: rewindable fs_WriteData fs_ready fs_written n fs_ReadData fs_ready fs_remaining fs_Rewind for n
proof unfold_locales
  fix s assume "fs_ready s"
  then show "fs_ready (fs_Rewind s) \<and> (\<exists>rest. fs_remaining (fs_Rewind s) = fs_written s @ rest)"
    by (auto simp: fs_ready_def fs_Rewind_def fs_remaining_def fs_written_def intro: append_take_drop_id [symmetric])
qed

end
