(* ===== verification/MetaCodecs.thy ===== *)
theory MetaCodecs
  imports Serializers Schemas
begin

text \<open>
  What the serializer is used for: the \<^verbatim>\<open>Serialize\<close> and \<^verbatim>\<open>Deserialize\<close> methods of
  \<^verbatim>\<open>common/value.cpp\<close>, \<^verbatim>\<open>meta/column.hpp\<close>, \<^verbatim>\<open>meta/schema.hpp\<close>,
  \<^verbatim>\<open>storage/table/table_meta.hpp\<close> and \<^verbatim>\<open>index/index.hpp\<close>.

  An enumerator is written as its underlying integer. An integer read back that is none of the
  enumerators is a value C++ carries on with and no \<^verbatim>\<open>switch\<close> expects; the model stops there.
  \<open>enc_*\<close> is the format of each type, \<open>*_back\<close> what is read back: not everything
  that was written.
\<close>

section \<open>Enumerations\<close>

definition TypeId_of :: "nat \<Rightarrow> TypeId result" where
  "TypeId_of k = (case TypeId_of_code k of Some t \<Rightarrow> Inr t
     | None \<Rightarrow> Inl (UndefinedBehaviour ''value outside the enumeration''))"

datatype IndexConstraintType = NONE | UNIQUE | PRIMARY | FOREIGN

fun IndexConstraintType_code :: "IndexConstraintType \<Rightarrow> nat" where
  "IndexConstraintType_code NONE = 0" | "IndexConstraintType_code UNIQUE = 1"
| "IndexConstraintType_code PRIMARY = 2" | "IndexConstraintType_code FOREIGN = 3"

definition IndexConstraintType_of :: "nat \<Rightarrow> IndexConstraintType result" where
  "IndexConstraintType_of k = (if k < 4 then Inr ([NONE, UNIQUE, PRIMARY, FOREIGN] ! k)
     else Inl (UndefinedBehaviour ''value outside the enumeration''))"

datatype IndexType = BPlusTreeIndex | HashTableIndex

fun IndexType_code :: "IndexType \<Rightarrow> int" where
  "IndexType_code BPlusTreeIndex = 0" | "IndexType_code HashTableIndex = 1"

definition IndexType_of :: "int \<Rightarrow> IndexType result" where
  "IndexType_of k = (if k = 0 then Inr BPlusTreeIndex else if k = 1 then Inr HashTableIndex
     else Inl (UndefinedBehaviour ''value outside the enumeration''))"

definition WriteValue_TypeId :: "'s writer \<Rightarrow> TypeId \<Rightarrow> ('s, unit) action" where
  "WriteValue_TypeId wd t = WriteValue_uint wd 1 (TypeId_code t)"

definition Read_TypeId :: "'s reader \<Rightarrow> ('s, TypeId) des" where
  "Read_TypeId rd = bind (ReadUnsigned rd 1) (\<lambda>k. lift (TypeId_of k))"

section \<open>Values\<close>

definition get_Int8 :: "Val \<Rightarrow> 8 word result" where
  "get_Int8 v = (case v of Int8 x \<Rightarrow> Inr x | _ \<Rightarrow> Inl BadVariantAccess)"

definition get_Int32 :: "Val \<Rightarrow> 32 word result" where
  "get_Int32 v = (case v of Int32 x \<Rightarrow> Inr x | _ \<Rightarrow> Inl BadVariantAccess)"

definition get_UInt64 :: "Val \<Rightarrow> 64 word result" where
  "get_UInt64 v = (case v of UInt64 x \<Rightarrow> Inr x | _ \<Rightarrow> Inl BadVariantAccess)"

definition get_Str :: "Val \<Rightarrow> string result" where
  "get_Str v = (case v of Str x \<Rightarrow> Inr x | _ \<Rightarrow> Inl BadVariantAccess)"

definition Value_Serialize :: "'s writer \<Rightarrow> Value \<Rightarrow> ('s, unit) action" where
  "Value_Serialize wd v =
     bind (WriteProperty wd 100 (WriteValue_TypeId wd (type_id v))) (\<lambda>_.
     bind (WriteProperty wd 101 (WriteValue_bool wd (is_null v))) (\<lambda>_.
     if is_null v then ret ()
     else case type_id v of
       INVALID \<Rightarrow> throw (RuntimeException ''Invalid type'')
     | BOOLEAN \<Rightarrow> bind (lift (get_Int8 (val v))) (\<lambda>x. WriteProperty wd 102 (WriteValue_int wd 1 (sint x)))
     | INTEGER \<Rightarrow> bind (lift (get_Int32 (val v))) (\<lambda>x. WriteProperty wd 102 (WriteValue_int wd 4 (sint x)))
     | TIMESTAMP \<Rightarrow> bind (lift (get_UInt64 (val v))) (\<lambda>x. WriteProperty wd 102 (WriteValue_uint wd 8 (unat x)))
     | VARCHAR \<Rightarrow> bind (lift (get_Str (val v))) (\<lambda>x. WriteProperty wd 102 (WriteValue_string wd x))))"

definition Value_Deserialize :: "'s reader \<Rightarrow> ('s, Value) des" where
  "Value_Deserialize rd =
     bind (ReadProperty rd 100 (Read_TypeId rd)) (\<lambda>t.
     bind (ReadProperty rd 101 (ReadBool rd)) (\<lambda>null.
     if null then ret (Value_of_type t)
     else let new_value = (Value_of_type t)\<lparr>is_null := False\<rparr> in
       case t of
         INVALID \<Rightarrow> throw (RuntimeException ''Cannot serialize invalid type'')
       | BOOLEAN \<Rightarrow> bind (ReadProperty rd 102 (ReadSigned rd 1)) (\<lambda>x. ret (new_value\<lparr>val := Int8 (word_of_int x)\<rparr>))
       | INTEGER \<Rightarrow> bind (ReadProperty rd 102 (ReadSigned rd 4)) (\<lambda>x. ret (new_value\<lparr>val := Int32 (word_of_int x)\<rparr>))
       | TIMESTAMP \<Rightarrow> bind (ReadProperty rd 102 (ReadUnsigned rd 8)) (\<lambda>x. ret (new_value\<lparr>val := UInt64 (word_of_nat x)\<rparr>))
       | VARCHAR \<Rightarrow> bind (ReadProperty rd 102 (ReadString rd)) (\<lambda>x. ret (new_value\<lparr>val := Str x\<rparr>))))"

section \<open>Columns and schemas\<close>

definition Column_Serialize :: "'s writer \<Rightarrow> Column \<Rightarrow> ('s, unit) action" where
  "Column_Serialize wd c =
     bind (WriteProperty wd 100 (WriteValue_string wd (column_name c))) (\<lambda>_.
     bind (WriteProperty wd 101 (WriteValue_TypeId wd (column_type c))) (\<lambda>_.
     bind (WriteProperty wd 102 (WriteValue_uint wd 4 (column_length c))) (\<lambda>_.
     WriteProperty wd 103 (WriteValue_uint wd 4 (storage_offset c)))))"

definition Column_Deserialize :: "'s reader \<Rightarrow> ('s, Column) des" where
  "Column_Deserialize rd =
     bind (ReadProperty rd 100 (ReadString rd)) (\<lambda>n.
     bind (ReadProperty rd 101 (Read_TypeId rd)) (\<lambda>t.
     bind (ReadProperty rd 102 (ReadUnsigned rd 4)) (\<lambda>l.
     bind (ReadProperty rd 103 (ReadUnsigned rd 4)) (\<lambda>off.
     ret ((mk_column_rec n t l)\<lparr>storage_offset := off\<rparr>)))))"

definition Schema_Serialize :: "'s writer \<Rightarrow> Schema \<Rightarrow> ('s, unit) action" where
  "Schema_Serialize wd s =
     bind (WriteProperty wd 100 (WriteValue_vector wd (\<lambda>c. WriteValue_object wd (Column_Serialize wd c)) (columns s))) (\<lambda>_.
     bind (WriteProperty wd 101 (WriteValue_vector wd (WriteValue_uint wd 4) (uninlined_columns s))) (\<lambda>_.
     WriteProperty wd 102 (WriteValue_uint wd 4 (tuple_inline_part_storage_size s))))"

definition Schema_Deserialize :: "'s reader \<Rightarrow> ('s, Schema) des" where
  "Schema_Deserialize rd =
     bind (ReadProperty rd 100 (Read_vector rd (Read_object rd (Column_Deserialize rd)))) (\<lambda>cs.
     bind (ReadProperty rd 101 (Read_vector rd (ReadUnsigned rd 4))) (\<lambda>us.
     bind (ReadProperty rd 102 (ReadUnsigned rd 4)) (\<lambda>n.
     ret \<lparr>columns = cs, uninlined_columns = us, tuple_inline_part_storage_size = n\<rparr>)))"

section \<open>Table and index metadata\<close>

definition TableMeta_Serialize :: "'s writer \<Rightarrow> TableMeta \<Rightarrow> ('s, unit) action" where
  "TableMeta_Serialize wd m =
     bind (WriteProperty wd 100 (WriteValue_string wd (tm_name m))) (\<lambda>_.
     bind (WriteProperty wd 101 (WriteValue_int wd 4 (tm_table_oid m))) (\<lambda>_.
     bind (WriteProperty wd 102 (WriteValue_object wd (Schema_Serialize wd (tm_schema m)))) (\<lambda>_.
     bind (WriteProperty wd 103 (WriteValue_int wd 4 (last_table_data_page_id m))) (\<lambda>_.
     bind (WriteProperty wd 104 (WriteValue_int wd 4 (last_table_heap_data_page_id m))) (\<lambda>_.
     WriteProperty wd 105 (WriteValue_uint wd 8 (unat (tuple_count m))))))))"

definition TableMeta_Deserialize :: "'s reader \<Rightarrow> ('s, TableMeta) des" where
  "TableMeta_Deserialize rd =
     bind (ReadProperty rd 100 (ReadString rd)) (\<lambda>n.
     bind (ReadProperty rd 101 (ReadSigned rd 4)) (\<lambda>oid.
     bind (ReadProperty rd 102 (Read_object rd (Schema_Deserialize rd))) (\<lambda>s.
     bind (ReadProperty rd 103 (ReadSigned rd 4)) (\<lambda>d.
     bind (ReadProperty rd 104 (ReadSigned rd 4)) (\<lambda>h.
     bind (ReadProperty rd 105 (ReadUnsigned rd 8)) (\<lambda>c.
     ret \<lparr>tm_schema = s, tm_name = n, tm_table_oid = oid, last_table_data_page_id = d,
          last_table_heap_data_page_id = h, tuple_count = word_of_nat c\<rparr>))))))"

record IndexMeta =
  im_name :: string
  im_table_id :: int
  im_index_id :: int
  im_key_col :: Column
  im_constraint :: IndexConstraintType
  im_header_page_id :: int
  im_index_type :: IndexType

text \<open>\<^verbatim>\<open>index_id_\<close> has no initialiser: its value is an argument of the constructor's model.\<close>

definition mk_IndexMeta :: "int \<Rightarrow> string \<Rightarrow> int \<Rightarrow> Column \<Rightarrow> IndexConstraintType \<Rightarrow> IndexType \<Rightarrow> IndexMeta" where
  "mk_IndexMeta indeterminate n table key_col constraint t = \<lparr>im_name = n, im_table_id = table,
     im_index_id = indeterminate, im_key_col = key_col, im_constraint = constraint,
     im_header_page_id = INVALID_PAGE_ID, im_index_type = t\<rparr>"

definition IndexMeta_Serialize :: "'s writer \<Rightarrow> IndexMeta \<Rightarrow> ('s, unit) action" where
  "IndexMeta_Serialize wd m =
     bind (WriteProperty wd 100 (WriteValue_string wd (im_name m))) (\<lambda>_.
     bind (WriteProperty wd 101 (WriteValue_int wd 4 (im_table_id m))) (\<lambda>_.
     bind (WriteProperty wd 102 (WriteValue_object wd (Column_Serialize wd (im_key_col m)))) (\<lambda>_.
     bind (WriteProperty wd 103 (WriteValue_int wd 4 (im_index_id m))) (\<lambda>_.
     bind (WriteProperty wd 104 (WriteValue_uint wd 1 (IndexConstraintType_code (im_constraint m)))) (\<lambda>_.
     bind (WriteProperty wd 105 (WriteValue_int wd 4 (im_header_page_id m))) (\<lambda>_.
     WriteProperty wd 106 (WriteValue_int wd 4 (IndexType_code (im_index_type m)))))))))"

definition IndexMeta_Deserialize :: "'s reader \<Rightarrow> ('s, IndexMeta) des" where
  "IndexMeta_Deserialize rd =
     bind (ReadProperty rd 100 (ReadString rd)) (\<lambda>n.
     bind (ReadProperty rd 101 (ReadSigned rd 4)) (\<lambda>t.
     bind (ReadProperty rd 102 (Read_object rd (Column_Deserialize rd))) (\<lambda>c.
     bind (ReadProperty rd 103 (ReadSigned rd 4)) (\<lambda>i.
     bind (ReadProperty rd 104 (bind (ReadUnsigned rd 1) (\<lambda>k. lift (IndexConstraintType_of k)))) (\<lambda>k.
     bind (ReadProperty rd 105 (ReadSigned rd 4)) (\<lambda>h.
     bind (ReadProperty rd 106 (bind (ReadSigned rd 4) (\<lambda>k. lift (IndexType_of k)))) (\<lambda>ty.
     ret \<lparr>im_name = n, im_table_id = t, im_index_id = i, im_key_col = c, im_constraint = k,
          im_header_page_id = h, im_index_type = ty\<rparr>)))))))"

section \<open>Formats\<close>

definition enc_TypeId :: "TypeId \<Rightarrow> bytes" where
  "enc_TypeId t = nat_bytes 1 (TypeId_code t)"

fun enc_Val :: "Val \<Rightarrow> bytes" where
  "enc_Val (Int8 x) = int_bytes 1 (sint x)"
| "enc_Val (Int32 x) = int_bytes 4 (sint x)"
| "enc_Val (UInt64 x) = nat_bytes 8 (unat x)"
| "enc_Val (Str x) = enc_string x"

definition enc_Value :: "Value \<Rightarrow> bytes" where
  "enc_Value v = enc_property 100 (enc_TypeId (type_id v)) @ enc_property 101 (enc_bool (is_null v)) @
     (if is_null v then [] else enc_property 102 (enc_Val (val v)))"

definition value_ok :: "Value \<Rightarrow> bool" where
  "value_ok v \<longleftrightarrow> is_null v \<or> (case val v of
     Int8 x \<Rightarrow> type_id v = BOOLEAN | Int32 x \<Rightarrow> type_id v = INTEGER
   | UInt64 x \<Rightarrow> type_id v = TIMESTAMP | Str x \<Rightarrow> type_id v = VARCHAR \<and> length x < 2 ^ 32)"

definition value_back :: "Value \<Rightarrow> Value" where
  "value_back v = (if is_null v then Value_of_type (type_id v) else v)"

definition enc_Column :: "Column \<Rightarrow> bytes" where
  "enc_Column c = enc_property 100 (enc_string (column_name c)) @ enc_property 101 (enc_TypeId (column_type c)) @
     enc_property 102 (nat_bytes 4 (column_length c)) @ enc_property 103 (nat_bytes 4 (storage_offset c))"

definition column_ok :: "Column \<Rightarrow> bool" where
  "column_ok c \<longleftrightarrow> length (column_name c) < 2 ^ 32 \<and> column_length c < 2 ^ 32 \<and> storage_offset c < 2 ^ 32"

definition column_back :: "Column \<Rightarrow> Column" where
  "column_back c = c\<lparr>schema_offset := 0, is_auto_increment := False\<rparr>"

definition enc_Schema :: "Schema \<Rightarrow> bytes" where
  "enc_Schema s = enc_property 100 (enc_vector (\<lambda>c. enc_object (enc_Column c)) (columns s)) @
     enc_property 101 (enc_vector (nat_bytes 4) (uninlined_columns s)) @
     enc_property 102 (nat_bytes 4 (tuple_inline_part_storage_size s))"

definition schema_ok :: "Schema \<Rightarrow> bool" where
  "schema_ok s \<longleftrightarrow> length (columns s) < 2 ^ 64 \<and> length (uninlined_columns s) < 2 ^ 64 \<and>
     (\<forall>c \<in> set (columns s). column_ok c) \<and> (\<forall>k \<in> set (uninlined_columns s). k < 2 ^ 32) \<and> tuple_inline_part_storage_size s < 2 ^ 32"

definition schema_back :: "Schema \<Rightarrow> Schema" where
  "schema_back s = s\<lparr>columns := map column_back (columns s)\<rparr>"

definition enc_TableMeta :: "TableMeta \<Rightarrow> bytes" where
  "enc_TableMeta m = enc_property 100 (enc_string (tm_name m)) @ enc_property 101 (int_bytes 4 (tm_table_oid m)) @
     enc_property 102 (enc_object (enc_Schema (tm_schema m))) @ enc_property 103 (int_bytes 4 (last_table_data_page_id m)) @
     enc_property 104 (int_bytes 4 (last_table_heap_data_page_id m)) @ enc_property 105 (nat_bytes 8 (unat (tuple_count m)))"

definition table_meta_ok :: "TableMeta \<Rightarrow> bool" where
  "table_meta_ok m \<longleftrightarrow> length (tm_name m) < 2 ^ 32 \<and> fits 4 (tm_table_oid m) \<and> schema_ok (tm_schema m) \<and>
     fits 4 (last_table_data_page_id m) \<and> fits 4 (last_table_heap_data_page_id m)"

definition table_meta_back :: "TableMeta \<Rightarrow> TableMeta" where
  "table_meta_back m = m\<lparr>tm_schema := schema_back (tm_schema m)\<rparr>"

definition enc_IndexMeta :: "IndexMeta \<Rightarrow> bytes" where
  "enc_IndexMeta m = enc_property 100 (enc_string (im_name m)) @ enc_property 101 (int_bytes 4 (im_table_id m)) @
     enc_property 102 (enc_object (enc_Column (im_key_col m))) @ enc_property 103 (int_bytes 4 (im_index_id m)) @
     enc_property 104 (nat_bytes 1 (IndexConstraintType_code (im_constraint m))) @
     enc_property 105 (int_bytes 4 (im_header_page_id m)) @ enc_property 106 (int_bytes 4 (IndexType_code (im_index_type m)))"

definition index_meta_ok :: "IndexMeta \<Rightarrow> bool" where
  "index_meta_ok m \<longleftrightarrow> length (im_name m) < 2 ^ 32 \<and> fits 4 (im_table_id m) \<and> fits 4 (im_index_id m) \<and>
     column_ok (im_key_col m) \<and> fits 4 (im_header_page_id m)"

definition index_meta_back :: "IndexMeta \<Rightarrow> IndexMeta" where
  "index_meta_back m = m\<lparr>im_key_col := column_back (im_key_col m)\<rparr>"

section \<open>Round trips\<close>

lemma TypeId_of_TypeId_code [simp]: "TypeId_of (TypeId_code t) = Inr t"
  by (cases t) (simp_all add: TypeId_of_def TypeId_of_code_def)

lemma IndexConstraintType_of_code [simp]: "IndexConstraintType_of (IndexConstraintType_code t) = Inr t"
  by (cases t) (simp_all add: IndexConstraintType_of_def)

lemma IndexType_of_code [simp]: "IndexType_of (IndexType_code t) = Inr t"
  by (cases t) (simp_all add: IndexType_of_def)

lemma code_bounds: "TypeId_code t < 256" "IndexConstraintType_code c < 256" "fits 4 (IndexType_code i)"
proof -
  show "TypeId_code t < 256" by (cases t) simp_all
  show "IndexConstraintType_code c < 256" by (cases c) simp_all
  show "fits 4 (IndexType_code i)" by (cases i) (simp_all add: fits_def)
qed

lemma column_back_eq: "column_back c = (mk_column_rec (column_name c) (column_type c) (column_length c))\<lparr>storage_offset := storage_offset c\<rparr>"
  by (cases c) (simp add: column_back_def mk_column_rec_def)

lemma schema_back_eq: "schema_back s = \<lparr>columns = map column_back (columns s), uninlined_columns = uninlined_columns s,
    tuple_inline_part_storage_size = tuple_inline_part_storage_size s\<rparr>"
  by (cases s) (simp add: schema_back_def)

lemma table_meta_back_eq: "table_meta_back m = \<lparr>tm_schema = schema_back (tm_schema m), tm_name = tm_name m,
    tm_table_oid = tm_table_oid m, last_table_data_page_id = last_table_data_page_id m,
    last_table_heap_data_page_id = last_table_heap_data_page_id m, tuple_count = tuple_count m\<rparr>"
  by (cases m) (simp add: table_meta_back_def)

lemma index_meta_back_eq: "index_meta_back m = \<lparr>im_name = im_name m, im_table_id = im_table_id m, im_index_id = im_index_id m,
    im_key_col = column_back (im_key_col m), im_constraint = im_constraint m, im_header_page_id = im_header_page_id m,
    im_index_type = im_index_type m\<rparr>"
  by (cases m) (simp add: index_meta_back_def)

lemma lift_Inr [simp]: "lift (Inr x) = ret x"
  by (simp add: fun_eq_iff act_simps)

lemma bind_ret: "bind (ret x) f = f x"
  by (simp add: fun_eq_iff act_simps)

context streams
begin

lemma inp_decoded:
  assumes "inp b m bs k" and "f k = Inr x"
  shows "inp b (bind m (\<lambda>k. lift (f k))) bs x"
proof -
  have "inp False (lift (f k)) [] x" using assms(2) by (simp add: yields_ret)
  from yields_bind [where k = "\<lambda>k. lift (f k)", OF assms(1) this] show ?thesis by simp
qed

lemma inp_TypeId: "inp False (Read_TypeId ReadData) (enc_TypeId t) t"
  unfolding Read_TypeId_def enc_TypeId_def 
  by (rule inp_decoded, rule inp_uint) (simp_all add: code_bounds)

text \<open>Fields of an object are read one after the other.\<close>

lemma inp_field:
  assumes "inp False R bs x" and "inp False (k x) rest y" and "field_id < 2 ^ 16"
  shows "inp False (bind (ReadProperty ReadData field_id R) k) (enc_property field_id bs @ rest) y"
  by (rule yields_bind [where k = k, OF yields_weaken [OF inp_property [OF assms(3,1)]] assms(2)])

lemma inp_last_field:
  assumes "inp False R bs x" and "k x = ret y" and "field_id < 2 ^ 16"
  shows "inp False (bind (ReadProperty ReadData field_id R) k) (enc_property field_id bs) y"
  using inp_field [of R bs x k "[]" y field_id] assms by (simp add: yields_ret)

lemma Val_codec:
  assumes "value_ok v" and "\<not> is_null v"
  shows "out (case type_id v of
       INVALID \<Rightarrow> throw (RuntimeException ''Invalid type'')
     | BOOLEAN \<Rightarrow> bind (lift (get_Int8 (val v))) (\<lambda>x. WriteProperty WriteData 102 (WriteValue_int WriteData 1 (sint x)))
     | INTEGER \<Rightarrow> bind (lift (get_Int32 (val v))) (\<lambda>x. WriteProperty WriteData 102 (WriteValue_int WriteData 4 (sint x)))
     | TIMESTAMP \<Rightarrow> bind (lift (get_UInt64 (val v))) (\<lambda>x. WriteProperty WriteData 102 (WriteValue_uint WriteData 8 (unat x)))
     | VARCHAR \<Rightarrow> bind (lift (get_Str (val v))) (\<lambda>x. WriteProperty WriteData 102 (WriteValue_string WriteData x)))
     (enc_property 102 (enc_Val (val v)))"
  using assms
  by (cases "val v") (simp_all add: value_ok_def get_Int8_def get_Int32_def get_UInt64_def get_Str_def bind_ret codec_intros)

lemma sint_fits: "fits 1 (sint (x :: 8 word))" "fits 4 (sint (y :: 32 word))"
proof -
  show "fits 1 (sint x)" using sint_ge [of x] sint_lt [of x] by (simp add: fits_def)
  show "fits 4 (sint y)" using sint_ge [of y] sint_lt [of y] by (simp add: fits_def)
qed

lemma value_codec:
  assumes "value_ok v"
  shows "out (Value_Serialize WriteData v) (enc_Value v)" and "inp False (Value_Deserialize ReadData) (enc_Value v) (value_back v)"
proof -
  show "out (Value_Serialize WriteData v) (enc_Value v)"
    unfolding Value_Serialize_def enc_Value_def WriteValue_TypeId_def enc_TypeId_def
    by (intro emits_bind out_property out_basic) (simp_all add: emits_ret Val_codec assms)
  have u64: "unat x < 256 ^ 8" for x :: "64 word" using unsigned_less [of x] by simp
  show "inp False (Value_Deserialize ReadData) (enc_Value v) (value_back v)"
  proof (cases "is_null v")
    case True
    then show ?thesis unfolding Value_Deserialize_def enc_Value_def
      by simp (rule inp_field inp_last_field inp_TypeId inp_bool | simp add: value_back_def; fail)+
  next
    case False
    have same: "Value_of_type (type_id v)\<lparr>is_null := False, val := val v\<rparr> = v" using False by (cases v) (simp add: Value_of_type_def)
    have i1: "inp False (ReadSigned ReadData 1) (int_bytes 1 (sint x)) (sint x)" for x :: "8 word" by (rule inp_int [OF sint_fits(1)]) simp
    have i4: "inp False (ReadSigned ReadData 4) (int_bytes 4 (sint x)) (sint x)" for x :: "32 word" by (rule inp_int [OF sint_fits(2)]) simp
    have "inp False (case type_id v of
         INVALID \<Rightarrow> throw (RuntimeException ''Cannot serialize invalid type'')
       | BOOLEAN \<Rightarrow> bind (ReadProperty ReadData 102 (ReadSigned ReadData 1)) (\<lambda>x. ret (Value_of_type (type_id v)\<lparr>is_null := False, val := Int8 (word_of_int x)\<rparr>))
       | INTEGER \<Rightarrow> bind (ReadProperty ReadData 102 (ReadSigned ReadData 4)) (\<lambda>x. ret (Value_of_type (type_id v)\<lparr>is_null := False, val := Int32 (word_of_int x)\<rparr>))
       | TIMESTAMP \<Rightarrow> bind (ReadProperty ReadData 102 (ReadUnsigned ReadData 8)) (\<lambda>x. ret (Value_of_type (type_id v)\<lparr>is_null := False, val := UInt64 (word_of_nat x)\<rparr>))
       | VARCHAR \<Rightarrow> bind (ReadProperty ReadData 102 (ReadString ReadData)) (\<lambda>x. ret (Value_of_type (type_id v)\<lparr>is_null := False, val := Str x\<rparr>)))
       (enc_property 102 (enc_Val (val v))) v"
      using assms False same
      by (cases "val v") (auto simp: value_ok_def u64 simp del: One_nat_def intro!: inp_last_field [OF i1] inp_last_field [OF i4]
          inp_last_field [OF inp_uint] inp_last_field [OF inp_string])
    then show ?thesis using False unfolding Value_Deserialize_def enc_Value_def Let_def value_back_def
      by (simp, intro inp_field [OF inp_TypeId] inp_field [OF inp_bool]) simp_all
  qed
qed

lemma column_codec:
  assumes "column_ok c"
  shows "out (Column_Serialize WriteData c) (enc_Column c)" and "inp False (Column_Deserialize ReadData) (enc_Column c) (column_back c)"
proof -
  show "out (Column_Serialize WriteData c) (enc_Column c)"
    unfolding Column_Serialize_def enc_Column_def WriteValue_TypeId_def enc_TypeId_def using assms
    by (intro codec_intros) (simp_all add: column_ok_def)
  show "inp False (Column_Deserialize ReadData) (enc_Column c) (column_back c)"
    unfolding Column_Deserialize_def enc_Column_def
    by (rule inp_field inp_last_field inp_string inp_uint inp_TypeId
        | insert assms, simp add: column_ok_def column_back_eq; fail)+
qed

lemma schema_codec:
  assumes "schema_ok s"
  shows "out (Schema_Serialize WriteData s) (enc_Schema s)" and "inp False (Schema_Deserialize ReadData) (enc_Schema s) (schema_back s)"
proof -
  have c: "column_ok c" if "c \<in> set (columns s)" for c using assms that by (simp add: schema_ok_def)
  show "out (Schema_Serialize WriteData s) (enc_Schema s)"
    unfolding Schema_Serialize_def enc_Schema_def
    by (intro codec_intros column_codec c) simp_all
  have inp_columns: "inp False (Read_vector ReadData (Read_object ReadData (Column_Deserialize ReadData)))
      (enc_vector (\<lambda>c. enc_object (enc_Column c)) (columns s)) (map column_back (columns s))"
    using assms by (intro inp_vector inp_object column_codec c) (simp_all add: schema_ok_def)
  have inp_uninlined: "inp False (Read_vector ReadData (ReadUnsigned ReadData 4)) (enc_vector (nat_bytes 4) (uninlined_columns s)) (uninlined_columns s)"
    using assms inp_uint [of _ 4] inp_vector [of "uninlined_columns s" _ "nat_bytes 4" id] by (auto simp: schema_ok_def)
  show "inp False (Schema_Deserialize ReadData) (enc_Schema s) (schema_back s)"
    unfolding Schema_Deserialize_def enc_Schema_def
    by (rule inp_field inp_last_field inp_columns inp_uninlined inp_uint | insert assms, simp add: schema_ok_def schema_back_eq; fail)+
qed

lemma table_meta_codec:
  assumes "table_meta_ok m"
  shows "out (TableMeta_Serialize WriteData m) (enc_TableMeta m)" and "inp False (TableMeta_Deserialize ReadData) (enc_TableMeta m) (table_meta_back m)"
proof -
  have s: "schema_ok (tm_schema m)" using assms by (simp add: table_meta_ok_def)
  show "out (TableMeta_Serialize WriteData m) (enc_TableMeta m)"
    unfolding TableMeta_Serialize_def enc_TableMeta_def using assms
    by (intro codec_intros schema_codec s) (simp_all add: table_meta_ok_def)
  have count: "unat (tuple_count m) < 256 ^ 8" using unsigned_less [of "tuple_count m"] by simp
  show "inp False (TableMeta_Deserialize ReadData) (enc_TableMeta m) (table_meta_back m)"
    unfolding TableMeta_Deserialize_def enc_TableMeta_def
    by (rule inp_field inp_last_field inp_string inp_object inp_int inp_uint schema_codec(2) s count
        | insert assms, simp add: table_meta_ok_def table_meta_back_eq; fail)+
qed

lemma index_meta_codec:
  assumes "index_meta_ok m"
  shows "out (IndexMeta_Serialize WriteData m) (enc_IndexMeta m)" and "inp False (IndexMeta_Deserialize ReadData) (enc_IndexMeta m) (index_meta_back m)"
proof -
  have c: "column_ok (im_key_col m)" using assms by (simp add: index_meta_ok_def)
  show "out (IndexMeta_Serialize WriteData m) (enc_IndexMeta m)"
    unfolding IndexMeta_Serialize_def enc_IndexMeta_def using assms
    by (intro codec_intros column_codec c) (simp_all add: index_meta_ok_def)
  show "inp False (IndexMeta_Deserialize ReadData) (enc_IndexMeta m) (index_meta_back m)"
    unfolding IndexMeta_Deserialize_def enc_IndexMeta_def
    by (rule inp_field inp_last_field inp_string inp_object inp_decoded inp_int inp_uint column_codec(2) c
        | insert assms, simp add: index_meta_ok_def code_bounds index_meta_back_eq; fail)+
qed

end

section \<open>Properties\<close>

lemma mk_MemoryStream_ready:
  "0 < capacity \<Longrightarrow> capacity < 2 ^ 63 \<Longrightarrow> ms_ready (mk_MemoryStream fresh capacity)"
  "ms_written (mk_MemoryStream fresh capacity) = []"
  by (simp_all add: mk_MemoryStream_def ms_ready_def ms_inv_def ms_written_def)

lemma mk_FileStream_ready:
  "mk_FileStream fs False path = Inr s \<Longrightarrow> fs_ready s \<and> fs_written s = []"
  by (auto simp: mk_FileStream_def fs_ready_def fs_written_def split: option.splits)

text \<open>
  C36: A value whose alternative is the one its type asks for is written to a memory stream, the
  stream is rewound and read: what comes back is the value. Of a null value only the type comes
  back: the constructor \<^verbatim>\<open>Value(type_id)\<close> that \<^verbatim>\<open>Deserialize\<close> returns does not set \<^verbatim>\<open>is_null_\<close>.
\<close>

theorem value_stream_roundtrip:
  assumes "value_ok v" and "0 < capacity" and "capacity < 2 ^ 63" and "length (enc_object (enc_Value v)) \<le> 2 ^ 62"
  shows "\<exists>s. BinarySerializer_Serialize ms_WriteData (Value_Serialize ms_WriteData v) (mk_MemoryStream fresh capacity) = (Inr (), s) \<and>
     fst (DeserializeRaw ms_ReadData (Value_Deserialize ms_ReadData) (ms_Rewind s)) =
       Inr (if is_null v then Value_of_type (type_id v) else v)"
  using ms_re.roundtrip [OF ms.value_codec [OF assms(1)] mk_MemoryStream_ready(1) [OF assms(2,3)] mk_MemoryStream_ready(2) assms(4)]
  by (simp add: value_back_def)

theorem value_stream_roundtrip_witness:
  "(\<exists>s. BinarySerializer_Serialize ms_WriteData (Value_Serialize ms_WriteData \<lparr>type_id = VARCHAR, val = Str ''ab'', is_null = False\<rparr>)
      (mk_MemoryStream (\<lambda>_. 0) 4) = (Inr (), s) \<and>
     fst (DeserializeRaw ms_ReadData (Value_Deserialize ms_ReadData) (ms_Rewind s)) =
       Inr \<lparr>type_id = VARCHAR, val = Str ''ab'', is_null = False\<rparr>)"
  using value_stream_roundtrip [of "\<lparr>type_id = VARCHAR, val = Str ''ab'', is_null = False\<rparr>" 4 "\<lambda>_. 0"]
  by (simp add: value_ok_def enc_Value_def enc_object_def enc_property_def enc_TypeId_def enc_bool_def enc_string_def)

text \<open>
  C35: Table metadata written to a memory stream of any positive capacity and read back is the
  same table: name, ids, tuple count, and the schema with every column's name, type, width and
  storage offset. What does not come back is what \<^verbatim>\<open>Column::Serialize\<close> leaves out: the columns'
  position in the schema, and whether they are auto-increment.
\<close>

theorem table_meta_roundtrip:
  assumes "table_meta_ok m" and "0 < capacity" and "capacity < 2 ^ 63" and "length (enc_object (enc_TableMeta m)) \<le> 2 ^ 62"
  shows "\<exists>s. BinarySerializer_Serialize ms_WriteData (TableMeta_Serialize ms_WriteData m) (mk_MemoryStream fresh capacity) = (Inr (), s) \<and>
     fst (DeserializeRaw ms_ReadData (TableMeta_Deserialize ms_ReadData) (ms_Rewind s)) =
       Inr (m\<lparr>tm_schema := (tm_schema m)\<lparr>columns := map (\<lambda>c. c\<lparr>schema_offset := 0, is_auto_increment := False\<rparr>)
              (columns (tm_schema m))\<rparr>\<rparr>)"
  using ms_re.roundtrip [OF ms.table_meta_codec [OF assms(1)] mk_MemoryStream_ready(1) [OF assms(2,3)] mk_MemoryStream_ready(2) assms(4)]
  by (simp add: table_meta_back_def schema_back_def column_back_def [abs_def])

definition demo_table :: TableMeta where
  "demo_table = \<lparr>tm_schema = \<lparr>columns = [mk_column_rec ''id'' INTEGER 4], uninlined_columns = [], tuple_inline_part_storage_size = 4\<rparr>,
     tm_name = ''t'', tm_table_oid = 0, last_table_data_page_id = 1, last_table_heap_data_page_id = 1, tuple_count = 2\<rparr>"

lemmas demo_sizes = enc_object_def enc_property_def enc_string_def enc_vector_def enc_TypeId_def enc_Column_def enc_Schema_def
  enc_TableMeta_def enc_IndexMeta_def

theorem table_meta_roundtrip_witness:
  "\<exists>s. BinarySerializer_Serialize ms_WriteData (TableMeta_Serialize ms_WriteData demo_table) (mk_MemoryStream (\<lambda>_. 0) 1) = (Inr (), s) \<and>
     fst (DeserializeRaw ms_ReadData (TableMeta_Deserialize ms_ReadData) (ms_Rewind s)) = Inr demo_table"
  using table_meta_roundtrip [of demo_table 1 "\<lambda>_. 0"]
  by (simp add: demo_table_def table_meta_ok_def schema_ok_def column_ok_def fits_def demo_sizes mk_column_rec_def)

text \<open>
  Index metadata written to a file and read back from its start is the same, less what
  \<^verbatim>\<open>Column::Serialize\<close> leaves out of the key column, whatever the file held before.
\<close>

theorem index_meta_roundtrip:
  assumes "index_meta_ok m" and "mk_FileStream fs False path = Inr s"
  shows "\<exists>s'. BinarySerializer_Serialize fs_WriteData (IndexMeta_Serialize fs_WriteData m) s = (Inr (), s') \<and>
     fst (DeserializeRaw fs_ReadData (IndexMeta_Deserialize fs_ReadData) (fs_Rewind s')) =
       Inr (m\<lparr>im_key_col := (im_key_col m)\<lparr>schema_offset := 0, is_auto_increment := False\<rparr>\<rparr>)"
  using fs_re.roundtrip [OF fs.index_meta_codec [OF assms(1)], of s] mk_FileStream_ready [OF assms(2)]
  by (auto simp: index_meta_back_def column_back_def)

theorem index_meta_roundtrip_witness:
  "\<exists>s s'. mk_FileStream [''f'' \<mapsto> [1, 2, 3]] False ''f'' = Inr s \<and>
     BinarySerializer_Serialize fs_WriteData (IndexMeta_Serialize fs_WriteData
       (mk_IndexMeta 7 ''i'' 0 (mk_column_rec ''id'' INTEGER 4) PRIMARY BPlusTreeIndex)) s = (Inr (), s') \<and>
     fst (DeserializeRaw fs_ReadData (IndexMeta_Deserialize fs_ReadData) (fs_Rewind s')) =
       Inr (mk_IndexMeta 7 ''i'' 0 (mk_column_rec ''id'' INTEGER 4) PRIMARY BPlusTreeIndex)"
proof -
  let ?m = "mk_IndexMeta 7 ''i'' 0 (mk_column_rec ''id'' INTEGER 4) PRIMARY BPlusTreeIndex"
  have ok: "index_meta_ok ?m"
    by (simp add: index_meta_ok_def mk_IndexMeta_def column_ok_def mk_column_rec_def fits_def)
  obtain s where s: "mk_FileStream [''f'' \<mapsto> [1, 2, 3]] False ''f'' = Inr s" by (simp add: mk_FileStream_def)
  show ?thesis using index_meta_roundtrip [OF ok s] s by (auto simp: mk_IndexMeta_def mk_column_rec_def)
qed

end
