(* ===== verification/Catalogs.thy ===== *)
theory Catalogs
  imports MetaCodecs Disks
begin

text \<open>
  The catalog: \<^verbatim>\<open>meta/catalog.hpp\<close>, \<^verbatim>\<open>meta/catalog.cpp\<close> (\<^verbatim>\<open>CreateIndex\<close>, which allocates a
  page, is with the index), and \<^verbatim>\<open>CreateFileIfNotExists\<close> of \<^verbatim>\<open>common/fs_utils.hpp\<close>.

  The four \<^verbatim>\<open>unordered_map\<close>s are association lists in the order of iteration; a
  \<^verbatim>\<open>unique_ptr\<close> is an option. The catalog works on the files of the disk it shares with the disk
  manager. Creating a file fails where \<open>creatable\<close> says so; directories are not modelled apart
  from that. A stream is opened on a file, used and closed: what was written stays, also when an
  exception ends it, and nothing is ever truncated.
\<close>

section \<open>State\<close>

record Catalog =
  tables :: "(int \<times> TableMeta option) list"
  indexes :: "(int \<times> IndexMeta option) list"
  index_names :: "(string \<times> (string \<times> int) list) list"
  table_names :: "(string \<times> int) list"

definition magic_bytes :: string where
  "magic_bytes = ''GAVINDB_CATALOG_MANAGER''"

definition empty_catalog :: Catalog where
  "empty_catalog = \<lparr>tables = [], indexes = [], index_names = [], table_names = []\<rparr>"

definition emplace :: "'k \<Rightarrow> 'v \<Rightarrow> ('k \<times> 'v) list \<Rightarrow> ('k \<times> 'v) list" where
  "emplace k v m = (if map_of m k = None then m @ [(k, v)] else m)"

section \<open>Lookup\<close>

definition GetTableByName :: "string \<Rightarrow> Catalog \<Rightarrow> TableMeta result" where
  "GetTableByName table_name c =
     (case map_of (table_names c) table_name of
        None \<Rightarrow> Inl (Exception ''Table not found when getting table info'')
      | Some oid \<Rightarrow>
          (case map_of (tables c) oid of
             None \<Rightarrow> Inl OutOfRange
           | Some None \<Rightarrow> Inl (UndefinedBehaviour ''null unique_ptr'')
           | Some (Some m) \<Rightarrow> Inr m))"

definition GetTableName :: "int \<Rightarrow> Catalog \<Rightarrow> string result" where
  "GetTableName table_oid c =
     (case map_of (tables c) table_oid of
        None \<Rightarrow> Inl (Exception ''Table not found when getting table name'')
      | Some None \<Rightarrow> Inl (UndefinedBehaviour ''null unique_ptr'')
      | Some (Some m) \<Rightarrow> Inr (tm_name m))"

definition GetTable :: "int \<Rightarrow> Catalog \<Rightarrow> TableMeta result" where
  "GetTable table_oid c = rbind (GetTableName table_oid c) (\<lambda>n. GetTableByName n c)"

section \<open>Serialization\<close>

abbreviation write_tables :: "'s writer \<Rightarrow> (int \<times> TableMeta option) list \<Rightarrow> ('s, unit) action" where
  "write_tables wd \<equiv> WriteValue_map wd (WriteValue_int wd 4) (WriteValue_ptr wd (\<lambda>m. WriteValue_object wd (TableMeta_Serialize wd m)))"

abbreviation write_table_names :: "'s writer \<Rightarrow> (string \<times> int) list \<Rightarrow> ('s, unit) action" where
  "write_table_names wd \<equiv> WriteValue_map wd (WriteValue_string wd) (WriteValue_int wd 4)"

abbreviation write_indexes :: "'s writer \<Rightarrow> (int \<times> IndexMeta option) list \<Rightarrow> ('s, unit) action" where
  "write_indexes wd \<equiv> WriteValue_map wd (WriteValue_int wd 4) (WriteValue_ptr wd (\<lambda>m. WriteValue_object wd (IndexMeta_Serialize wd m)))"

abbreviation write_index_names :: "'s writer \<Rightarrow> (string \<times> (string \<times> int) list) list \<Rightarrow> ('s, unit) action" where
  "write_index_names wd \<equiv> WriteValue_map wd (WriteValue_string wd) (write_table_names wd)"

definition Catalog_Serialize :: "'s writer \<Rightarrow> Catalog \<Rightarrow> ('s, unit) action" where
  "Catalog_Serialize wd c =
     bind (WritePropertyWithDefault wd False 100 (write_tables wd) (tables c) []) (\<lambda>_.
     bind (WritePropertyWithDefault wd False 101 (write_table_names wd) (table_names c) []) (\<lambda>_.
     bind (WritePropertyWithDefault wd False 102 (write_indexes wd) (indexes c) []) (\<lambda>_.
     bind (WritePropertyWithDefault wd False 103 (write_index_names wd) (index_names c) []) (\<lambda>_.
     WriteProperty wd 104 (WriteValue_string wd magic_bytes)))))"

definition Catalog_Deserialize :: "'s reader \<Rightarrow> ('s, Catalog) des" where
  "Catalog_Deserialize rd =
     bind (ReadPropertyWithDefault rd 100 (Read_map rd (ReadSigned rd 4) (Read_unique_ptr rd (TableMeta_Deserialize rd))) []) (\<lambda>ts.
     bind (ReadPropertyWithDefault rd 101 (Read_map rd (ReadString rd) (ReadSigned rd 4)) []) (\<lambda>tns.
     bind (ReadPropertyWithDefault rd 102 (Read_map rd (ReadSigned rd 4) (Read_unique_ptr rd (IndexMeta_Deserialize rd))) []) (\<lambda>is.
     bind (ReadPropertyWithDefault rd 103 (Read_map rd (ReadString rd) (Read_map rd (ReadString rd) (ReadSigned rd 4))) []) (\<lambda>ins.
     bind (ReadProperty rd 104 (ReadString rd)) (\<lambda>m.
     if m \<noteq> magic_bytes then throw (StdRuntimeError ''Catalog file is corrupted or incompatible.'')
     else ret \<lparr>tables = ts, indexes = is, index_names = ins, table_names = tns\<rparr>)))))"

section \<open>Files\<close>

definition CreateFileIfNotExists :: "string \<Rightarrow> (Disk, unit) action" where
  "CreateFileIfNotExists path =
     bind (gets (\<lambda>d. files d path)) (\<lambda>f.
     case f of
       Some c \<Rightarrow> ret ()
     | None \<Rightarrow> bind (gets (\<lambda>d. creatable d path)) (\<lambda>ok.
         if ok then modify (\<lambda>d. d\<lparr>files := (files d)(path \<mapsto> [])\<rparr>)
         else throw (IOException (''failed to create file: '' @ path))))"

definition with_FileStream :: "string \<Rightarrow> (FileStream, 'a) action \<Rightarrow> (Disk, 'a) action" where
  "with_FileStream path body d =
     (case mk_FileStream (files d) (io_bad d) path of
        Inl e \<Rightarrow> (Inl e, d)
      | Inr s \<Rightarrow> (case body s of (r, s') \<Rightarrow> (r, d\<lparr>files := (files d)(path \<mapsto> fs_content s')\<rparr>)))"

fun PersistTables :: "(int \<times> TableMeta option) list \<Rightarrow> (Disk, unit) action" where
  "PersistTables [] = ret ()"
| "PersistTables ((table_oid, None) # ts) = throw (UndefinedBehaviour ''null unique_ptr'')"
| "PersistTables ((table_oid, Some table_meta) # ts) =
     bind (with_FileStream (GetTableMetaPath (tm_name table_meta)) (TableMeta_Serialize fs_WriteData table_meta)) (\<lambda>_.
     PersistTables ts)"

definition PersistToDisk :: "Catalog \<Rightarrow> (Disk, unit) action" where
  "PersistToDisk c =
     bind (CreateFileIfNotExists GetSystemCatalogPath) (\<lambda>_.
     bind (with_FileStream GetSystemCatalogPath (Catalog_Serialize fs_WriteData c)) (\<lambda>_.
     PersistTables (tables c)))"

fun EnsureTableFilesExist :: "(string \<times> int) list \<Rightarrow> (Disk, unit) action" where
  "EnsureTableFilesExist [] = ret ()"
| "EnsureTableFilesExist ((table_name, table_oid) # ns) =
     bind (gets (\<lambda>d. files d (GetTableDataPath table_name) \<noteq> None)) (\<lambda>data_exists.
     bind (gets (\<lambda>d. files d (GetTableMetaPath table_name) \<noteq> None)) (\<lambda>meta_exists.
     if \<not> data_exists \<or> \<not> meta_exists
     then throw (Exception (''Data file or meta file not found for table '' @ table_name))
     else EnsureTableFilesExist ns))"

definition run_Deserializer :: "('s, 'a) des \<Rightarrow> ('s, 'a) action" where
  "run_Deserializer m s = (case m (mk_BinaryDeserializer s) of (r, d) \<Rightarrow> (r, des_stream d))"

definition mk_Catalog :: "(Disk, Catalog) action" where
  "mk_Catalog =
     bind (gets (\<lambda>d. files d GetSystemCatalogPath \<noteq> None)) (\<lambda>exists.
     bind (if exists then with_FileStream GetSystemCatalogPath (run_Deserializer (Catalog_Deserialize fs_ReadData))
           else bind (PersistToDisk empty_catalog) (\<lambda>_. ret empty_catalog)) (\<lambda>c.
     bind (EnsureTableFilesExist (table_names c)) (\<lambda>_. ret c)))"

section \<open>Creating tables\<close>

definition CreateTable :: "string \<Rightarrow> Schema \<Rightarrow> (Catalog \<times> Disk, int option) action" where
  "CreateTable table_name schema =
     bind (gets (\<lambda>(c, d). map_of (table_names c) table_name \<noteq> None)) (\<lambda>exists.
     if exists then ret None
     else
       bind (gets (\<lambda>(c, d). sint (word_of_nat (length (tables c)) :: 32 word))) (\<lambda>table_oid.
       bind (modify (\<lambda>(c, d). (c\<lparr>table_names := emplace table_name table_oid (table_names c),
               tables := emplace table_oid (Some (mk_TableMeta schema table_name table_oid)) (tables c),
               index_names := emplace table_name [] (index_names c)\<rparr>, d))) (\<lambda>_.
       bind (zoom snd (\<lambda>d (c, _). (c, d)) (CreateFileIfNotExists (GetTableMetaPath table_name))) (\<lambda>_.
       bind (zoom snd (\<lambda>d (c, _). (c, d)) (CreateFileIfNotExists (GetTableDataPath table_name))) (\<lambda>_.
       bind (gets fst) (\<lambda>c.
       bind (zoom snd (\<lambda>d (c, _). (c, d)) (PersistToDisk c)) (\<lambda>_.
       ret (Some table_oid))))))))"

section \<open>The format of the catalog file\<close>

definition enc_default :: "nat \<Rightarrow> ('a list \<Rightarrow> bytes) \<Rightarrow> 'a list \<Rightarrow> bytes" where
  "enc_default f enc xs = (if xs = [] then [] else enc_property f (enc xs))"

abbreviation "enc_tables \<equiv> enc_vector (enc_entry (int_bytes 4) (enc_ptr (\<lambda>m. enc_object (enc_TableMeta m))))"
abbreviation "enc_indexes \<equiv> enc_vector (enc_entry (int_bytes 4) (enc_ptr (\<lambda>m. enc_object (enc_IndexMeta m))))"
abbreviation "enc_names \<equiv> enc_vector (enc_entry enc_string (int_bytes 4))"
abbreviation "enc_index_names \<equiv> enc_vector (enc_entry enc_string enc_names)"

definition enc_Catalog :: "Catalog \<Rightarrow> bytes" where
  "enc_Catalog c = enc_default 100 enc_tables (tables c) @ enc_default 101 enc_names (table_names c) @
     enc_default 102 enc_indexes (indexes c) @ enc_default 103 enc_index_names (index_names c) @
     enc_property 104 (enc_string magic_bytes)"

definition names_ok :: "(string \<times> int) list \<Rightarrow> bool" where
  "names_ok ns \<longleftrightarrow> length ns < 2 ^ 64 \<and> distinct (map fst ns) \<and> (\<forall>(n, i) \<in> set ns. length n < 2 ^ 32 \<and> fits 4 i)"

definition tables_ok :: "(int \<times> TableMeta option) list \<Rightarrow> bool" where
  "tables_ok ts \<longleftrightarrow> length ts < 2 ^ 64 \<and> distinct (map fst ts) \<and>
     (\<forall>(i, m) \<in> set ts. fits 4 i \<and> (case m of None \<Rightarrow> False | Some m \<Rightarrow> table_meta_ok m))"

definition indexes_ok :: "(int \<times> IndexMeta option) list \<Rightarrow> bool" where
  "indexes_ok is \<longleftrightarrow> length is < 2 ^ 64 \<and> distinct (map fst is) \<and>
     (\<forall>(i, m) \<in> set is. fits 4 i \<and> (case m of None \<Rightarrow> False | Some m \<Rightarrow> index_meta_ok m))"

definition index_names_ok :: "(string \<times> (string \<times> int) list) list \<Rightarrow> bool" where
  "index_names_ok ins \<longleftrightarrow> length ins < 2 ^ 64 \<and> distinct (map fst ins) \<and> (\<forall>(n, ns) \<in> set ins. length n < 2 ^ 32 \<and> names_ok ns)"

definition catalog_ok :: "Catalog \<Rightarrow> bool" where
  "catalog_ok c \<longleftrightarrow> tables_ok (tables c) \<and> names_ok (table_names c) \<and> indexes_ok (indexes c) \<and> index_names_ok (index_names c)"

definition catalog_back :: "Catalog \<Rightarrow> Catalog" where
  "catalog_back c = c\<lparr>tables := map (apsnd (map_option table_meta_back)) (tables c),
     indexes := map (apsnd (map_option index_meta_back)) (indexes c)\<rparr>"

text \<open>What follows a missing property is one with a greater field id.\<close>

definition starts :: "nat \<Rightarrow> bytes \<Rightarrow> bool" where
  "starts lo bs \<longleftrightarrow> (\<exists>g b. bs = enc_property g b \<and> lo < g \<and> g < 2 ^ 16)"

lemma starts_property: "lo < g \<Longrightarrow> g < 2 ^ 16 \<Longrightarrow> starts lo (enc_property g b)"
  unfolding starts_def by blast

lemma starts_default: "lo < g \<Longrightarrow> g < 2 ^ 16 \<Longrightarrow> starts lo rest \<Longrightarrow> starts lo (enc_default g enc xs @ rest)"
  unfolding starts_def enc_default_def enc_property_def by (auto intro: exI [of _ g])

lemma apsnd_id: "map (apsnd id) xs = xs"
  by (induction xs) auto

context streams
begin

lemma inp_optional:
  assumes "xs \<noteq> [] \<Longrightarrow> inp False R (enc xs) (bk xs)" and "bk [] = []" and "inp True (k (bk xs)) rest y"
    and "starts field_id rest" and "field_id < 2 ^ 16"
  shows "inp True (bind (ReadPropertyWithDefault ReadData field_id R []) k) (enc_default field_id enc xs @ rest) y"
proof (cases "xs = []")
  case True
  obtain g b where g: "rest = enc_property g b" "field_id < g" "g < 2 ^ 16" using assms(4) unfolding starts_def by blast
  have "inp True (k []) (enc_property g b) y" using assms(2,3) True g(1) by simp
  from inp_absent [where k = k, OF this g(3)] g True show ?thesis by (simp add: enc_default_def)
next
  case False
  from inp_present [where k = k, OF assms(1) [OF False] yields_weaken [OF assms(3)] assms(5)] False show ?thesis by (simp add: enc_default_def)
qed

lemma tables_codec:
  assumes "tables_ok ts"
  shows "out (write_tables WriteData ts) (enc_tables ts)"
    and "inp False (Read_map ReadData (ReadSigned ReadData 4) (Read_unique_ptr ReadData (TableMeta_Deserialize ReadData)))
      (enc_tables ts) (map (apsnd (map_option table_meta_back)) ts)"
proof -
  have ok: "fits 4 i \<and> (\<exists>m. om = Some m \<and> table_meta_ok m)" if "(i, om) \<in> set ts" for i om
    using assms that by (auto simp: tables_ok_def split: option.splits)
  show "out (write_tables WriteData ts) (enc_tables ts)"
    by (rule out_map) (auto dest!: ok intro!: out_basic out_ptr out_object table_meta_codec)
  show "inp False (Read_map ReadData (ReadSigned ReadData 4) (Read_unique_ptr ReadData (TableMeta_Deserialize ReadData)))
      (enc_tables ts) (map (apsnd (map_option table_meta_back)) ts)"
    using assms by (intro inp_map) (auto simp: tables_ok_def dest!: ok intro!: inp_int inp_ptr table_meta_codec simp del: enc_ptr.simps)
qed

lemma indexes_codec:
  assumes "indexes_ok ts"
  shows "out (write_indexes WriteData ts) (enc_indexes ts)"
    and "inp False (Read_map ReadData (ReadSigned ReadData 4) (Read_unique_ptr ReadData (IndexMeta_Deserialize ReadData)))
      (enc_indexes ts) (map (apsnd (map_option index_meta_back)) ts)"
proof -
  have ok: "fits 4 i \<and> (\<exists>m. om = Some m \<and> index_meta_ok m)" if "(i, om) \<in> set ts" for i om
    using assms that by (auto simp: indexes_ok_def split: option.splits)
  show "out (write_indexes WriteData ts) (enc_indexes ts)"
    by (rule out_map) (auto dest!: ok intro!: out_basic out_ptr out_object index_meta_codec)
  show "inp False (Read_map ReadData (ReadSigned ReadData 4) (Read_unique_ptr ReadData (IndexMeta_Deserialize ReadData)))
      (enc_indexes ts) (map (apsnd (map_option index_meta_back)) ts)"
    using assms by (intro inp_map) (auto simp: indexes_ok_def dest!: ok intro!: inp_int inp_ptr index_meta_codec simp del: enc_ptr.simps)
qed

lemma names_codec:
  assumes "names_ok ns"
  shows "out (write_table_names WriteData ns) (enc_names ns)"
    and "inp False (Read_map ReadData (ReadString ReadData) (ReadSigned ReadData 4)) (enc_names ns) ns"
proof -
  show "out (write_table_names WriteData ns) (enc_names ns)"
    using assms by (intro out_map conjI out_string out_basic) (auto simp: names_ok_def)
  have "inp False (Read_map ReadData (ReadString ReadData) (ReadSigned ReadData 4)) (enc_names ns) (map (apsnd id) ns)"
    using assms by (intro inp_map) (auto simp: names_ok_def intro!: inp_string inp_int)
  then show "inp False (Read_map ReadData (ReadString ReadData) (ReadSigned ReadData 4)) (enc_names ns) ns" by (simp only: apsnd_id)
qed

lemma index_names_codec:
  assumes "index_names_ok ins"
  shows "out (write_index_names WriteData ins) (enc_index_names ins)"
    and "inp False (Read_map ReadData (ReadString ReadData) (Read_map ReadData (ReadString ReadData) (ReadSigned ReadData 4))) (enc_index_names ins) ins"
proof -
  show "out (write_index_names WriteData ins) (enc_index_names ins)"
    using assms by (intro out_map conjI out_string names_codec) (auto simp: index_names_ok_def)
  have "inp False (Read_map ReadData (ReadString ReadData) (Read_map ReadData (ReadString ReadData) (ReadSigned ReadData 4)))
      (enc_index_names ins) (map (apsnd id) ins)"
    using assms by (intro inp_map) (auto simp: index_names_ok_def intro!: inp_string names_codec)
  then show "inp False (Read_map ReadData (ReadString ReadData) (Read_map ReadData (ReadString ReadData) (ReadSigned ReadData 4))) (enc_index_names ins) ins"
    by (simp only: apsnd_id)
qed

lemma catalog_codec:
  assumes "catalog_ok c"
  shows "out (Catalog_Serialize WriteData c) (enc_Catalog c)" and "inp False (Catalog_Deserialize ReadData) (enc_Catalog c) (catalog_back c)"
proof -
  have ok: "tables_ok (tables c)" "names_ok (table_names c)" "indexes_ok (indexes c)" "index_names_ok (index_names c)"
    using assms by (simp_all add: catalog_ok_def)
  show "out (Catalog_Serialize WriteData c) (enc_Catalog c)"
    unfolding Catalog_Serialize_def enc_Catalog_def enc_default_def
    by (intro emits_bind out_default out_property out_string tables_codec names_codec indexes_codec index_names_codec ok)
      (simp_all add: magic_bytes_def)
  define fin where "fin ts tns is ins = bind (ReadProperty ReadData 104 (ReadString ReadData)) (\<lambda>m.
     if m \<noteq> magic_bytes then throw (StdRuntimeError ''Catalog file is corrupted or incompatible.'')
     else ret \<lparr>tables = ts, indexes = is, index_names = ins, table_names = tns\<rparr>)" for ts tns "is" ins
  have fin: "inp True (fin ts tns is ins) (enc_property 104 (enc_string magic_bytes)) \<lparr>tables = ts, indexes = is, index_names = ins, table_names = tns\<rparr>"
    for ts tns "is" ins
    using yields_bind [where k = "\<lambda>m. if m \<noteq> magic_bytes then throw (StdRuntimeError ''Catalog file is corrupted or incompatible.'')
        else ret \<lparr>tables = ts, indexes = is, index_names = ins, table_names = tns\<rparr>" and bs = "[]",
        OF inp_property [OF _ inp_string [of magic_bytes]], of 104]
    by (simp add: fin_def yields_ret magic_bytes_def)
  have eq: "catalog_back c = \<lparr>tables = map (apsnd (map_option table_meta_back)) (tables c),
      indexes = map (apsnd (map_option index_meta_back)) (indexes c), index_names = index_names c, table_names = table_names c\<rparr>"
    by (cases c) (simp add: catalog_back_def)
  have "inp True (Catalog_Deserialize ReadData) (enc_Catalog c) (catalog_back c)"
    unfolding Catalog_Deserialize_def enc_Catalog_def eq fin_def [symmetric]
    by (rule inp_optional [where bk = "map (apsnd (map_option table_meta_back))"] inp_optional [where bk = "map (apsnd (map_option index_meta_back))"]
        inp_optional [where bk = "\<lambda>x. x"] tables_codec(2) names_codec(2) indexes_codec(2) index_names_codec(2) ok fin starts_default starts_property
        | simp; fail)+
  then show "inp False (Catalog_Deserialize ReadData) (enc_Catalog c) (catalog_back c)" by (rule yields_weaken)
qed

end

section \<open>Persisting\<close>

lemma with_FileStream_writes:
  assumes "files d path = Some old" and "\<not> io_bad d" and "emits fs_ready fs_written (length bs) body bs"
  shows "\<exists>rest. with_FileStream path body d = (Inr (), d\<lparr>files := (files d)(path \<mapsto> bs @ rest)\<rparr>)"
proof -
  define s where "s = \<lparr>fs_path = path, fs_owns_file = True, fs_content = old, fs_pos = 0, fs_failed = False, fs_bad = False\<rparr>"
  have s: "mk_FileStream (files d) (io_bad d) path = Inr s" "fs_ready s" "fs_written s = []"
    using assms(1,2) by (simp_all add: s_def mk_FileStream_def fs_ready_def fs_written_def)
  then obtain s' where s': "body s = (Inr (), s')" "fs_written s' = bs" using assms(3) unfolding emits_def by fastforce
  have "fs_content s' = bs @ drop (fs_pos s') (fs_content s')" using s'(2) unfolding fs_written_def by (metis append_take_drop_id)
  then obtain rest where "fs_content s' = bs @ rest" by blast
  then show ?thesis using s(1) s'(1) by (auto simp: with_FileStream_def intro!: exI [of _ rest])
qed

text \<open>Reading does not change the file.\<close>

named_theorems keeps_content

abbreviation keeps_file :: "bytes \<Rightarrow> (FileStream, 'a) des \<Rightarrow> bool" where
  "keeps_file c \<equiv> keeps (\<lambda>d. fs_content (des_stream d) = c)"

lemma keeps_modify: "(\<And>s. P s \<Longrightarrow> P (f s)) \<Longrightarrow> keeps P (modify f)"
  by (auto simp: keeps_def act_simps)

lemma keeps_if: "(b \<Longrightarrow> keeps P m) \<Longrightarrow> (\<not> b \<Longrightarrow> keeps P n) \<Longrightarrow> keeps P (if b then m else n)"
  by simp

lemma keeps_case_prod: "(\<And>x y. keeps P (f x y)) \<Longrightarrow> keeps P (case p of (x, y) \<Rightarrow> f x y)"
  by (cases p) simp

lemmas keeps_rules = keeps_bind keeps_if keeps_case_prod keeps_modify keeps_basic

lemma keeps_file_ReadData [keeps_content]: "keeps_file c (des_ReadData fs_ReadData n)"
proof (rule keepsI)
  fix d r d' assume d: "fs_content (des_stream d) = c" and run: "des_ReadData fs_ReadData n d = (r, d')"
  have k: "keeps (\<lambda>s. fs_content s = c) (fs_ReadData n)"
    unfolding fs_ReadData_def by (rule keeps_rules | simp; fail)+
  obtain r1 s1 where s1: "fs_ReadData n (des_stream d) = (r1, s1)" by (cases "fs_ReadData n (des_stream d)")
  show "fs_content (des_stream d') = c"
    using keepsD [OF k d s1] run s1 by (auto simp: des_ReadData_def zoom_def)
qed

lemma keeps_file_basic [keeps_content]:
  "keeps_file c (ReadUnsigned fs_ReadData n)" "keeps_file c (ReadSigned fs_ReadData n)"
  "keeps_file c (ReadBool fs_ReadData)" "keeps_file c (ReadString fs_ReadData)"
  "keeps_file c (NextField fs_ReadData)" "keeps_file c (PeekField fs_ReadData)" "keeps_file c (ConsumeField fs_ReadData)"
  unfolding ReadUnsigned_def ReadSigned_def ReadBool_def ReadString_def NextField_def PeekField_def ConsumeField_def
  by (rule keeps_rules keeps_content | assumption | simp; fail)+

lemma keeps_file_property [keeps_content]:
  "keeps_file c R \<Longrightarrow> keeps_file c (ReadProperty fs_ReadData f R)"
  "keeps_file c R \<Longrightarrow> keeps_file c (ReadPropertyWithDefault fs_ReadData f R x)"
  unfolding ReadProperty_def des_OnPropertyBegin_def ReadPropertyWithDefault_def des_OnOptionalPropertyBegin_def
  by (rule keeps_rules keeps_content | assumption | simp; fail)+

lemma keeps_file_object [keeps_content]:
  "keeps_file c R \<Longrightarrow> keeps_file c (Read_object fs_ReadData R)"
  "keeps_file c R \<Longrightarrow> keeps_file c (Read_unique_ptr fs_ReadData R)"
  unfolding Read_unique_ptr_def Read_object_def des_OnObjectBegin_def des_OnObjectEnd_def des_OnNullableBegin_def
  by (rule keeps_rules keeps_content | assumption | simp; fail)+

lemma keeps_file_vector [keeps_content]:
  assumes "keeps_file c R"
  shows "keeps_file c (Read_vector fs_ReadData R)"
proof -
  have t: "keeps_file c (read_times n R)" for n by (induction n) (simp, simp only: read_times.simps, intro keeps_rules assms)
  show ?thesis unfolding Read_vector_def des_OnListBegin_def by (rule keeps_rules keeps_content t)+
qed

lemma keeps_file_map [keeps_content]:
  assumes "keeps_file c RK" and "keeps_file c RV"
  shows "keeps_file c (Read_map fs_ReadData RK RV)"
proof -
  have "keeps_file c (read_entry fs_ReadData RK RV)"
    unfolding read_entry_def by (rule keeps_rules keeps_content assms)+
  then have m: "keeps_file c (read_map n (read_entry fs_ReadData RK RV) m)" for n m
    by (induction n arbitrary: m) (simp, simp only: read_map.simps, intro keeps_rules, simp_all)
  show ?thesis unfolding Read_map_def des_OnListBegin_def by (rule keeps_rules keeps_content m)+
qed

lemma keeps_file_meta [keeps_content]:
  "keeps_file c (Read_TypeId fs_ReadData)" "keeps_file c (Column_Deserialize fs_ReadData)"
  "keeps_file c (Schema_Deserialize fs_ReadData)" "keeps_file c (TableMeta_Deserialize fs_ReadData)"
  "keeps_file c (IndexMeta_Deserialize fs_ReadData)" "keeps_file c (Catalog_Deserialize fs_ReadData)"
  unfolding Read_TypeId_def Column_Deserialize_def Schema_Deserialize_def TableMeta_Deserialize_def IndexMeta_Deserialize_def
    Catalog_Deserialize_def
  by (rule keeps_rules keeps_content | assumption | simp; fail)+

lemma run_Deserializer_content:
  assumes "keeps_file (fs_content s) m"
  shows "fs_content (snd (run_Deserializer m s)) = fs_content s"
proof -
  obtain r d where "m (mk_BinaryDeserializer s) = (r, d)" by (cases "m (mk_BinaryDeserializer s)")
  with keepsD [OF assms, of "mk_BinaryDeserializer s"] show ?thesis by (simp add: run_Deserializer_def mk_BinaryDeserializer_def)
qed

lemma with_FileStream_reads:
  assumes "files d path = Some (bs @ rest)" and "\<not> io_bad d" and "yields fs_ready fs_remaining False m bs x"
    and "\<And>s. fs_content (snd (run_Deserializer m s)) = fs_content s"
  shows "with_FileStream path (run_Deserializer m) d = (Inr x, d)"
proof -
  define s where "s = \<lparr>fs_path = path, fs_owns_file = True, fs_content = bs @ rest, fs_pos = 0, fs_failed = False, fs_bad = False\<rparr>"
  have s: "mk_FileStream (files d) (io_bad d) path = Inr s" using assms(1,2) by (simp add: s_def mk_FileStream_def)
  have ok: "des_ok fs_ready (mk_BinaryDeserializer s)" "\<not> has_buffered_field (mk_BinaryDeserializer s)"
      "des_input fs_remaining (mk_BinaryDeserializer s) = bs @ rest"
    by (simp_all add: des_ok_def mk_BinaryDeserializer_def des_input_def s_def fs_ready_def fs_remaining_def)
  obtain e where "m (mk_BinaryDeserializer s) = (Inr x, e)" using assms(3) ok unfolding yields_def by blast
  then have run: "run_Deserializer m s = (Inr x, des_stream e)" by (simp add: run_Deserializer_def)
  then have "fs_content (des_stream e) = bs @ rest" using assms(4) [of s] by (simp add: s_def)
  then show ?thesis using run s assms(1) by (simp add: with_FileStream_def fun_upd_idem)
qed

section \<open>Paths\<close>

lemma path_append_ends: "b \<noteq> [] \<Longrightarrow> hd b \<noteq> CHR ''/'' \<Longrightarrow> \<exists>a'. path_append a b = a' @ b"
  by (auto simp: path_append_def intro: exI [of _ "a @ [CHR ''/'']"])

lemma meta_path_ends: "\<exists>a. GetTableMetaPath n = a @ ''meta''"
  unfolding GetTableMetaPath_def by (rule path_append_ends) simp_all

lemma data_path_ends: "\<exists>a. GetTableDataPath n = a @ ''data''"
  unfolding GetTableDataPath_def by (rule path_append_ends) simp_all

lemma catalog_path_ends: "\<exists>a. GetSystemCatalogPath = a @ ''alog''"
  by (simp add: GetSystemCatalogPath_def path_append_def DEFAULT_DB_NAME_def)

lemma ends_differ: "length b = length b' \<Longrightarrow> b \<noteq> b' \<Longrightarrow> \<exists>a. x = a @ b \<Longrightarrow> \<exists>a. y = a @ b' \<Longrightarrow> x \<noteq> y"
  by auto

lemma paths_differ [simp]:
  "GetTableMetaPath n \<noteq> GetSystemCatalogPath" "GetSystemCatalogPath \<noteq> GetTableMetaPath n"
  "GetTableDataPath n \<noteq> GetTableMetaPath m" "GetTableMetaPath n \<noteq> GetTableDataPath m"
  "GetTableDataPath n \<noteq> GetSystemCatalogPath" "GetSystemCatalogPath \<noteq> GetTableDataPath n"
  using ends_differ [OF _ _ meta_path_ends catalog_path_ends] ends_differ [OF _ _ data_path_ends meta_path_ends]
    ends_differ [OF _ _ data_path_ends catalog_path_ends]
  by simp_all metis+

section \<open>What persisting leaves on disk\<close>

definition has_file :: "Disk \<Rightarrow> string \<Rightarrow> bool" where
  "has_file d p \<longleftrightarrow> files d p \<noteq> None"

definition table_files :: "Disk \<Rightarrow> (int \<times> TableMeta option) list \<Rightarrow> bool" where
  "table_files d ts \<longleftrightarrow> (\<forall>(i, om) \<in> set ts. case om of None \<Rightarrow> False
     | Some m \<Rightarrow> has_file d (GetTableMetaPath (tm_name m)) \<and> has_file d (GetTableDataPath (tm_name m)))"

text \<open>\<open>grown d d'\<close>: only metadata files changed, and no file went away.\<close>

definition grown :: "Disk \<Rightarrow> Disk \<Rightarrow> bool" where
  "grown d d' \<longleftrightarrow> (\<forall>p. has_file d p \<longrightarrow> has_file d' p) \<and> (\<forall>p. (\<forall>n. p \<noteq> GetTableMetaPath n) \<longrightarrow> files d' p = files d p) \<and>
     io_bad d' = io_bad d \<and> creatable d' = creatable d \<and> cm_names d' = cm_names d \<and> table_data_files d' = table_data_files d"

lemma grown_refl [simp]: "grown d d"
  by (simp add: grown_def)

lemma grown_trans: "grown a b \<Longrightarrow> grown b c \<Longrightarrow> grown a c"
  unfolding grown_def by auto

lemma grown_meta: "has_file d (GetTableMetaPath n) \<Longrightarrow> grown d (d\<lparr>files := (files d)(GetTableMetaPath n \<mapsto> bs)\<rparr>)"
  by (auto simp: grown_def has_file_def)

lemma PersistTables_ok:
  assumes "table_files d ts" and "\<not> io_bad d" and "tables_ok ts"
  shows "\<exists>d'. PersistTables ts d = (Inr (), d') \<and> grown d d'"
  using assms
proof (induction ts arbitrary: d)
  case (Cons t ts)
  from Cons.prems(1) obtain i m where t: "t = (i, Some m)" "has_file d (GetTableMetaPath (tm_name m))"
    by (cases t; cases "snd t") (auto simp: table_files_def)
  then obtain old where old: "files d (GetTableMetaPath (tm_name m)) = Some old" by (auto simp: has_file_def)
  have "table_meta_ok m" using Cons.prems(3) t(1) by (simp add: tables_ok_def)
  from with_FileStream_writes [OF old Cons.prems(2) fs.table_meta_codec(1) [OF this]] obtain rest where
    w: "with_FileStream (GetTableMetaPath (tm_name m)) (TableMeta_Serialize fs_WriteData m) d =
      (Inr (), d\<lparr>files := (files d)(GetTableMetaPath (tm_name m) \<mapsto> enc_TableMeta m @ rest)\<rparr>)" by blast
  let ?d = "d\<lparr>files := (files d)(GetTableMetaPath (tm_name m) \<mapsto> enc_TableMeta m @ rest)\<rparr>"
  have g: "grown d ?d" using t(2) by (rule grown_meta)
  have "table_files ?d ts" "\<not> io_bad ?d" "tables_ok ts"
    using Cons.prems by (auto simp: table_files_def has_file_def tables_ok_def split: option.splits)
  from Cons.IH [OF this] obtain d' where "PersistTables ts ?d = (Inr (), d')" "grown ?d d'" by blast
  then show ?case using t(1) w grown_trans [OF g] by (auto simp: bind_Inr)
qed (simp add: act_simps)

lemma PersistToDisk_ok:
  assumes "catalog_ok c" and "table_files d (tables c)" and "\<not> io_bad d"
    and "has_file d GetSystemCatalogPath \<or> creatable d GetSystemCatalogPath"
  shows "\<exists>d' rest. PersistToDisk c d = (Inr (), d') \<and> files d' GetSystemCatalogPath = Some (enc_Catalog c @ rest) \<and>
     (\<forall>p. has_file d p \<longrightarrow> has_file d' p) \<and> \<not> io_bad d' \<and> cm_names d' = cm_names d \<and> table_data_files d' = table_data_files d \<and>
     (\<forall>n. files d' (GetTableDataPath n) = files d (GetTableDataPath n))"
proof -
  obtain d0 old where d0: "CreateFileIfNotExists GetSystemCatalogPath d = (Inr (), d0)" "files d0 GetSystemCatalogPath = Some old"
      "d0 = d\<lparr>files := (files d)(GetSystemCatalogPath \<mapsto> old)\<rparr>"
    using assms(4) by (cases "files d GetSystemCatalogPath")
      (auto simp: CreateFileIfNotExists_def act_simps has_file_def fun_upd_idem)
  have bad: "\<not> io_bad d0" using d0(3) assms(3) by simp
  from with_FileStream_writes [OF d0(2) bad fs.catalog_codec(1) [OF assms(1)]] obtain rest where
    w: "with_FileStream GetSystemCatalogPath (Catalog_Serialize fs_WriteData c) d0 =
      (Inr (), d0\<lparr>files := (files d0)(GetSystemCatalogPath \<mapsto> enc_Catalog c @ rest)\<rparr>)" by blast
  let ?d1 = "d0\<lparr>files := (files d0)(GetSystemCatalogPath \<mapsto> enc_Catalog c @ rest)\<rparr>"
  have "table_files ?d1 (tables c)" using assms(2) d0(3) by (auto simp: table_files_def has_file_def split: option.splits)
  moreover have "tables_ok (tables c)" using assms(1) by (simp add: catalog_ok_def)
  ultimately obtain d' where d': "PersistTables (tables c) ?d1 = (Inr (), d')" "grown ?d1 d'"
    using PersistTables_ok [of ?d1 "tables c"] bad by auto
  have "PersistToDisk c d = (Inr (), d')" using d0(1) w d'(1) by (simp add: PersistToDisk_def bind_Inr)
  then show ?thesis using d'(2) d0(3) assms(3) by (auto simp: grown_def has_file_def)
qed

section \<open>Invariant\<close>

text \<open>
  Object ids are handed out in order; every name leads to a table of that name and id, and every
  table has its entry among the indexes.
\<close>

definition catalog_inv :: "Catalog \<Rightarrow> bool" where
  "catalog_inv c \<longleftrightarrow>
     map fst (tables c) = map int [0..<length (tables c)] \<and> length (table_names c) = length (tables c) \<and>
     distinct (map fst (table_names c)) \<and> map fst (index_names c) = map fst (table_names c) \<and>
     (\<forall>(n, i) \<in> set (table_names c). case map_of (tables c) i of
        Some (Some m) \<Rightarrow> tm_name m = n \<and> tm_table_oid m = i | _ \<Rightarrow> False)"

definition with_table :: "string \<Rightarrow> Schema \<Rightarrow> Catalog \<Rightarrow> Catalog" where
  "with_table n s c = (let oid = int (length (tables c)) in
     c\<lparr>table_names := table_names c @ [(n, oid)], tables := tables c @ [(oid, Some (mk_TableMeta s n oid))],
       index_names := index_names c @ [(n, [])]\<rparr>)"

lemma small_oid: "k < 2 ^ 31 \<Longrightarrow> sint (word_of_nat k :: 32 word) = int k"
  by (simp add: signed_of_nat signed_take_bit_int_eq_self)

lemma new_oid: "catalog_inv c \<Longrightarrow> map_of (tables c) (int (length (tables c))) = None"
proof -
  assume "catalog_inv c"
  then have "fst ` set (tables c) = int ` {0..<length (tables c)}" unfolding catalog_inv_def by (metis list.set_map set_upt)
  then show ?thesis by (auto simp: map_of_eq_None_iff)
qed

lemma catalog_invD:
  assumes "catalog_inv c" and "(n, i) \<in> set (table_names c)"
  obtains m where "map_of (tables c) i = Some (Some m)" "tm_name m = n" "tm_table_oid m = i"
proof -
  have "case map_of (tables c) i of Some (Some m) \<Rightarrow> tm_name m = n \<and> tm_table_oid m = i | _ \<Rightarrow> False"
    using assms unfolding catalog_inv_def by blast
  then show thesis using that by (auto split: option.splits)
qed

lemma with_table_inv:
  assumes "catalog_inv c" and "map_of (table_names c) n = None"
  shows "catalog_inv (with_table n s c)"
proof -
  let ?k = "int (length (tables c))"
  have "n \<notin> fst ` set (table_names c)" using assms(2) by (simp add: map_of_eq_None_iff)
  moreover have "map_of (tables c @ [(?k, Some (mk_TableMeta s n ?k))]) i = map_of (tables c) i" if "map_of (tables c) i \<noteq> None" for i
    using that by (auto simp: map_add_def)
  moreover have "map_of (tables c) i \<noteq> None" if "(m, i) \<in> set (table_names c)" for m i
    using catalog_invD [OF assms(1) that] by (metis option.distinct(1))
  ultimately show ?thesis using assms(1) new_oid [OF assms(1)]
    by (auto simp: catalog_inv_def with_table_def Let_def mk_TableMeta_def map_add_def)
qed

lemma with_table_ok:
  assumes "catalog_ok c" and "catalog_inv c" and "map_of (table_names c) n = None" and "length (tables c) < 2 ^ 31"
    and "length n < 2 ^ 32" and "schema_ok s"
  shows "catalog_ok (with_table n s c)"
proof -
  have k: "fits 4 (int (length (tables c)))" "int (length (tables c)) \<notin> fst ` set (tables c)" "n \<notin> fst ` set (table_names c)"
    using assms(3,4) new_oid [OF assms(2)] by (simp_all add: fits_def map_of_eq_None_iff)
  have l: "length (index_names c) = length (tables c)" "length (table_names c) = length (tables c)"
    using assms(2) by (auto simp: catalog_inv_def dest: map_eq_imp_length_eq)
  have "fst ` set (index_names c) = fst ` set (table_names c)" using assms(2) unfolding catalog_inv_def by (metis list.set_map)
  moreover have "table_meta_ok (mk_TableMeta s n (int (length (tables c))))"
    using assms(5,6) k(1) by (simp add: table_meta_ok_def mk_TableMeta_def fits_def)
  ultimately show ?thesis using assms(1,4,5) k l
    by (auto simp: catalog_ok_def with_table_def Let_def tables_ok_def names_ok_def index_names_ok_def)
qed

lemma EnsureTableFilesExist_ok:
  "(\<forall>(n, i) \<in> set ns. has_file d (GetTableDataPath n) \<and> has_file d (GetTableMetaPath n)) \<Longrightarrow> EnsureTableFilesExist ns d = (Inr (), d)"
  by (induction ns) (auto simp: act_simps has_file_def)

lemma named_files:
  assumes "catalog_inv c" and "table_files d (tables c)" and "(n, i) \<in> set (table_names c)"
  shows "has_file d (GetTableDataPath n) \<and> has_file d (GetTableMetaPath n)"
proof -
  obtain m where "map_of (tables c) i = Some (Some m)" "tm_name m = n"
    by (rule catalog_invD [OF assms(1,3)])
  then have "(i, Some m) \<in> set (tables c)" by (auto dest: map_of_SomeD)
  with assms(2) \<open>tm_name m = n\<close> show ?thesis by (auto simp: table_files_def)
qed

lemma persist_reload:
  assumes "catalog_ok c" and "catalog_inv c" and "table_files d (tables c)" and "\<not> io_bad d"
    and "has_file d GetSystemCatalogPath \<or> creatable d GetSystemCatalogPath"
  shows "\<exists>d'. PersistToDisk c d = (Inr (), d') \<and> mk_Catalog d' = (Inr (catalog_back c), d') \<and>
     (\<forall>n. files d' (GetTableDataPath n) = files d (GetTableDataPath n)) \<and> (\<forall>p. has_file d p \<longrightarrow> has_file d' p) \<and>
     cm_names d' = cm_names d \<and> table_data_files d' = table_data_files d"
proof -
  obtain d' rest where d': "PersistToDisk c d = (Inr (), d')" "files d' GetSystemCatalogPath = Some (enc_Catalog c @ rest)"
      "\<forall>p. has_file d p \<longrightarrow> has_file d' p" "\<not> io_bad d'" "\<forall>n. files d' (GetTableDataPath n) = files d (GetTableDataPath n)"
      "cm_names d' = cm_names d" "table_data_files d' = table_data_files d"
    using PersistToDisk_ok [OF assms(1,3,4,5)] by blast
  have r: "with_FileStream GetSystemCatalogPath (run_Deserializer (Catalog_Deserialize fs_ReadData)) d' = (Inr (catalog_back c), d')"
    by (rule with_FileStream_reads [OF d'(2,4) fs.catalog_codec(2) [OF assms(1)]]) (rule run_Deserializer_content keeps_content)+
  have names: "table_names (catalog_back c) = table_names c" by (simp add: catalog_back_def)
  have "EnsureTableFilesExist (table_names c) d' = (Inr (), d')"
    by (rule EnsureTableFilesExist_ok) (use named_files [OF assms(2,3)] d'(3) in blast)
  with r names have "mk_Catalog d' = (Inr (catalog_back c), d')" using d'(2) by (simp add: mk_Catalog_def act_simps)
  with d' show ?thesis by blast
qed

lemma no_indexes: "catalog_inv c \<Longrightarrow> map_of (table_names c) n = None \<Longrightarrow> map_of (index_names c) n = None"
  unfolding catalog_inv_def map_of_eq_None_iff by (metis list.set_map)

lemma CreateTable_new:
  assumes "catalog_inv c" and "map_of (table_names c) n = None" and "length (tables c) < 2 ^ 31"
  shows "CreateTable n s (c, d) =
     bind (zoom snd (\<lambda>d (c, _). (c, d)) (CreateFileIfNotExists (GetTableMetaPath n))) (\<lambda>_.
     bind (zoom snd (\<lambda>d (c, _). (c, d)) (CreateFileIfNotExists (GetTableDataPath n))) (\<lambda>_.
     bind (gets fst) (\<lambda>c.
     bind (zoom snd (\<lambda>d (c, _). (c, d)) (PersistToDisk c)) (\<lambda>_.
     ret (Some (int (length (tables c) - 1))))))) (with_table n s c, d)"
proof -
  have "c\<lparr>table_names := emplace n (int (length (tables c))) (table_names c),
       tables := emplace (int (length (tables c))) (Some (mk_TableMeta s n (int (length (tables c))))) (tables c),
       index_names := emplace n [] (index_names c)\<rparr> = with_table n s c"
    using assms(2) new_oid [OF assms(1)] no_indexes [OF assms(1,2)] by (simp add: with_table_def Let_def emplace_def)
  moreover have "bind (gets fst) (\<lambda>c. bind (zoom snd (\<lambda>d (c, _). (c, d)) (PersistToDisk c)) (\<lambda>_. ret (Some (int (length (tables c) - 1))))) (with_table n s c, d) =
      bind (gets fst) (\<lambda>c'. bind (zoom snd (\<lambda>d (c, _). (c, d)) (PersistToDisk c')) (\<lambda>_. ret (Some (int (length (tables c)))))) (with_table n s c, d)" for d
    by (simp add: act_simps with_table_def Let_def)
  ultimately show ?thesis using assms(2) small_oid [OF assms(3)]
    by (simp add: CreateTable_def act_simps) (simp add: bind_def zoom_def gets_def with_table_def Let_def split: prod.splits sum.splits)
qed

lemma zoom_disk: "zoom snd (\<lambda>d (c, _). (c, d)) m (c, d) = (case m d of (r, d') \<Rightarrow> (r, (c, d')))"
  by (simp add: zoom_def)

lemma CreateFileIfNotExists_ok:
  "creatable d p \<Longrightarrow> \<exists>bs. CreateFileIfNotExists p d = (Inr (), d\<lparr>files := (files d)(p \<mapsto> bs)\<rparr>) \<and> (files d p = None \<and> bs = [] \<or> files d p = Some bs)"
  by (cases "files d p") (auto simp: CreateFileIfNotExists_def act_simps fun_upd_idem)

lemma with_table_finds:
  assumes "catalog_inv c" and "map_of (table_names c) n = None"
  shows "GetTableByName n (with_table n s c) = Inr (mk_TableMeta s n (int (length (tables c))))"
    and "n' \<noteq> n \<Longrightarrow> GetTableByName n' (with_table n s c) = GetTableByName n' c"
proof -
  show "GetTableByName n (with_table n s c) = Inr (mk_TableMeta s n (int (length (tables c))))"
    using assms(2) new_oid [OF assms(1)] by (simp add: GetTableByName_def with_table_def Let_def map_add_def)
  assume n': "n' \<noteq> n"
  show "GetTableByName n' (with_table n s c) = GetTableByName n' c"
  proof (cases "map_of (table_names c) n'")
    case None
    then show ?thesis using n' by (simp add: GetTableByName_def with_table_def Let_def map_add_def)
  next
    case (Some i)
    obtain m where "map_of (tables c) i = Some (Some m)" by (rule catalog_invD [OF assms(1) map_of_SomeD [OF Some]])
    with Some n' show ?thesis by (simp add: GetTableByName_def with_table_def Let_def map_add_def)
  qed
qed

text \<open>A new table on a working disk: no file goes away and no data file changes, but that the data file of the table exists.\<close>

abbreviation file_bytes :: "Disk \<Rightarrow> string \<Rightarrow> bytes" where
  "file_bytes d p \<equiv> (case files d p of None \<Rightarrow> [] | Some bs \<Rightarrow> bs)"

lemma CreateTable_runs:
  assumes "catalog_ok c" and "catalog_inv c" and "map_of (table_names c) n = None" and "length (tables c) < 2 ^ 31"
    and "length n < 2 ^ 32" and "schema_ok s" and "table_files d (tables c)" and "\<not> io_bad d" and "\<forall>p. creatable d p"
  obtains d' where "CreateTable n s (c, d) = (Inr (Some (int (length (tables c)))), (with_table n s c, d'))"
    "mk_Catalog d' = (Inr (catalog_back (with_table n s c)), d')" "\<forall>n'. file_bytes d' (GetTableDataPath n') = file_bytes d (GetTableDataPath n')"
    "\<forall>p. has_file d p \<longrightarrow> has_file d' p" "cm_names d' = cm_names d" "table_data_files d' = table_data_files d"
proof -
  let ?c = "with_table n s c"
  obtain b1 where c1: "CreateFileIfNotExists (GetTableMetaPath n) d = (Inr (), d\<lparr>files := (files d)(GetTableMetaPath n \<mapsto> b1)\<rparr>)"
    using CreateFileIfNotExists_ok assms(9) by blast
  let ?d1 = "d\<lparr>files := (files d)(GetTableMetaPath n \<mapsto> b1)\<rparr>"
  obtain b2 where c2: "CreateFileIfNotExists (GetTableDataPath n) ?d1 = (Inr (), ?d1\<lparr>files := (files ?d1)(GetTableDataPath n \<mapsto> b2)\<rparr>)"
      "files ?d1 (GetTableDataPath n) = None \<and> b2 = [] \<or> files ?d1 (GetTableDataPath n) = Some b2"
    using CreateFileIfNotExists_ok [of ?d1 "GetTableDataPath n"] assms(9) by (auto simp del: fun_upd_apply)
  let ?d2 = "?d1\<lparr>files := (files ?d1)(GetTableDataPath n \<mapsto> b2)\<rparr>"
  have fb: "file_bytes ?d2 (GetTableDataPath n') = file_bytes d (GetTableDataPath n')" for n' using c2(2) by auto
  have hf: "has_file ?d2 p" if "has_file d p" for p using that by (simp add: has_file_def)
  have "table_files ?d2 (tables ?c)" using assms(7)
    by (auto simp: table_files_def with_table_def Let_def has_file_def mk_TableMeta_def split: option.splits)
  then obtain d' where d': "PersistToDisk ?c ?d2 = (Inr (), d')" "mk_Catalog d' = (Inr (catalog_back ?c), d')"
      "\<forall>n. files d' (GetTableDataPath n) = files ?d2 (GetTableDataPath n)" "\<forall>p. has_file ?d2 p \<longrightarrow> has_file d' p"
      "cm_names d' = cm_names ?d2" "table_data_files d' = table_data_files ?d2"
    using persist_reload [OF with_table_ok [OF assms(1-6)] with_table_inv [OF assms(2,3)], of ?d2] assms(8,9) by auto
  have "CreateTable n s (c, d) = (Inr (Some (int (length (tables c)))), (?c, d'))"
    using c1 c2(1) d'(1) unfolding CreateTable_new [OF assms(2-4)] by (simp add: act_simps zoom_disk) (simp add: with_table_def Let_def)
  then show ?thesis by (rule that) (use d'(2,4-6) fb hf in \<open>simp_all add: d'(3) del: fun_upd_apply\<close>)
qed

section \<open>Properties\<close>

text \<open>
  C7: What the catalog persists is what the next start loads: the tables, the indexes and the
  names, less what \<^verbatim>\<open>Column::Serialize\<close> leaves out, whatever the catalog file held before;
  the table data files stay as they were.
\<close>

theorem catalog_persist_reload:
  assumes "catalog_ok c" and "catalog_inv c" and "table_files d (tables c)" and "\<not> io_bad d"
    and "has_file d GetSystemCatalogPath \<or> creatable d GetSystemCatalogPath"
  shows "\<exists>d'. PersistToDisk c d = (Inr (), d') \<and> mk_Catalog d' = (Inr (catalog_back c), d') \<and>
     (\<forall>n. files d' (GetTableDataPath n) = files d (GetTableDataPath n))"
  using persist_reload [OF assms] by blast

definition demo_catalog :: Catalog where
  "demo_catalog = with_table ''t'' \<lparr>columns = [mk_column_rec ''id'' INTEGER 4], uninlined_columns = [], tuple_inline_part_storage_size = 4\<rparr> empty_catalog"

definition demo_disk :: Disk where
  "demo_disk = \<lparr>files = [GetTableMetaPath ''t'' \<mapsto> [], GetTableDataPath ''t'' \<mapsto> [1, 2]], table_data_files = (\<lambda>_. None),
     cm_names = (\<lambda>_. None), creatable = (\<lambda>_. True), io_bad = False\<rparr>"

lemmas demo_catalog_defs = demo_catalog_def demo_disk_def with_table_def empty_catalog_def mk_TableMeta_def mk_column_rec_def

theorem catalog_persist_reload_witness:
  "\<exists>d'. PersistToDisk demo_catalog demo_disk = (Inr (), d') \<and> mk_Catalog d' = (Inr (catalog_back demo_catalog), d')"
proof -
  have "catalog_ok demo_catalog" "catalog_inv demo_catalog" "table_files demo_disk (tables demo_catalog)"
    by (simp_all add: demo_catalog_defs catalog_ok_def catalog_inv_def tables_ok_def names_ok_def indexes_ok_def index_names_ok_def
        table_meta_ok_def schema_ok_def column_ok_def fits_def table_files_def has_file_def)
  from catalog_persist_reload [OF this] show ?thesis by (auto simp: demo_disk_def)
qed

text \<open>
  C15: \<^verbatim>\<open>CreateTable\<close> of a new name on a working disk returns the next object id, the new table
  is found under its name, every other name finds what it found before, the invariant holds, and
  a catalog started afterwards from the files loads this state, less what \<^verbatim>\<open>Column::Serialize\<close> leaves out.
\<close>

theorem create_table:
  assumes "catalog_ok c" and "catalog_inv c" and "map_of (table_names c) n = None" and "length (tables c) < 2 ^ 31"
    and "length n < 2 ^ 32" and "schema_ok s" and "table_files d (tables c)" and "\<not> io_bad d" and "\<forall>p. creatable d p"
  shows "\<exists>c' d'. CreateTable n s (c, d) = (Inr (Some (int (length (tables c)))), (c', d')) \<and> catalog_inv c' \<and>
     GetTableByName n c' = Inr (mk_TableMeta s n (int (length (tables c)))) \<and>
     (\<forall>n'. n' \<noteq> n \<longrightarrow> GetTableByName n' c' = GetTableByName n' c) \<and>
     mk_Catalog d' = (Inr (catalog_back c'), d')"
proof -
  obtain d' where "CreateTable n s (c, d) = (Inr (Some (int (length (tables c)))), (with_table n s c, d'))"
      "mk_Catalog d' = (Inr (catalog_back (with_table n s c)), d')"
    by (rule CreateTable_runs [OF assms])
  then show ?thesis using with_table_inv [OF assms(2,3)] with_table_finds [OF assms(2,3)] by blast
qed

theorem create_table_witness:
  "\<exists>c' d'. CreateTable ''u'' (tm_schema demo_table) (demo_catalog, demo_disk) = (Inr (Some 1), (c', d')) \<and>
     GetTableByName ''u'' c' = Inr (mk_TableMeta (tm_schema demo_table) ''u'' 1) \<and> mk_Catalog d' = (Inr (catalog_back c'), d')"
proof -
  have "catalog_ok demo_catalog" "catalog_inv demo_catalog" "map_of (table_names demo_catalog) ''u'' = None" "length (tables demo_catalog) < 2 ^ 31"
      "length ''u'' < 2 ^ 32" "schema_ok (tm_schema demo_table)" "table_files demo_disk (tables demo_catalog)" "\<not> io_bad demo_disk"
      "\<forall>p. creatable demo_disk p"
    by (simp_all add: demo_catalog_defs catalog_ok_def catalog_inv_def tables_ok_def names_ok_def indexes_ok_def index_names_ok_def
        table_meta_ok_def schema_ok_def column_ok_def fits_def table_files_def has_file_def demo_table_def)
  moreover have "length (tables demo_catalog) = 1" by (simp add: demo_catalog_defs)
  ultimately show ?thesis using create_table [of demo_catalog "''u''" "tm_schema demo_table" demo_disk] by auto
qed

text \<open>
  C34: \<^verbatim>\<open>CreateTable\<close> keeps the catalog consistent on every path: also when a file cannot be
  created or the disk fails, ids stay in order and every name leads to a table of that name.
  (The table then exists in memory and is not on disk.)
\<close>

theorem create_table_keeps_inv:
  assumes "CreateTable n s (c, d) = (r, (c', d'))" and "catalog_inv c" and "length (tables c) < 2 ^ 31"
  shows "catalog_inv c' \<and> (r = Inr None \<longrightarrow> c' = c \<and> d' = d \<and> map_of (table_names c) n \<noteq> None)"
proof (cases "map_of (table_names c) n")
  case None
  let ?k = "\<lambda>(c0 :: Catalog, d :: Disk). c0 = with_table n s c"
  have z: "keeps ?k (zoom snd (\<lambda>d (c, _). (c, d)) m)" for m :: "(Disk, 'x) action"
    by (auto simp: keeps_def zoom_def split: prod.splits)
  have g: "keeps ?k (bind (zoom snd (\<lambda>d (c, _). (c, d)) (CreateFileIfNotExists (GetTableMetaPath n))) (\<lambda>_.
     bind (zoom snd (\<lambda>d (c, _). (c, d)) (CreateFileIfNotExists (GetTableDataPath n))) (\<lambda>_.
     bind (gets fst) (\<lambda>c. bind (zoom snd (\<lambda>d (c, _). (c, d)) (PersistToDisk c)) (\<lambda>_. ret (Some (int (length (tables c) - 1))))))))"
    by (rule keeps_bind keeps_basic z)+
  from keepsD [OF g, of "(with_table n s c, d)" r "(c', d')"] assms(1)
  have "c' = with_table n s c" unfolding CreateTable_new [OF assms(2) None assms(3)] by simp
  moreover have "r \<noteq> Inr None" using assms(1) unfolding CreateTable_new [OF assms(2) None assms(3)]
    by (auto simp: bind_def ret_def split: prod.splits sum.splits)
  ultimately show ?thesis using with_table_inv [OF assms(2) None] by simp
next
  case (Some i)
  then show ?thesis using assms by (simp add: CreateTable_def act_simps)
qed

theorem create_table_keeps_inv_witness:
  "catalog_inv (fst (snd (CreateTable ''u'' (tm_schema demo_table) (demo_catalog, demo_disk\<lparr>io_bad := True\<rparr>))))"
proof -
  have "catalog_inv demo_catalog" "length (tables demo_catalog) < 2 ^ 31" by (simp_all add: demo_catalog_defs catalog_inv_def)
  then show ?thesis
    using create_table_keeps_inv [of "''u''" "tm_schema demo_table" demo_catalog "demo_disk\<lparr>io_bad := True\<rparr>"]
    by (metis prod.collapse)
qed

end
