(* ===== verification/Indexes.thy ===== *)
theory Indexes
  imports BtreePages Transactions TableHeaps Catalogs
begin

text \<open>
  The B+ tree index: \<^verbatim>\<open>index/index.hpp\<close> (\<^verbatim>\<open>Index\<close>), \<^verbatim>\<open>index/bplus_tree_index.hpp\<close>, the split of
  \<^verbatim>\<open>storage/page/btree_internal_page.hpp\<close> and \<^verbatim>\<open>Catalog::CreateIndex\<close> of \<^verbatim>\<open>meta/catalog.cpp\<close>.

  The state of an operation is the buffer pool, the metadata of the table (which numbers the pages)
  and the transaction with the set of latched pages. A \<^verbatim>\<open>Page &\<close>, or a reference to the node in
  it, is the frame; a node copied into a \<^verbatim>\<open>std::vector\<close> is its bytes. The temporary guards that the
  code drops while it keeps a reference to their page are dropped where the code drops them.
  The walks down and up the tree have fuel, their parameter \<open>depth\<close>: a walk takes one round per level,
  and \<open>OutOfFuel\<close> is an error that no operation of the code raises.
\<close>

section \<open>The index object\<close>

record BTreeIndex =
  bi_meta :: IndexMeta
  bi_comparator :: Comparator

definition Index_AllocatePage :: "(TableMeta, PageId) action" where
  "Index_AllocatePage =
     bind IncrementTableDataPageId (\<lambda>new_page.
     bind (gets tm_table_oid) (\<lambda>oid. ret (mk_page_id oid new_page)))"

text \<open>A change of the node in a frame.\<close>

definition upd_node :: "nat \<Rightarrow> (bytes \<Rightarrow> bytes result) \<Rightarrow> (BufferPool, unit) action" where
  "upd_node f g = on_page f (\<lambda>m. case g m of Inl e \<Rightarrow> (Inl e, m) | Inr m' \<Rightarrow> (Inr (), m'))"

definition node_at :: "nat \<Rightarrow> (BufferPool, bytes) action" where
  "node_at f = bind (page_at f) (\<lambda>p. ret (page_data p))"

text \<open>\<^verbatim>\<open>UnpinPage(page.GetPageId(), dirty)\<close> for a page known by its frame.\<close>

definition unpin_frame :: "nat \<Rightarrow> bool \<Rightarrow> (BufferPool, bool) action" where
  "unpin_frame f dirty = bind (page_at f) (\<lambda>p. UnpinPage (page_id p) dirty)"

definition mk_BTreeIndex :: "IndexMeta \<Rightarrow> (heap, BTreeIndex) action" where
  "mk_BTreeIndex meta =
     bind (lift (GetComparator (column_type (im_key_col meta)))) (\<lambda>comparator.
     bind (if im_header_page_id meta = INVALID_PAGE_ID
           then bind (NewPageGuarded Index_AllocatePage) (\<lambda>(g, pid).
                bind (in_pool (UpgradeWrite g)) (\<lambda>(header_pg, g).
                bind (in_pool (Basic_Drop g)) (\<lambda>_.
                bind (in_pool (guard_GetDataMut header_pg)) (\<lambda>(header_pg, f).
                bind (in_pool (on_page f (modify hd_Init))) (\<lambda>_.
                bind (assert_that (page_number pid \<ge> INVALID_PAGE_ID) ''page_number_ >= INVALID_PAGE_ID'') (\<lambda>_.
                bind (in_pool (on_page f (modify (hd_SetRootPageId INVALID_PAGE_ID)))) (\<lambda>_.
                bind (in_pool (Write_Drop header_pg)) (\<lambda>_.
                ret (meta\<lparr>im_header_page_id := page_number pid\<rparr>)))))))))
           else ret meta) (\<lambda>meta.
     bind (assert_that (im_header_page_id meta \<ge> 0) ''index_meta_.header_page_id_ >= 0'') (\<lambda>_.
     ret \<lparr>bi_meta = meta, bi_comparator = comparator\<rparr>)))"

definition ConvertTupleToKey :: "BTreeIndex \<Rightarrow> Tuple \<Rightarrow> IndexKeyType result" where
  "ConvertTupleToKey ix tuple =
     rbind (GetValue tuple (im_key_col (bi_meta ix))) (\<lambda>v. ConvertToIndexKeyType v)"

section \<open>Latched pages\<close>

type_synonym tree = "heap \<times> Transaction"

definition in_heap :: "(heap, 'a) action \<Rightarrow> (tree, 'a) action" where
  "in_heap = zoom fst (\<lambda>h (_, t). (h, t))"

abbreviation pooled :: "(BufferPool, 'a) action \<Rightarrow> (tree, 'a) action" where
  "pooled m \<equiv> in_heap (in_pool m)"

definition table_page :: "int \<Rightarrow> (tree, PageId) action" where
  "table_page p = bind (gets (tm_table_oid \<circ> snd \<circ> fst)) (\<lambda>oid. ret (mk_page_id oid p))"

definition fetch_node :: "int \<Rightarrow> (tree, nat) action" where
  "fetch_node p = bind (table_page p) (\<lambda>pid. pooled (FetchPage pid))"

fun release_pages :: "nat list \<Rightarrow> (tree, unit) action" where
  "release_pages [] = ret ()"
| "release_pages (f # fs) =
     bind (modify (\<lambda>(h, t). (h, t\<lparr>page_set := fs\<rparr>))) (\<lambda>_.
     bind (pooled (WUnlatch f)) (\<lambda>_.
     bind (pooled (unpin_frame f False)) (\<lambda>_.
     release_pages fs)))"

definition ReleaseParentWriteLatches :: "(tree, unit) action" where
  "ReleaseParentWriteLatches = bind (gets (page_set \<circ> snd)) release_pages"

definition ReleaseHeaderPageAndMarkDirty :: "(tree, unit) action" where
  "ReleaseHeaderPageAndMarkDirty =
     bind (gets (page_set \<circ> snd)) (\<lambda>ps.
     case ps of
       [] \<Rightarrow> throw (UndefinedBehaviour ''front of an empty deque'')
     | f # fs \<Rightarrow>
         bind (pooled (node_at f)) (\<lambda>m.
         bind (assert_that (get_uint 0 4 m = IndexPageType_code HEADER_PAGE) ''GetPageType() == HEADER_PAGE'') (\<lambda>_.
         bind (modify (\<lambda>(h, t). (h, t\<lparr>page_set := fs\<rparr>))) (\<lambda>_.
         bind (pooled (WUnlatch f)) (\<lambda>_.
         bind (pooled (unpin_frame f True)) (\<lambda>_. ret ()))))))"

section \<open>Searching\<close>

datatype Operation = SEARCH | INSERT | DELETE

definition IsSafeNode :: "bytes \<Rightarrow> Operation \<Rightarrow> bool result" where
  "IsSafeNode node operation =
     rbind (rassert (operation \<noteq> SEARCH) ''operation != Operation::SEARCH'') (\<lambda>_.
     if operation = INSERT
     then rbind (bt_GetMaxSize node) (\<lambda>max.
          Inr (bt_IsLeafPage node \<and> bt_GetSize node < max \<or> \<not> bt_IsLeafPage node \<and> bt_GetSize node < max))
     else Inr (bt_GetSize node > bt_GetMinSize node))"

fun search_down :: "nat \<Rightarrow> Comparator \<Rightarrow> IndexKeyType \<Rightarrow> Operation \<Rightarrow> nat \<Rightarrow> bool \<Rightarrow> (tree, nat \<times> bool) action" where
  "search_down 0 comparator key operation f has_parent = throw OutOfFuel"
| "search_down (Suc n) comparator key operation f has_parent =
     bind (pooled (node_at f)) (\<lambda>node.
     if bt_IsLeafPage node then ret (f, has_parent)
     else
       bind (lift (in_Lookup node key comparator)) (\<lambda>child_page_id.
       bind (assert_that (child_page_id > 0) ''child_page_id > 0'') (\<lambda>_.
       bind (fetch_node child_page_id) (\<lambda>child.
       bind (if operation = SEARCH
             then bind (pooled (RLatch child)) (\<lambda>_.
                  bind (pooled (RUnlatch f)) (\<lambda>_.
                  bind (pooled (unpin_frame f False)) (\<lambda>_. ret ())))
             else bind (pooled (WLatch child)) (\<lambda>_.
                  bind (modify (\<lambda>(h, t). (h, AddIntoPageSet f t))) (\<lambda>_.
                  bind (pooled (node_at child)) (\<lambda>child_node.
                  bind (lift (IsSafeNode child_node operation)) (\<lambda>safe.
                  if safe then ReleaseParentWriteLatches else ret ()))))) (\<lambda>_.
       search_down n comparator key operation child True)))))"

definition SearchLeafPage :: "nat \<Rightarrow> Comparator \<Rightarrow> IndexKeyType \<Rightarrow> Operation \<Rightarrow> nat \<Rightarrow> (tree, nat) action" where
  "SearchLeafPage depth comparator key operation header_page =
     bind (pooled (node_at header_page)) (\<lambda>header_node.
     let root_page_id = hd_GetRootPageId header_node in
     bind (assert_that (root_page_id > 0) ''root_page_id > 0'') (\<lambda>_.
     bind (fetch_node root_page_id) (\<lambda>f.
     bind (if operation = SEARCH
           then bind (pooled (RUnlatch header_page)) (\<lambda>_. pooled (RLatch f))
           else pooled (WLatch f)) (\<lambda>_.
     bind (search_down depth comparator key operation f False) (\<lambda>(leaf, has_parent).
     bind (pooled (node_at leaf)) (\<lambda>leaf_node.
     bind (if has_parent then assert_that (bt_GetParentPageId leaf_node > 0) ''leaf_node.GetParentPageId() > 0'' else ret ()) (\<lambda>_.
     ret leaf)))))))"

definition InternalScanKey :: "nat \<Rightarrow> BTreeIndex \<Rightarrow> IndexKeyType \<Rightarrow> RID list \<Rightarrow> (tree, bool \<times> RID list) action" where
  "InternalScanKey depth ix key values =
     bind (fetch_node (im_header_page_id (bi_meta ix))) (\<lambda>header.
     bind (pooled (RLatch header)) (\<lambda>_.
     bind (SearchLeafPage depth (bi_comparator ix) key SEARCH header) (\<lambda>leaf.
     bind (pooled (node_at leaf)) (\<lambda>leaf_page.
     bind (lift (lf_Lookup leaf_page key (bi_comparator ix))) (\<lambda>v.
     bind (pooled (RUnlatch leaf)) (\<lambda>_.
     bind (pooled (unpin_frame leaf False)) (\<lambda>_.
     case v of None \<Rightarrow> ret (False, values) | Some rid \<Rightarrow> ret (True, values @ [rid]))))))))"

section \<open>Splitting\<close>

definition bt_SetPageType_of :: "bytes \<Rightarrow> bytes \<Rightarrow> bytes" where
  "bt_SetPageType_of node m = put_uint 0 4 (get_uint 0 4 node) m"

definition split_page :: "(heap, nat \<times> PageId) action" where
  "split_page =
     bind (NewPage Index_AllocatePage) (\<lambda>(f, pid).
     bind (assert_that (page_number pid > 0) ''new_page_id.page_number_ > 0'') (\<lambda>_.
     ret (f, pid)))"

definition Split_leaf :: "nat \<Rightarrow> (tree, nat) action" where
  "Split_leaf node =
     bind (in_heap split_page) (\<lambda>(new_node, pid).
     bind (pooled (node_at node)) (\<lambda>m.
     bind (pooled (upd_node new_node (\<lambda>n. Inr (bt_SetPageType_of m n)))) (\<lambda>_.
     bind (pooled (upd_node new_node (lf_Init (page_number pid) (bt_GetParentPageId m)))) (\<lambda>_.
     bind (pooled (node_at new_node)) (\<lambda>n.
     bind (lift (lf_MoveHalfTo m n)) (\<lambda>(m', n').
     bind (pooled (upd_node node (\<lambda>_. Inr m'))) (\<lambda>_.
     bind (pooled (upd_node new_node (\<lambda>_. Inr n'))) (\<lambda>_.
     ret new_node))))))))"

text \<open>
  Every child taken over is told its new parent: through a reference to its page that outlives
  the guard it came from.
\<close>

fun adopt :: "nat \<Rightarrow> nat \<Rightarrow> nat \<Rightarrow> (tree, unit) action" where
  "adopt parent i 0 = ret ()"
| "adopt parent i (Suc n) =
     bind (pooled (node_at parent)) (\<lambda>m.
     bind (lift (in_ValueAt m (i + bt_GetSize m))) (\<lambda>child_id.
     bind (table_page child_id) (\<lambda>pid.
     bind (pooled (FetchPageBasic pid)) (\<lambda>g.
     bind (pooled (guard_GetDataMut g)) (\<lambda>(g, child).
     bind (pooled (Basic_Drop g)) (\<lambda>_.
     bind (pooled (upd_node child (\<lambda>c. Inr (bt_SetParentPageId (bt_GetPageId m) c)))) (\<lambda>_.
     adopt parent (i + 1) n)))))))"

definition in_copy :: "bytes \<Rightarrow> nat \<Rightarrow> bytes \<Rightarrow> bytes result" where
  "in_copy items n m =
     (if INTERNAL_NODES + INTERNAL_NODE * (bt_GetSize m + n) \<le> length m \<and> INTERNAL_NODE * n \<le> length items
      then Inr (blit (INTERNAL_NODES + INTERNAL_NODE * bt_GetSize m) (take (INTERNAL_NODE * n) items) m)
      else Inl (UndefinedBehaviour ''node outside the page''))"

definition in_CopyNFrom :: "nat \<Rightarrow> bytes \<Rightarrow> nat \<Rightarrow> (tree, unit) action" where
  "in_CopyNFrom recipient items n =
     bind (pooled (upd_node recipient (in_copy items n))) (\<lambda>_.
     bind (adopt recipient 0 n) (\<lambda>_.
     pooled (upd_node recipient (\<lambda>m. Inr (bt_IncreaseSize n m)))))"

definition in_MoveHalfTo :: "bytes \<Rightarrow> nat \<Rightarrow> (tree, bytes) action" where
  "in_MoveHalfTo node recipient =
     (let start = bt_GetMinSize node; original_size = bt_GetSize node; node' = bt_SetSize start node in
      bind (in_CopyNFrom recipient (drop (INTERNAL_NODES + INTERNAL_NODE * start) node') (original_size - start)) (\<lambda>_.
      ret node'))"

definition Split_internal :: "bytes \<Rightarrow> (tree, nat \<times> bytes) action" where
  "Split_internal node =
     bind (in_heap split_page) (\<lambda>(new_node, pid).
     bind (pooled (upd_node new_node (\<lambda>n. Inr (bt_SetPageType_of node n)))) (\<lambda>_.
     bind (pooled (upd_node new_node (in_Init (page_number pid) (bt_GetParentPageId node)))) (\<lambda>_.
     bind (in_MoveHalfTo node new_node) (\<lambda>node'.
     ret (new_node, node')))))"

section \<open>Inserting\<close>

definition new_root_page :: "(tree, nat \<times> PageId) action" where
  "new_root_page =
     bind (in_heap (NewPageGuarded Index_AllocatePage)) (\<lambda>(g, pid).
     bind (pooled (UpgradeWrite g)) (\<lambda>(wg, g).
     bind (pooled (guard_GetDataMut wg)) (\<lambda>(wg, f).
     bind (pooled (Write_Drop wg)) (\<lambda>_.
     bind (pooled (Basic_Drop g)) (\<lambda>_.
     ret (f, pid))))))"

definition CreateNewRoot :: "Comparator \<Rightarrow> IndexKeyType \<Rightarrow> RID \<Rightarrow> nat \<Rightarrow> (tree, unit) action" where
  "CreateNewRoot comparator key rid header_page =
     bind new_root_page (\<lambda>(leaf, pid).
     bind (pooled (upd_node leaf (lf_Init (page_number pid) INVALID_PAGE_ID))) (\<lambda>_.
     bind (assert_that (page_number pid > 0) ''root_page_id.page_number_ > 0'') (\<lambda>_.
     bind (pooled (on_page header_page (modify (hd_SetRootPageId (page_number pid))))) (\<lambda>_.
     pooled (upd_node leaf (lf_Insert key rid comparator))))))"

text \<open>The node copied out of a full parent, with room for one more entry.\<close>

definition parent_buffer :: "bytes \<Rightarrow> bytes" where
  "parent_buffer m = slice 0 (INTERNAL_NODES + INTERNAL_NODE * bt_GetSize m) m @ replicate INTERNAL_NODE 0"

fun InsertIntoParent :: "nat \<Rightarrow> nat \<Rightarrow> nat \<Rightarrow> IndexKeyType \<Rightarrow> nat \<Rightarrow> (tree, unit) action" where
  "InsertIntoParent 0 original sibling key header_page = throw OutOfFuel"
| "InsertIntoParent (Suc n) original sibling key header_page =
     bind (pooled (node_at original)) (\<lambda>original_node.
     bind (pooled (node_at sibling)) (\<lambda>sibling_node.
     if bt_IsRootPage original_node
     then
       bind new_root_page (\<lambda>(root, pid).
       bind (pooled (upd_node root (in_Init (page_number pid) INVALID_PAGE_ID))) (\<lambda>_.
       bind (pooled (upd_node root (in_PopulateNewRoot (bt_GetPageId original_node) key (bt_GetPageId sibling_node)))) (\<lambda>_.
       bind (pooled (upd_node original (\<lambda>m. Inr (bt_SetParentPageId (page_number pid) m)))) (\<lambda>_.
       bind (pooled (upd_node sibling (\<lambda>m. Inr (bt_SetParentPageId (page_number pid) m)))) (\<lambda>_.
       bind (pooled (on_page header_page (modify (hd_SetRootPageId (page_number pid))))) (\<lambda>_.
       bind ReleaseHeaderPageAndMarkDirty (\<lambda>_.
       ReleaseParentWriteLatches)))))))
     else
       bind (fetch_node (bt_GetParentPageId original_node)) (\<lambda>parent.
       bind (pooled (node_at parent)) (\<lambda>parent_node.
       bind (lift (bt_GetMaxSize parent_node)) (\<lambda>max.
       if bt_GetSize parent_node < max
       then
         bind (pooled (upd_node parent (\<lambda>m.
           rbind (in_InsertNodeAfter (bt_GetPageId original_node) key (bt_GetPageId sibling_node) m) (\<lambda>(m', _). Inr m')))) (\<lambda>_.
         bind ReleaseParentWriteLatches (\<lambda>_.
         bind (pooled (unpin_frame parent True)) (\<lambda>_. ret ())))
       else
         bind (lift (in_InsertNodeAfter (bt_GetPageId original_node) key (bt_GetPageId sibling_node)
                (parent_buffer parent_node))) (\<lambda>(buffer, _).
         bind (Split_internal buffer) (\<lambda>(new_sibling, buffer).
         bind (pooled (node_at new_sibling)) (\<lambda>new_sibling_node.
         bind (lift (in_KeyAt new_sibling_node 0)) (\<lambda>new_key.
         bind (pooled (upd_node parent (\<lambda>m.
           Inr (blit 0 (slice 0 (INTERNAL_NODES + INTERNAL_NODE * bt_GetMinSize buffer) buffer) m)))) (\<lambda>_.
         bind (InsertIntoParent n parent new_sibling new_key header_page) (\<lambda>_.
         bind (pooled (unpin_frame parent True)) (\<lambda>_.
         bind (pooled (node_at new_sibling)) (\<lambda>new_sibling_node.
         bind (table_page (bt_GetPageId new_sibling_node)) (\<lambda>pid.
         bind (pooled (UnpinPage pid True)) (\<lambda>_. ret ())))))))))))))))"

definition InsertIntoLeaf :: "nat \<Rightarrow> Comparator \<Rightarrow> IndexKeyType \<Rightarrow> RID \<Rightarrow> nat \<Rightarrow> (tree, bool) action" where
  "InsertIntoLeaf depth comparator key rid header_page =
     bind (SearchLeafPage depth comparator key INSERT header_page) (\<lambda>leaf.
     bind (pooled (node_at leaf)) (\<lambda>leaf_node.
     let old_size = bt_GetSize leaf_node in
     bind (pooled (upd_node leaf (lf_Insert key rid comparator))) (\<lambda>_.
     bind (pooled (node_at leaf)) (\<lambda>leaf_node.
     let new_size = bt_GetSize leaf_node in
     bind (lift (bt_GetMaxSize leaf_node)) (\<lambda>max.
     if new_size \<ge> max
     then
       bind (Split_leaf leaf) (\<lambda>sibling.
       bind (pooled (node_at leaf)) (\<lambda>leaf_node.
       bind (pooled (upd_node sibling (\<lambda>m. Inr (lf_SetNextPageId (lf_GetNextPageId leaf_node) m)))) (\<lambda>_.
       bind (pooled (node_at sibling)) (\<lambda>sibling_node.
       bind (pooled (upd_node leaf (\<lambda>m. Inr (lf_SetNextPageId (bt_GetPageId sibling_node) m)))) (\<lambda>_.
       bind (lift (lf_KeyAt sibling_node 0)) (\<lambda>risen_key.
       bind (InsertIntoParent depth leaf sibling risen_key header_page) (\<lambda>_.
       bind (pooled (WUnlatch leaf)) (\<lambda>_.
       bind (pooled (unpin_frame leaf True)) (\<lambda>_.
       bind (pooled (node_at sibling)) (\<lambda>sibling_node.
       bind (table_page (bt_GetPageId sibling_node)) (\<lambda>pid.
       bind (pooled (UnpinPage pid True)) (\<lambda>_. ret True))))))))))))
     else
       bind ReleaseParentWriteLatches (\<lambda>_.
       bind (pooled (WUnlatch leaf)) (\<lambda>_.
       bind (pooled (unpin_frame leaf True)) (\<lambda>_.
       ret (new_size \<noteq> old_size)))))))))"

definition InternalInsertRecord :: "nat \<Rightarrow> BTreeIndex \<Rightarrow> IndexKeyType \<Rightarrow> RID \<Rightarrow> (tree, bool) action" where
  "InternalInsertRecord depth ix key rid =
     bind (fetch_node (im_header_page_id (bi_meta ix))) (\<lambda>header.
     bind (pooled (WLatch header)) (\<lambda>_.
     bind (modify (\<lambda>(h, t). (h, AddIntoPageSet header t))) (\<lambda>_.
     bind (pooled (node_at header)) (\<lambda>header_page.
     if hd_TreeIsEmpty header_page
     then bind (CreateNewRoot (bi_comparator ix) key rid header) (\<lambda>_.
          bind ReleaseParentWriteLatches (\<lambda>_. ret True))
     else InsertIntoLeaf depth (bi_comparator ix) key rid header))))"

definition InternalDeleteRecord :: "nat \<Rightarrow> BTreeIndex \<Rightarrow> IndexKeyType \<Rightarrow> (tree, bool) action" where
  "InternalDeleteRecord depth ix key =
     bind (fetch_node (im_header_page_id (bi_meta ix))) (\<lambda>header.
     bind (pooled (WLatch header)) (\<lambda>_.
     bind (modify (\<lambda>(h, t). (h, AddIntoPageSet header t))) (\<lambda>_.
     bind (pooled (node_at header)) (\<lambda>header_page.
     if hd_TreeIsEmpty header_page
     then bind ReleaseParentWriteLatches (\<lambda>_. ret False)
     else bind (SearchLeafPage depth (bi_comparator ix) key DELETE header) (\<lambda>_. ret True)))))"

section \<open>The interface\<close>

definition InsertRecord :: "nat \<Rightarrow> BTreeIndex \<Rightarrow> Tuple \<Rightarrow> RID \<Rightarrow> (tree, bool) action" where
  "InsertRecord depth ix tuple rid =
     bind (lift (ConvertTupleToKey ix tuple)) (\<lambda>key. InternalInsertRecord depth ix key rid)"

definition DeleteRecord :: "nat \<Rightarrow> BTreeIndex \<Rightarrow> Tuple \<Rightarrow> (tree, bool) action" where
  "DeleteRecord depth ix tuple =
     bind (lift (ConvertTupleToKey ix tuple)) (\<lambda>key. InternalDeleteRecord depth ix key)"

text \<open>A search runs under a transaction of its own.\<close>

definition ScanKey :: "nat \<Rightarrow> BTreeIndex \<Rightarrow> Tuple \<Rightarrow> RID list \<Rightarrow> (heap, bool \<times> RID list) action" where
  "ScanKey depth ix tuple rids h =
     (case bind (lift (ConvertTupleToKey ix tuple)) (\<lambda>key. InternalScanKey depth ix key rids)
             (h, mk_Transaction 0 READ_COMMITTED) of
        (r, (h', _)) \<Rightarrow> (r, h'))"

section \<open>Creating an index\<close>

text \<open>
  A reference to a table's metadata is the key of the catalog's map; \<open>on_table\<close> runs an action on
  the pool and that metadata.
\<close>

type_synonym database = "BufferPool \<times> Catalog"

definition on_table :: "int \<Rightarrow> (heap, 'a) action \<Rightarrow> (database, 'a) action" where
  "on_table oid m = (\<lambda>(s, c).
     case map_of (tables c) oid of
       None \<Rightarrow> (Inl OutOfRange, (s, c))
     | Some None \<Rightarrow> (Inl (UndefinedBehaviour ''null unique_ptr''), (s, c))
     | Some (Some meta) \<Rightarrow>
         (case m (s, meta) of (r, (s', meta')) \<Rightarrow> (r, (s', c\<lparr>tables := AList.update oid (Some meta') (tables c)\<rparr>))))"

definition CreateIndex :: "int \<Rightarrow> string \<Rightarrow> string \<Rightarrow> Column \<Rightarrow> bool \<Rightarrow> IndexType \<Rightarrow> (database, int option) action" where
  "CreateIndex indeterminate index_name table_name key_col is_primary_key index_type =
     bind (gets snd) (\<lambda>c.
     case map_of (table_names c) table_name of
       None \<Rightarrow> ret None
     | Some tid \<Rightarrow>
         (case map_of (index_names c) table_name of
            None \<Rightarrow> throw (UndefinedBehaviour ''dereference of end()'')
          | Some table_indexes \<Rightarrow>
              if map_of table_indexes index_name \<noteq> None then ret None
              else
                let index_meta = mk_IndexMeta indeterminate index_name tid key_col (if is_primary_key then PRIMARY else NONE) index_type in
                bind (if index_type = BPlusTreeIndex then on_table tid (mk_BTreeIndex index_meta)
                      else throw (NotImplementedException ''Unsupported index type'')) (\<lambda>ix.
                bind (gets (\<lambda>(s, c). sint (word_of_nat (length (indexes c)) :: 32 word))) (\<lambda>index_oid.
                bind (modify (\<lambda>(s, c). (s, c\<lparr>indexes := emplace index_oid (Some (bi_meta ix)) (indexes c),
                       index_names := AList.update table_name (emplace index_name index_oid table_indexes) (index_names c)\<rparr>))) (\<lambda>_.
                ret (Some index_oid))))))"

end
