(* ===== verification/PoolViews.thy ===== *)
theory PoolViews
  imports Indexes
begin

text \<open>
  Symbolic execution of code that works on pages in the pool. \<open>wp m Q s\<close> says that \<open>m\<close> returns from
  \<open>s\<close> and that \<open>Q\<close> holds of what it returns and of the state after it. \<open>sees s T W D F\<close> describes a
  pool by its page table, its frames, its disk and its free frames; each rule takes one operation on
  pages in the pool from one description to the next. No rule evicts a page.
\<close>

section \<open>Runs that return\<close>

named_theorems wp_simps

definition wp :: "('s, 'a) action \<Rightarrow> ('a \<Rightarrow> 's \<Rightarrow> bool) \<Rightarrow> 's \<Rightarrow> bool" where
  "wp m Q s \<longleftrightarrow> (\<exists>x s'. m s = (Inr x, s') \<and> Q x s')"

lemma wp_run: "m s = (Inr x, s') \<Longrightarrow> wp m Q s \<longleftrightarrow> Q x s'"
  by (simp add: wp_def)

lemma wpD: "wp m Q s \<Longrightarrow> \<exists>x s'. m s = (Inr x, s') \<and> Q x s'"
  by (simp add: wp_def)

lemma wp_mono: "wp m P s \<Longrightarrow> (\<And>x s'. P x s' \<Longrightarrow> Q x s') \<Longrightarrow> wp m Q s"
  by (auto simp: wp_def)

lemma wp_basic [wp_simps]:
  "wp (ret x) Q s = Q x s" "wp (lift r) Q s = (\<exists>x. r = Inr x \<and> Q x s)" "wp (gets g) Q s = Q (g s) s" "wp (throw e) Q s = False"
  by (auto simp: wp_def act_simps)

lemma wp_unit [wp_simps]: "wp (modify h) Q s = Q () (h s)" "wp (assert_that b msg) Q s = (b \<and> Q () s)"
  by (auto simp: wp_def act_simps assert_that_def)

lemma wp_check [wp_simps]: "wp (if b then assert_that c msg else ret ()) Q s = ((b \<longrightarrow> c) \<and> Q () s)"
  by (simp add: wp_basic wp_unit)

lemma wp_bind [wp_simps]: "wp (bind m k) Q s = wp m (\<lambda>x. wp (k x) Q) s"
  by (cases "m s"; cases "fst (m s)") (auto simp: wp_def bind_def)

lemma wp_in_pool [wp_simps]: "wp (in_pool m) Q (s, a) = wp m (\<lambda>x s'. Q x (s', a)) s"
  by (cases "m s") (auto simp: wp_def in_pool_def)

lemma wp_in_heap [wp_simps]: "wp (in_heap m) Q (h, t) = wp m (\<lambda>x h'. Q x (h', t)) h"
  by (cases "m h") (auto simp: wp_def in_heap_def zoom_def)

text \<open>
  A run may also be followed to its end whatever the end is: \<open>R\<close> is any property of the outcome, such
  as that it is a value, or a given error.
\<close>

definition returns :: "('a \<Rightarrow> 's \<Rightarrow> bool) \<Rightarrow> 'a result \<times> 's \<Rightarrow> bool" where
  "returns Q r \<longleftrightarrow> (\<exists>x s'. r = (Inr x, s') \<and> Q x s')"

definition fails :: "error \<Rightarrow> 'a result \<times> 's \<Rightarrow> bool" where
  "fails e r \<longleftrightarrow> fst r = Inl e"

lemma wp_returns: "wp m Q s = returns Q (m s)"
  by (simp add: wp_def returns_def)

lemma wp_then: "wp m (\<lambda>x s'. R (k x s')) s \<Longrightarrow> R (bind m k s)"
  by (auto simp: wp_def bind_def)

lemma fails_then: "wp m (\<lambda>x s'. fails e (k x s')) s \<Longrightarrow> fails e (bind m k s)"
  by (rule wp_then)

lemma fails_head: "fails e (m s) \<Longrightarrow> fails e (bind m k s)"
  by (cases "m s") (auto simp: fails_def bind_def)

lemma fails_throw: "fails e (throw e s)"
  by (simp add: fails_def throw_def)

section \<open>Descriptions of a pool\<close>

definition sees :: "BufferPool \<Rightarrow> (PageId \<Rightarrow> nat option) \<Rightarrow> (nat \<Rightarrow> Page) \<Rightarrow> Disk \<Rightarrow> nat list \<Rightarrow> bool" where
  "sees s T W D F \<longleftrightarrow> gp_inv s \<and> page_table s = T \<and> (\<forall>f < pool_size s. pages s ! f = W f) \<and> disk_manager s = D \<and> free_list s = F"

definition contents :: "(PageId \<Rightarrow> nat option) \<Rightarrow> (nat \<Rightarrow> Page) \<Rightarrow> Disk \<Rightarrow> PageId \<Rightarrow> bytes" where
  "contents T W D pid = (case T pid of Some f \<Rightarrow> page_data (W f) | None \<Rightarrow> disk_page D pid)"

lemma sees_inv: "gp_inv s \<Longrightarrow> sees s (page_table s) ((!) (pages s)) (disk_manager s) (free_list s)"
  by (simp add: sees_def)

lemma sees_eq: "sees s T V D F \<Longrightarrow> (\<And>f. V f = W f) \<Longrightarrow> sees s T W D F"
  by (simp add: sees_def)

lemma sees_bp:
  assumes "sees s T W D F"
  shows "gp_inv s" and "bp_inv s" and "length (pages s) = pool_size s"
  using assms bp_invD(2) by (auto simp: sees_def gp_inv_def)

lemma sees_frame:
  assumes see: "sees s T W D F" and pid: "T pid = Some f"
  shows "f < pool_size s" and "pages s ! f = W f" and "page_id (W f) = pid" and "valid_pid pid"
    and "length (page_data (W f)) = PAGE_SIZE" and "f \<notin> set F"
    and "pin_count (W f) = 0 \<Longrightarrow> rwlatch (W f) = Unlatched"
    and "pin_count (W f) = 0 \<Longrightarrow> is_dirty (W f) \<or> page_data (W f) = disk_page D pid"
proof -
  have f: "page_table s = T" "disk_manager s = D" "free_list s = F" using see by (simp_all add: sees_def)
  note bi = sees_bp(2) [OF see]
  have pt: "page_table s pid = Some f" using pid f by simp
  show lt: "f < pool_size s" using bp_invD(4) [OF bi pt] .
  show eq: "pages s ! f = W f" using see lt by (simp add: sees_def)
  show "page_id (W f) = pid" "valid_pid pid" "f \<notin> set F" using bp_invD(5,6,8) [OF bi pt] eq f by simp_all
  show "length (page_data (W f)) = PAGE_SIZE" using bp_invD(3) [OF bi lt] eq by simp
  show "pin_count (W f) = 0 \<Longrightarrow> rwlatch (W f) = Unlatched" using see lt eq by (auto simp: sees_def gp_inv_def)
  show "pin_count (W f) = 0 \<Longrightarrow> is_dirty (W f) \<or> page_data (W f) = disk_page D pid"
    using bp_invD(11) [OF bi pt] eq f by auto
qed

lemma sees_inj: "sees s T W D F \<Longrightarrow> T pid = Some f \<Longrightarrow> T pid' = Some g \<Longrightarrow> pid \<noteq> pid' \<Longrightarrow> f \<noteq> g"
  using sees_frame(3) by blast

lemma sees_logical:
  assumes "sees s T W D F"
  shows "logical s = contents T W D"
proof
  fix pid
  show "logical s pid = contents T W D pid"
  proof (cases "T pid")
    case (Some f)
    then show ?thesis using sees_frame(2) [OF assms Some] assms by (simp add: logical_def contents_def sees_def)
  qed (use assms in \<open>simp add: logical_def contents_def sees_def\<close>)
qed

lemma sees_pins:
  assumes "sees s T W D F"
  shows "pins s pid = (case T pid of Some f \<Rightarrow> pin_count (W f) | None \<Rightarrow> 0)"
proof (cases "T pid")
  case (Some f)
  then show ?thesis using sees_frame(2) [OF assms Some] assms by (simp add: pins_def sees_def)
qed (use assms in \<open>simp add: pins_def sees_def\<close>)

lemma contents_upd:
  assumes see: "sees s T W D F" and "T pid = Some f"
  shows "contents T (W(f := p)) D = (contents T W D)(pid := page_data p)"
  using assms sees_inj [OF see] by (fastforce simp: fun_eq_iff contents_def split: option.splits)

text \<open>Only one frame changes.\<close>

lemma sees_step:
  assumes see: "sees s T W D F" and inv: "gp_inv s'" and "page_table s' = T" "disk_manager s' = D" "free_list s' = F"
    and "pool_size s' = pool_size s" and nth: "\<And>g. g < pool_size s \<Longrightarrow> g \<noteq> f \<Longrightarrow> pages s' ! g = pages s ! g"
    and "pages s' ! f = p"
  shows "sees s' T (W(f := p)) D F"
  using assms by (auto simp: sees_def)

section \<open>Operations on a page in the pool\<close>

lemma sees_touch:
  assumes see: "sees s T W D F" and pid: "T pid = Some f"
    and store: "\<And>g. (g, True) \<in> set store \<Longrightarrow> (g, True) \<in> set (replacer s) \<or> g = f"
    and zero: "k = 0 \<Longrightarrow> rwlatch (W f) = Unlatched \<and> (dirty \<or> page_data (W f) = disk_page D pid)"
  shows "sees (touch f k dirty store s) T (W(f := (W f)\<lparr>is_dirty := dirty, pin_count := k\<rparr>)) D F"
proof -
  note fr = sees_frame [OF see pid] and bi = sees_bp(2) [OF see]
  have fields: "page_table s = T" "disk_manager s = D" "free_list s = F" using see by (simp_all add: sees_def)
  have pt: "page_table s pid = Some f" using pid fields by simp
  note nth = touch_nth [OF bi fr(1), of k dirty store]
  have "bp_inv (touch f k dirty store s)"
    by (rule touch_inv(1) [OF bi pt store]) (use zero fr(2) fields in auto)
  then have "gp_inv (touch f k dirty store s)"
    using sees_bp(1) [OF see] nth zero fr(2) by (auto simp: gp_inv_def) (auto simp: touch_def)
  then show ?thesis
    by (rule sees_step [OF see]) (use fields nth fr(2) in \<open>simp_all add: touch_def\<close>)
qed

lemma page_same_dirty: "(p :: Page)\<lparr>is_dirty := is_dirty p, pin_count := k\<rparr> = p\<lparr>pin_count := k\<rparr>"
  by (cases p) simp

lemma wp_FetchPage:
  assumes see: "sees s T W D F" and pid: "T pid = Some f" and "pin_count (W f) \<noteq> - 1"
    and Q: "\<And>s'. sees s' T (W(f := (W f)\<lparr>pin_count := pin_count (W f) + 1\<rparr>)) D F \<Longrightarrow> Q f s'"
  shows "wp (FetchPage pid) Q s"
proof -
  have "page_table s pid = Some f" using see pid by (simp add: sees_def)
  then have run: "FetchPage pid s = (Inr f, touch f (pin_count (W f) + 1) (is_dirty (W f)) (Replacer_Pin f (replacer s)) s)"
    using FetchPage_hit [OF sees_bp(2) [OF see]] sees_frame(2) [OF see pid] by simp
  have "sees (touch f (pin_count (W f) + 1) (is_dirty (W f)) (Replacer_Pin f (replacer s)) s) T
      (W(f := (W f)\<lparr>is_dirty := is_dirty (W f), pin_count := pin_count (W f) + 1\<rparr>)) D F"
    by (rule sees_touch [OF see pid]) (use assms(3) in \<open>auto simp: Replacer_Pin_evictable add_eq_0_iff2\<close>)
  then show ?thesis using run Q by (simp add: wp_run page_same_dirty)
qed

lemma wp_UnpinPage:
  assumes see: "sees s T W D F" and pid: "T pid = Some f" and pin: "pin_count (W f) \<noteq> 0"
    and last: "pin_count (W f) = 1 \<Longrightarrow> rwlatch (W f) = Unlatched \<and> (dirty \<or> is_dirty (W f) \<or> page_data (W f) = disk_page D pid)"
    and Q: "\<And>s'. sees s' T (W(f := (W f)\<lparr>is_dirty := is_dirty (W f) \<or> dirty, pin_count := pin_count (W f) - 1\<rparr>)) D F \<Longrightarrow> Q True s'"
  shows "wp (UnpinPage pid dirty) Q s"
proof -
  have pt: "page_table s pid = Some f" using see pid by (simp add: sees_def)
  have pn: "pins s pid = pin_count (W f)" using sees_pins [OF see] pid by simp
  let ?st = "if pin_count (W f) - 1 = 0 then Replacer_Unpin f (replacer s) else replacer s"
  let ?s = "touch f (pin_count (W f) - 1) (is_dirty (W f) \<or> dirty) ?st s"
  have run: "UnpinPage pid dirty s = (Inr True, ?s)"
    using UnpinPage_run [OF sees_bp(2) [OF see] pt] pin pn sees_frame(2) [OF see pid] by simp
  have "sees ?s T (W(f := (W f)\<lparr>is_dirty := is_dirty (W f) \<or> dirty, pin_count := pin_count (W f) - 1\<rparr>)) D F"
    by (rule sees_touch [OF see pid]) (use last in \<open>auto simp: Replacer_Unpin_evictable split: if_splits\<close>)
  then show ?thesis using run Q by (simp add: wp_run)
qed

lemma wp_page_at: "sees s T W D F \<Longrightarrow> f \<in> ran T \<Longrightarrow> wp (page_at f) Q s = Q (W f) s"
  using sees_frame(1,2) sees_bp(3) by (fastforce simp: ran_def act_simps wp_run)

lemma wp_node_at: "sees s T W D F \<Longrightarrow> f \<in> ran T \<Longrightarrow> wp (node_at f) Q s = Q (page_data (W f)) s"
  by (simp add: node_at_def wp_simps wp_page_at)

lemma wp_nodeI: "sees s T W D F \<Longrightarrow> f \<in> ran T \<Longrightarrow> Q (page_data (W f)) s \<Longrightarrow> wp (node_at f) Q s"
  by (simp add: wp_node_at)

lemma wp_unpin_frame:
  assumes "sees s T W D F" and "T (page_id (W f)) = Some f" and "pin_count (W f) \<noteq> 0"
    and "pin_count (W f) = 1 \<Longrightarrow> rwlatch (W f) = Unlatched \<and> (dirty \<or> is_dirty (W f) \<or> page_data (W f) = disk_page D (page_id (W f)))"
    and "\<And>s'. sees s' T (W(f := (W f)\<lparr>is_dirty := is_dirty (W f) \<or> dirty, pin_count := pin_count (W f) - 1\<rparr>)) D F \<Longrightarrow> Q True s'"
  shows "wp (unpin_frame f dirty) Q s"
  using wp_page_at [OF assms(1) ranI [of T, OF assms(2)]] wp_UnpinPage [OF assms(1-4), of Q] assms(5) by (simp add: unpin_frame_def wp_simps)

lemma sees_relatch:
  assumes see: "sees s T W D F" and f: "f \<in> ran T" and pin: "pin_count (W f) \<noteq> 0"
  shows "sees (relatch f l s) T (W(f := (W f)\<lparr>rwlatch := l\<rparr>)) D F"
proof -
  obtain pid where pid: "T pid = Some f" using f by (auto simp: ran_def)
  note fr = sees_frame [OF see pid]
  have "gp_inv (relatch f l s)" using gp_relatch [OF sees_bp(1) [OF see]] pin fr(2) by simp
  then show ?thesis
    by (rule sees_step [OF see]) (use see fr(1,2) sees_bp(3) [OF see] in \<open>simp_all add: relatch_page sees_def relatch_def\<close>)
qed

lemma wp_latches:
  assumes see: "sees s T W D F" and f: "f \<in> ran T" and pin: "pin_count (W f) \<noteq> 0"
  shows "rwlatch (W f) = Unlatched \<Longrightarrow> (\<And>s'. sees s' T (W(f := (W f)\<lparr>rwlatch := WriteLatched\<rparr>)) D F \<Longrightarrow> Q () s') \<Longrightarrow> wp (WLatch f) Q s"
    and "rwlatch (W f) = Unlatched \<Longrightarrow> (\<And>s'. sees s' T (W(f := (W f)\<lparr>rwlatch := ReadLatched 1\<rparr>)) D F \<Longrightarrow> Q () s') \<Longrightarrow> wp (RLatch f) Q s"
    and "rwlatch (W f) = WriteLatched \<Longrightarrow> (\<And>s'. sees s' T (W(f := (W f)\<lparr>rwlatch := Unlatched\<rparr>)) D F \<Longrightarrow> Q () s') \<Longrightarrow> wp (WUnlatch f) Q s"
    and "rwlatch (W f) = ReadLatched 1 \<Longrightarrow> (\<And>s'. sees s' T (W(f := (W f)\<lparr>rwlatch := Unlatched\<rparr>)) D F \<Longrightarrow> Q () s') \<Longrightarrow> wp (RUnlatch f) Q s"
proof -
  obtain pid where pid: "T pid = Some f" using f by (auto simp: ran_def)
  have lt: "f < length (pages s)" and eq: "latches s ! f = rwlatch (W f)"
    using sees_frame(1,2) [OF see pid] sees_bp(3) [OF see] by (simp_all add: latches_def)
  note runs = latch_runs [OF lt, unfolded eq] and rl = sees_relatch [OF see f pin]
  show "rwlatch (W f) = Unlatched \<Longrightarrow> (\<And>s'. sees s' T (W(f := (W f)\<lparr>rwlatch := WriteLatched\<rparr>)) D F \<Longrightarrow> Q () s') \<Longrightarrow> wp (WLatch f) Q s"
    "rwlatch (W f) = Unlatched \<Longrightarrow> (\<And>s'. sees s' T (W(f := (W f)\<lparr>rwlatch := ReadLatched 1\<rparr>)) D F \<Longrightarrow> Q () s') \<Longrightarrow> wp (RLatch f) Q s"
    "rwlatch (W f) = WriteLatched \<Longrightarrow> (\<And>s'. sees s' T (W(f := (W f)\<lparr>rwlatch := Unlatched\<rparr>)) D F \<Longrightarrow> Q () s') \<Longrightarrow> wp (WUnlatch f) Q s"
    "rwlatch (W f) = ReadLatched 1 \<Longrightarrow> (\<And>s'. sees s' T (W(f := (W f)\<lparr>rwlatch := Unlatched\<rparr>)) D F \<Longrightarrow> Q () s') \<Longrightarrow> wp (RUnlatch f) Q s"
    using runs rl by (simp_all add: wp_run)
qed

text \<open>A page that is pinned, or marked dirty, may be written.\<close>

lemma wp_on_page:
  assumes see: "sees s T W D F" and f: "f \<in> ran T" and pin: "pin_count (W f) \<noteq> 0 \<or> is_dirty (W f)"
    and m: "m (page_data (W f)) = (Inr x, bs)" "length bs = PAGE_SIZE"
    and Q: "\<And>s'. sees s' T (W(f := (W f)\<lparr>page_data := bs\<rparr>)) D F \<Longrightarrow> Q x s'"
  shows "wp (on_page f m) Q s"
proof -
  obtain pid where pid: "T pid = Some f" using f by (auto simp: ran_def)
  note fr = sees_frame [OF see pid]
  have pt: "page_table s pid = Some f" and pn: "pins s pid \<noteq> 0 \<or> is_dirty (pages s ! f)"
    using see pid sees_pins [OF see, of pid] pin fr(2) by (simp_all add: sees_def)
  note w = write_frame_loose [OF sees_bp(2) [OF see] pt pn m(2)]
  have "on_page f m s = (Inr x, write_frame f bs s)"
    by (rule on_page_run) (use fr(1,2) m(1) sees_bp(3) [OF see] in simp_all)
  moreover have "gp_inv (write_frame f bs s)"
    using sees_bp(1) [OF see] w(1,6) by (auto simp: gp_inv_def write_frame_def split: if_splits)
  then have "sees (write_frame f bs s) T (W(f := (W f)\<lparr>page_data := bs\<rparr>)) D F"
    by (rule sees_step [OF see]) (use see w fr(2) in \<open>simp_all add: sees_def write_frame_def\<close>)
  ultimately show ?thesis using Q by (simp add: wp_run)
qed

lemma wp_upd_node:
  assumes "sees s T W D F" and "f \<in> ran T" and "pin_count (W f) \<noteq> 0 \<or> is_dirty (W f)"
    and "g (page_data (W f)) = Inr bs" and "length bs = PAGE_SIZE"
    and "\<And>s'. sees s' T (W(f := (W f)\<lparr>page_data := bs\<rparr>)) D F \<Longrightarrow> Q () s'"
  shows "wp (upd_node f g) Q s"
  unfolding upd_node_def
  by (rule wp_on_page [where m = "\<lambda>m. case g m of Inl e \<Rightarrow> (Inl e, m) | Inr m' \<Rightarrow> (Inr (), m')", OF assms(1-3)]) (use assms(4-6) in simp_all)

section \<open>New pages\<close>

text \<open>The page a free frame gets.\<close>

definition fresh :: "PageId \<Rightarrow> Page" where
  "fresh pid = \<lparr>page_id = pid, is_dirty = False, pin_count = 1, rwlatch = Unlatched, page_data = zero_page\<rparr>"

lemma fresh_simps [simp]:
  "page_id (fresh pid) = pid" "\<not> is_dirty (fresh pid)" "pin_count (fresh pid) = 1" "rwlatch (fresh pid) = Unlatched"
  "page_data (fresh pid) = zero_page"
  by (simp_all add: fresh_def)

lemma wp_NewPage:
  assumes see: "sees s T W D (f # F)" and alloc: "alloc a = (Inr pid, a')"
    and pid: "valid_pid pid" "T pid = None" "disk_page D pid = zero_page"
    and Q: "\<And>s'. sees s' (T(pid \<mapsto> f)) (W(f := fresh pid)) D F \<Longrightarrow> f \<notin> ran T \<Longrightarrow> Q (f, pid) (s', a')"
  shows "wp (NewPage alloc) Q (s, a)"
proof -
  note bi = sees_bp(2) [OF see]
  have fields: "page_table s = T" "disk_manager s = D" "free_list s = f # F" using see by (simp_all add: sees_def)
  have f: "f < pool_size s" "f \<notin> set F" "page_number (page_id (pages s ! f)) = INVALID_PAGE_ID" "pin_count (pages s ! f) = 0"
    using bp_invD(12) [OF bi] bp_invD(13-15) [OF bi, of f] fields by auto
  have lt: "f < length (pages s)" using f sees_bp(3) [OF see] by simp
  have un: "rwlatch (pages s ! f) = Unlatched" using sees_bp(1) [OF see] f by (auto simp: gp_inv_def)
  have old: "T (page_id (pages s ! f)) = None"
    using bp_invD(8) [OF bi, of "page_id (pages s ! f)"] f(3) fields by (cases "T (page_id (pages s ! f))") (auto simp: valid_pid_def)
  have ne: "page_id (pages s ! f) \<noteq> pid" using f(3) pid(1) by (auto simp: valid_pid_def)
  have fr: "f \<notin> ran T" using bp_invD(6) [OF bi] fields by (auto simp: ran_def)
  have pg: "ResetMemory ((pages s ! f)\<lparr>page_id := pid, pin_count := 1, is_dirty := False\<rparr>) = fresh pid"
    using un by (cases "pages s ! f") (simp add: ResetMemory_def fresh_def)
  define s' where "s' = s\<lparr>free_list := F, replacer := Replacer_Pin f (replacer s), page_table := T(pid \<mapsto> f), pages := (pages s)[f := fresh pid]\<rparr>"
  have run: "NewPage alloc (s, a) = (Inr (f, pid), (s', a'))"
    using lt f old ne alloc fields pg
    by (simp add: NewPage_def NewPage_frame_def NewPage_install_def AllocateFrame_def act_simps zoom_def fun_upd_idem s'_def)
  have rg: "NewPageGuarded alloc (s, a) = (Inr (mk_guard f, pid), (s', a'))" using run by (simp add: NewPageGuarded_def act_simps)
  have "gp_inv s'" by (rule new_held [OF sees_bp(1) [OF see] alloc pid(1) _ _ rg]) (use pid(2,3) fields in simp_all)
  then have "sees s' (T(pid \<mapsto> f)) (W(f := fresh pid)) D F"
    using see lt by (auto simp: sees_def s'_def nth_list_update)
  then show ?thesis using run Q fr by (simp add: wp_run)
qed

end
