(* ===== verification/BtreeNodes.thy ===== *)
theory BtreeNodes
  imports BtreePages
begin

text \<open>
  Internal pages over integer keys as lists of children, and what an insertion does to the list of
  entries of a leaf. Child \<open>i\<close> of an internal page holds the keys from key \<open>i\<close> on and below key
  \<open>i + 1\<close>; the first key of the page is never read.
\<close>

section \<open>Internal pages\<close>

definition ind :: "bytes \<Rightarrow> nat \<Rightarrow> bytes" where
  "ind m i = slice (INTERNAL_NODES + INTERNAL_NODE * i) INTERNAL_NODE m"

definition in_key :: "bytes \<Rightarrow> nat \<Rightarrow> int" where
  "in_key m i = get_int 0 4 (ind m i)"

definition in_val :: "bytes \<Rightarrow> nat \<Rightarrow> int" where
  "in_val m i = bytes_int (drop 8 (ind m i))"

definition in_page :: "bytes \<Rightarrow> bool" where
  "in_page m \<longleftrightarrow> length m = PAGE_SIZE \<and> bt_max_size m = INTERNAL_MAX_NODE_SIZE \<and> \<not> bt_IsLeafPage m \<and>
     1 \<le> bt_GetSize m \<and> bt_GetSize m \<le> INTERNAL_MAX_NODE_SIZE"

definition in_ok :: "bytes \<Rightarrow> bool" where
  "in_ok m \<longleftrightarrow> in_page m \<and> (\<forall>j < bt_GetSize m. \<forall>i < j. 1 \<le> i \<longrightarrow> in_key m i < in_key m j)"

lemma length_ind: "length m = PAGE_SIZE \<Longrightarrow> i < INTERNAL_MAX_NODE_SIZE \<Longrightarrow> length (ind m i) = INTERNAL_NODE"
  by (simp add: ind_def)

lemma in_node_ind: "length m = PAGE_SIZE \<Longrightarrow> i < INTERNAL_MAX_NODE_SIZE \<Longrightarrow> in_node m i = Inr (ind m i)"
  by (simp add: in_node_def ind_def)

lemma in_ValueAt_val: "length m = PAGE_SIZE \<Longrightarrow> i < INTERNAL_MAX_NODE_SIZE \<Longrightarrow> in_ValueAt m i = Inr (in_val m i)"
  by (simp add: in_ValueAt_def in_node_ind in_val_def)

lemma in_compare:
  assumes "length m = PAGE_SIZE" and "i < INTERNAL_MAX_NODE_SIZE" and "fits 4 k"
  shows "rbind (in_KeyAt m i) (\<lambda>x. rbind (compare Compare_int32 x (int_key k)) g) = g (three_way (in_key m i) k)"
    and "rbind (in_KeyAt m i) (\<lambda>x. rbind (compare Compare_int32 (int_key k) x) g) = g (three_way k (in_key m i))"
proof -
  have "get_int 0 4 (take 8 (ind m i)) = in_key m i" using length_ind [OF assms(1,2)] by (simp add: in_key_def get_int_def slice_def)
  then show "rbind (in_KeyAt m i) (\<lambda>x. rbind (compare Compare_int32 x (int_key k)) g) = g (three_way (in_key m i) k)"
    "rbind (in_KeyAt m i) (\<lambda>x. rbind (compare Compare_int32 (int_key k) x) g) = g (three_way k (in_key m i))"
    using assms by (simp_all add: in_KeyAt_def in_node_ind compare_def get_int_key)
qed

text \<open>The child that a key belongs to.\<close>

lemma in_Lookup_spec:
  assumes ok: "in_ok m" and k: "fits 4 k"
  obtains j where "in_Lookup m (int_key k) Compare_int32 = Inr (in_val m j)" "j < bt_GetSize m" "j = 0 \<or> in_key m j \<le> k"
    "\<And>i. j < i \<Longrightarrow> i < bt_GetSize m \<Longrightarrow> k < in_key m i"
proof -
  let ?n = "bt_GetSize m"
  have p: "length m = PAGE_SIZE" "1 \<le> ?n" "?n \<le> INTERNAL_MAX_NODE_SIZE" using ok by (auto simp: in_ok_def in_page_def)
  let ?l = "\<lambda>i. rbind (in_KeyAt m i) (\<lambda>x. rbind (compare Compare_int32 x (int_key k)) (\<lambda>r. Inr (r < 0)))"
  have l: "?l i = Inr (in_key m i < k)" if "i < ?n" for i
    using that p(3) by (simp add: in_compare(1) [OF p(1) _ k] three_way_def)
  have "\<exists>j. lower_bound ?l 1 (?n - 1) = Inr j \<and> 1 \<le> j \<and> j \<le> 1 + (?n - 1) \<and>
      (\<forall>i. 1 \<le> i \<and> i < j \<longrightarrow> in_key m i < k) \<and> (\<forall>i. j \<le> i \<and> i < 1 + (?n - 1) \<longrightarrow> \<not> in_key m i < k)"
  proof (rule lower_bound_spec)
    show "in_key m i < k" if "1 \<le> i" "i < j" "j < 1 + (?n - 1)" "in_key m j < k" for i j
    proof -
      have "in_key m i < in_key m j" using ok that p(2) by (simp add: in_ok_def)
      then show ?thesis using that(4) by simp
    qed
  qed (use l p(2) in simp)
  then obtain j where j: "lower_bound ?l 1 (?n - 1) = Inr j" "1 \<le> j" "j \<le> ?n" "\<forall>i. 1 \<le> i \<and> i < j \<longrightarrow> in_key m i < k"
      "\<forall>i. j \<le> i \<and> i < ?n \<longrightarrow> k \<le> in_key m i"
    using p(2) by (auto simp: not_less)
  have val: "in_ValueAt m i = Inr (in_val m i)" if "i < ?n" for i using in_ValueAt_val [OF p(1)] that p(3) by simp
  show thesis
  proof (cases "j < ?n \<and> in_key m j = k")
    case True
    then have "in_Lookup m (int_key k) Compare_int32 = Inr (in_val m j)"
      using j(1) val p(3) by (simp add: in_Lookup_def in_compare(2) [OF p(1) _ k] three_way_def)
    moreover have "k < in_key m i" if "j < i" "i < ?n" for i using ok j(2) that True by (auto simp: in_ok_def)
    ultimately show thesis using that True by blast
  next
    case False
    have "in_Lookup m (int_key k) Compare_int32 = Inr (in_val m (j - 1))"
    proof (cases "j = ?n")
      case n: False
      then have "j < ?n" "k \<noteq> in_key m j" using j(3) False by auto
      then show ?thesis using j(1) n val [of "j - 1"] p(3)
        by (auto simp: in_Lookup_def in_compare(2) [OF p(1) _ k] three_way_def)
    qed (use j(1) val [of "?n - 1"] p(2) in \<open>simp add: in_Lookup_def\<close>)
    moreover have "k < in_key m i" if "j - 1 < i" "i < ?n" for i
    proof (cases "i = j")
      case True
      then show ?thesis using False j(5) that by force
    next
      case f: False
      then have "j < i" using that by simp
      then have "in_key m j < in_key m i" "k \<le> in_key m j" using ok j(2,5) that by (auto simp: in_ok_def)
      then show ?thesis by simp
    qed
    moreover have "j - 1 = 0 \<or> in_key m (j - 1) \<le> k" using j(4) [rule_format, of "j - 1"] by force
    ultimately show thesis using that [of "j - 1"] j(2,3) by auto
  qed
qed

section \<open>Changing an internal page\<close>

text \<open>
  The lemmas hold for nodes of any length: a full page is changed in a buffer with room for one more
  entry than the page has.
\<close>

lemma ind_SetSize: "INTERNAL_NODES + INTERNAL_NODE * (i + 1) \<le> length m \<Longrightarrow> ind (bt_SetSize n m) i = ind m i"
  by (simp add: ind_def bt_SetSize_def mem_simps)

lemma SetSize_fields:
  assumes "INTERNAL_NODES \<le> length m"
  shows "length (bt_SetSize n m) = length m" "n < 2 ^ 64 \<Longrightarrow> bt_GetSize (bt_SetSize n m) = n" "bt_max_size (bt_SetSize n m) = bt_max_size m"
    "bt_IsLeafPage (bt_SetSize n m) = bt_IsLeafPage m" "bt_GetParentPageId (bt_SetSize n m) = bt_GetParentPageId m" "bt_GetPageId (bt_SetSize n m) = bt_GetPageId m"
  using assms by (simp_all add: bt_SetSize_def bt_GetSize_def bt_max_size_def bt_IsLeafPage_def bt_GetParentPageId_def bt_GetPageId_def mem_simps)

lemma in_node_at: "INTERNAL_NODES + INTERNAL_NODE * (i + 1) \<le> length m \<Longrightarrow> in_node m i = Inr (ind m i)"
  "INTERNAL_NODES + INTERNAL_NODE * (i + 1) \<le> length m \<Longrightarrow> in_ValueAt m i = Inr (in_val m i)"
  by (simp_all add: in_ValueAt_def in_node_def ind_def in_val_def)

lemma blit_ind:
  assumes "length m = n" and "INTERNAL_NODES \<le> off" and "off + length bs \<le> n"
  shows "length (blit off bs m) = n" "bt_max_size (blit off bs m) = bt_max_size m"
    "bt_IsLeafPage (blit off bs m) = bt_IsLeafPage m" "bt_GetSize (blit off bs m) = bt_GetSize m"
    "bt_GetParentPageId (blit off bs m) = bt_GetParentPageId m" "bt_GetPageId (blit off bs m) = bt_GetPageId m"
  using assms by (simp_all add: bt_max_size_def bt_IsLeafPage_def bt_GetSize_def bt_GetParentPageId_def bt_GetPageId_def mem_simps)

lemma ind_blit_other:
  assumes "length m = n" and "off + length bs \<le> n"
    and "INTERNAL_NODES + INTERNAL_NODE * (i + 1) \<le> off \<or> off + length bs \<le> INTERNAL_NODES + INTERNAL_NODE * i"
  shows "ind (blit off bs m) i = ind m i"
  using assms by (simp add: ind_def slice_blit_other)

text \<open>The children of a page, and writing one entry.\<close>

definition children :: "bytes \<Rightarrow> (int \<times> int) list" where
  "children m = map (\<lambda>i. (in_key m i, in_val m i)) [0..<bt_GetSize m]"

lemma length_children [simp]: "length (children m) = bt_GetSize m"
  by (simp add: children_def)

lemma nth_children: "i < bt_GetSize m \<Longrightarrow> children m ! i = (in_key m i, in_val m i)"
  by (simp add: children_def)

lemma find_value_spec:
  assumes "INTERNAL_NODES + INTERNAL_NODE * (i + n) \<le> length m" and "i \<le> j" and "j < i + n" and "in_val m j = v"
    and "\<And>l. i \<le> l \<Longrightarrow> l < j \<Longrightarrow> in_val m l \<noteq> v"
  shows "find_value m v i n = Inr j"
  using assms
proof (induction n arbitrary: i)
  case (Suc n)
  show ?case
  proof (cases "i = j")
    case False
    then show ?thesis using Suc.IH [of "Suc i"] Suc.prems by (simp add: in_node_at)
  qed (use Suc.prems in \<open>simp add: in_node_at\<close>)
qed simp

definition in_entry :: "int \<Rightarrow> int \<Rightarrow> bytes" where
  "in_entry k v = int_key k @ int_bytes 4 v"

lemma in_entry: "length (in_entry k v) = INTERNAL_NODE" "fits 4 k \<Longrightarrow> get_int 0 4 (in_entry k v) = k"
  "fits 4 v \<Longrightarrow> bytes_int (drop 8 (in_entry k v)) = v"
  by (simp_all add: in_entry_def get_int_key bytes_int_int_bytes)

lemma set_entry:
  assumes m: "length m = n" and i: "INTERNAL_NODES + INTERNAL_NODE * (i + 1) \<le> n"
  obtains m' where "rbind (in_SetKeyAt i (int_key k) m) (in_SetValueAt i v) = Inr m'" "length m' = n"
    "bt_max_size m' = bt_max_size m" "bt_IsLeafPage m' = bt_IsLeafPage m" "bt_GetSize m' = bt_GetSize m"
    "bt_GetParentPageId m' = bt_GetParentPageId m" "bt_GetPageId m' = bt_GetPageId m"
    "\<And>j. ind m' j = (if j = i then in_entry k v else ind m j)"
proof -
  let ?o = "INTERNAL_NODES + INTERNAL_NODE * i"
  let ?m1 = "blit ?o (int_key k) m" let ?m2 = "blit (?o + 8) (int_bytes 4 v) ?m1"
  note b1 = blit_ind [OF m, of ?o "int_key k"]
  have l1: "length ?m1 = n" using b1(1) i by simp
  note b2 = blit_ind [OF l1, of "?o + 8" "int_bytes 4 v"]
  have run: "rbind (in_SetKeyAt i (int_key k) m) (in_SetValueAt i v) = Inr ?m2"
    using m l1 i by (simp add: in_SetKeyAt_def in_SetValueAt_def in_node_at)
  have eq: "?m2 = blit ?o (in_entry k v) m"
    using blit_append [of ?o "int_key k" "int_bytes 4 v" m] m i by (simp add: in_entry_def)
  have "ind ?m2 j = (if j = i then in_entry k v else ind m j)" for j
  proof (cases "j = i")
    case True
    then show ?thesis unfolding eq using m i in_entry(1) by (simp add: ind_def slice_blit_same)
  next
    case False
    then have "INTERNAL_NODES + INTERNAL_NODE * (j + 1) \<le> ?o \<or> ?o + INTERNAL_NODE \<le> INTERNAL_NODES + INTERNAL_NODE * j" by auto
    then show ?thesis unfolding eq using False ind_blit_other [OF m, of ?o "in_entry k v" j] i in_entry(1) by simp
  qed
  then show ?thesis using that [OF run] b2 b1 i by simp
qed

lemma in_shift:
  assumes m: "length m = l" and kn: "k \<le> n" and n: "INTERNAL_NODES + INTERNAL_NODE * (n + 1) \<le> l"
  defines "m1 \<equiv> blit (INTERNAL_NODES + INTERNAL_NODE * (k + 1)) (slice (INTERNAL_NODES + INTERNAL_NODE * k) (INTERNAL_NODE * (n - k)) m) m"
  shows "length m1 = l" "bt_max_size m1 = bt_max_size m" "bt_IsLeafPage m1 = bt_IsLeafPage m" "bt_GetSize m1 = bt_GetSize m"
    "bt_GetParentPageId m1 = bt_GetParentPageId m" "bt_GetPageId m1 = bt_GetPageId m"
    and "ind m1 i = (if k < i \<and> i \<le> n then ind m (i - 1) else ind m i)"
proof -
  let ?s = "slice (INTERNAL_NODES + INTERNAL_NODE * k) (INTERNAL_NODE * (n - k)) m"
  have len: "length ?s = INTERNAL_NODE * (n - k)" using m kn n by simp
  show "length m1 = l" "bt_max_size m1 = bt_max_size m" "bt_IsLeafPage m1 = bt_IsLeafPage m" "bt_GetSize m1 = bt_GetSize m"
    "bt_GetParentPageId m1 = bt_GetParentPageId m" "bt_GetPageId m1 = bt_GetPageId m"
    using blit_ind [OF m, of "INTERNAL_NODES + INTERNAL_NODE * (k + 1)" ?s] len kn n by (simp_all add: m1_def)
  show "ind m1 i = (if k < i \<and> i \<le> n then ind m (i - 1) else ind m i)"
  proof (cases "k < i \<and> i \<le> n")
    case True
    have "ind m1 i = slice (INTERNAL_NODE * (i - k - 1)) INTERNAL_NODE ?s"
      using slice_blit_inner [of "INTERNAL_NODES + INTERNAL_NODE * (k + 1)" ?s m "INTERNAL_NODES + INTERNAL_NODE * i" INTERNAL_NODE] True len m kn n
      by (simp add: m1_def ind_def diff_mult_distrib2)
    also have "\<dots> = slice (INTERNAL_NODES + INTERNAL_NODE * k + INTERNAL_NODE * (i - k - 1)) INTERNAL_NODE m"
      by (rule slice_slice) (use True in auto)
    also have "INTERNAL_NODES + INTERNAL_NODE * k + INTERNAL_NODE * (i - k - 1) = INTERNAL_NODES + INTERNAL_NODE * (i - 1)" using True by (simp add: algebra_simps diff_mult_distrib2)
    finally show ?thesis using True by (simp add: ind_def)
  next
    case False
    then have "ind m1 i = ind m i" unfolding m1_def by (intro ind_blit_other [OF m]) (use len kn n in auto)
    then show ?thesis using False by auto
  qed
qed

text \<open>Inserting behind the child with a given page number.\<close>

lemma insert_after_any:
  assumes m: "INTERNAL_NODES + INTERNAL_NODE * (bt_GetSize m + 1) \<le> length m" and n: "bt_GetSize m \<le> INTERNAL_MAX_NODE_SIZE"
    and j: "j < bt_GetSize m" "in_val m j = old" "\<And>l. l < j \<Longrightarrow> in_val m l \<noteq> old" and kv: "fits 4 k" "fits 4 v"
  obtains m' r where "in_InsertNodeAfter old (int_key k) v m = Inr (m', r)" "length m' = length m" "bt_max_size m' = bt_max_size m"
    "bt_IsLeafPage m' = bt_IsLeafPage m" "bt_GetSize m' = bt_GetSize m + 1"
    "bt_GetParentPageId m' = bt_GetParentPageId m" "bt_GetPageId m' = bt_GetPageId m"
    "children m' = take (j + 1) (children m) @ (k, v) # drop (j + 1) (children m)"
proof -
  let ?n = "bt_GetSize m"
  define m1 where "m1 = blit (INTERNAL_NODES + INTERNAL_NODE * (j + 1 + 1)) (slice (INTERNAL_NODES + INTERNAL_NODE * (j + 1)) (INTERNAL_NODE * (?n - (j + 1))) m) m"
  have jn: "j + 1 \<le> ?n" using j(1) by simp
  note sh = in_shift [OF refl jn m, folded m1_def]
  have ji: "INTERNAL_NODES + INTERNAL_NODE * (j + 1 + 1) \<le> length m" using j(1) m by simp
  obtain m2 where e: "rbind (in_SetKeyAt (j + 1) (int_key k) m1) (in_SetValueAt (j + 1) v) = Inr m2" "length m2 = length m"
      "bt_max_size m2 = bt_max_size m1" "bt_IsLeafPage m2 = bt_IsLeafPage m1" "bt_GetSize m2 = bt_GetSize m1"
      "bt_GetParentPageId m2 = bt_GetParentPageId m1" "bt_GetPageId m2 = bt_GetPageId m1"
      "\<And>i. ind m2 i = (if i = j + 1 then in_entry k v else ind m1 i)"
    using set_entry [OF sh(1) ji, of k v] by metis
  define m' where "m' = bt_IncreaseSize 1 m2"
  have m': "m' = bt_SetSize (?n + 1) m2" using e(5) sh(4) by (simp add: m'_def bt_IncreaseSize_def)
  have vi: "in_ValueIndex m old = Inr j" unfolding in_ValueIndex_def by (rule find_value_spec) (use j m in auto)
  have run: "in_InsertNodeAfter old (int_key k) v m = Inr (m', bt_GetSize m')"
  proof -
    obtain m3 where m3: "in_SetKeyAt (j + 1) (int_key k) m1 = Inr m3" "in_SetValueAt (j + 1) v m3 = Inr m2" using e(1) by (auto simp: rbind_eq_Inr)
    then show ?thesis using vi j(1) m by (simp add: in_InsertNodeAfter_def in_node_at Let_def m1_def m'_def)
  qed
  have l2: "INTERNAL_NODES \<le> length m2" using m e(2) by simp
  have fields: "length m' = length m" "bt_max_size m' = bt_max_size m" "bt_IsLeafPage m' = bt_IsLeafPage m" "bt_GetSize m' = ?n + 1"
      "bt_GetParentPageId m' = bt_GetParentPageId m" "bt_GetPageId m' = bt_GetPageId m"
    using e(2-7) sh(1-6) n by (simp_all add: m' SetSize_fields [OF l2])
  have nodes: "ind m' i = (if i \<le> j then ind m i else if i = j + 1 then in_entry k v else ind m (i - 1))" if "i \<le> ?n" for i
    using that e(2,8) sh(7) j(1) m by (auto simp: m' ind_SetSize)
  have "children m' = take (j + 1) (children m) @ (k, v) # drop (j + 1) (children m)"
  proof (rule nth_equalityI)
    show "length (children m') = length (take (j + 1) (children m) @ (k, v) # drop (j + 1) (children m))" using fields(4) j(1) by simp
    fix i assume "i < length (children m')"
    then have i: "i \<le> ?n" using fields(4) by simp
    have ch: "children m' ! i = (get_int 0 4 (ind m' i), bytes_int (drop 8 (ind m' i)))"
      using i fields(4) by (simp add: nth_children in_key_def in_val_def)
    show "children m' ! i = (take (j + 1) (children m) @ (k, v) # drop (j + 1) (children m)) ! i"
      unfolding ch nodes [OF i] using i j(1) kv Suc_diff_le [of 2 i]
      by (auto simp: nth_append nth_Cons' nth_children in_entry in_key_def in_val_def min_def)
  qed
  then show ?thesis using that [OF run fields] by blast
qed

lemma insert_after:
  assumes m: "in_page m" and n: "bt_GetSize m < INTERNAL_MAX_NODE_SIZE" and j: "j < bt_GetSize m" "in_val m j = old" "\<And>l. l < j \<Longrightarrow> in_val m l \<noteq> old"
    and kv: "fits 4 k" "fits 4 v"
  obtains m' r where "in_InsertNodeAfter old (int_key k) v m = Inr (m', r)" "in_page m'" "bt_GetSize m' = bt_GetSize m + 1"
    "bt_GetParentPageId m' = bt_GetParentPageId m" "bt_GetPageId m' = bt_GetPageId m"
    "children m' = take (j + 1) (children m) @ (k, v) # drop (j + 1) (children m)"
proof -
  have l: "INTERNAL_NODES + INTERNAL_NODE * (bt_GetSize m + 1) \<le> length m" "bt_GetSize m \<le> INTERNAL_MAX_NODE_SIZE" using m n by (simp_all add: in_page_def)
  obtain m' r where m': "in_InsertNodeAfter old (int_key k) v m = Inr (m', r)" "length m' = length m" "bt_max_size m' = bt_max_size m"
      "bt_IsLeafPage m' = bt_IsLeafPage m" "bt_GetSize m' = bt_GetSize m + 1"
      "bt_GetParentPageId m' = bt_GetParentPageId m" "bt_GetPageId m' = bt_GetPageId m"
      "children m' = take (j + 1) (children m) @ (k, v) # drop (j + 1) (children m)"
    by (rule insert_after_any [OF l j kv])
  then show ?thesis using that m n by (simp add: in_page_def)
qed

lemma in_init:
  assumes "length m = PAGE_SIZE" and "fits 4 pid" and "fits 4 par"
  obtains m' where "in_Init pid par m = Inr m'" "length m' = PAGE_SIZE" "bt_max_size m' = INTERNAL_MAX_NODE_SIZE" "\<not> bt_IsLeafPage m'"
    "bt_GetParentPageId m' = par" "bt_GetPageId m' = pid" "bt_GetSize m' = 0"
proof -
  let ?m = "bt_SetParentPageId par (put_uint 24 8 INTERNAL_MAX_NODE_SIZE (bt_SetSize 0 (bt_SetPageId pid (bt_SetPageType INTERNAL_PAGE m))))"
  have "in_Init pid par m = Inr ?m" by (simp add: in_Init_def bt_SetMaxSize_def)
  moreover have "length ?m = PAGE_SIZE" "bt_max_size ?m = INTERNAL_MAX_NODE_SIZE" "\<not> bt_IsLeafPage ?m" "bt_GetParentPageId ?m = par" "bt_GetPageId ?m = pid" "bt_GetSize ?m = 0"
    using assms by (simp_all add: bt_SetParentPageId_def bt_SetPageId_def bt_SetSize_def bt_SetPageType_def bt_max_size_def bt_IsLeafPage_def
      bt_GetParentPageId_def bt_GetPageId_def bt_GetSize_def mem_simps)
  ultimately show ?thesis by (rule that)
qed

text \<open>The root above two nodes.\<close>

lemma populate_root:
  assumes m: "length m = PAGE_SIZE" "bt_max_size m = INTERNAL_MAX_NODE_SIZE" "\<not> bt_IsLeafPage m" and f: "fits 4 a" "fits 4 k" "fits 4 b"
  obtains m' where "in_PopulateNewRoot a (int_key k) b m = Inr m'" "in_page m'" "bt_GetSize m' = 2"
    "bt_GetParentPageId m' = bt_GetParentPageId m" "bt_GetPageId m' = bt_GetPageId m" "map snd (children m') = [a, b]" "in_key m' 1 = k"
proof -
  let ?m1 = "blit (INTERNAL_NODES + INTERNAL_NODE * 0 + 8) (int_bytes 4 a) m"
  note b1 = blit_ind [OF m(1), of "INTERNAL_NODES + INTERNAL_NODE * 0 + 8" "int_bytes 4 a"]
  have l1: "length ?m1 = PAGE_SIZE" using b1(1) by simp
  have v1: "in_SetValueAt 0 a m = Inr ?m1" using m(1) by (simp add: in_SetValueAt_def in_node_ind)
  have "drop 8 (ind ?m1 0) = slice (INTERNAL_NODES + INTERNAL_NODE * 0 + 8) (length (int_bytes 4 a)) ?m1"
    by (simp add: ind_def slice_def drop_take)
  also have "\<dots> = int_bytes 4 a" by (rule slice_blit_same) (use m(1) in simp_all)
  finally have i0: "bytes_int (drop 8 (ind ?m1 0)) = a" using f(1) by (simp add: bytes_int_int_bytes)
  obtain m2 where e: "rbind (in_SetKeyAt 1 (int_key k) ?m1) (in_SetValueAt 1 b) = Inr m2" "length m2 = PAGE_SIZE"
      "bt_max_size m2 = bt_max_size ?m1" "bt_IsLeafPage m2 = bt_IsLeafPage ?m1" "bt_GetSize m2 = bt_GetSize ?m1"
      "bt_GetParentPageId m2 = bt_GetParentPageId ?m1" "bt_GetPageId m2 = bt_GetPageId ?m1"
      "\<And>i. ind m2 i = (if i = 1 then in_entry k b else ind ?m1 i)"
    by (rule set_entry [OF l1, of 1 k b]) simp_all
  let ?m' = "bt_SetSize 2 m2"
  have run: "in_PopulateNewRoot a (int_key k) b m = Inr ?m'"
  proof -
    obtain m3 where m3: "in_SetKeyAt 1 (int_key k) ?m1 = Inr m3" "in_SetValueAt 1 b m3 = Inr m2" using e(1) by (auto simp: rbind_eq_Inr)
    then show ?thesis using v1 by (simp add: in_PopulateNewRoot_def)
  qed
  have pg: "in_page ?m'" using e(2-4) b1 m by (simp add: in_page_def)
  have more: "bt_GetParentPageId ?m' = bt_GetParentPageId m" "bt_GetPageId ?m' = bt_GetPageId m"
    using e(2,6,7) b1 by (simp_all add: bt_GetParentPageId_def bt_GetPageId_def bt_SetSize_def mem_simps)
  have "ind ?m' 0 = ind ?m1 0" "ind ?m' 1 = in_entry k b" using e(2,8) by (simp_all add: ind_SetSize)
  moreover have sz: "bt_GetSize ?m' = 2" using e(2) by simp
  moreover have "[0..<2] = [0, 1]" by (simp add: upt_rec)
  ultimately have "map snd (children ?m') = [a, b]" "in_key ?m' 1 = k"
    using i0 f in_entry by (simp_all add: children_def in_val_def in_key_def)
  then show ?thesis using that [OF run pg sz more] by simp
qed

end
