(* ===== verification/Trees.thy ===== *)
theory Trees
  imports PoolViews BtreeNodes
begin

text \<open>
  B+ trees of any depth: when pages form one, which entries it holds, and that a search finds them.
  A page in use is the page at rest with one pin and a latch (\<open>hold\<close>).
\<close>

section \<open>Trees in the pages of a table\<close>

definition low :: "bytes \<Rightarrow> int \<Rightarrow> nat \<Rightarrow> int" where
  "low m lo i = (if i = 0 then lo else in_key m i)"

definition high :: "bytes \<Rightarrow> int \<Rightarrow> nat \<Rightarrow> int" where
  "high m hi i = (if i + 1 < bt_GetSize m then in_key m (i + 1) else hi)"

text \<open>
  What a leaf leaves behind its last entry is a key of 0 or a key that belongs further right: the
  insertion looks at the first of them.
\<close>

definition leaf_in :: "bytes \<Rightarrow> int \<Rightarrow> int \<Rightarrow> int \<Rightarrow> int \<Rightarrow> bool" where
  "leaf_in m par p lo hi \<longleftrightarrow> leaf_ok m \<and> bt_GetParentPageId m = par \<and> bt_GetPageId m = p \<and>
     (\<forall>i < bt_GetSize m. lo \<le> nd_key m i \<and> nd_key m i < hi) \<and>
     (\<forall>i. bt_GetSize m \<le> i \<and> i < LEAF_MAX_NODE_SIZE \<longrightarrow> nd_key m i = 0 \<or> hi \<le> nd_key m i)"

definition tree_leaf :: "bytes \<Rightarrow> int \<Rightarrow> int \<Rightarrow> int \<Rightarrow> int \<Rightarrow> bool" where
  "tree_leaf m par p lo hi \<longleftrightarrow> leaf_in m par p lo hi \<and> bt_GetSize m < LEAF_MAX_NODE_SIZE"

definition tree_node :: "bytes \<Rightarrow> int \<Rightarrow> int \<Rightarrow> int \<Rightarrow> int \<Rightarrow> bool" where
  "tree_node m par p lo hi \<longleftrightarrow> in_ok m \<and> bt_GetParentPageId m = par \<and> bt_GetPageId m = p \<and>
     (\<forall>i < bt_GetSize m. 0 < i \<longrightarrow> lo \<le> in_key m i \<and> in_key m i < hi \<and> fits 4 (in_key m i))"

primrec tree_ok :: "nat \<Rightarrow> (int \<Rightarrow> bytes) \<Rightarrow> int \<Rightarrow> int \<Rightarrow> int \<Rightarrow> int \<Rightarrow> bool" where
  "tree_ok 0 L par p lo hi \<longleftrightarrow> 0 < p \<and> p < 2 ^ 20 \<and> tree_leaf (L p) par p lo hi"
| "tree_ok (Suc d) L par p lo hi \<longleftrightarrow> 0 < p \<and> p < 2 ^ 20 \<and> tree_node (L p) par p lo hi \<and>
     (\<forall>i < bt_GetSize (L p). tree_ok d L p (in_val (L p) i) (low (L p) lo i) (high (L p) hi i))"

primrec tree_entries :: "nat \<Rightarrow> (int \<Rightarrow> bytes) \<Rightarrow> int \<Rightarrow> (int \<times> RID) list" where
  "tree_entries 0 L p = leaf_entries (L p)"
| "tree_entries (Suc d) L p = concat (map (\<lambda>i. tree_entries d L (in_val (L p) i)) [0..<bt_GetSize (L p)])"

primrec tree_pages :: "nat \<Rightarrow> (int \<Rightarrow> bytes) \<Rightarrow> int \<Rightarrow> int list" where
  "tree_pages 0 L p = [p]"
| "tree_pages (Suc d) L p = p # concat (map (\<lambda>i. tree_pages d L (in_val (L p) i)) [0..<bt_GetSize (L p)])"

text \<open>Every leaf is at least half full, as splits leave them.\<close>

primrec filled :: "nat \<Rightarrow> (int \<Rightarrow> bytes) \<Rightarrow> int \<Rightarrow> bool" where
  "filled 0 L p \<longleftrightarrow> LEAF_MAX_NODE_SIZE div 2 \<le> bt_GetSize (L p)"
| "filled (Suc d) L p \<longleftrightarrow> (\<forall>i < bt_GetSize (L p). filled d L (in_val (L p) i))"

text \<open>The child that a key belongs to, and the pages from the root to its leaf.\<close>

definition child_of :: "bytes \<Rightarrow> int \<Rightarrow> nat" where
  "child_of m k = length (takeWhile (\<lambda>i. in_key m i \<le> k) [1..<bt_GetSize m])"

primrec tree_path :: "nat \<Rightarrow> (int \<Rightarrow> bytes) \<Rightarrow> int \<Rightarrow> int \<Rightarrow> int list" where
  "tree_path 0 L p k = [p]"
| "tree_path (Suc d) L p k = p # tree_path d L (in_val (L p) (child_of (L p) k)) k"

lemma tree_path_ne [simp]: "tree_path d L p k \<noteq> []"
  by (cases d) simp_all

lemma tree_path_hd: "p \<in> set (tree_path d L p k)"
  by (cases d) simp_all

lemma tree_pages_hd: "p \<in> set (tree_pages d L p)"
  by (cases d) simp_all

lemma tree_ok_pos: "tree_ok d L par p lo hi \<Longrightarrow> 0 < p \<and> p < 2 ^ 20"
  by (cases d) simp_all

lemma in_Lookup_child:
  assumes ok: "in_ok m" and k: "fits 4 k"
  shows "in_Lookup m (int_key k) Compare_int32 = Inr (in_val m (child_of m k))" and "child_of m k < bt_GetSize m"
    and "child_of m k = 0 \<or> in_key m (child_of m k) \<le> k" and "\<And>i. child_of m k < i \<Longrightarrow> i < bt_GetSize m \<Longrightarrow> k < in_key m i"
proof -
  obtain j where j: "in_Lookup m (int_key k) Compare_int32 = Inr (in_val m j)" "j < bt_GetSize m" "j = 0 \<or> in_key m j \<le> k"
      "\<And>i. j < i \<Longrightarrow> i < bt_GetSize m \<Longrightarrow> k < in_key m i"
    using in_Lookup_spec [OF assms] by metis
  have le: "in_key m i \<le> k" if "1 \<le> i" "i \<le> j" for i
  proof (cases "i = j")
    case False
    then have "in_key m i < in_key m j" using ok that j(2) by (auto simp: in_ok_def)
    then show ?thesis using j(3) that by auto
  qed (use j(3) that in auto)
  have sp: "[1..<bt_GetSize m] = [1..<j + 1] @ [j + 1..<bt_GetSize m]" using j(2) upt_add_eq_append [of 1 "j + 1" "bt_GetSize m - (j + 1)"] by simp
  have "takeWhile (\<lambda>i. in_key m i \<le> k) [1..<bt_GetSize m] = [1..<j + 1] @ takeWhile (\<lambda>i. in_key m i \<le> k) [j + 1..<bt_GetSize m]"
    unfolding sp by (rule takeWhile_append2) (use le in auto)
  moreover have "takeWhile (\<lambda>i. in_key m i \<le> k) [j + 1..<bt_GetSize m] = []"
    using j(4) by (cases "j + 1 < bt_GetSize m") (auto simp: upt_conv_Cons not_le)
  ultimately have c: "child_of m k = j" by (simp add: child_of_def)
  show "in_Lookup m (int_key k) Compare_int32 = Inr (in_val m (child_of m k))" "child_of m k < bt_GetSize m"
    "child_of m k = 0 \<or> in_key m (child_of m k) \<le> k" using j c by simp_all
  show "\<And>i. child_of m k < i \<Longrightarrow> i < bt_GetSize m \<Longrightarrow> k < in_key m i" using j(4) c by simp
qed

lemma child_bounds:
  assumes ok: "tree_node m par p lo hi" and k: "fits 4 k" "lo \<le> k" "k < hi"
  shows "low m lo (child_of m k) \<le> k" and "k < high m hi (child_of m k)"
  using in_Lookup_child(2-4) [of m k] ok k by (auto simp: tree_node_def low_def high_def)

text \<open>The keys of a tree lie within its bounds; a key is in the child it belongs to or nowhere.\<close>

lemma tree_keys: "tree_ok d L par p lo hi \<Longrightarrow> (k, r) \<in> set (tree_entries d L p) \<Longrightarrow> lo \<le> k \<and> k < hi"
proof (induction d arbitrary: par p lo hi)
  case 0
  then show ?case by (auto simp: tree_leaf_def leaf_in_def leaf_entries_def)
next
  case (Suc d)
  let ?m = "L p"
  obtain i where i: "i < bt_GetSize ?m" "(k, r) \<in> set (tree_entries d L (in_val ?m i))" using Suc.prems(2) by auto
  have "low ?m lo i \<le> k \<and> k < high ?m hi i" using Suc.IH Suc.prems(1) i by auto
  moreover have "lo \<le> low ?m lo i" "high ?m hi i \<le> hi" using Suc.prems(1) i(1) by (auto simp: low_def high_def tree_node_def)
  ultimately show ?case by simp
qed

lemma map_of_concat:
  assumes "j < n" and "\<And>i. i < n \<Longrightarrow> i \<noteq> j \<Longrightarrow> k \<notin> fst ` set (f i)"
  shows "map_of (concat (map f [0..<n])) k = map_of (f j) k"
  using assms
proof (induction n)
  case (Suc n)
  show ?case
  proof (cases "j = n")
    case True
    have "k \<notin> fst ` set (f i)" if "i < n" for i using Suc.prems(2) [of i] True that by simp
    then have "k \<notin> fst ` set (concat (map f [0..<n]))" by (auto simp: image_iff)
    then have "map_of (concat (map f [0..<n])) k = None" by (simp add: map_of_eq_None_iff)
    then show ?thesis using True by (auto simp: map_add_def split: option.splits)
  next
    case False
    then have "map_of (f n) k = None" using Suc.prems by (simp add: map_of_eq_None_iff)
    then show ?thesis using Suc.IH Suc.prems False by (simp add: map_add_def split: option.splits)
  qed
qed simp

lemma tree_lookup:
  assumes ok: "tree_ok (Suc d) L par p lo hi" and k: "fits 4 k" "lo \<le> k" "k < hi"
  shows "map_of (tree_entries (Suc d) L p) k = map_of (tree_entries d L (in_val (L p) (child_of (L p) k))) k"
proof -
  let ?m = "L p" and ?j = "child_of (L p) k"
  have n: "tree_node ?m par p lo hi" and ino: "in_ok ?m" using ok by (auto simp: tree_node_def)
  note c = in_Lookup_child [OF ino k(1)]
  have "k \<notin> fst ` set (tree_entries d L (in_val ?m i))" if i: "i < bt_GetSize ?m" "i \<noteq> ?j" for i
  proof
    assume "k \<in> fst ` set (tree_entries d L (in_val ?m i))"
    then obtain r where "(k, r) \<in> set (tree_entries d L (in_val ?m i))" by auto
    then have b: "low ?m lo i \<le> k \<and> k < high ?m hi i" using tree_keys ok i(1) by (metis tree_ok.simps(2))
    show False
    proof (cases "i < ?j")
      case True
      then have "high ?m hi i = in_key ?m (i + 1)" using c(2) by (simp add: high_def)
      moreover have "in_key ?m (i + 1) \<le> k"
      proof (cases "i + 1 = ?j")
        case False
        then have "in_key ?m (i + 1) < in_key ?m ?j" using True ino c(2) by (simp add: in_ok_def)
        then show ?thesis using c(3) True by auto
      qed (use c(3) in auto)
      ultimately show False using b by simp
    next
      case False
      then show False using b c(4) [of i] i by (auto simp: low_def)
    qed
  qed
  then show ?thesis using map_of_concat [OF c(2), where f = "\<lambda>i. tree_entries d L (in_val ?m i)"] by simp
qed

section \<open>Pages in use\<close>

abbreviation table_contents :: "int \<Rightarrow> (PageId \<Rightarrow> nat option) \<Rightarrow> (nat \<Rightarrow> Page) \<Rightarrow> Disk \<Rightarrow> int \<Rightarrow> bytes" where
  "table_contents oid T W D p \<equiv> contents T W D (mk_page_id oid p)"

definition hold :: "latch \<Rightarrow> Page \<Rightarrow> Page" where
  "hold l p = p\<lparr>pin_count := pin_count p + 1, rwlatch := l\<rparr>"

text \<open>A page that may be taken: it is in the pool, not latched, and one more pin can be counted.\<close>

definition rests :: "(PageId \<Rightarrow> nat option) \<Rightarrow> (nat \<Rightarrow> Page) \<Rightarrow> PageId \<Rightarrow> bool" where
  "rests T W pid \<longleftrightarrow> (\<exists>f. T pid = Some f \<and> pin_count (W f) \<noteq> - 1 \<and> rwlatch (W f) = Unlatched)"

text \<open>Frames that may be unpinned as clean.\<close>

definition tidy :: "(PageId \<Rightarrow> nat option) \<Rightarrow> (nat \<Rightarrow> Page) \<Rightarrow> Disk \<Rightarrow> bool" where
  "tidy T W D \<longleftrightarrow> (\<forall>pid f. T pid = Some f \<longrightarrow> page_id (W f) = pid \<and>
     (pin_count (W f) = 0 \<longrightarrow> is_dirty (W f) \<or> page_data (W f) = disk_page D pid))"

lemma sees_tidy: "sees s T W D F \<Longrightarrow> tidy T W D"
  using sees_frame(3,8) by (fastforce simp: tidy_def)

lemma hold_simps [simp]: "page_id (hold l p) = page_id p" "is_dirty (hold l p) = is_dirty p" "pin_count (hold l p) = pin_count p + 1"
  "rwlatch (hold l p) = l" "page_data (hold l p) = page_data p"
  by (simp_all add: hold_def)

lemma hold_pin: "rwlatch p = Unlatched \<Longrightarrow> p\<lparr>pin_count := pin_count p + 1\<rparr> = hold Unlatched p"
  by (cases p) (simp add: hold_def)

lemma hold_latch: "(hold l p)\<lparr>rwlatch := l'\<rparr> = hold l' p"
  by (cases p) (simp add: hold_def)

lemma hold_unpin: "rwlatch p = Unlatched \<Longrightarrow> (hold Unlatched p)\<lparr>is_dirty := is_dirty p, pin_count := pin_count p\<rparr> = p"
  by (cases p) (simp add: hold_def)

lemma pin_up: "x \<noteq> - 1 \<Longrightarrow> x + 1 \<noteq> (0 :: 'a :: ring_1)"
  by (simp add: add_eq_0_iff2)

lemma contents_same: "page_data p = page_data (W f) \<Longrightarrow> contents T (W(f := p)) D = contents T W D"
  by (auto simp: contents_def fun_eq_iff split: option.splits)

lemma rests_frame:
  assumes "rests T W pid"
  obtains f where "T pid = Some f" "f \<in> ran T" "pin_count (W f) \<noteq> - 1" "rwlatch (W f) = Unlatched" "contents T W D pid = page_data (W f)"
  using assms by (auto simp: rests_def contents_def intro: ranI)

lemma rests_other: "rests T W pid \<Longrightarrow> T pid \<noteq> Some f \<Longrightarrow> rests T (W(f := p)) pid"
  by (auto simp: rests_def)

lemma sees_rests: "sees s T W D F \<Longrightarrow> T pid \<noteq> None \<Longrightarrow> pins s pid = 0 \<Longrightarrow> rests T W pid"
  using sees_frame(7) [of s T W D F pid] sees_pins [of s T W D F pid] by (auto simp: rests_def)

lemma wp_table_page [wp_simps]: "wp (table_page p) Q ((s, m), t) = Q (mk_page_id (tm_table_oid m) p) ((s, m), t)"
  by (simp add: table_page_def wp_simps)

lemma wp_fetch_node [wp_simps]:
  "wp (fetch_node p) Q ((s, m), t) = wp (FetchPage (mk_page_id (tm_table_oid m) p)) (\<lambda>f s'. Q f ((s', m), t)) s"
  by (simp add: fetch_node_def wp_simps)

lemma page_ids: "mk_page_id oid p = mk_page_id oid q \<longleftrightarrow> p = q"
  by (simp add: mk_page_id_def)

text \<open>Taking a page at rest, and giving it back unchanged.\<close>

lemma wp_take:
  assumes "sees s T W D F" and "T pid = Some f" and "pin_count (W f) \<noteq> - 1" and "rwlatch (W f) = Unlatched"
    and "\<And>s'. sees s' T (W(f := hold Unlatched (W f))) D F \<Longrightarrow> Q f s'"
  shows "wp (FetchPage pid) Q s"
  by (rule wp_FetchPage [OF assms(1,2)]) (use assms(3-5) in \<open>auto simp: hold_pin [symmetric]\<close>)

lemma wp_give:
  assumes see: "sees s T V D F" and V: "V f = hold Unlatched (W f)" and td: "tidy T W D" and f: "f \<in> ran T" "pin_count (W f) \<noteq> - 1" "rwlatch (W f) = Unlatched"
    and Q: "\<And>s'. sees s' T (V(f := W f)) D F \<Longrightarrow> Q True s'"
  shows "wp (unpin_frame f False) Q s"
proof -
  obtain pid where pid: "T pid = Some f" using f(1) by (auto simp: ran_def)
  have i: "page_id (W f) = pid" "pin_count (W f) = 0 \<Longrightarrow> is_dirty (W f) \<or> page_data (W f) = disk_page D pid"
    using td pid by (auto simp: tidy_def)
  show ?thesis
  proof (rule wp_unpin_frame [OF see])
    show "Q True s'" if "sees s' T (V(f := (V f)\<lparr>is_dirty := is_dirty (V f) \<or> False, pin_count := pin_count (V f) - 1\<rparr>)) D F" for s'
      using that V f(3) Q hold_unpin [of "W f"] by simp
  qed (use V f i pid pin_up [OF f(2)] in auto)
qed

section \<open>Searching\<close>

lemma search_down_read:
  assumes "sees s T (W(f := hold (ReadLatched 1) (W f))) D F" and "tree_ok d (table_contents (tm_table_oid m) T W D) par p lo hi"
    and "fits 4 k" and "lo \<le> k" and "k < hi" and "T (mk_page_id (tm_table_oid m) p) = Some f" and "tidy T W D"
    and "\<forall>q \<in> set (tree_path d (table_contents (tm_table_oid m) T W D) p k). rests T W (mk_page_id (tm_table_oid m) q)"
    and "distinct (tree_path d (table_contents (tm_table_oid m) T W D) p k)"
    and "\<And>g s'. T (mk_page_id (tm_table_oid m) (last (tree_path d (table_contents (tm_table_oid m) T W D) p k))) = Some g \<Longrightarrow>
      sees s' T (W(g := hold (ReadLatched 1) (W g))) D F \<Longrightarrow> Q (g, b \<or> 0 < d) ((s', m), t)"
  shows "wp (search_down (Suc (d + e)) Compare_int32 (int_key k) SEARCH f b) Q ((s, m), t)"
  using assms
proof (induction d arbitrary: s f par p lo hi b)
  case 0
  have "f \<in> ran T" using 0 by (auto intro: ranI)
  moreover have "bt_IsLeafPage (page_data (W f))" using 0(2,6) by (simp add: contents_def tree_leaf_def leaf_in_def leaf_ok_def leaf_page_def)
  ultimately show ?case using 0(1) 0(10) [of f s] 0(6) by (simp add: wp_simps wp_node_at)
next
  case (Suc d)
  let ?L = "table_contents (tm_table_oid m) T W D" and ?c = "in_val (page_data (W f)) (child_of (page_data (W f)) k)"
  have r: "f \<in> ran T" using Suc.prems(6) by (auto intro: ranI)
  have Lp: "?L p = page_data (W f)" using Suc.prems(6) by (simp add: contents_def)
  have nd: "tree_node (page_data (W f)) par p lo hi" using Suc.prems(2) Lp by simp
  have ino: "in_ok (page_data (W f))" "\<not> bt_IsLeafPage (page_data (W f))" using nd by (auto simp: tree_node_def in_ok_def in_page_def)
  note c = in_Lookup_child [OF ino(1) Suc.prems(3)]
  have sub: "tree_ok d ?L p ?c (low (page_data (W f)) lo (child_of (page_data (W f)) k)) (high (page_data (W f)) hi (child_of (page_data (W f)) k))"
    using Suc.prems(2) c(2) Lp by simp
  have pos: "0 < ?c" using tree_ok_pos [OF sub] by simp
  have path: "tree_path (Suc d) ?L p k = p # tree_path d ?L ?c k" using Lp by simp
  have "rests T W (mk_page_id (tm_table_oid m) p)" "rests T W (mk_page_id (tm_table_oid m) ?c)"
    using Suc.prems(8) tree_path_hd [of ?c d ?L k] unfolding path by auto
  then obtain g where f: "pin_count (W f) \<noteq> - 1" "rwlatch (W f) = Unlatched"
      and g: "T (mk_page_id (tm_table_oid m) ?c) = Some g" "pin_count (W g) \<noteq> - 1" "rwlatch (W g) = Unlatched"
    using Suc.prems(6) by (auto simp: rests_def)
  have rg: "g \<in> ran T" using g(1) by (auto intro: ranI)
  have "?c \<noteq> p" using Suc.prems(9) tree_path_hd [of ?c d ?L k] unfolding path by auto
  then have gf: "g \<noteq> f" using sees_inj [OF Suc.prems(1) g(1) Suc.prems(6)] by (simp add: page_ids)
  have IH: "wp (search_down (Suc (d + e)) Compare_int32 (int_key k) SEARCH g True) Q ((s', m), t)"
    if "sees s' T (W(g := hold (ReadLatched 1) (W g))) D F" for s'
    by (rule Suc.IH [OF that sub Suc.prems(3) child_bounds [OF nd Suc.prems(3-5)] g(1) Suc.prems(7)])
       (use Suc.prems(8-10) path in auto)
  show ?case
    apply (subst search_down.simps(2))
    apply (simp add: wp_simps wp_node_at [OF Suc.prems(1) r] ino(2) c(1) pos del: search_down.simps)
    apply (rule wp_take [OF Suc.prems(1) g(1)]; simp add: g gf wp_simps del: search_down.simps)
    apply (rule wp_latches(2), assumption; simp add: rg gf g pin_up hold_latch wp_simps del: search_down.simps)
    apply (rule wp_latches(4), assumption; simp add: r f pin_up gf [symmetric] hold_latch wp_simps del: search_down.simps)
    apply (rule wp_give [where W = W], assumption; simp add: f r Suc.prems(7) wp_simps del: search_down.simps)
    apply (rule IH)
    apply (erule sees_eq)
    apply (auto simp: fun_eq_iff gf)
    done
qed

text \<open>The leaf at the end of the path decides.\<close>

lemma tree_find:
  assumes "tree_ok d L par p lo hi" and "fits 4 k" and "lo \<le> k" and "k < hi"
  shows "\<exists>par' lo' hi'. tree_leaf (L (last (tree_path d L p k))) par' (last (tree_path d L p k)) lo' hi' \<and> lo' \<le> k \<and> k < hi' \<and>
      (if d = 0 then par' = par \<and> lo' = lo \<and> hi' = hi else 0 < par')"
    and "map_of (tree_entries d L p) k = map_of (leaf_entries (L (last (tree_path d L p k)))) k"
proof -
  have "(\<exists>par' lo' hi'. tree_leaf (L (last (tree_path d L p k))) par' (last (tree_path d L p k)) lo' hi' \<and> lo' \<le> k \<and> k < hi' \<and>
      (if d = 0 then par' = par \<and> lo' = lo \<and> hi' = hi else 0 < par')) \<and>
      map_of (tree_entries d L p) k = map_of (leaf_entries (L (last (tree_path d L p k)))) k"
    using assms
  proof (induction d arbitrary: par p lo hi)
    case (Suc d)
    let ?c = "child_of (L p) k"
    have n: "tree_node (L p) par p lo hi" "0 < p" using Suc.prems(1) by simp_all
    have lt: "?c < bt_GetSize (L p)" using in_Lookup_child(2) n(1) Suc.prems(2) by (auto simp: tree_node_def)
    then have sub: "tree_ok d L p (in_val (L p) ?c) (low (L p) lo ?c) (high (L p) hi ?c)" using Suc.prems(1) by simp
    from Suc.IH [OF sub Suc.prems(2) child_bounds [OF n(1) Suc.prems(2-4)]] tree_lookup [OF Suc.prems] n(2)
    show ?case by (cases d) (auto simp del: tree_entries.simps)
  qed auto
  then show "\<exists>par' lo' hi'. tree_leaf (L (last (tree_path d L p k))) par' (last (tree_path d L p k)) lo' hi' \<and> lo' \<le> k \<and> k < hi' \<and>
      (if d = 0 then par' = par \<and> lo' = lo \<and> hi' = hi else 0 < par')"
    "map_of (tree_entries d L p) k = map_of (leaf_entries (L (last (tree_path d L p k)))) k" by blast+
qed

text \<open>
  An index over the pages that \<open>T\<close>, \<open>W\<close> and \<open>D\<close> describe, its header in the pool and not latched.
\<close>

definition index_at :: "nat \<Rightarrow> BTreeIndex \<Rightarrow> int \<Rightarrow> int \<Rightarrow> (PageId \<Rightarrow> nat option) \<Rightarrow> (nat \<Rightarrow> Page) \<Rightarrow> Disk \<Rightarrow> bool" where
  "index_at d ix oid root T W D \<longleftrightarrow> bi_comparator ix = Compare_int32 \<and> rests T W (mk_page_id oid (im_header_page_id (bi_meta ix))) \<and>
     get_uint 0 4 (table_contents oid T W D (im_header_page_id (bi_meta ix))) = IndexPageType_code HEADER_PAGE \<and>
     hd_GetRootPageId (table_contents oid T W D (im_header_page_id (bi_meta ix))) = root \<and>
     tree_ok d (table_contents oid T W D) INVALID_PAGE_ID root (- (2 ^ 31)) (2 ^ 31) \<and>
     distinct (im_header_page_id (bi_meta ix) # tree_pages d (table_contents oid T W D) root)"

abbreviation path_rests :: "nat \<Rightarrow> int \<Rightarrow> int \<Rightarrow> (PageId \<Rightarrow> nat option) \<Rightarrow> (nat \<Rightarrow> Page) \<Rightarrow> Disk \<Rightarrow> int \<Rightarrow> bool" where
  "path_rests d oid root T W D k \<equiv> \<forall>q \<in> set (tree_path d (table_contents oid T W D) root k). rests T W (mk_page_id oid q)"

lemma tree_path_pages:
  assumes "tree_ok d L par p lo hi" and "fits 4 k"
  shows "set (tree_path d L p k) \<subseteq> set (tree_pages d L p)" and "distinct (tree_pages d L p) \<Longrightarrow> distinct (tree_path d L p k)"
proof -
  have "set (tree_path d L p k) \<subseteq> set (tree_pages d L p) \<and> (distinct (tree_pages d L p) \<longrightarrow> distinct (tree_path d L p k))"
    using assms
  proof (induction d arbitrary: par p lo hi)
    case (Suc d)
    let ?c = "child_of (L p) k"
    have lt: "?c < bt_GetSize (L p)" using in_Lookup_child(2) Suc.prems by (auto simp: tree_node_def)
    then have IH: "set (tree_path d L (in_val (L p) ?c) k) \<subseteq> set (tree_pages d L (in_val (L p) ?c))"
        "distinct (tree_pages d L (in_val (L p) ?c)) \<Longrightarrow> distinct (tree_path d L (in_val (L p) ?c) k)"
      using Suc.IH [of p "in_val (L p) ?c" "low (L p) lo ?c" "high (L p) hi ?c"] Suc.prems by simp_all
    have "set (tree_pages d L (in_val (L p) ?c)) \<subseteq> set (concat (map (\<lambda>i. tree_pages d L (in_val (L p) i)) [0..<bt_GetSize (L p)]))"
      using lt by auto
    then show ?case using IH lt by (auto simp: distinct_concat_iff)
  qed simp
  then show "set (tree_path d L p k) \<subseteq> set (tree_pages d L p)" "distinct (tree_pages d L p) \<Longrightarrow> distinct (tree_path d L p k)" by blast+
qed

lemma scan_tree:
  assumes see: "sees s T W D F" and ix: "index_at d ix (tm_table_oid m) root T W D" and path: "path_rests d (tm_table_oid m) root T W D k"
    and k: "fits 4 k" and hf: "T (mk_page_id (tm_table_oid m) (im_header_page_id (bi_meta ix))) = Some hf"
    and Q: "\<And>s'. sees s' T (W(hf := hold Unlatched (W hf))) D F \<Longrightarrow>
      Q (case map_of (tree_entries d (table_contents (tm_table_oid m) T W D) root) k of None \<Rightarrow> (False, rids) | Some r \<Rightarrow> (True, rids @ [r])) ((s', m), t)"
  shows "wp (InternalScanKey (Suc (d + e)) ix (int_key k) rids) Q ((s, m), t)"
proof -
  let ?oid = "tm_table_oid m" let ?L = "table_contents ?oid T W D" let ?hdr = "im_header_page_id (bi_meta ix)" let ?q = "last (tree_path d ?L root k)"
  define V where "V = W(hf := hold Unlatched (W hf))"
  have h: "bi_comparator ix = Compare_int32" "pin_count (W hf) \<noteq> - 1" "rwlatch (W hf) = Unlatched"
      "hd_GetRootPageId (page_data (W hf)) = root" "tree_ok d ?L INVALID_PAGE_ID root (- (2 ^ 31)) (2 ^ 31)"
      "?hdr \<notin> set (tree_pages d ?L root)" "distinct (tree_pages d ?L root)"
    using ix hf by (auto simp: index_at_def rests_def contents_def)
  have kb: "- (2 ^ 31) \<le> k" "k < 2 ^ 31" using k by (simp_all add: fits_def)
  note tp = tree_path_pages [OF h(5) k] and tf = tree_find [OF h(5) k kb]
  have rh: "hf \<in> ran T" using hf by (auto intro: ranI)
  have LV: "contents T V D = contents T W D" unfolding V_def by (rule contents_same) simp
  have ne: "T (mk_page_id ?oid q) \<noteq> Some hf" if "q \<in> set (tree_path d ?L root k)" for q
    using sees_inj [OF see hf, of "mk_page_id ?oid q"] that tp(1) h(6) by (auto simp: page_ids)
  have pV: "\<forall>q \<in> set (tree_path d (table_contents ?oid T V D) root k). rests T V (mk_page_id ?oid q)"
    unfolding LV using path ne by (auto simp: V_def intro: rests_other)
  have tV: "tidy T V D" using sees_tidy [OF see] h(2) pin_up [OF h(2)] by (auto simp: tidy_def V_def)
  obtain rf where r: "T (mk_page_id ?oid root) = Some rf" "pin_count (W rf) \<noteq> - 1" "rwlatch (W rf) = Unlatched"
    using path tree_path_hd [of root d ?L k] by (auto simp: rests_def)
  have rr: "rf \<in> ran T" "rf \<noteq> hf" using r(1) ne [of root] tree_path_hd [of root d ?L k] by (auto intro: ranI)
  obtain lf where l: "T (mk_page_id ?oid ?q) = Some lf" "lf \<in> ran T" "pin_count (W lf) \<noteq> - 1" "rwlatch (W lf) = Unlatched"
    using rests_frame [OF path [rule_format, OF last_in_set [OF tree_path_ne]]] by metis
  have lr: "lf \<noteq> hf" using l(1) ne [of ?q] last_in_set [OF tree_path_ne [of d ?L root k]] by auto
  obtain par' lo' hi' where tl: "tree_leaf (page_data (W lf)) par' ?q lo' hi'" "d \<noteq> 0 \<Longrightarrow> 0 < par'"
    using tf(1) l(1) by (auto simp: contents_def split: if_splits)
  have look: "lf_Lookup (page_data (W lf)) (int_key k) Compare_int32 = Inr (map_of (tree_entries d ?L root) k)"
    using leaf_lookup [OF _ k, of "page_data (W lf)"] tl(1) tf(2) l(1) by (simp add: tree_leaf_def leaf_in_def contents_def)
  have root: "0 < root" using tree_ok_pos [OF h(5)] by simp
  have down: "wp (search_down (Suc (d + e)) Compare_int32 (int_key k) SEARCH rf False) P ((s', m), t)"
    if "sees s' T (V(rf := hold (ReadLatched 1) (V rf))) D F"
      and "\<And>s''. sees s'' T (V(lf := hold (ReadLatched 1) (V lf))) D F \<Longrightarrow> P (lf, 0 < d) ((s'', m), t)" for s' P
    by (rule search_down_read [OF that(1) _ k kb r(1) tV pV]) (use h(5,7) tp(2) l(1) that(2) in \<open>auto simp: LV\<close>)
  have par: "0 < d \<longrightarrow> 0 < bt_GetParentPageId (page_data (W lf))" using tl by (auto simp: tree_leaf_def leaf_in_def)
  have Qc: "wp (case map_of (tree_entries d ?L root) k of None \<Rightarrow> ret (False, rids) | Some rid \<Rightarrow> ret (True, rids @ [rid])) Q ((s', m), t)"
    if "sees s' T V D F" for s' using Q [folded V_def, OF that] by (simp add: wp_simps split: option.splits)
  have Vr: "V rf = W rf" "V lf = W lf" using rr lr by (simp_all add: V_def)
  show ?thesis
    unfolding InternalScanKey_def SearchLeafPage_def
    apply (simp add: wp_simps h(1) Let_def del: search_down.simps)
    apply (rule wp_take [OF see hf h(2,3)])
    apply (rule wp_latches(2), assumption; simp add: rh pin_up h hold_latch wp_simps root del: search_down.simps)
    apply (rule wp_nodeI, assumption; simp add: rh h wp_simps root del: search_down.simps)
    apply (rule wp_take, assumption, rule r; simp add: r rr wp_simps del: search_down.simps)
    apply (rule wp_latches(4), assumption; simp add: rh rr(2) [symmetric] h pin_up hold_latch wp_simps del: search_down.simps)
    apply (rule wp_latches(2), assumption; simp add: rr r pin_up hold_latch wp_simps del: search_down.simps)
    apply (rule down)
     apply (erule sees_eq, use rr(2) in \<open>auto simp: Vr V_def\<close>)[1]
    apply (simp add: wp_simps)
    apply (rule wp_nodeI, assumption; simp add: Vr l par wp_simps)
    apply (rule wp_nodeI, assumption; simp add: Vr l look wp_simps)
    apply (rule wp_latches(4), assumption; simp add: Vr l pin_up hold_latch wp_simps)
    apply (rule wp_give [where W = V, OF _ _ tV], assumption; use l in \<open>simp add: Vr wp_simps\<close>)
    apply (rule Qc)
    apply (erule sees_eq, simp add: V_def lr)
    done
qed

end
