(* ===== verification/TreeInserts.thy ===== *)
theory TreeInserts
  imports Trees
begin

text \<open>
  Insertion into trees. The first sections follow the pages of a leaf that is inserted into and of
  one that is split, the later ones the code that moves them through the pool.
\<close>

section \<open>Leaves\<close>

text \<open>Inserting a key somewhere into a list of entries.\<close>

definition inserts :: "'k \<Rightarrow> 'v \<Rightarrow> ('k \<times> 'v) list \<Rightarrow> ('k \<times> 'v) list \<Rightarrow> bool" where
  "inserts k v es es' \<longleftrightarrow> (\<exists>as bs. es = as @ bs \<and> es' = as @ (k, v) # bs)"

lemma inserts_context: "inserts k v es es' \<Longrightarrow> inserts k v (as @ es @ bs) (as @ es' @ bs)"
  unfolding inserts_def by (metis append.assoc append_Cons)

lemma inserts_map: "inserts k v es es' \<Longrightarrow> k \<notin> fst ` set es \<Longrightarrow> map_of es' = (map_of es)(k \<mapsto> v)"
  by (auto simp: inserts_def fun_eq_iff map_add_def map_of_eq_None_iff [symmetric] split: option.splits)

lemma length_inserts: "inserts k v es es' \<Longrightarrow> length es' = length es + 1"
  by (auto simp: inserts_def)

lemma set_inserts: "inserts k v es es' \<Longrightarrow> set es' = insert (k, v) (set es)"
  by (auto simp: inserts_def)

text \<open>What is written at or behind the nodes does not touch the page numbers in the header.\<close>

lemma get_blit_before: "off + n \<le> o' \<Longrightarrow> off + n \<le> length m \<Longrightarrow> get_int off n (blit o' bs m) = get_int off n m"
  by (cases "n = 0") (auto simp: get_int_def slice_def blit_def drop_take min_def)

lemma length_blit_le: "length m \<le> length (blit off bs m)"
  by (simp add: blit_def)

lemma lf_Insert_ids:
  assumes run: "lf_Insert key rid c m = Inr m'" and m: "length m = PAGE_SIZE"
  shows "bt_GetParentPageId m' = bt_GetParentPageId m" and "bt_GetPageId m' = bt_GetPageId m"
proof -
  have ids: "bt_GetParentPageId (bt_IncreaseSize 1 (lf_put j key rid x)) = bt_GetParentPageId m \<and>
      bt_GetPageId (bt_IncreaseSize 1 (lf_put j key rid x)) = bt_GetPageId m"
    if x: "x = m \<or> x = lf_shift j (bt_GetSize m) m" for j x
  proof -
    have len: "length m \<le> length x" using x length_blit_le by (auto simp: lf_shift_def)
    then have lp: "PAGE_SIZE \<le> length (lf_put j key rid x)" using length_blit_le [of x] m unfolding lf_put_def by (metis le_trans)
    have "get_int o' 4 x = get_int o' 4 m" if "o' \<le> 8" for o' using x that m by (auto simp: lf_shift_def get_blit_before)
    moreover have "get_int o' 4 (lf_put j key rid x) = get_int o' 4 x" if "o' \<le> 8" for o'
      using that len m by (simp add: lf_put_def get_blit_before)
    ultimately show ?thesis using lp
      by (simp add: bt_GetParentPageId_def bt_GetPageId_def bt_IncreaseSize_def bt_SetSize_def mem_simps)
  qed
  have "\<exists>j. m' = m \<or> m' = bt_IncreaseSize 1 (lf_put j key rid (if j = bt_GetSize m then m else lf_shift j (bt_GetSize m) m))"
    using run unfolding lf_Insert_def rbind_eq_Inr by (auto simp: rbind_eq_Inr split: if_splits)
  then show "bt_GetParentPageId m' = bt_GetParentPageId m" "bt_GetPageId m' = bt_GetPageId m" using ids by (auto split: if_splits)
qed

lemma leaf_in_insert:
  assumes l: "tree_leaf m par p lo hi" and k: "fits 4 k" "lo \<le> k" "k < hi" "k \<noteq> 0" and rid: "rid_fits rid" and new: "k \<notin> fst ` set (leaf_entries m)"
  obtains m' where "lf_Insert (int_key k) rid Compare_int32 m = Inr m'" "leaf_in m' par p lo hi" "bt_GetSize m' = bt_GetSize m + 1"
    "inserts k rid (leaf_entries m) (leaf_entries m')"
proof -
  let ?n = "bt_GetSize m"
  have ok: "leaf_ok m" "?n < LEAF_MAX_NODE_SIZE" and ids: "bt_GetParentPageId m = par" "bt_GetPageId m = p"
      and st: "\<And>i. ?n \<le> i \<Longrightarrow> i < LEAF_MAX_NODE_SIZE \<Longrightarrow> nd_key m i = 0 \<or> hi \<le> nd_key m i"
    using l by (auto simp: tree_leaf_def leaf_in_def)
  have stale: "?n = 0 \<or> nd_key m ?n \<noteq> k \<or> (\<exists>i < ?n. k < nd_key m i)" using st [of ?n] ok(2) k by auto
  obtain m' where m': "lf_Insert (int_key k) rid Compare_int32 m = Inr m'" "leaf_ok m'" "bt_GetSize m' = ?n + 1" "\<forall>i > ?n. nd m' i = nd m i"
      "set (map fst (leaf_entries m')) = insert k (fst ` set (leaf_entries m))"
      "\<exists>j. leaf_entries m' = take j (leaf_entries m) @ (k, rid) # drop j (leaf_entries m)"
    using leaf_insert_new [OF ok k(1) rid new stale] by blast
  have ins: "inserts k rid (leaf_entries m) (leaf_entries m')" using m'(6) unfolding inserts_def by (metis append_take_drop_id)
  have "lo \<le> nd_key m' i \<and> nd_key m' i < hi" if "i < bt_GetSize m'" for i
  proof -
    have "nd_key m' i \<in> set (map fst (leaf_entries m'))" using that by (auto simp: leaf_entries_def)
    then have "nd_key m' i = k \<or> nd_key m' i \<in> fst ` set (leaf_entries m)" using m'(5) by auto
    then show ?thesis using k l by (auto simp: leaf_entries_def tree_leaf_def leaf_in_def)
  qed
  moreover have "nd_key m' i = 0 \<or> hi \<le> nd_key m' i" if "bt_GetSize m' \<le> i" "i < LEAF_MAX_NODE_SIZE" for i
    using st [of i] that m'(3,4) by (simp add: nd_key_def)
  moreover have "bt_GetParentPageId m' = par" "bt_GetPageId m' = p"
    using lf_Insert_ids [OF m'(1)] ok ids by (auto simp: leaf_ok_def leaf_page_def)
  ultimately have "leaf_in m' par p lo hi" using m'(2) by (simp add: leaf_in_def)
  then show ?thesis using that m'(1,3) ins by blast
qed

text \<open>Writing the number of the parent or of the next page.\<close>

lemma leaf_in_parent:
  assumes "leaf_in m par p lo hi" and "fits 4 par'"
  shows "leaf_in (bt_SetParentPageId par' m) par' p lo hi" and "leaf_entries (bt_SetParentPageId par' m) = leaf_entries m"
    and "bt_GetSize (bt_SetParentPageId par' m) = bt_GetSize m"
proof -
  have len: "length m = PAGE_SIZE" using assms(1) by (simp add: leaf_in_def leaf_ok_def leaf_page_def)
  note defs = bt_SetParentPageId_def bt_max_size_def bt_GetSize_def bt_IsLeafPage_def bt_GetParentPageId_def bt_GetPageId_def nd_def nd_key_def mem_simps
  have eq: "nd (bt_SetParentPageId par' m) = nd m" "nd_key (bt_SetParentPageId par' m) = nd_key m" using len by (simp_all add: fun_eq_iff defs)
  have f: "length (bt_SetParentPageId par' m) = PAGE_SIZE" "bt_max_size (bt_SetParentPageId par' m) = bt_max_size m"
      "bt_IsLeafPage (bt_SetParentPageId par' m) = bt_IsLeafPage m" "bt_GetParentPageId (bt_SetParentPageId par' m) = par'"
      "bt_GetPageId (bt_SetParentPageId par' m) = bt_GetPageId m"
    using len assms(2) by (simp_all add: defs)
  show sz: "bt_GetSize (bt_SetParentPageId par' m) = bt_GetSize m" using len by (simp add: defs)
  show "leaf_entries (bt_SetParentPageId par' m) = leaf_entries m" unfolding leaf_entries_def eq sz ..
  show "leaf_in (bt_SetParentPageId par' m) par' p lo hi" using assms(1) unfolding leaf_in_def leaf_ok_def leaf_page_def eq sz f by simp
qed

lemma leaf_in_next:
  assumes "leaf_in m par p lo hi"
  shows "leaf_in (lf_SetNextPageId x m) par p lo hi" and "leaf_entries (lf_SetNextPageId x m) = leaf_entries m"
    and "bt_GetSize (lf_SetNextPageId x m) = bt_GetSize m" and "lf_KeyAt (lf_SetNextPageId x m) 0 = lf_KeyAt m 0"
proof -
  have len: "length m = PAGE_SIZE" using assms(1) by (simp add: leaf_in_def leaf_ok_def leaf_page_def)
  note defs = lf_SetNextPageId_def bt_max_size_def bt_GetSize_def bt_IsLeafPage_def bt_GetParentPageId_def bt_GetPageId_def nd_def nd_key_def mem_simps
  have eq: "nd (lf_SetNextPageId x m) = nd m" "nd_key (lf_SetNextPageId x m) = nd_key m" using len by (simp_all add: fun_eq_iff defs)
  have f: "length (lf_SetNextPageId x m) = PAGE_SIZE" "bt_max_size (lf_SetNextPageId x m) = bt_max_size m"
      "bt_IsLeafPage (lf_SetNextPageId x m) = bt_IsLeafPage m" "bt_GetParentPageId (lf_SetNextPageId x m) = bt_GetParentPageId m"
      "bt_GetPageId (lf_SetNextPageId x m) = bt_GetPageId m"
    using len by (simp_all add: defs)
  show sz: "bt_GetSize (lf_SetNextPageId x m) = bt_GetSize m" using len by (simp add: defs)
  show "leaf_entries (lf_SetNextPageId x m) = leaf_entries m" unfolding leaf_entries_def eq sz ..
  show "leaf_in (lf_SetNextPageId x m) par p lo hi" using assms(1) unfolding leaf_in_def leaf_ok_def leaf_page_def eq sz f by simp
  show "lf_KeyAt (lf_SetNextPageId x m) 0 = lf_KeyAt m 0"
    using lf_node_nd [OF len] lf_node_nd [OF f(1)] eq(1) by (simp add: lf_KeyAt_def)
qed

lemma lf_Init_ids:
  assumes "lf_Init p par m = Inr m'" and "length m = PAGE_SIZE" and "fits 4 p" and "fits 4 par"
  shows "bt_GetParentPageId m' = par" and "bt_GetPageId m' = p"
  using assms by (auto simp: lf_Init_def bt_SetMaxSize_def bt_GetMaxSize_def rbind_eq_Inr lf_SetNextPageId_def bt_SetParentPageId_def bt_SetPageId_def
      bt_SetSize_def bt_SetPageType_def bt_GetParentPageId_def bt_GetPageId_def mem_simps)

lemma nd_zero_page: "i \<le> LEAF_MAX_NODE_SIZE \<Longrightarrow> nd_key zero_page i = 0"
  by (simp add: nd_key_def nd_def zero_page_def slice_zeros get_int_def bytes_int_def)

text \<open>A full leaf and a new page: the upper half of the entries moves to the new page.\<close>

lemma split_leaf_pages:
  assumes m: "leaf_in m par p lo hi" "bt_GetSize m = LEAF_MAX_NODE_SIZE" and q: "fits 4 q" "fits 4 par"
  obtains n m' r' K where "lf_Init q par (bt_SetPageType_of m zero_page) = Inr n" "length n = PAGE_SIZE" "lf_MoveHalfTo m n = Inr (m', r')"
    "leaf_in m' par p lo K" "leaf_in r' par q K hi" "bt_GetSize m' = 101" "bt_GetSize r' = 101" "leaf_entries m' @ leaf_entries r' = leaf_entries m"
    "lf_KeyAt r' 0 = Inr (int_key K)" "fits 4 K" "lo < K" "K < hi"
proof -
  let ?z = "bt_SetPageType_of m zero_page"
  have ok: "leaf_ok m" "length m = PAGE_SIZE" and ids: "bt_GetParentPageId m = par" "bt_GetPageId m = p"
      and rng: "\<And>i. i < LEAF_MAX_NODE_SIZE \<Longrightarrow> lo \<le> nd_key m i \<and> nd_key m i < hi"
    using m by (auto simp: leaf_in_def leaf_ok_def leaf_page_def)
  have lt: "nd_key m i < nd_key m j" if "i < j" "j < LEAF_MAX_NODE_SIZE" for i j using ok(1) m(2) that by (auto simp: leaf_ok_def)
  have z: "length ?z = PAGE_SIZE" "nd ?z i = nd zero_page i" for i by (simp_all add: bt_SetPageType_of_def nd_def mem_simps)
  obtain n where n: "lf_Init q par ?z = Inr n" "leaf_ok n" "bt_GetSize n = 0" "\<forall>i. nd n i = nd ?z i" using leaf_init [OF z(1)] by blast
  have ln: "length n = PAGE_SIZE" "leaf_page n" using n(2) by (simp_all add: leaf_ok_def leaf_page_def)
  obtain m' r' where s: "lf_MoveHalfTo m n = Inr (m', r')" "leaf_ok m'" "leaf_ok r'" "leaf_entries m' @ leaf_entries r' = leaf_entries m"
      "bt_GetSize m' = 101" "bt_GetSize r' = 101" "\<forall>i. nd m' i = nd m i" "\<forall>i. 101 \<le> i \<and> i \<le> LEAF_MAX_NODE_SIZE \<longrightarrow> nd r' i = nd n i"
    using leaf_split [OF ok(1) m(2) ln(2) n(3)] by blast
  have km: "nd_key m' i = nd_key m i" for i using s(7) by (simp add: nd_key_def)
  have kr: "nd_key r' i = nd_key m (101 + i)" if "i < 101" for i
  proof -
    have "leaf_entries m ! (101 + i) = leaf_entries r' ! i" using s(5) that unfolding s(4) [symmetric] by (simp add: nth_append leaf_entries_def)
    then show ?thesis using that s(6) m(2) by (simp add: leaf_entries_def)
  qed
  have st: "nd_key r' i = 0" if "101 \<le> i" "i < LEAF_MAX_NODE_SIZE" for i
    using s(8) n(4) z(2) that nd_zero_page [of i] by (simp add: nd_key_def)
  let ?K = "nd_key m 101"
  have ids': "bt_GetParentPageId m' = par" "bt_GetPageId m' = p" "bt_GetParentPageId r' = par" "bt_GetPageId r' = q"
  proof -
    let ?b = "blit LEAF_NODES (take (LEAF_NODE * 101) (drop (LEAF_NODES + LEAF_NODE * 101) (bt_SetSize 101 m))) n"
    have mx: "bt_max_size m = LEAF_MAX_NODE_SIZE" "bt_IsLeafPage m" "bt_max_size n = LEAF_MAX_NODE_SIZE"
      using ok(1) ln(2) by (auto simp: leaf_ok_def leaf_page_def)
    have lb: "length ?b = PAGE_SIZE" using blit_nodes(1) [OF ln(1)] ok(2) by simp
    have e: "m' = bt_SetSize 101 m" "r' = bt_IncreaseSize 101 ?b"
      using s(1) mx n(3) ln(1) by (auto simp: lf_MoveHalfTo_def bt_GetMaxSize_def bt_GetMinSize_def lf_CopyNFrom_def Let_def)
    show "bt_GetParentPageId m' = par" "bt_GetPageId m' = p"
      using ids ok(2) by (simp_all add: e(1) bt_SetSize_def bt_GetParentPageId_def bt_GetPageId_def mem_simps)
    have "get_int o' 4 ?b = get_int o' 4 n" if "o' \<le> 8" for o' using that ln(1) by (simp add: get_blit_before)
    then show "bt_GetParentPageId r' = par" "bt_GetPageId r' = q"
      using lf_Init_ids [OF n(1) z(1) q] lb
      by (simp_all add: e(2) bt_IncreaseSize_def bt_SetSize_def bt_GetParentPageId_def bt_GetPageId_def mem_simps)
  qed
  have "?K \<le> nd_key m i" if "101 \<le> i" "i < LEAF_MAX_NODE_SIZE" for i using that lt [of 101 i] by (cases "i = 101") simp_all
  then have "leaf_in m' par p lo ?K" "\<And>i. i < 101 \<Longrightarrow> ?K \<le> nd_key r' i"
    using s(2,5) ids'(1,2) km rng lt [of _ 101] kr by (simp_all add: leaf_in_def)
  moreover from this(2) have "leaf_in r' par q ?K hi" using s(3,6) ids'(3,4) kr rng st by (simp add: leaf_in_def)
  moreover have "take 8 (nd r' 0) = int_key (nd_key r' 0) \<and> fits 4 (nd_key r' 0)" using s(3,6) by (simp add: leaf_ok_def)
  then have "lf_KeyAt r' 0 = Inr (int_key ?K)" "fits 4 ?K"
    using s(3) kr [of 0] lf_node_nd [of r' 0] by (simp_all add: lf_KeyAt_def leaf_ok_def leaf_page_def)
  moreover have "lo < ?K" "?K < hi" using rng [of 0] rng [of 101] lt [of 0 101] by simp_all
  ultimately show ?thesis using that [OF n(1) ln(1) s(1)] s(4-6) by blast
qed

section \<open>A subtree changes\<close>

text \<open>A tree depends on its own pages only.\<close>

lemma tree_entries_children: "tree_entries (Suc d) L p = concat (map (\<lambda>c. tree_entries d L (snd c)) (children (L p)))"
  by (simp add: children_def o_def)

lemma tree_pages_children: "tree_pages (Suc d) L p = p # concat (map (\<lambda>c. tree_pages d L (snd c)) (children (L p)))"
  by (simp add: children_def o_def)

lemma filled_children: "filled (Suc d) L p \<longleftrightarrow> (\<forall>c \<in> set (children (L p)). filled d L (snd c))"
  by (auto simp: children_def)

lemma tree_cong:
  assumes "\<And>x. x \<in> set (tree_pages d L p) \<Longrightarrow> L' x = L x"
  shows "tree_ok d L' par p lo hi = tree_ok d L par p lo hi" and "tree_entries d L' p = tree_entries d L p" and "tree_pages d L' p = tree_pages d L p"
    and "filled d L' p = filled d L p"
proof -
  have "(\<forall>par lo hi. tree_ok d L' par p lo hi = tree_ok d L par p lo hi) \<and> tree_entries d L' p = tree_entries d L p \<and> tree_pages d L' p = tree_pages d L p \<and>
      filled d L' p = filled d L p"
    using assms
  proof (induction d arbitrary: p)
    case (Suc d)
    have p: "L' p = L p" using Suc.prems tree_pages_hd by metis
    have "(\<forall>par lo hi. tree_ok d L' par (in_val (L p) i) lo hi = tree_ok d L par (in_val (L p) i) lo hi) \<and>
        tree_entries d L' (in_val (L p) i) = tree_entries d L (in_val (L p) i) \<and> tree_pages d L' (in_val (L p) i) = tree_pages d L (in_val (L p) i) \<and>
        filled d L' (in_val (L p) i) = filled d L (in_val (L p) i)"
      if "i < bt_GetSize (L p)" for i
      by (rule Suc.IH, rule Suc.prems) (use that in auto)
    then show ?case using p by (auto intro!: arg_cong [where f = concat])
  qed auto
  then show "tree_ok d L' par p lo hi = tree_ok d L par p lo hi" "tree_entries d L' p = tree_entries d L p" "tree_pages d L' p = tree_pages d L p"
    "filled d L' p = filled d L p" by blast+
qed

text \<open>The tree below \<open>p\<close> holds one entry more and may have taken over pages of \<open>Z\<close>.\<close>

definition tree_grown :: "nat \<Rightarrow> (int \<Rightarrow> bytes) \<Rightarrow> (int \<Rightarrow> bytes) \<Rightarrow> int \<Rightarrow> int \<Rightarrow> int \<Rightarrow> int \<Rightarrow> int \<Rightarrow> RID \<Rightarrow> int set \<Rightarrow> bool" where
  "tree_grown d L L' par p lo hi k v Z \<longleftrightarrow> tree_ok d L' par p lo hi \<and> inserts k v (tree_entries d L p) (tree_entries d L' p) \<and>
     distinct (tree_pages d L' p) \<and> set (tree_pages d L' p) \<subseteq> Z \<union> set (tree_pages d L p) \<and> (filled d L p \<longrightarrow> filled d L' p)"

text \<open>The children left and right of the one a key belongs to.\<close>

lemma nth_other: "i < length xs \<Longrightarrow> i \<noteq> c \<Longrightarrow> xs ! i \<notin> set (drop (Suc c) xs) \<Longrightarrow> xs ! i \<in> set (take c xs)"
proof (cases "i < c")
  assume "i < length xs" "i \<noteq> c" "xs ! i \<notin> set (drop (Suc c) xs)" "\<not> i < c"
  then have "drop (Suc c) xs ! (i - Suc c) = xs ! i" "i - Suc c < length (drop (Suc c) xs)" by simp_all
  then show ?thesis using \<open>xs ! i \<notin> set (drop (Suc c) xs)\<close> nth_mem by metis
qed (auto simp: set_conv_nth intro!: exI [of _ i])

lemma distinct_replace:
  assumes "distinct (as @ gs @ bs)" and "Z \<inter> set (as @ gs @ bs) = {}" and "distinct hs" and "set hs \<subseteq> Z \<union> set gs"
  shows "distinct (as @ hs @ bs)" and "set (as @ hs @ bs) \<subseteq> Z \<union> set (as @ gs @ bs)"
proof -
  have "set as \<inter> set hs = {}" "set hs \<inter> set bs = {}" using assms by auto
  then show "distinct (as @ hs @ bs)" using assms(1,3) by auto
  show "set (as @ hs @ bs) \<subseteq> Z \<union> set (as @ gs @ bs)" using assms(4) by auto
qed

lemma split_children:
  assumes "c < bt_GetSize m"
  shows "children m = take c (children m) @ (in_key m c, in_val m c) # drop (Suc c) (children m)"
  using id_take_nth_drop [of c "children m"] assms by (simp add: nth_children)

lemma siblings_cong:
  assumes ch: "children (L p) = xs @ (a, q) # ys" and pages: "distinct (tree_pages (Suc d) L p)"
    and L': "\<And>x. x \<in> set (tree_pages (Suc d) L p) \<Longrightarrow> x \<notin> set (tree_pages d L q) \<Longrightarrow> x \<noteq> p \<Longrightarrow> L' x = L x"
    and y: "y \<in> set xs \<union> set ys"
  shows "tree_ok d L' par (snd y) lo hi = tree_ok d L par (snd y) lo hi" and "tree_entries d L' (snd y) = tree_entries d L (snd y)"
    and "tree_pages d L' (snd y) = tree_pages d L (snd y)" and "filled d L' (snd y) = filled d L (snd y)"
proof -
  have "L' x = L x" if "x \<in> set (tree_pages d L (snd y))" for x
  proof (rule L')
    show "x \<in> set (tree_pages (Suc d) L p)" using that y ch unfolding tree_pages_children by auto
    show "x \<notin> set (tree_pages d L q)" "x \<noteq> p" using that y pages ch unfolding tree_pages_children by auto
  qed
  note c = tree_cong [OF this]
  show "tree_ok d L' par (snd y) lo hi = tree_ok d L par (snd y) lo hi" "tree_entries d L' (snd y) = tree_entries d L (snd y)"
    "tree_pages d L' (snd y) = tree_pages d L (snd y)" "filled d L' (snd y) = filled d L (snd y)" by (rule c; assumption)+
qed

text \<open>What happens to a child happens to the tree.\<close>

lemma tree_grown_child:
  assumes ok: "tree_ok (Suc d) L par p lo hi" and pages: "distinct (tree_pages (Suc d) L p)" "Z \<inter> set (tree_pages (Suc d) L p) = {}" and k: "fits 4 k"
    and q: "q = in_val (L p) (child_of (L p) k)"
    and L': "\<And>x. x \<notin> set (tree_pages d L q) \<Longrightarrow> x \<notin> Z \<Longrightarrow> L' x = L x"
    and sub: "tree_grown d L L' p q (low (L p) lo (child_of (L p) k)) (high (L p) hi (child_of (L p) k)) k v Z"
  shows "tree_grown (Suc d) L L' par p lo hi k v Z"
proof -
  let ?m = "L p" and ?c = "child_of (L p) k"
  have nd: "tree_node ?m par p lo hi" using ok by simp
  have c: "?c < bt_GetSize ?m" using in_Lookup_child(2) nd k by (auto simp: tree_node_def)
  define xs ys where "xs = take ?c (children ?m)" and "ys = drop (Suc ?c) (children ?m)"
  have ch: "children ?m = xs @ (in_key ?m ?c, q) # ys" using split_children [OF c] by (simp add: xs_def ys_def q)
  let ?A = "p # concat (map (\<lambda>c. tree_pages d L (snd c)) xs)" and ?B = "concat (map (\<lambda>c. tree_pages d L (snd c)) ys)"
  have pgs: "tree_pages (Suc d) L p = ?A @ tree_pages d L q @ ?B" unfolding tree_pages_children ch by simp
  have agree: "L' x = L x" if "x \<in> set (tree_pages (Suc d) L p)" "x \<notin> set (tree_pages d L q)" for x
    using L' pages(2) that by blast
  have "p \<notin> set (tree_pages d L q)" using pages(1) unfolding pgs by auto
  then have p: "L' p = ?m" using agree tree_pages_hd by metis
  note sc = siblings_cong [where L' = L', OF ch pages(1) agree]
  have "tree_ok d L' p (in_val ?m i) (low ?m lo i) (high ?m hi i)" if i: "i < bt_GetSize ?m" for i
  proof (cases "i = ?c")
    case False
    then have "children ?m ! i \<in> set xs \<union> set ys" using i by (auto simp: xs_def ys_def nth_other)
    then have "tree_ok d L' p (snd (children ?m ! i)) (low ?m lo i) (high ?m hi i) = tree_ok d L p (snd (children ?m ! i)) (low ?m lo i) (high ?m hi i)"
      by (intro sc(1)) auto
    then show ?thesis using ok i by (simp add: nth_children)
  qed (use sub q in \<open>simp add: tree_grown_def\<close>)
  then have "tree_ok (Suc d) L' par p lo hi" using ok p by simp
  moreover have es: "tree_entries (Suc d) L' p = concat (map (\<lambda>c. tree_entries d L (snd c)) xs) @ tree_entries d L' q @ concat (map (\<lambda>c. tree_entries d L (snd c)) ys)"
    using sc(2) unfolding tree_entries_children p ch by (simp cong: map_cong)
  have "inserts k v (tree_entries (Suc d) L p) (tree_entries (Suc d) L' p)"
    unfolding es unfolding tree_entries_children ch using sub by (simp add: tree_grown_def inserts_context)
  moreover have ps: "tree_pages (Suc d) L' p = ?A @ tree_pages d L' q @ ?B"
    using sc(3) unfolding tree_pages_children p ch by (simp cong: map_cong)
  have "distinct (tree_pages (Suc d) L' p)" "set (tree_pages (Suc d) L' p) \<subseteq> Z \<union> set (tree_pages (Suc d) L p)"
    using distinct_replace [where as = ?A and gs = "tree_pages d L q" and hs = "tree_pages d L' q" and bs = ?B and Z = Z] sub pages
    unfolding ps pgs tree_grown_def by blast+
  moreover have "filled (Suc d) L p \<longrightarrow> filled (Suc d) L' p"
    using sc(4) sub unfolding filled_children p ch tree_grown_def by auto
  ultimately show ?thesis unfolding tree_grown_def by blast
qed

text \<open>What happens below the path to a key happens to the whole tree.\<close>

lemma graft:
  assumes "tree_ok (n + d) L par p lo hi" and "distinct (tree_pages (n + d) L p)" and "fits 4 k" "lo \<le> k" "k < hi"
  defines "r \<equiv> tree_path (n + d) L p k ! n"
  obtains par' lo' hi' where "tree_ok d L par' r lo' hi'" "lo' \<le> k" "k < hi'" "distinct (tree_pages d L r)" "set (tree_pages d L r) \<subseteq> set (tree_pages (n + d) L p)"
    "\<forall>L' Z v. Z \<inter> set (tree_pages (n + d) L p) = {} \<longrightarrow> (\<forall>x. x \<notin> set (tree_pages d L r) \<longrightarrow> x \<notin> Z \<longrightarrow> L' x = L x) \<longrightarrow>
       tree_grown d L L' par' r lo' hi' k v Z \<longrightarrow> tree_grown (n + d) L L' par p lo hi k v Z"
proof -
  have "\<exists>par' lo' hi'. tree_ok d L par' (tree_path (n + d) L p k ! n) lo' hi' \<and> lo' \<le> k \<and> k < hi' \<and> distinct (tree_pages d L (tree_path (n + d) L p k ! n)) \<and>
      set (tree_pages d L (tree_path (n + d) L p k ! n)) \<subseteq> set (tree_pages (n + d) L p) \<and>
      (\<forall>L' Z v. Z \<inter> set (tree_pages (n + d) L p) = {} \<longrightarrow> (\<forall>x. x \<notin> set (tree_pages d L (tree_path (n + d) L p k ! n)) \<longrightarrow> x \<notin> Z \<longrightarrow> L' x = L x) \<longrightarrow>
        tree_grown d L L' par' (tree_path (n + d) L p k ! n) lo' hi' k v Z \<longrightarrow> tree_grown (n + d) L L' par p lo hi k v Z)"
    using assms(1-5)
  proof (induction n arbitrary: par p lo hi)
    case 0
    have "tree_path d L p k ! 0 = p" by (cases d) simp_all
    then show ?case using 0 by (intro exI [of _ par] exI [of _ lo] exI [of _ hi]) simp
  next
    case (Suc n)
    let ?m = "L p" and ?c = "child_of (L p) k" let ?q = "in_val ?m ?c" let ?r = "tree_path (n + d) L ?q k ! n"
    have nd: "tree_node ?m par p lo hi" "0 < p" using Suc.prems(1) by simp_all
    have c: "?c < bt_GetSize ?m" using in_Lookup_child(2) nd(1) Suc.prems(3) by (auto simp: tree_node_def)
    have nth: "tree_path (Suc n + d) L p k ! Suc n = ?r" by simp
    have pg: "tree_pages (Suc n + d) L p = p # concat (map (\<lambda>c. tree_pages (n + d) L (snd c)) (take ?c (children ?m))) @ tree_pages (n + d) L ?q @
        concat (map (\<lambda>c. tree_pages (n + d) L (snd c)) (drop (Suc ?c) (children ?m)))"
      unfolding add_Suc tree_pages_children by (subst split_children [OF c]) simp
    have sub: "tree_ok (n + d) L p ?q (low ?m lo ?c) (high ?m hi ?c)" "distinct (tree_pages (n + d) L ?q)"
        "set (tree_pages (n + d) L ?q) \<subseteq> set (tree_pages (Suc n + d) L p)"
      using Suc.prems(1,2) c unfolding pg by auto
    obtain par' lo' hi' where IH: "tree_ok d L par' ?r lo' hi'" "lo' \<le> k" "k < hi'" "distinct (tree_pages d L ?r)"
        "set (tree_pages d L ?r) \<subseteq> set (tree_pages (n + d) L ?q)"
        "\<forall>L' Z v. Z \<inter> set (tree_pages (n + d) L ?q) = {} \<longrightarrow> (\<forall>x. x \<notin> set (tree_pages d L ?r) \<longrightarrow> x \<notin> Z \<longrightarrow> L' x = L x) \<longrightarrow>
          tree_grown d L L' par' ?r lo' hi' k v Z \<longrightarrow> tree_grown (n + d) L L' p ?q (low ?m lo ?c) (high ?m hi ?c) k v Z"
      using Suc.IH [OF sub(1,2) Suc.prems(3) child_bounds [OF nd(1) Suc.prems(3-5)]] by blast
    have "tree_grown (Suc n + d) L L' par p lo hi k v Z"
      if Z: "Z \<inter> set (tree_pages (Suc n + d) L p) = {}" and L': "\<forall>x. x \<notin> set (tree_pages d L ?r) \<longrightarrow> x \<notin> Z \<longrightarrow> L' x = L x"
        and g: "tree_grown d L L' par' ?r lo' hi' k v Z" for L' Z v
    proof -
      have "tree_grown (n + d) L L' p ?q (low ?m lo ?c) (high ?m hi ?c) k v Z" using IH(6) Z sub(3) L' g by blast
      then show ?thesis using Suc.prems(1-3) Z L' IH(5) unfolding add_Suc by (intro tree_grown_child [where q = ?q]) auto
    qed
    then show ?case using IH(1-5) sub(3) unfolding nth by blast
  qed
  then show ?thesis using that unfolding r_def by blast
qed

section \<open>A leaf is split below a page with room\<close>

text \<open>The keys and children of the page above.\<close>

lemma node_after:
  assumes n: "tree_node m par p lo hi" and c: "c < bt_GetSize m" and K: "low m lo c < K" "K < high m hi c" "fits 4 K"
    and m': "in_page m'" "bt_GetSize m' = bt_GetSize m + 1" "bt_GetParentPageId m' = par" "bt_GetPageId m' = p"
      "children m' = take (c + 1) (children m) @ (K, z) # drop (c + 1) (children m)"
  shows "tree_node m' par p lo hi"
    and "i < bt_GetSize m' \<Longrightarrow> in_val m' i = (if i \<le> c then in_val m i else if i = c + 1 then z else in_val m (i - 1))"
    and "i < bt_GetSize m' \<Longrightarrow> low m' lo i = (if i \<le> c then low m lo i else if i = c + 1 then K else low m lo (i - 1))"
    and "i < bt_GetSize m' \<Longrightarrow> high m' hi i = (if i < c then high m hi i else if i = c then K else high m hi (i - 1))"
proof -
  have e: "(in_key m' i, in_val m' i) = (if i \<le> c then (in_key m i, in_val m i) else if i = c + 1 then (K, z) else (in_key m (i - 1), in_val m (i - 1)))"
    if i: "i < bt_GetSize m'" for i
  proof -
    have "(in_key m' i, in_val m' i) = (take (c + 1) (children m) @ (K, z) # drop (c + 1) (children m)) ! i" using nth_children [OF i] m'(5) by simp
    also have "\<dots> = (if i \<le> c then children m ! i else if i = c + 1 then (K, z) else children m ! (i - 1))"
      using c i m'(2) by (auto simp: nth_append nth_Cons' min_def numeral_2_eq_2 Suc_diff_Suc)
    finally show ?thesis using c i m'(2) by (auto simp: nth_children)
  qed
  have key: "in_key m' i = (if i \<le> c then in_key m i else if i = c + 1 then K else in_key m (i - 1))" if "i < bt_GetSize m'" for i
    using e [OF that] by (auto split: if_splits)
  show "i < bt_GetSize m' \<Longrightarrow> in_val m' i = (if i \<le> c then in_val m i else if i = c + 1 then z else in_val m (i - 1))"
    using e [of i] by (auto split: if_splits)
  show "i < bt_GetSize m' \<Longrightarrow> low m' lo i = (if i \<le> c then low m lo i else if i = c + 1 then K else low m lo (i - 1))"
    using key [of i] by (auto simp: low_def)
  show "i < bt_GetSize m' \<Longrightarrow> high m' hi i = (if i < c then high m hi i else if i = c then K else high m hi (i - 1))"
    using key [of "i + 1"] m'(2) c by (auto simp: high_def)
  have ok: "in_ok m" and rng: "\<And>i. i < bt_GetSize m \<Longrightarrow> 0 < i \<Longrightarrow> lo \<le> in_key m i \<and> in_key m i < hi \<and> fits 4 (in_key m i)"
    using n by (auto simp: tree_node_def)
  have lt: "in_key m i < in_key m j" if "1 \<le> i" "i < j" "j < bt_GetSize m" for i j using ok that by (simp add: in_ok_def)
  have le: "in_key m i \<le> in_key m j" if "1 \<le> i" "i \<le> j" "j < bt_GetSize m" for i j using lt [of i j] that by (cases "i = j") auto
  have lK: "in_key m i < K" if "1 \<le> i" "i \<le> c" for i using le [of i c] that K(1) c by (auto simp: low_def)
  have Kl: "K < in_key m i" if "c + 1 \<le> i" "i < bt_GetSize m" for i using le [of "c + 1" i] that K(2) by (auto simp: high_def)
  have "in_key m' i < in_key m' j" if "1 \<le> i" "i < j" "j < bt_GetSize m'" for i j
    using that key [of i] key [of j] lt [of i j] lt [of i "j - 1"] lt [of "i - 1" "j - 1"] lK [of i] Kl [of "j - 1"] lK [of "i - 1"] m'(2) c
    by (auto split: if_splits)
  then have "in_ok m'" using m'(1) by (simp add: in_ok_def)
  moreover have "lo \<le> K" "K < hi" using K rng [of c] rng [of "c + 1"] c by (auto simp: low_def high_def split: if_splits)
  then have "lo \<le> in_key m' i \<and> in_key m' i < hi \<and> fits 4 (in_key m' i)" if "i < bt_GetSize m'" "0 < i" for i
    using key [of i] rng [of i] rng [of "i - 1"] that K(3) m'(2) c by (auto split: if_splits)
  ultimately show "tree_node m' par p lo hi" using m'(3,4) by (simp add: tree_node_def)
qed

lemma grow_node:
  assumes ok: "tree_ok (Suc 0) L par p lo hi" and pages: "distinct (tree_pages (Suc 0) L p)"
    and c: "c < bt_GetSize (L p)" and q: "in_val (L p) c = q"
    and leaves: "tree_leaf l p q (low (L p) lo c) K" "tree_leaf r p z K (high (L p) hi c)" "inserts k v (leaf_entries (L q)) (leaf_entries l @ leaf_entries r)"
      "bt_GetSize l = LEAF_MAX_NODE_SIZE div 2" "bt_GetSize r = LEAF_MAX_NODE_SIZE div 2"
    and K: "low (L p) lo c < K" "K < high (L p) hi c" "fits 4 K" and z: "0 < z" "z < 2 ^ 20" "z \<notin> set (tree_pages (Suc 0) L p)"
    and m': "in_page m'" "bt_GetSize m' = bt_GetSize (L p) + 1" "bt_GetParentPageId m' = par" "bt_GetPageId m' = p"
      "children m' = take (c + 1) (children (L p)) @ (K, z) # drop (c + 1) (children (L p))"
    and L': "L' p = m'" "L' q = l" "L' z = r" "\<And>x. x \<noteq> p \<Longrightarrow> x \<noteq> q \<Longrightarrow> x \<noteq> z \<Longrightarrow> L' x = L x"
  shows "tree_grown (Suc 0) L L' par p lo hi k v {z}"
proof -
  let ?m = "L p"
  define xs ys where "xs = take c (children ?m)" and "ys = drop (Suc c) (children ?m)"
  have ch: "children ?m = xs @ (in_key ?m c, q) # ys" using split_children [OF c] q by (simp add: xs_def ys_def)
  have tk: "take (c + 1) (children ?m) = xs @ [(in_key ?m c, q)]" using c q by (simp add: xs_def take_Suc_conv_app_nth nth_children)
  have ch': "children m' = xs @ (in_key ?m c, q) # (K, z) # ys" using m'(5) tk by (simp add: ys_def)
  have pgs: "tree_pages (Suc 0) L p = p # map snd xs @ q # map snd ys" unfolding tree_pages_children ch by (simp add: concat_map_singleton)
  have nd: "tree_node ?m par p lo hi" using ok by simp
  note na = node_after [OF nd c K m']
  have sib: "L' x = L x" if "x \<in> snd ` (set xs \<union> set ys)" for x
  proof (rule L'(4))
    have "x \<in> set (map snd xs @ map snd ys)" using that by auto
    then show "x \<noteq> p" "x \<noteq> q" "x \<noteq> z" using pages z(3) unfolding pgs by auto
  qed
  have other: "L' (in_val ?m i) = L (in_val ?m i)" if i: "i < bt_GetSize ?m" "i \<noteq> c" for i
  proof -
    have "children ?m ! i \<in> set xs \<union> set ys" using i by (auto simp: xs_def ys_def nth_other)
    then have "in_val ?m i \<in> snd ` (set xs \<union> set ys)" using i by (metis image_eqI nth_children snd_conv)
    then show ?thesis by (rule sib)
  qed
  have "tree_ok 0 L' p (in_val m' i) (low m' lo i) (high m' hi i)" if i: "i < bt_GetSize m'" for i
  proof -
    have old: "tree_ok 0 L p (in_val ?m j) (low ?m lo j) (high ?m hi j)" if "j < bt_GetSize ?m" for j using ok that by simp
    have zq: "0 < q" "q < 2 ^ 20" using old [OF c] q by simp_all
    consider "i < c" | "i = c" | "i = c + 1" | "i > c + 1" by linarith
    then show ?thesis
    proof cases
      case 1
      then show ?thesis using old [of i] other [of i] c na(2-4) [OF i] by simp
    next
      case 2
      then show ?thesis using na(2-4) [OF i] leaves(1) L'(2) zq q by simp
    next
      case 3
      then show ?thesis using na(2-4) [OF i] leaves(2) L'(3) z(1,2) by simp
    next
      case 4
      then have "i - 1 < bt_GetSize ?m" "i - 1 \<noteq> c" using i m'(2) by auto
      then show ?thesis using 4 old [of "i - 1"] other [of "i - 1"] na(2-4) [OF i] by simp
    qed
  qed
  then have "tree_ok (Suc 0) L' par p lo hi" using na(1) L'(1) ok by simp
  moreover have "L' (snd y) = L (snd y)" if "y \<in> set xs \<union> set ys" for y using that by (intro sib) simp
  then have "tree_entries (Suc 0) L' p = concat (map (\<lambda>c. leaf_entries (L (snd c))) xs) @ (leaf_entries l @ leaf_entries r) @ concat (map (\<lambda>c. leaf_entries (L (snd c))) ys)"
    unfolding tree_entries_children L'(1) ch' using L'(2,3) by (simp cong: map_cong)
  moreover have "tree_entries (Suc 0) L p = concat (map (\<lambda>c. leaf_entries (L (snd c))) xs) @ leaf_entries (L q) @ concat (map (\<lambda>c. leaf_entries (L (snd c))) ys)"
    unfolding tree_entries_children ch by simp
  moreover have "tree_pages (Suc 0) L' p = p # map snd xs @ q # z # map snd ys"
    unfolding tree_pages_children L'(1) ch' by (simp add: concat_map_singleton)
  moreover have "filled (Suc 0) L p \<longrightarrow> filled (Suc 0) L' p"
    using sib L'(2,3) leaves(4,5) unfolding filled_children L'(1) ch ch' by auto
  ultimately show ?thesis using pages z(3) inserts_context [OF leaves(3)] unfolding tree_grown_def pgs by auto
qed

text \<open>The new root above the two halves of a leaf.\<close>

lemma grow_root:
  assumes leaves: "tree_leaf l R q lo K" "tree_leaf r R z K hi" "inserts k v es (leaf_entries l @ leaf_entries r)"
      "bt_GetSize l = LEAF_MAX_NODE_SIZE div 2" "bt_GetSize r = LEAF_MAX_NODE_SIZE div 2" and K: "lo < K" "K < hi" "fits 4 K"
    and ids: "0 < q" "q < 2 ^ 20" "0 < z" "z < 2 ^ 20" "0 < R" "R < 2 ^ 20" "distinct [R, q, z]"
    and m: "in_page m" "bt_GetSize m = 2" "bt_GetParentPageId m = par" "bt_GetPageId m = R" "map snd (children m) = [q, z]" "in_key m 1 = K"
    and L': "L' R = m" "L' q = l" "L' z = r"
  shows "tree_ok (Suc 0) L' par R lo hi" and "inserts k v es (tree_entries (Suc 0) L' R)" and "tree_pages (Suc 0) L' R = [R, q, z]"
    and "filled (Suc 0) L' R"
proof -
  have "map snd (children m) ! 0 = in_val m 0" "map snd (children m) ! 1 = in_val m 1" using m(2) by (simp_all add: nth_children)
  then have v: "in_val m 0 = q" "in_val m 1 = z" using m(5) by simp_all
  have two: "[0..<2] = [0, 1 :: nat]" by (simp add: upt_rec)
  have lt: "i < 2 \<longleftrightarrow> i = 0 \<or> i = 1" for i :: nat by auto
  have "in_ok m" using m(1,2) by (auto simp: in_ok_def)
  then show "tree_ok (Suc 0) L' par R lo hi"
    using m v K ids L' leaves(1,2) by (auto simp: tree_node_def low_def high_def lt)
  show "inserts k v es (tree_entries (Suc 0) L' R)" "tree_pages (Suc 0) L' R = [R, q, z]"
    using m(2) v L' leaves(3) by (simp_all add: two)
  show "filled (Suc 0) L' R" using m(2) v L' leaves(4,5) by (auto simp: lt)
qed

section \<open>The pages of an insertion\<close>

lemma length_tree_path: "length (tree_path d L p k) = Suc d"
  by (induction d arbitrary: p) simp_all

lemma last_tree_path: "last (tree_path d L p k) = tree_path d L p k ! d"
  by (simp add: last_conv_nth length_tree_path)

lemma tree_path_step: "last (tree_path (Suc n) L p k) = in_val (L (tree_path (Suc n) L p k ! n)) (child_of (L (tree_path (Suc n) L p k ! n)) k)"
  by (induction n arbitrary: p) (simp_all add: last_tree_path)

lemma tree_new:
  assumes "tree_ok d L par p lo hi" and "fits 4 k" and "lo \<le> k" and "k < hi" and "k \<notin> fst ` set (tree_entries d L p)"
  shows "k \<notin> fst ` set (leaf_entries (L (last (tree_path d L p k))))"
  using tree_find(2) [OF assms(1-4)] assms(5) by (simp add: map_of_eq_None_iff [symmetric])

lemma leaf_step:
  assumes ok: "tree_ok d L par p lo hi" "distinct (tree_pages d L p)" and k: "fits 4 k" "lo \<le> k" "k < hi" "k \<noteq> 0" and rid: "rid_fits rid"
    and new: "k \<notin> fst ` set (tree_entries d L p)"
  defines "q \<equiv> last (tree_path d L p k)"
  obtains b par' lo' hi' where "lf_Insert (int_key k) rid Compare_int32 (L q) = Inr b" "leaf_in b par' q lo' hi'" "bt_GetSize b = bt_GetSize (L q) + 1"
    "bt_GetSize b < LEAF_MAX_NODE_SIZE \<longrightarrow> tree_grown d L (L(q := b)) par p lo hi k rid {}"
proof -
  have r: "tree_path d L p k ! d = q" by (simp add: q_def last_tree_path)
  obtain par' lo' hi' where g: "tree_ok 0 L par' q lo' hi'" "lo' \<le> k" "k < hi'" "distinct (tree_pages 0 L q)" "set (tree_pages 0 L q) \<subseteq> set (tree_pages d L p)"
      "\<forall>L' Z v. Z \<inter> set (tree_pages d L p) = {} \<longrightarrow> (\<forall>x. x \<notin> set (tree_pages 0 L q) \<longrightarrow> x \<notin> Z \<longrightarrow> L' x = L x) \<longrightarrow>
        tree_grown 0 L L' par' q lo' hi' k v Z \<longrightarrow> tree_grown d L L' par p lo hi k v Z"
    by (rule graft [where n = d and d = 0 and k = k and L = L and p = p, unfolded add_0_right r, OF ok k(1-3)])
  have tl: "tree_leaf (L q) par' q lo' hi'" using g(1) by simp
  obtain b where b: "lf_Insert (int_key k) rid Compare_int32 (L q) = Inr b" "leaf_in b par' q lo' hi'" "bt_GetSize b = bt_GetSize (L q) + 1"
      "inserts k rid (leaf_entries (L q)) (leaf_entries b)"
    by (rule leaf_in_insert [OF tl k(1) g(2,3) k(4) rid tree_new [OF ok(1) k(1-3) new, folded q_def]])
  have "tree_grown d L (L(q := b)) par p lo hi k rid {}" if "bt_GetSize b < LEAF_MAX_NODE_SIZE"
    by (rule g(6) [rule_format]) (use that g(1) b(2-4) in \<open>simp_all add: tree_grown_def tree_leaf_def\<close>)
  then show ?thesis using that b(1-3) by blast
qed

lemma page_fits: "0 < p \<Longrightarrow> p < 2 ^ 20 \<Longrightarrow> fits 4 p"
  by (simp add: fits_def)

text \<open>The two halves after their next pages are set.\<close>

lemma halves:
  assumes b: "leaf_in b par p lo hi" "bt_GetSize b = LEAF_MAX_NODE_SIZE" and z: "fits 4 z" "fits 4 par"
  obtains n l r K where "lf_Init z par (bt_SetPageType_of b zero_page) = Inr n" "length n = PAGE_SIZE" "lf_MoveHalfTo b n = Inr (l, r)"
    "leaf_in l par p lo K" "leaf_in r par z K hi" "lf_KeyAt r 0 = Inr (int_key K)" "fits 4 K" "lo < K" "K < hi"
    "tree_leaf (lf_SetNextPageId z l) par p lo K" "tree_leaf (lf_SetNextPageId (lf_GetNextPageId l) r) par z K hi"
    "leaf_entries (lf_SetNextPageId z l) @ leaf_entries (lf_SetNextPageId (lf_GetNextPageId l) r) = leaf_entries b"
    "bt_GetSize (lf_SetNextPageId z l) = LEAF_MAX_NODE_SIZE div 2" "bt_GetSize (lf_SetNextPageId (lf_GetNextPageId l) r) = LEAF_MAX_NODE_SIZE div 2"
proof -
  obtain n l r K where h: "lf_Init z par (bt_SetPageType_of b zero_page) = Inr n" "length n = PAGE_SIZE" "lf_MoveHalfTo b n = Inr (l, r)"
      "leaf_in l par p lo K" "leaf_in r par z K hi" "bt_GetSize l = 101" "bt_GetSize r = 101" "leaf_entries l @ leaf_entries r = leaf_entries b"
      "lf_KeyAt r 0 = Inr (int_key K)" "fits 4 K" "lo < K" "K < hi"
    by (rule split_leaf_pages [OF b z])
  show ?thesis
    by (rule that [OF h(1-5) h(9-12)]) (use h(6-8) leaf_in_next [OF h(4)] leaf_in_next [OF h(5)] in \<open>simp_all add: tree_leaf_def\<close>)
qed

lemma split_step:
  assumes ok: "tree_ok (Suc n) L par p lo hi" "distinct (tree_pages (Suc n) L p)" and k: "fits 4 k" "lo \<le> k" "k < hi" "k \<noteq> 0" and rid: "rid_fits rid"
    and new: "k \<notin> fst ` set (tree_entries (Suc n) L p)" and z: "0 < z" "z < 2 ^ 20" "z \<notin> set (tree_pages (Suc n) L p)"
  defines "q \<equiv> last (tree_path (Suc n) L p k)" and "u \<equiv> tree_path (Suc n) L p k ! n"
  assumes full: "bt_GetSize (L q) + 1 = LEAF_MAX_NODE_SIZE" and room: "bt_GetSize (L u) < INTERNAL_MAX_NODE_SIZE"
  obtains b lo' hi' c l r K m x where "lf_Insert (int_key k) rid Compare_int32 (L q) = Inr b" "leaf_in b u q lo' hi'" "bt_GetSize b = LEAF_MAX_NODE_SIZE"
    "lf_Init z u (bt_SetPageType_of b zero_page) = Inr c" "length c = PAGE_SIZE" "lf_MoveHalfTo b c = Inr (l, r)"
    "leaf_in l u q lo' K" "leaf_in r u z K hi'" "lf_KeyAt r 0 = Inr (int_key K)"
    "in_page (L u)" "in_InsertNodeAfter q (int_key K) z (L u) = Inr (m, x)" "length m = PAGE_SIZE" "0 < u" "u \<noteq> q" "u \<in> set (tree_pages (Suc n) L p)"
    "bt_GetSize m = bt_GetSize (L u) + 1" "tree_grown (Suc n) L (L(u := m, q := lf_SetNextPageId z l, z := lf_SetNextPageId (lf_GetNextPageId l) r)) par p lo hi k rid {z}"
proof -
  obtain par' lo' hi' where g: "tree_ok (Suc 0) L par' u lo' hi'" "lo' \<le> k" "k < hi'" "distinct (tree_pages (Suc 0) L u)"
      "set (tree_pages (Suc 0) L u) \<subseteq> set (tree_pages (Suc n) L p)"
      "\<forall>L' Z v. Z \<inter> set (tree_pages (Suc n) L p) = {} \<longrightarrow> (\<forall>x. x \<notin> set (tree_pages (Suc 0) L u) \<longrightarrow> x \<notin> Z \<longrightarrow> L' x = L x) \<longrightarrow>
        tree_grown (Suc 0) L L' par' u lo' hi' k v Z \<longrightarrow> tree_grown (Suc n) L L' par p lo hi k v Z"
    by (rule graft [where n = n and d = "Suc 0" and k = k and L = L and p = p, unfolded add_Suc_right add_0_right, folded u_def, OF ok k(1-3)])
  let ?m = "L u" and ?c = "child_of (L u) k"
  have q: "q = in_val ?m ?c" unfolding q_def u_def by (rule tree_path_step)
  have nd: "tree_node ?m par' u lo' hi'" "0 < u" "u < 2 ^ 20" using g(1) by simp_all
  have ip: "in_page ?m" using nd(1) by (simp add: tree_node_def in_ok_def)
  have c: "?c < bt_GetSize ?m" using in_Lookup_child(2) nd(1) k(1) by (auto simp: tree_node_def)
  have tl: "tree_leaf (L q) u q (low ?m lo' ?c) (high ?m hi' ?c)" using g(1) c q by simp
  obtain b where b: "lf_Insert (int_key k) rid Compare_int32 (L q) = Inr b" "leaf_in b u q (low ?m lo' ?c) (high ?m hi' ?c)" "bt_GetSize b = LEAF_MAX_NODE_SIZE"
      "inserts k rid (leaf_entries (L q)) (leaf_entries b)"
    using leaf_in_insert [OF tl k(1) child_bounds [OF nd(1) k(1) g(2,3)] k(4) rid tree_new [OF ok(1) k(1-3) new, folded q_def]] full by metis
  obtain cc l r K where h: "lf_Init z u (bt_SetPageType_of b zero_page) = Inr cc" "length cc = PAGE_SIZE" "lf_MoveHalfTo b cc = Inr (l, r)"
      "leaf_in l u q (low ?m lo' ?c) K" "leaf_in r u z K (high ?m hi' ?c)" "lf_KeyAt r 0 = Inr (int_key K)" "fits 4 K" "low ?m lo' ?c < K" "K < high ?m hi' ?c"
      "tree_leaf (lf_SetNextPageId z l) u q (low ?m lo' ?c) K" "tree_leaf (lf_SetNextPageId (lf_GetNextPageId l) r) u z K (high ?m hi' ?c)"
      "leaf_entries (lf_SetNextPageId z l) @ leaf_entries (lf_SetNextPageId (lf_GetNextPageId l) r) = leaf_entries b"
      "bt_GetSize (lf_SetNextPageId z l) = LEAF_MAX_NODE_SIZE div 2" "bt_GetSize (lf_SetNextPageId (lf_GetNextPageId l) r) = LEAF_MAX_NODE_SIZE div 2"
    by (rule halves [OF b(2,3) page_fits [OF z(1,2)] page_fits [OF nd(2,3)]])
  have pgs: "tree_pages (Suc 0) L u = u # map (in_val ?m) [0..<bt_GetSize ?m]" by (simp add: concat_map_singleton)
  have uq: "in_val ?m i \<noteq> q" if "i < ?c" for i
  proof -
    have "inj_on (in_val ?m) {0..<bt_GetSize ?m}" using g(4) unfolding pgs by (simp add: distinct_map)
    then show ?thesis using inj_onD [of "in_val ?m" "{0..<bt_GetSize ?m}" i ?c] that c unfolding q by auto
  qed
  have uq': "u \<noteq> q" using g(4) c unfolding pgs q by auto
  obtain m x where m: "in_InsertNodeAfter q (int_key K) z ?m = Inr (m, x)" "in_page m" "bt_GetSize m = bt_GetSize ?m + 1"
      "bt_GetParentPageId m = bt_GetParentPageId ?m" "bt_GetPageId m = bt_GetPageId ?m" "children m = take (?c + 1) (children ?m) @ (K, z) # drop (?c + 1) (children ?m)"
    by (rule insert_after [OF ip room c q [symmetric] uq h(7) page_fits [OF z(1,2)]])
  have zn: "z \<notin> set (tree_pages (Suc 0) L u)" using z(3) g(5) by blast
  then have zuq: "z \<noteq> u" "z \<noteq> q" using c unfolding pgs q by auto
  have "tree_grown (Suc 0) L (L(u := m, q := lf_SetNextPageId z l, z := lf_SetNextPageId (lf_GetNextPageId l) r)) par' u lo' hi' k rid {z}"
    by (rule grow_node [OF g(1,4) c q [symmetric] h(10,11) _ h(13,14) h(8,9,7) z(1,2) zn m(2,3) _ _ m(6)])
       (use b(4) h(12) m(4,5) nd(1) zuq uq' in \<open>auto simp: tree_node_def\<close>)
  then have "tree_grown (Suc n) L (L(u := m, q := lf_SetNextPageId z l, z := lf_SetNextPageId (lf_GetNextPageId l) r)) par p lo hi k rid {z}"
    by (rule g(6) [rule_format, rotated 2]) (use z(3) c q in \<open>auto simp: pgs\<close>)
  moreover have "length m = PAGE_SIZE" "u \<in> set (tree_pages (Suc n) L p)" using m(2) g(5) unfolding pgs by (auto simp: in_page_def)
  ultimately show ?thesis using that [OF b(1-3) h(1-6) ip m(1) _ nd(2) uq' _ m(3)] by blast
qed

lemma root_step:
  assumes ok: "tree_ok 0 L INVALID_PAGE_ID p lo hi" and k: "fits 4 k" "lo \<le> k" "k < hi" "k \<noteq> 0" and rid: "rid_fits rid"
    and new: "k \<notin> fst ` set (leaf_entries (L p))" and z: "0 < z" "z < 2 ^ 20" and R: "0 < R" "R < 2 ^ 20" and ne: "distinct [R, p, z]"
    and full: "bt_GetSize (L p) + 1 = LEAF_MAX_NODE_SIZE"
  obtains b c l r K m0 m where "lf_Insert (int_key k) rid Compare_int32 (L p) = Inr b" "leaf_in b INVALID_PAGE_ID p lo hi" "bt_GetSize b = LEAF_MAX_NODE_SIZE"
    "lf_Init z INVALID_PAGE_ID (bt_SetPageType_of b zero_page) = Inr c" "length c = PAGE_SIZE" "lf_MoveHalfTo b c = Inr (l, r)"
    "leaf_in l INVALID_PAGE_ID p lo K" "leaf_in r INVALID_PAGE_ID z K hi" "lf_KeyAt r 0 = Inr (int_key K)"
    "in_Init R INVALID_PAGE_ID zero_page = Inr m0" "length m0 = PAGE_SIZE" "in_PopulateNewRoot p (int_key K) z m0 = Inr m" "length m = PAGE_SIZE" "bt_GetSize m = 2"
    "\<forall>L'. L' R = m \<longrightarrow> L' p = bt_SetParentPageId R (lf_SetNextPageId z l) \<longrightarrow> L' z = bt_SetParentPageId R (lf_SetNextPageId (lf_GetNextPageId l) r) \<longrightarrow>
      tree_ok (Suc 0) L' INVALID_PAGE_ID R lo hi \<and> inserts k rid (leaf_entries (L p)) (tree_entries (Suc 0) L' R) \<and> tree_pages (Suc 0) L' R = [R, p, z] \<and> filled (Suc 0) L' R"
proof -
  have tl: "tree_leaf (L p) INVALID_PAGE_ID p lo hi" "0 < p" "p < 2 ^ 20" using ok by simp_all
  obtain b where b: "lf_Insert (int_key k) rid Compare_int32 (L p) = Inr b" "leaf_in b INVALID_PAGE_ID p lo hi" "bt_GetSize b = LEAF_MAX_NODE_SIZE"
      "inserts k rid (leaf_entries (L p)) (leaf_entries b)"
    using leaf_in_insert [OF tl(1) k rid new] full by metis
  have f: "fits 4 z" "fits 4 INVALID_PAGE_ID" "fits 4 R" "fits 4 p" using z R tl(2,3) by (simp_all add: fits_def)
  obtain c l r K where h: "lf_Init z INVALID_PAGE_ID (bt_SetPageType_of b zero_page) = Inr c" "length c = PAGE_SIZE" "lf_MoveHalfTo b c = Inr (l, r)"
      "leaf_in l INVALID_PAGE_ID p lo K" "leaf_in r INVALID_PAGE_ID z K hi" "lf_KeyAt r 0 = Inr (int_key K)" "fits 4 K" "lo < K" "K < hi"
      "tree_leaf (lf_SetNextPageId z l) INVALID_PAGE_ID p lo K" "tree_leaf (lf_SetNextPageId (lf_GetNextPageId l) r) INVALID_PAGE_ID z K hi"
      "leaf_entries (lf_SetNextPageId z l) @ leaf_entries (lf_SetNextPageId (lf_GetNextPageId l) r) = leaf_entries b"
      "bt_GetSize (lf_SetNextPageId z l) = LEAF_MAX_NODE_SIZE div 2" "bt_GetSize (lf_SetNextPageId (lf_GetNextPageId l) r) = LEAF_MAX_NODE_SIZE div 2"
    by (rule halves [OF b(2,3) f(1,2)])
  have zp: "length zero_page = PAGE_SIZE" by (simp add: zero_page_def)
  obtain m0 where m0: "in_Init R INVALID_PAGE_ID zero_page = Inr m0" "length m0 = PAGE_SIZE" "bt_max_size m0 = INTERNAL_MAX_NODE_SIZE" "\<not> bt_IsLeafPage m0"
      "bt_GetParentPageId m0 = INVALID_PAGE_ID" "bt_GetPageId m0 = R" "bt_GetSize m0 = 0"
    by (rule in_init [OF zp f(3,2)])
  obtain m where m: "in_PopulateNewRoot p (int_key K) z m0 = Inr m" "in_page m" "bt_GetSize m = 2" "bt_GetParentPageId m = INVALID_PAGE_ID" "bt_GetPageId m = R"
      "map snd (children m) = [p, z]" "in_key m 1 = K"
    using populate_root [OF m0(2-4) f(4) h(7) f(1)] m0(5,6) by metis
  have t1: "leaf_in (lf_SetNextPageId z l) INVALID_PAGE_ID p lo K" "leaf_in (lf_SetNextPageId (lf_GetNextPageId l) r) INVALID_PAGE_ID z K hi"
    using h(10,11) by (simp_all add: tree_leaf_def)
  note p1 = leaf_in_parent [OF t1(1) f(3)] and p2 = leaf_in_parent [OF t1(2) f(3)]
  have t2: "tree_leaf (bt_SetParentPageId R (lf_SetNextPageId z l)) R p lo K" "tree_leaf (bt_SetParentPageId R (lf_SetNextPageId (lf_GetNextPageId l) r)) R z K hi"
    using p1 p2 h(10,11) by (simp_all add: tree_leaf_def)
  have ins: "inserts k rid (leaf_entries (L p)) (leaf_entries (bt_SetParentPageId R (lf_SetNextPageId z l)) @ leaf_entries (bt_SetParentPageId R (lf_SetNextPageId (lf_GetNextPageId l) r)))"
    using b(4) h(12) p1(2) p2(2) by simp
  note g = grow_root [OF t2 ins p1(3) [unfolded h(13)] p2(3) [unfolded h(14)] h(8,9,7) tl(2,3) z R ne m(2-7)]
  have "length m = PAGE_SIZE" using m(2) by (simp add: in_page_def)
  then show ?thesis using that [OF b(1-3) h(1-6) m0(1,2) m(1) _ m(3)] g by blast
qed

end
