(* ===== verification/IndexInserts.thy ===== *)
theory IndexInserts
  imports TreeInserts
begin

text \<open>
  Insertion into a tree of any depth, as the code runs it over the pool: the walk down with its
  write latches, the leaf with room, and the leaf that is split below a page with room or at the root.
\<close>

section \<open>Latched pages\<close>

definition idle :: "(PageId \<Rightarrow> nat option) \<Rightarrow> (nat \<Rightarrow> Page) \<Rightarrow> nat \<Rightarrow> bool" where
  "idle T W f \<longleftrightarrow> f \<in> ran T \<and> pin_count (W f) \<noteq> - 1 \<and> rwlatch (W f) = Unlatched"

definition holding :: "nat list \<Rightarrow> (nat \<Rightarrow> Page) \<Rightarrow> nat \<Rightarrow> Page" where
  "holding fs W = (\<lambda>g. if g \<in> set fs then hold WriteLatched (W g) else W g)"

lemma rests_idle: "rests T W pid \<Longrightarrow> T pid = Some f \<Longrightarrow> idle T W f"
  by (auto simp: rests_def idle_def intro: ranI)

lemma wp_release:
  assumes "sees s T V D F" and "tidy T W D" and "distinct fs" and "\<forall>f \<in> set fs. idle T W f \<and> V f = hold WriteLatched (W f)"
    and "page_set t = fs" and "\<And>s'. sees s' T (\<lambda>g. if g \<in> set fs then W g else V g) D F \<Longrightarrow> Q () ((s', m), t\<lparr>page_set := []\<rparr>)"
  shows "wp (release_pages fs) Q ((s, m), t)"
  using assms
proof (induction fs arbitrary: s t V)
  case Nil
  then show ?case by (cases t) (auto simp: wp_simps)
next
  case (Cons f fs)
  have f: "f \<in> ran T" "pin_count (W f) \<noteq> - 1" "rwlatch (W f) = Unlatched" "V f = hold WriteLatched (W f)" "f \<notin> set fs"
    using Cons.prems(3,4) by (simp_all add: idle_def)
  have IH: "wp (release_pages fs) Q ((s', m), t\<lparr>page_set := fs\<rparr>)" if "sees s' T (V(f := W f)) D F" for s'
  proof (rule Cons.IH [OF that Cons.prems(2)])
    show "Q () ((s'', m), t\<lparr>page_set := fs\<rparr>\<lparr>page_set := []\<rparr>)" if "sees s'' T (\<lambda>g. if g \<in> set fs then W g else (V(f := W f)) g) D F" for s''
    proof -
      have "sees s'' T (\<lambda>g. if g \<in> set (f # fs) then W g else V g) D F" by (rule sees_eq [OF that]) auto
      then show ?thesis using Cons.prems(6) by simp
    qed
  qed (use Cons.prems(3,4) f(5) in auto)
  show ?case
    apply (simp add: wp_simps)
    apply (rule wp_latches(3), rule Cons.prems; simp add: f pin_up hold_latch wp_simps)
    apply (rule wp_give [where W = W, OF _ _ Cons.prems(2)], assumption; simp add: f wp_simps)
    apply (rule IH)
    apply (erule sees_eq, simp)
    done
qed

section \<open>The walk down\<close>

lemma safe_leaf: "tree_leaf m par p lo hi \<Longrightarrow> IsSafeNode m INSERT = Inr True"
  by (simp add: IsSafeNode_def rassert_def bt_GetMaxSize_def tree_leaf_def leaf_in_def leaf_ok_def leaf_page_def)

lemma safe_node: "tree_node m par p lo hi \<Longrightarrow> IsSafeNode m INSERT = Inr (bt_GetSize m < INTERNAL_MAX_NODE_SIZE)"
  by (simp add: IsSafeNode_def rassert_def bt_GetMaxSize_def tree_node_def in_ok_def in_page_def)

lemma search_down_write:
  assumes "sees s T (holding (ps @ [f]) W) D F" and "tree_ok d (table_contents (tm_table_oid m) T W D) par p lo hi"
    and "fits 4 k" and "lo \<le> k" and "k < hi" and "T (mk_page_id (tm_table_oid m) p) = Some f" and "tidy T W D"
    and "\<forall>q \<in> set (tree_path d (table_contents (tm_table_oid m) T W D) p k). rests T W (mk_page_id (tm_table_oid m) q) \<and>
      T (mk_page_id (tm_table_oid m) q) \<notin> Some ` set ps"
    and "distinct (tree_path d (table_contents (tm_table_oid m) T W D) p k)"
    and "page_set t = ps" and "distinct ps" and "\<forall>g \<in> set ps. idle T W g"
    and "\<And>g s'. T (mk_page_id (tm_table_oid m) (last (tree_path d (table_contents (tm_table_oid m) T W D) p k))) = Some g \<Longrightarrow>
      sees s' T (holding ((if d = 0 then ps else []) @ [g]) W) D F \<Longrightarrow> Q (g, b \<or> 0 < d) ((s', m), t\<lparr>page_set := if d = 0 then ps else []\<rparr>)"
  shows "wp (search_down (Suc (d + e)) Compare_int32 (int_key k) INSERT f b) Q ((s, m), t)"
  using assms
proof (induction d arbitrary: s t f ps par p lo hi b)
  case 0
  have "f \<in> ran T" using 0 by (auto intro: ranI)
  moreover have "bt_IsLeafPage (page_data (W f))" using 0(2,6) by (simp add: contents_def tree_leaf_def leaf_in_def leaf_ok_def leaf_page_def)
  moreover have "t\<lparr>page_set := ps\<rparr> = t" using 0(10) by (cases t) simp
  ultimately show ?case using 0(1) 0(13) [of f s] 0(6) by (simp add: wp_simps wp_node_at holding_def)
next
  case (Suc d)
  let ?L = "table_contents (tm_table_oid m) T W D" and ?c = "in_val (page_data (W f)) (child_of (page_data (W f)) k)"
  have r: "f \<in> ran T" using Suc.prems(6) by (auto intro: ranI)
  have Lp: "?L p = page_data (W f)" using Suc.prems(6) by (simp add: contents_def)
  have nd: "tree_node (page_data (W f)) par p lo hi" using Suc.prems(2) Lp by simp
  have ino: "in_ok (page_data (W f))" "\<not> bt_IsLeafPage (page_data (W f))" using nd by (auto simp: tree_node_def in_ok_def in_page_def)
  note c = in_Lookup_child [OF ino(1) Suc.prems(3)]
  have sub: "tree_ok d ?L p ?c (low (page_data (W f)) lo (child_of (page_data (W f)) k)) (high (page_data (W f)) hi (child_of (page_data (W f)) k))"
    using Suc.prems(2) c(2) Lp by simp
  have pos: "0 < ?c" using tree_ok_pos [OF sub] by simp
  have path: "tree_path (Suc d) ?L p k = p # tree_path d ?L ?c k" using Lp by simp
  have pin: "?c \<in> set (tree_path d ?L ?c k)" by (rule tree_path_hd)
  obtain g where g: "T (mk_page_id (tm_table_oid m) ?c) = Some g" "idle T W g" "g \<notin> set ps"
  proof -
    have "rests T W (mk_page_id (tm_table_oid m) ?c)" "T (mk_page_id (tm_table_oid m) ?c) \<notin> Some ` set ps"
      using Suc.prems(8) pin unfolding path by simp_all
    then show ?thesis using that rests_idle by (auto simp: rests_def)
  qed
  have gi: "g \<in> ran T" "pin_count (W g) \<noteq> - 1" "rwlatch (W g) = Unlatched" using g(2) by (simp_all add: idle_def)
  have f: "idle T W f" "f \<notin> set ps" using Suc.prems(6,8) rests_idle unfolding path by auto
  have "?c \<noteq> p" using Suc.prems(9) pin unfolding path by auto
  then have gf: "g \<noteq> f" using sees_inj [OF Suc.prems(1) g(1) Suc.prems(6)] by (simp add: page_ids)
  have Lc: "?L ?c = page_data (W g)" using g(1) by (simp add: contents_def)
  have pd: "page_data (holding (ps @ [f]) W x) = page_data (W x)" for x by (simp add: holding_def)
  obtain sf where sf: "IsSafeNode (page_data (W g)) INSERT = Inr sf" "d = 0 \<longrightarrow> sf"
    using sub Lc by (cases d) (auto dest: safe_leaf safe_node)
  have IH: "wp (search_down (Suc (d + e)) Compare_int32 (int_key k) INSERT g True) Q ((s', m), u)"
    if "sees s' T (holding (qs @ [g]) W) D F" "u = t\<lparr>page_set := qs\<rparr>" "qs = [] \<or> qs = ps @ [f]" "d = 0 \<longrightarrow> qs = []" for s' u qs
  proof (rule Suc.IH [OF that(1) sub Suc.prems(3) child_bounds [OF nd Suc.prems(3-5)] g(1) Suc.prems(7)])
    show "\<forall>q \<in> set (tree_path d ?L ?c k). rests T W (mk_page_id (tm_table_oid m) q) \<and> T (mk_page_id (tm_table_oid m) q) \<notin> Some ` set qs"
    proof
      fix q
      assume q: "q \<in> set (tree_path d ?L ?c k)"
      have "rests T W (mk_page_id (tm_table_oid m) q) \<and> T (mk_page_id (tm_table_oid m) q) \<notin> Some ` set ps" using Suc.prems(8) q unfolding path by simp
      moreover have "T (mk_page_id (tm_table_oid m) q) \<noteq> Some f"
        using Suc.prems(9) q sees_inj [OF Suc.prems(1) Suc.prems(6), of "mk_page_id (tm_table_oid m) q" f] unfolding path page_ids by fastforce
      ultimately show "rests T W (mk_page_id (tm_table_oid m) q) \<and> T (mk_page_id (tm_table_oid m) q) \<notin> Some ` set qs" using that(3) by auto
    qed
    show "distinct (tree_path d ?L ?c k)" using Suc.prems(9) path by auto
    show "page_set u = qs" using that(2) by simp
    show "distinct qs" "\<forall>g \<in> set qs. idle T W g" using that(3) f Suc.prems(11,12) by auto
    show "Q (h, True \<or> 0 < d) ((s'', m), u\<lparr>page_set := if d = 0 then qs else []\<rparr>)"
      if "T (mk_page_id (tm_table_oid m) (last (tree_path d ?L ?c k))) = Some h" "sees s'' T (holding ((if d = 0 then qs else []) @ [h]) W) D F" for h s''
    proof -
      have "(if d = 0 then qs else []) = []" using \<open>d = 0 \<longrightarrow> qs = []\<close> by simp
      then show ?thesis using Suc.prems(13) [of h s''] that \<open>u = _\<close> by (simp only: path) simp
    qed
  qed
  have latched: "sees s' T ((holding (ps @ [f]) W)(g := hold WriteLatched (W g))) D F \<Longrightarrow> sees s' T (holding (ps @ [f, g]) W) D F" for s'
    by (erule sees_eq) (simp add: holding_def)
  have rel: "wp (release_pages (ps @ [f])) (\<lambda>_. wp (search_down (Suc (d + e)) Compare_int32 (int_key k) INSERT g True) Q) ((s', m), t\<lparr>page_set := ps @ [f]\<rparr>)"
    if "sees s' T ((holding (ps @ [f]) W)(g := hold WriteLatched (W g))) D F" for s'
  proof (rule wp_release [OF that Suc.prems(7)])
    show "\<forall>x \<in> set (ps @ [f]). idle T W x \<and> ((holding (ps @ [f]) W)(g := hold WriteLatched (W g))) x = hold WriteLatched (W x)"
      using Suc.prems(12) f g(3) gf by (auto simp: holding_def)
    fix s''
    assume "sees s'' T (\<lambda>x. if x \<in> set (ps @ [f]) then W x else ((holding (ps @ [f]) W)(g := hold WriteLatched (W g))) x) D F"
    then have "sees s'' T (holding ([] @ [g]) W) D F" by (rule sees_eq) (use g(3) gf in \<open>auto simp: holding_def\<close>)
    then show "wp (search_down (Suc (d + e)) Compare_int32 (int_key k) INSERT g True) Q ((s'', m), t\<lparr>page_set := ps @ [f]\<rparr>\<lparr>page_set := []\<rparr>)"
      by (rule IH) simp_all
  qed (use f(2) Suc.prems(11) in auto)
  have stay: "wp (search_down (Suc (d + e)) Compare_int32 (int_key k) INSERT g True) Q ((s', m), t\<lparr>page_set := ps @ [f]\<rparr>)"
    if "sees s' T ((holding (ps @ [f]) W)(g := hold WriteLatched (W g))) D F" "\<not> sf" for s'
    by (rule IH [where qs = "ps @ [f]"]) (use latched [OF that(1)] that(2) sf(2) in auto)
  have hg: "holding (ps @ [f]) W g = W g" using g(3) gf by (simp add: holding_def)
  show ?case
    apply (subst search_down.simps(2))
    apply (simp add: wp_simps wp_node_at [OF Suc.prems(1) r] pd ino(2) c(1) pos del: search_down.simps)
    apply (rule wp_take [OF Suc.prems(1) g(1)]; simp add: hg gi wp_simps del: search_down.simps)
    apply (rule wp_latches(1), assumption; simp add: gi pin_up hold_latch wp_simps AddIntoPageSet_def Suc.prems(10) del: search_down.simps)
    apply (rule wp_nodeI, assumption; simp add: gi sf(1) wp_simps ReleaseParentWriteLatches_def del: search_down.simps)
    apply (cases sf; simp add: wp_simps del: search_down.simps; rule exI [of _ sf]; simp del: search_down.simps)
     apply (erule rel)
    apply (erule stay, simp)
    done
qed

text \<open>The leaf of a key.\<close>

abbreviation leaf_page_of :: "nat \<Rightarrow> int \<Rightarrow> int \<Rightarrow> (PageId \<Rightarrow> nat option) \<Rightarrow> (nat \<Rightarrow> Page) \<Rightarrow> Disk \<Rightarrow> int \<Rightarrow> int" where
  "leaf_page_of d oid root T W D k \<equiv> last (tree_path d (table_contents oid T W D) root k)"

lemma index_path:
  assumes see: "sees s T W D F" and ix: "index_at d ix oid root T W D" and path: "path_rests d oid root T W D k" and k: "fits 4 k"
    and hf: "T (mk_page_id oid (im_header_page_id (bi_meta ix))) = Some hf"
  obtains lf par lo hi where "T (mk_page_id oid (leaf_page_of d oid root T W D k)) = Some lf" "idle T W lf" "lf \<noteq> hf"
    "tree_leaf (page_data (W lf)) par (leaf_page_of d oid root T W D k) lo hi" "lo \<le> k" "k < hi"
    "if d = 0 then par = INVALID_PAGE_ID \<and> lo = - (2 ^ 31) \<and> hi = 2 ^ 31 else 0 < par"
    "map_of (tree_entries d (table_contents oid T W D) root) k = map_of (leaf_entries (page_data (W lf))) k"
proof -
  let ?L = "table_contents oid T W D" let ?q = "leaf_page_of d oid root T W D k"
  have ok: "tree_ok d ?L INVALID_PAGE_ID root (- (2 ^ 31)) (2 ^ 31)" "im_header_page_id (bi_meta ix) \<notin> set (tree_pages d ?L root)"
    using ix by (simp_all add: index_at_def)
  have kb: "- (2 ^ 31) \<le> k" "k < 2 ^ 31" using k by (simp_all add: fits_def)
  have qp: "?q \<in> set (tree_path d ?L root k)" by (rule last_in_set [OF tree_path_ne])
  obtain lf where lf: "T (mk_page_id oid ?q) = Some lf" "idle T W lf" "?L ?q = page_data (W lf)"
    using path [rule_format, OF qp] rests_idle by (auto simp: rests_def contents_def)
  have "?q \<noteq> im_header_page_id (bi_meta ix)" using ok(2) subsetD [OF tree_path_pages(1) [OF ok(1) k] qp] by metis
  then have "lf \<noteq> hf" using sees_inj [OF see lf(1) hf] by (simp add: page_ids)
  then show ?thesis using that [OF lf(1,2)] tree_find [OF ok(1) k kb] lf(3) by auto
qed

text \<open>The latches left above the leaf after the walk: a leaf is always safe.\<close>

definition top_latches :: "nat \<Rightarrow> nat \<Rightarrow> nat list" where
  "top_latches d hf = (if d = 0 then [hf] else [])"

lemma search_write:
  assumes see: "sees s T W D F" and latched: "sees s' T (W(hf := hold WriteLatched (W hf))) D F"
    and ix: "index_at d ix (tm_table_oid m) root T W D" and path: "path_rests d (tm_table_oid m) root T W D k"
    and k: "fits 4 k" and hf: "T (mk_page_id (tm_table_oid m) (im_header_page_id (bi_meta ix))) = Some hf" and t: "page_set t = [hf]"
    and lf: "T (mk_page_id (tm_table_oid m) (leaf_page_of d (tm_table_oid m) root T W D k)) = Some lf"
    and Q: "\<And>s'. sees s' T (holding (top_latches d hf @ [lf]) W) D F \<Longrightarrow> Q lf ((s', m), t\<lparr>page_set := top_latches d hf\<rparr>)"
  shows "wp (SearchLeafPage (Suc (d + e)) Compare_int32 (int_key k) INSERT hf) Q ((s', m), t)"
proof -
  let ?oid = "tm_table_oid m" let ?L = "table_contents ?oid T W D"
  have ok: "tree_ok d ?L INVALID_PAGE_ID root (- (2 ^ 31)) (2 ^ 31)" "im_header_page_id (bi_meta ix) \<notin> set (tree_pages d ?L root)"
      "distinct (tree_pages d ?L root)" "hd_GetRootPageId (page_data (W hf)) = root" "idle T W hf"
    using ix hf rests_idle by (auto simp: index_at_def contents_def)
  have kb: "- (2 ^ 31) \<le> k" "k < 2 ^ 31" using k by (simp_all add: fits_def)
  obtain rf where r: "T (mk_page_id ?oid root) = Some rf" "idle T W rf" using path tree_path_hd [of root d ?L k] rests_idle by (auto simp: rests_def)
  have ne: "T (mk_page_id ?oid q) \<noteq> Some hf" if "q \<in> set (tree_path d ?L root k)" for q
    using sees_inj [OF see hf, of "mk_page_id ?oid q"] that tree_path_pages(1) [OF ok(1) k] ok(2) by (auto simp: page_ids)
  have rr: "rf \<noteq> hf" using r(1) ne tree_path_hd [of root d ?L k] by auto
  have root: "0 < root" using tree_ok_pos [OF ok(1)] by simp
  obtain par lo hi where tl: "tree_leaf (page_data (W lf)) par (leaf_page_of d ?oid root T W D k) lo hi" "d = 0 \<or> 0 < par"
    using index_path [OF see ix path k hf] lf by (metis option.inject)
  have par: "0 < d \<longrightarrow> 0 < bt_GetParentPageId (page_data (W lf))" using tl by (auto simp: tree_leaf_def leaf_in_def)
  have rl: "lf \<in> ran T" using lf by (auto intro: ranI)
  have hl: "page_data (holding ps W lf) = page_data (W lf)" for ps by (simp add: holding_def)
  have down: "wp (search_down (Suc (d + e)) Compare_int32 (int_key k) INSERT rf False) P ((s', m), t)"
    if "sees s' T (holding ([hf] @ [rf]) W) D F"
      and "\<And>s'. sees s' T (holding (top_latches d hf @ [lf]) W) D F \<Longrightarrow> P (lf, 0 < d) ((s', m), t\<lparr>page_set := top_latches d hf\<rparr>)" for s' P
    by (rule search_down_write [OF that(1) ok(1) k kb r(1) sees_tidy [OF see] _ _ t])
       (use path ne ok(3,5) lf tree_path_pages(2) [OF ok(1) k] that(2) [unfolded top_latches_def] in auto)
  show ?thesis
    unfolding SearchLeafPage_def Let_def
    apply (simp add: wp_simps del: search_down.simps)
    apply (rule wp_nodeI [OF latched]; use ok(5) in \<open>simp add: idle_def ok(4) root wp_simps del: search_down.simps\<close>)
    apply (rule wp_take [OF latched r(1)]; use r(2) rr in \<open>simp add: idle_def wp_simps del: search_down.simps\<close>)
    apply (rule wp_latches(1), assumption; use r(2) in \<open>simp add: idle_def pin_up hold_latch wp_simps del: search_down.simps\<close>)
    apply (rule down)
     apply (erule sees_eq, use rr in \<open>auto simp: holding_def\<close>)[1]
    apply (simp only: prod.case wp_simps)
    apply (rule wp_nodeI, assumption, rule rl)
    apply (simp only: hl simp_thms)
    apply (rule conjI [OF par], rule Q, assumption)
    done
qed

section \<open>New pages for the table\<close>

text \<open>The next \<open>n\<close> pages of the table are blank and there are frames for them.\<close>

definition room_for :: "nat \<Rightarrow> TableMeta \<Rightarrow> (PageId \<Rightarrow> nat option) \<Rightarrow> Disk \<Rightarrow> nat list \<Rightarrow> bool" where
  "room_for n m T D F \<longleftrightarrow> tm_table_oid m \<noteq> INVALID_TABLE_OID \<and> - 1 \<le> last_table_data_page_id m \<and> last_table_data_page_id m + int n < 2 ^ 20 \<and>
     n \<le> length F \<and> (\<forall>i. 1 \<le> i \<and> i \<le> n \<longrightarrow> T (mk_page_id (tm_table_oid m) (last_table_data_page_id m + int i)) = None \<and>
       disk_page D (mk_page_id (tm_table_oid m) (last_table_data_page_id m + int i)) = zero_page)"

definition next_page :: "TableMeta \<Rightarrow> int" where
  "next_page m = last_table_data_page_id m + 1"

abbreviation one_more :: "TableMeta \<Rightarrow> TableMeta" where
  "one_more m \<equiv> m\<lparr>last_table_data_page_id := next_page m\<rparr>"

lemma next_page_facts:
  assumes "room_for (Suc n) m T D F"
  obtains f F' where "F = f # F'" "Index_AllocatePage m = (Inr (mk_page_id (tm_table_oid m) (next_page m)), one_more m)"
    "valid_pid (mk_page_id (tm_table_oid m) (next_page m))" "T (mk_page_id (tm_table_oid m) (next_page m)) = None"
    "disk_page D (mk_page_id (tm_table_oid m) (next_page m)) = zero_page" "0 \<le> next_page m" "next_page m < 2 ^ 20"
    "room_for n (one_more m) (T(mk_page_id (tm_table_oid m) (next_page m) \<mapsto> f)) D F'"
proof -
  have r: "tm_table_oid m \<noteq> INVALID_TABLE_OID" "- 1 \<le> last_table_data_page_id m" "last_table_data_page_id m + int (Suc n) < 2 ^ 20" "F \<noteq> []" "Suc n \<le> length F"
    using assms by (auto simp: room_for_def)
  have t: "T (mk_page_id (tm_table_oid m) (last_table_data_page_id m + int i)) = None"
      "disk_page D (mk_page_id (tm_table_oid m) (last_table_data_page_id m + int i)) = zero_page" if "1 \<le> i" "i \<le> Suc n" for i
    using assms that by (simp_all add: room_for_def)
  obtain f F' where F: "F = f # F'" using r(4) by (cases F) auto
  have "T (mk_page_id (tm_table_oid m) (next_page m + int i)) = None \<and> disk_page D (mk_page_id (tm_table_oid m) (next_page m + int i)) = zero_page \<and>
      next_page m + int i \<noteq> next_page m" if "1 \<le> i" "i \<le> n" for i
    using t [of "Suc i"] that by (simp add: next_page_def add.assoc)
  then have "room_for n (one_more m) (T(mk_page_id (tm_table_oid m) (next_page m) \<mapsto> f)) D F'"
    using r F by (auto simp: room_for_def next_page_def page_ids)
  moreover have "Index_AllocatePage m = (Inr (mk_page_id (tm_table_oid m) (next_page m)), one_more m)"
    using r(1,3) by (auto simp: Index_AllocatePage_def IncrementTableDataPageId_def act_simps next_page_def bind_def gets_def ret_def Let_def)
  ultimately show ?thesis using that [OF F] t [of 1] r by (simp add: next_page_def valid_pid_def mk_page_id_def)
qed

lemma room_for_less: "room_for (Suc n) m T D F \<Longrightarrow> room_for n m T D F"
  by (simp add: room_for_def)

lemma contents_new:
  assumes "f \<notin> ran T"
  shows "contents (T(pid \<mapsto> f)) (W(f := p)) D = (contents T W D)(pid := page_data p)"
  using assms by (fastforce simp: fun_eq_iff contents_def ran_def split: option.splits)

lemma rests_new: "rests T W pid \<Longrightarrow> f \<notin> ran T \<Longrightarrow> T pid' = None \<Longrightarrow> rests (T(pid' \<mapsto> f)) (W(f := p)) pid"
  by (auto simp: rests_def ran_def)

section \<open>The two halves of a leaf\<close>

lemma wp_Split_leaf:
  assumes see: "sees s T V D (f # F)" and alloc: "Index_AllocatePage m = (Inr (mk_page_id oid z), m')"
    and pid: "valid_pid (mk_page_id oid z)" "T (mk_page_id oid z) = None" "disk_page D (mk_page_id oid z) = zero_page" "0 < z"
    and lf: "lf \<in> ran T" "pin_count (V lf) \<noteq> 0"
    and pages: "lf_Init z (bt_GetParentPageId (page_data (V lf))) (bt_SetPageType_of (page_data (V lf)) zero_page) = Inr n" "length n = PAGE_SIZE"
      "lf_MoveHalfTo (page_data (V lf)) n = Inr (l, r)" "length l = PAGE_SIZE" "length r = PAGE_SIZE"
    and Q: "\<And>s'. sees s' (T(mk_page_id oid z \<mapsto> f)) (V(f := (fresh (mk_page_id oid z))\<lparr>page_data := r\<rparr>, lf := (V lf)\<lparr>page_data := l\<rparr>)) D F \<Longrightarrow> f \<notin> ran T \<Longrightarrow>
      Q f ((s', m'), t)"
  shows "wp (Split_leaf lf) Q ((s, m), t)"
proof -
  have ran: "lf \<in> ran (T(mk_page_id oid z \<mapsto> f))" "f \<in> ran (T(mk_page_id oid z \<mapsto> f))"
    using lf(1) pid(2) by (simp_all add: ran_map_upd)
  have z: "page_number (mk_page_id oid z) = z" by (simp add: mk_page_id_def)
  have len: "length (bt_SetPageType_of (page_data (V lf)) zero_page) = PAGE_SIZE" by (simp add: bt_SetPageType_of_def)
  show ?thesis
    unfolding Split_leaf_def split_page_def
    apply (simp add: wp_simps)
    apply (rule wp_NewPage [where alloc = Index_AllocatePage, OF see alloc pid(1-3)])
    apply (simp add: wp_simps z pid(4))
    apply (subgoal_tac "lf \<noteq> f")
     apply (rule wp_nodeI, assumption; simp add: ran wp_simps)
     apply (rule wp_upd_node [where bs = "bt_SetPageType_of (page_data (V lf)) zero_page"], assumption; simp add: ran len)
     apply (rule wp_upd_node [where bs = n], assumption; simp add: ran pages)
     apply (rule wp_nodeI, assumption; simp add: ran wp_simps pages)
     apply (rule wp_upd_node [where bs = l], assumption; simp add: ran lf(2) pages)
     apply (rule wp_upd_node [where bs = r], assumption; simp add: ran pages)
     apply (rule Q, erule sees_eq; simp)
    using lf(1) apply blast
    done
qed

section \<open>Insertion\<close>

lemma insert_down:
  assumes see: "sees s T W D F" and ix: "index_at d ix (tm_table_oid m) root T W D" and path: "path_rests d (tm_table_oid m) root T W D k"
    and k: "fits 4 k" and hf: "T (mk_page_id (tm_table_oid m) (im_header_page_id (bi_meta ix))) = Some hf" and t: "page_set t = []"
    and lf: "T (mk_page_id (tm_table_oid m) (leaf_page_of d (tm_table_oid m) root T W D k)) = Some lf"
    and C: "InsertIntoLeaf (Suc (d + e)) Compare_int32 (int_key k) rid hf = bind (SearchLeafPage (Suc (d + e)) Compare_int32 (int_key k) INSERT hf) C"
    and Q: "\<And>s'. sees s' T (holding (top_latches d hf @ [lf]) W) D F \<Longrightarrow> R (C lf ((s', m), t\<lparr>page_set := top_latches d hf\<rparr>))"
  shows "R (InternalInsertRecord (Suc (d + e)) ix (int_key k) rid ((s, m), t))"
proof -
  have ok: "tree_ok d (table_contents (tm_table_oid m) T W D) INVALID_PAGE_ID root (- (2 ^ 31)) (2 ^ 31)" "hd_GetRootPageId (page_data (W hf)) = root"
      "idle T W hf" "bi_comparator ix = Compare_int32"
    using ix hf rests_idle by (auto simp: index_at_def contents_def)
  have hi: "hf \<in> ran T" "pin_count (W hf) \<noteq> - 1" "rwlatch (W hf) = Unlatched" using ok(3) by (simp_all add: idle_def)
  have down: "R (InsertIntoLeaf (Suc (d + e)) Compare_int32 (int_key k) rid hf ((s', m), t\<lparr>page_set := [hf]\<rparr>))"
    if "sees s' T (W(hf := hold WriteLatched (W hf))) D F" for s'
    unfolding C by (rule wp_then [where R = R], rule search_write [OF see that ix path k hf _ lf]) (use Q in simp_all)
  have ne: "\<not> hd_TreeIsEmpty (page_data (W hf))" using tree_ok_pos [OF ok(1)] ok(2) by (simp add: hd_TreeIsEmpty_def)
  show ?thesis
    unfolding InternalInsertRecord_def ok(4)
    apply (rule wp_then [where R = R], simp only: wp_simps)
    apply (rule wp_take [OF see hf hi(2,3)])
    apply (rule wp_then [where R = R], simp only: wp_simps)
    apply (rule wp_latches(1), assumption; simp add: hi pin_up hold_latch)
    apply (rule wp_then [where R = R], simp add: wp_simps AddIntoPageSet_def t)
    apply (rule wp_then [where R = R], simp only: wp_simps)
    apply (rule wp_nodeI, assumption; simp add: hi ne)
    apply (erule down)
    done
qed

text \<open>The leaf has room for the entry.\<close>

lemma insert_with_room:
  assumes see: "sees s T W D F" and ix: "index_at d ix (tm_table_oid m) root T W D" and path: "path_rests d (tm_table_oid m) root T W D k"
    and k: "fits 4 k" and hf: "T (mk_page_id (tm_table_oid m) (im_header_page_id (bi_meta ix))) = Some hf" and t: "page_set t = []"
    and lf: "T (mk_page_id (tm_table_oid m) (leaf_page_of d (tm_table_oid m) root T W D k)) = Some lf"
    and l: "lf_Insert (int_key k) rid Compare_int32 (page_data (W lf)) = Inr l" "tree_leaf l par p lo hi" "bt_GetSize l = bt_GetSize (page_data (W lf)) + 1"
    and Q: "\<And>s'. sees s' T (W(lf := (W lf)\<lparr>page_data := l, is_dirty := True\<rparr>)) D F \<Longrightarrow> Q True ((s', m), t)"
  shows "wp (InternalInsertRecord (Suc (d + e)) ix (int_key k) rid) Q ((s, m), t)"
proof -
  define ps where "ps = top_latches d hf"
  have hi: "idle T W hf" using ix hf rests_idle by (auto simp: index_at_def)
  obtain li: "idle T W lf" and lh: "lf \<noteq> hf" using index_path [OF see ix path k hf] lf by (metis option.inject)
  have lp: "length l = PAGE_SIZE" "bt_GetMaxSize l = Inr LEAF_MAX_NODE_SIZE" "\<not> LEAF_MAX_NODE_SIZE \<le> bt_GetSize l"
    using l(2) by (auto simp: tree_leaf_def leaf_in_def leaf_ok_def leaf_page_def bt_GetMaxSize_def)
  have ll: "lf \<in> ran T" "pin_count (W lf) \<noteq> - 1" "rwlatch (W lf) = Unlatched" "T (page_id (W lf)) = Some lf"
    using li sees_frame(3) [OF see lf] lf by (simp_all add: idle_def)
  have hl: "holding (ps @ [lf]) W lf = hold WriteLatched (W lf)" by (simp add: holding_def)
  have rel: "wp (release_pages ps) P ((s', m), t\<lparr>page_set := ps\<rparr>)"
    if "sees s' T ((holding (ps @ [lf]) W)(lf := (hold WriteLatched (W lf))\<lparr>page_data := l\<rparr>)) D F"
      and P: "\<And>s''. sees s'' T (W(lf := (hold WriteLatched (W lf))\<lparr>page_data := l\<rparr>)) D F \<Longrightarrow> P () ((s'', m), t)" for s' P
  proof (rule wp_release [OF that(1) sees_tidy [OF see]])
    fix s''
    assume "sees s'' T (\<lambda>g. if g \<in> set ps then W g else ((holding (ps @ [lf]) W)(lf := (hold WriteLatched (W lf))\<lparr>page_data := l\<rparr>)) g) D F"
    then have "sees s'' T (W(lf := (hold WriteLatched (W lf))\<lparr>page_data := l\<rparr>)) D F" by (rule sees_eq) (use lh in \<open>auto simp: holding_def ps_def top_latches_def\<close>)
    then show "P () ((s'', m), t\<lparr>page_set := ps\<rparr>\<lparr>page_set := []\<rparr>)" using P t by (cases t) simp
  qed (use hi lh in \<open>auto simp: holding_def ps_def top_latches_def\<close>)
  have fin: "((hold WriteLatched (W lf))\<lparr>page_data := l, rwlatch := Unlatched, is_dirty := True, pin_count := pin_count (W lf)\<rparr>) = (W lf)\<lparr>page_data := l, is_dirty := True\<rparr>"
    using ll(3) by (cases "W lf") (simp add: hold_def)
  show ?thesis
    apply (rule insert_down [where R = "returns Q", OF see ix path k hf t lf InsertIntoLeaf_def, folded ps_def wp_returns])
    apply (simp only: Let_def wp_simps ReleaseParentWriteLatches_def)
    apply (rule wp_nodeI, assumption, rule ll(1))
    apply (rule wp_upd_node [where bs = l], assumption, rule ll(1); simp only: hl hold_simps l(1) lp(1))
     apply (simp add: pin_up ll(2))
    apply (rule wp_nodeI, assumption, rule ll(1))
    apply (simp add: lp wp_simps del: InsertIntoParent.simps)
    apply (rule rel, assumption)
    apply (simp only: wp_simps)
    apply (rule wp_latches(3), assumption; simp add: ll pin_up)
    apply (rule wp_unpin_frame, assumption; simp add: ll pin_up wp_simps l(3))
    apply (rule Q, simp add: fin)
    done
qed

text \<open>
  The leaf is full after the insertion. The rule leaves the work above the leaf to the caller, with the
  two halves in the pool and their next pages set.
\<close>

lemma insert_halves:
  assumes see: "sees s T W D (f # F)" and ix: "index_at d ix (tm_table_oid m) root T W D" and path: "path_rests d (tm_table_oid m) root T W D k"
    and k: "fits 4 k" and hf: "T (mk_page_id (tm_table_oid m) (im_header_page_id (bi_meta ix))) = Some hf" and t: "page_set t = []"
    and lf: "T (mk_page_id (tm_table_oid m) (leaf_page_of d (tm_table_oid m) root T W D k)) = Some lf" "lf \<noteq> f"
    and ins: "lf_Insert (int_key k) rid Compare_int32 (page_data (W lf)) = Inr b" "leaf_in b par p lo hi" "bt_GetSize b = LEAF_MAX_NODE_SIZE"
    and Z: "Index_AllocatePage m = (Inr Z, m1)" "valid_pid Z" "T Z = None" "disk_page D Z = zero_page" "Z = mk_page_id (tm_table_oid m) z" "0 < z"
    and halves: "lf_Init z par (bt_SetPageType_of b zero_page) = Inr n" "length n = PAGE_SIZE" "lf_MoveHalfTo b n = Inr (l, r)"
      "leaf_in l par p lo K" "leaf_in r par z K hi" "lf_KeyAt r 0 = Inr (int_key K)"
    and up: "\<And>s'. f \<notin> ran T \<Longrightarrow> sees s' (T(Z \<mapsto> f)) ((holding (top_latches d hf @ [lf]) W)(f := (fresh Z)\<lparr>page_data := lf_SetNextPageId (lf_GetNextPageId l) r\<rparr>,
        lf := (hold WriteLatched (W lf))\<lparr>page_data := lf_SetNextPageId z l\<rparr>)) D F \<Longrightarrow>
      R (bind (InsertIntoParent (Suc (d + e)) lf f (int_key K) hf) (\<lambda>_. bind (pooled (WUnlatch lf)) (\<lambda>_. bind (pooled (unpin_frame lf True)) (\<lambda>_.
        bind (pooled (node_at f)) (\<lambda>sibling_node. bind (table_page (bt_GetPageId sibling_node)) (\<lambda>pid. bind (pooled (UnpinPage pid True)) (\<lambda>_. ret True))))))
          ((s', m1), t\<lparr>page_set := top_latches d hf\<rparr>))"
  shows "R (InternalInsertRecord (Suc (d + e)) ix (int_key k) rid ((s, m), t))"
proof -
  have li: "idle T W lf" using index_path [OF see ix path k hf] lf(1) by (metis option.inject)
  have ll: "lf \<in> ran T" "pin_count (W lf) \<noteq> - 1" using li by (simp_all add: idle_def)
  have lp: "length b = PAGE_SIZE" "bt_GetMaxSize b = Inr LEAF_MAX_NODE_SIZE" "length l = PAGE_SIZE" "length r = PAGE_SIZE" "bt_GetParentPageId b = par"
    using ins(2) halves(4,5) by (auto simp: leaf_in_def leaf_ok_def leaf_page_def bt_GetMaxSize_def)
  have hl: "holding (top_latches d hf @ [lf]) W lf = hold WriteLatched (W lf)" by (simp add: holding_def)
  have r1: "length (lf_SetNextPageId x r) = PAGE_SIZE" "bt_GetPageId (lf_SetNextPageId x r) = z" "lf_KeyAt (lf_SetNextPageId x r) 0 = Inr (int_key K)"
      "length (lf_SetNextPageId x l) = PAGE_SIZE" for x
    using leaf_in_next(1,4) [OF halves(5), of x] leaf_in_next(1) [OF halves(4), of x] halves(6) by (auto simp: leaf_in_def leaf_ok_def leaf_page_def)
  have r2: "lf \<in> ran (T(Z \<mapsto> f))" "f \<in> ran (T(Z \<mapsto> f))" using ll(1) Z(3) by (simp_all add: ran_map_upd)
  note step = wp_then [where R = R]
  show ?thesis
    apply (rule insert_down [where R = R, OF see ix path k hf t lf(1) InsertIntoLeaf_def])
    apply (rule step, simp only: wp_simps, rule wp_nodeI, assumption, rule ll(1))
    apply (unfold Let_def)
    apply (rule step, simp only: wp_simps, rule wp_upd_node [where bs = b], assumption, rule ll(1); simp only: hl hold_simps ins(1) lp(1))
     apply (simp add: pin_up ll(2))
    apply (rule step, simp only: wp_simps, rule wp_nodeI, assumption, rule ll(1))
    apply (rule step, simp add: wp_simps lp ins(3) del: InsertIntoParent.simps)
    apply (rule step, rule wp_Split_leaf [where z = z and n = n and l = l and r = r and oid = "tm_table_oid m", OF _ Z(1-4) [unfolded Z(5)] Z(6) ll(1)], assumption;
        simp add: ll pin_up lp halves hl Z(5) [symmetric] del: InsertIntoParent.simps)
    apply (rule step, simp only: wp_simps, rule wp_nodeI, assumption; simp add: r2 Z(5) [symmetric] del: InsertIntoParent.simps)
    apply (rule step, simp only: wp_simps, rule wp_upd_node [where bs = "lf_SetNextPageId (lf_GetNextPageId l) r"], assumption;
        simp add: lf(2) lf(2) [symmetric] r2 r1 del: InsertIntoParent.simps)
    apply (rule step, simp only: wp_simps, rule wp_nodeI, assumption; simp add: lf(2) lf(2) [symmetric] r2 r1 del: InsertIntoParent.simps)
    apply (rule step, simp only: wp_simps, rule wp_upd_node [where bs = "lf_SetNextPageId z l"], assumption;
        simp add: ll pin_up lf(2) lf(2) [symmetric] r2 r1 del: InsertIntoParent.simps)
    apply (rule step, simp add: wp_simps r1 del: InsertIntoParent.simps)
    apply (rule up, assumption)
    apply (erule sees_eq, simp add: lf(2) lf(2) [symmetric])
    done
qed

text \<open>\<open>up\<close> says what becomes of the two halves above the leaf.\<close>

lemma insert_split:
  assumes see: "sees s T W D (f # F)" and ix: "index_at d ix (tm_table_oid m) root T W D" and path: "path_rests d (tm_table_oid m) root T W D k"
    and k: "fits 4 k" and hf: "T (mk_page_id (tm_table_oid m) (im_header_page_id (bi_meta ix))) = Some hf" and t: "page_set t = []"
    and lf: "T (mk_page_id (tm_table_oid m) (leaf_page_of d (tm_table_oid m) root T W D k)) = Some lf"
    and ins: "lf_Insert (int_key k) rid Compare_int32 (page_data (W lf)) = Inr b" "leaf_in b par p lo hi" "bt_GetSize b = LEAF_MAX_NODE_SIZE"
    and Z: "Index_AllocatePage m = (Inr Z, m1)" "valid_pid Z" "T Z = None" "disk_page D Z = zero_page" "Z = mk_page_id (tm_table_oid m) z" "0 < z"
    and halves: "lf_Init z par (bt_SetPageType_of b zero_page) = Inr n" "length n = PAGE_SIZE" "lf_MoveHalfTo b n = Inr (l, r)"
      "leaf_in l par p lo K" "leaf_in r par z K hi" "lf_KeyAt r 0 = Inr (int_key K)"
    and up: "\<And>s' P. f \<notin> ran T \<Longrightarrow> sees s' (T(Z \<mapsto> f)) ((holding (top_latches d hf @ [lf]) W)(f := (fresh Z)\<lparr>page_data := lf_SetNextPageId (lf_GetNextPageId l) r\<rparr>,
        lf := (hold WriteLatched (W lf))\<lparr>page_data := lf_SetNextPageId z l\<rparr>)) D F \<Longrightarrow>
      (\<And>s''. sees s'' T2 V2 D F2 \<Longrightarrow> P () ((s'', m2), t)) \<Longrightarrow>
      wp (InsertIntoParent (Suc (d + e)) lf f (int_key K) hf) P ((s', m1), t\<lparr>page_set := top_latches d hf\<rparr>)"
    and two: "V2 lf = (hold WriteLatched (W lf))\<lparr>page_data := l2\<rparr>" "V2 f = (fresh Z)\<lparr>page_data := r2\<rparr>" "T2 Z = Some f" "T2 (page_id (W lf)) = Some lf"
      "bt_GetPageId r2 = z" "tm_table_oid m2 = tm_table_oid m" "lf \<noteq> f"
    and Q: "\<And>s'. f \<notin> ran T \<Longrightarrow> sees s' T2 (V2(lf := (W lf)\<lparr>page_data := l2, is_dirty := True\<rparr>, f := (fresh Z)\<lparr>page_data := r2, is_dirty := True, pin_count := 0\<rparr>)) D F2 \<Longrightarrow>
      Q True ((s', m2), t)"
  shows "wp (InternalInsertRecord (Suc (d + e)) ix (int_key k) rid) Q ((s, m), t)"
proof -
  have li: "idle T W lf" using index_path [OF see ix path k hf] lf by (metis option.inject)
  have ll: "pin_count (W lf) \<noteq> - 1" "rwlatch (W lf) = Unlatched" using li by (simp_all add: idle_def)
  have r3: "lf \<in> ran T2" "f \<in> ran T2" using two(3,4) by (auto intro: ranI)
  have fin: "((hold WriteLatched (W lf))\<lparr>page_data := l2, rwlatch := Unlatched, is_dirty := True, pin_count := pin_count (W lf)\<rparr>) = (W lf)\<lparr>page_data := l2, is_dirty := True\<rparr>"
      "(fresh Z)\<lparr>page_data := r2, pin_count := 0, is_dirty := True\<rparr> = (fresh Z)\<lparr>page_data := r2, is_dirty := True, pin_count := 0\<rparr>"
    using ll(2) by (cases "W lf", simp add: hold_def, simp add: fresh_def)
  show ?thesis
    apply (rule insert_halves [where R = "returns Q", OF see ix path k hf t lf two(7) ins Z halves, folded wp_returns])
    apply (subst wp_bind)
    apply (rule up, assumption, assumption)
    apply (simp only: wp_simps)
    apply (rule wp_latches(3), assumption; simp add: two ll r3 pin_up wp_simps)
    apply (rule wp_unpin_frame, assumption; simp add: two ll r3 pin_up wp_simps)
    apply (rule wp_nodeI, assumption; simp add: two(7) [symmetric] two r3 wp_simps Z(5) [symmetric])
    apply (rule wp_UnpinPage, assumption, rule two(3); simp add: two(7) [symmetric] two wp_simps)
    apply (rule Q, assumption, erule sees_eq, simp add: fin)
    done
qed

section \<open>The page above\<close>

lemma wp_parent_room:
  assumes see: "sees s T V D F" and t: "page_set t = []" and lf: "lf \<in> ran T" "f \<in> ran T"
    and ids: "bt_GetParentPageId (page_data (V lf)) = u" "u \<noteq> INVALID_PAGE_ID" "bt_GetPageId (page_data (V lf)) = q" "bt_GetPageId (page_data (V f)) = z"
    and pf: "T (mk_page_id (tm_table_oid m) u) = Some pf" "pin_count (V pf) \<noteq> - 1" "rwlatch (V pf) = Unlatched"
    and page: "in_page (page_data (V pf))" "bt_GetSize (page_data (V pf)) < INTERNAL_MAX_NODE_SIZE"
      "in_InsertNodeAfter q (int_key K) z (page_data (V pf)) = Inr (b, x)" "length b = PAGE_SIZE"
    and Q: "\<And>s'. sees s' T (V(pf := (V pf)\<lparr>page_data := b, is_dirty := True\<rparr>)) D F \<Longrightarrow> Q () ((s', m), t)"
  shows "wp (InsertIntoParent (Suc d) lf f (int_key K) hf) Q ((s, m), t)"
proof -
  have r: "pf \<in> ran T" "T (page_id (V pf)) = Some pf" using pf(1) sees_frame(3) [OF see pf(1)] by (auto intro: ranI)
  have mx: "bt_GetMaxSize (page_data (V pf)) = Inr INTERNAL_MAX_NODE_SIZE" using page(1) by (simp add: in_page_def bt_GetMaxSize_def)
  have fin: "(hold Unlatched (V pf))\<lparr>page_data := b, is_dirty := True, pin_count := pin_count (V pf)\<rparr> = (V pf)\<lparr>page_data := b, is_dirty := True\<rparr>"
    using pf(3) by (cases "V pf") (simp add: hold_def)
  show ?thesis
    apply (simp only: InsertIntoParent.simps wp_simps)
    apply (rule wp_nodeI [OF see lf(1)], rule wp_nodeI [OF see lf(2)])
    apply (simp only: bt_IsRootPage_def ids if_False wp_simps)
    apply (rule wp_take [OF see pf])
    apply (rule wp_nodeI, assumption, rule r(1))
    apply (simp only: wp_simps hold_simps fun_upd_same mx sum.inject simp_thms page(2) if_True)
    apply (rule wp_upd_node [where bs = b], assumption; simp add: r page pf pin_up ReleaseParentWriteLatches_def wp_simps t)
    apply (rule wp_unpin_frame, assumption; simp add: r pf pin_up wp_simps)
    apply (rule Q, simp add: fin)
    done
qed

lemma wp_new_root_page:
  assumes see: "sees s T V D (g # F)" and R: "Index_AllocatePage m = (Inr R, m')" "valid_pid R" "T R = None" "disk_page D R = zero_page"
    and Q: "\<And>s'. sees s' (T(R \<mapsto> g)) (V(g := (fresh R)\<lparr>is_dirty := True, pin_count := 0\<rparr>)) D F \<Longrightarrow> g \<notin> ran T \<Longrightarrow> Q (g, R) ((s', m'), t)"
  shows "wp new_root_page Q ((s, m), t)"
proof -
  have r: "g \<in> ran (T(R \<mapsto> g))" using R(3) by (simp add: ran_map_upd)
  have fin: "(fresh R)\<lparr>rwlatch := Unlatched, is_dirty := True, pin_count := 0\<rparr> = (fresh R)\<lparr>is_dirty := True, pin_count := 0\<rparr>" by (simp add: fresh_def)
  show ?thesis
    unfolding new_root_page_def NewPageGuarded_def
    apply (simp add: wp_simps case_prod_beta)
    apply (rule wp_NewPage [where alloc = Index_AllocatePage, OF see R])
    apply (simp add: mk_guard_def UpgradeWrite_def deref_def wp_simps)
    apply (rule wp_latches(1), assumption; simp add: r)
    apply (simp add: mk_guard_def guard_GetDataMut_def deref_def Write_Drop_def Basic_Drop_def wp_simps)
    apply (rule wp_latches(3), assumption; simp add: r)
    apply (simp only: wp_simps)
    apply (subst wp_page_at, assumption, rule r)
    apply (simp add: wp_simps)
    apply (rule wp_UnpinPage [where f = g], assumption; simp add: wp_simps)
    apply (rule Q, simp add: fin, assumption)
    done
qed

lemma wp_parent_root:
  assumes see: "sees s T V D (g # F)" and R: "Index_AllocatePage m = (Inr R, m')" "valid_pid R" "T R = None" "disk_page D R = zero_page" "page_number R = n"
    and t: "page_set t = [hf]" and lf: "lf \<in> ran T" "pin_count (V lf) \<noteq> 0" and f: "f \<in> ran T" "pin_count (V f) \<noteq> 0"
    and hf: "hf \<in> ran T" "V hf = hold WriteLatched (W hf)" "pin_count (W hf) \<noteq> - 1" "rwlatch (W hf) = Unlatched" "T (page_id (W hf)) = Some hf"
      "get_uint 0 4 (page_data (W hf)) = IndexPageType_code HEADER_PAGE" "length (page_data (W hf)) = PAGE_SIZE"
    and ids: "bt_GetParentPageId (page_data (V lf)) = INVALID_PAGE_ID" "bt_GetPageId (page_data (V lf)) = q" "bt_GetPageId (page_data (V f)) = z"
    and page: "in_Init n INVALID_PAGE_ID zero_page = Inr blank" "length blank = PAGE_SIZE" "in_PopulateNewRoot q (int_key K) z blank = Inr b" "length b = PAGE_SIZE"
    and len: "length (page_data (V lf)) = PAGE_SIZE" "length (page_data (V f)) = PAGE_SIZE" and ne: "hf \<noteq> lf" "hf \<noteq> f" "lf \<noteq> f"
    and Q: "\<And>s'. sees s' (T(R \<mapsto> g)) (V(g := (fresh R)\<lparr>is_dirty := True, pin_count := 0, page_data := b\<rparr>, lf := (V lf)\<lparr>page_data := bt_SetParentPageId n (page_data (V lf))\<rparr>,
        f := (V f)\<lparr>page_data := bt_SetParentPageId n (page_data (V f))\<rparr>, hf := (W hf)\<lparr>page_data := hd_SetRootPageId n (page_data (W hf)), is_dirty := True\<rparr>)) D F \<Longrightarrow>
      g \<notin> ran T \<Longrightarrow> Q () ((s', m'), t\<lparr>page_set := []\<rparr>)"
  shows "wp (InsertIntoParent (Suc d) lf f (int_key K) hf) Q ((s, m), t)"
proof -
  have r: "x \<in> ran (T(R \<mapsto> g))" if "x \<in> ran T \<or> x = g" for x using R(3) that by (auto simp: ran_map_upd)
  have hR: "page_id (W hf) \<noteq> R" using hf(5) R(3) by auto
  note rs = r [of g] r [of lf] r [of f] r [of hf]
  have hd: "get_uint 0 4 (hd_SetRootPageId n (page_data (W hf))) = IndexPageType_code HEADER_PAGE" "length (hd_SetRootPageId n (page_data (W hf))) = PAGE_SIZE"
    using hf(6,7) by (simp_all add: hd_SetRootPageId_def mem_simps)
  have l: "length (bt_SetParentPageId n x) = PAGE_SIZE" if "length x = PAGE_SIZE" for x using that by (simp add: bt_SetParentPageId_def mem_simps)
  have fin: "(hold WriteLatched (W hf))\<lparr>page_data := y, rwlatch := Unlatched, is_dirty := True, pin_count := pin_count (W hf)\<rparr> = (W hf)\<lparr>page_data := y, is_dirty := True\<rparr>" for y
    using hf(4) by (cases "W hf") (simp add: hold_def)
  show ?thesis
    apply (simp only: InsertIntoParent.simps wp_simps)
    apply (rule wp_nodeI [OF see lf(1)], rule wp_nodeI [OF see f(1)])
    apply (simp add: bt_IsRootPage_def ids wp_simps del: InsertIntoParent.simps)
    apply (rule wp_new_root_page [OF see R(1-4)])
    apply (subgoal_tac "lf \<noteq> g \<and> f \<noteq> g \<and> hf \<noteq> g")
     prefer 2
     apply (use lf(1) f(1) hf(1) in blast)
    apply (simp add: wp_simps R(5))
    apply (rule wp_upd_node [where bs = blank], assumption; simp add: rs page)
    apply (rule wp_upd_node [where bs = b], assumption; simp add: rs page)
    apply (rule wp_upd_node [where bs = "bt_SetParentPageId n (page_data (V lf))"], assumption; simp add: rs lf l len)
    apply (rule wp_upd_node [where bs = "bt_SetParentPageId n (page_data (V f))"], assumption; simp add: rs f l len ne ne [symmetric])
    apply (rule wp_on_page [where m = "modify (hd_SetRootPageId n)" and x = "()" and bs = "hd_SetRootPageId n (page_data (W hf))"], assumption;
        simp add: rs hf pin_up ne hd modify_def)
    apply (simp add: ReleaseHeaderPageAndMarkDirty_def ReleaseParentWriteLatches_def wp_simps t)
    apply (rule wp_nodeI, assumption; simp add: rs hf hd wp_simps)
    apply (rule wp_latches(3), assumption; simp add: rs hf pin_up)
    apply (rule wp_unpin_frame, assumption; simp add: hf hR pin_up wp_simps)
    apply (rule Q; simp?)
    apply (erule sees_eq, simp add: fin ne)
    done
qed

end
