(* ===== verification/IndexMaps.thy ===== *)
theory IndexMaps
  imports IndexInserts
begin

text \<open>
  The index as a map from keys to record ids. One insertion into a tree whose pages are all in the pool
  is followed from the state of the pool before it to the state after it, for the three ways
  it can go: the leaf has room, the leaf is split below a page with room, the root is a leaf and is split.
\<close>

section \<open>The pages behind a description\<close>

lemma table_contents_upd:
  assumes "sees s T W D F" and "T (mk_page_id oid p) = Some f"
  shows "table_contents oid T (W(f := x)) D = (table_contents oid T W D)(p := page_data x)"
  by (simp add: fun_eq_iff contents_upd [OF assms] page_ids)

lemma table_contents_new:
  assumes "f \<notin> ran T"
  shows "table_contents oid (T(mk_page_id oid z \<mapsto> f)) (W(f := x)) D = (table_contents oid T W D)(z := page_data x)"
  by (simp add: fun_eq_iff contents_new [OF assms] page_ids)

lemma rests_upd:
  assumes "pin_count p = pin_count (W f)" and "rwlatch p = rwlatch (W f)"
  shows "rests T (W(f := p)) pid = rests T W pid"
  using assms by (auto simp: rests_def)

definition keeps_pins :: "(PageId \<Rightarrow> nat option) \<Rightarrow> (nat \<Rightarrow> Page) \<Rightarrow> (PageId \<Rightarrow> nat option) \<Rightarrow> (nat \<Rightarrow> Page) \<Rightarrow> bool" where
  "keeps_pins T W T' W' \<longleftrightarrow> (\<forall>pid. (case T' pid of Some f \<Rightarrow> pin_count (W' f) | None \<Rightarrow> 0) = (case T pid of Some f \<Rightarrow> pin_count (W f) | None \<Rightarrow> 0))"

text \<open>An index all of whose pages are in the pool, none of them latched.\<close>

definition index_in :: "nat \<Rightarrow> BTreeIndex \<Rightarrow> int \<Rightarrow> int \<Rightarrow> (PageId \<Rightarrow> nat option) \<Rightarrow> (nat \<Rightarrow> Page) \<Rightarrow> Disk \<Rightarrow> bool" where
  "index_in d ix oid root T W D \<longleftrightarrow> index_at d ix oid root T W D \<and> (\<forall>q \<in> set (tree_pages d (table_contents oid T W D) root). rests T W (mk_page_id oid q))"

lemma index_in_path:
  assumes "index_in d ix oid root T W D" and "fits 4 k"
  shows "index_at d ix oid root T W D" and "path_rests d oid root T W D k"
  using assms tree_path_pages(1) [OF _ assms(2), of d "table_contents oid T W D" INVALID_PAGE_ID root "- (2 ^ 31)" "2 ^ 31"]
  by (auto simp: index_in_def index_at_def)

lemma index_in_facts:
  assumes "index_in d ix oid root T W D"
  shows "tree_ok d (table_contents oid T W D) INVALID_PAGE_ID root (- (2 ^ 31)) (2 ^ 31)" and "distinct (tree_pages d (table_contents oid T W D) root)"
    and "im_header_page_id (bi_meta ix) \<notin> set (tree_pages d (table_contents oid T W D) root)"
    and "rests T W (mk_page_id oid (im_header_page_id (bi_meta ix)))"
    and "\<And>q. q \<in> set (tree_pages d (table_contents oid T W D) root) \<Longrightarrow> rests T W (mk_page_id oid q)"
    and "get_uint 0 4 (table_contents oid T W D (im_header_page_id (bi_meta ix))) = IndexPageType_code HEADER_PAGE"
    and "hd_GetRootPageId (table_contents oid T W D (im_header_page_id (bi_meta ix))) = root" and "bi_comparator ix = Compare_int32"
  using assms by (simp_all add: index_in_def index_at_def)

lemma index_in_grown:
  assumes ix: "index_in d ix oid root T W D" and g: "tree_grown d (table_contents oid T W D) L' INVALID_PAGE_ID root (- (2 ^ 31)) (2 ^ 31) k v Z"
    and L': "table_contents oid T' W' D = L'" "L' (im_header_page_id (bi_meta ix)) = table_contents oid T W D (im_header_page_id (bi_meta ix))"
    and Z: "im_header_page_id (bi_meta ix) \<notin> Z" "\<And>z. z \<in> Z \<Longrightarrow> rests T' W' (mk_page_id oid z)"
    and r: "\<And>pid. rests T W pid \<Longrightarrow> rests T' W' pid"
  shows "index_in d ix oid root T' W' D"
proof -
  note f = index_in_facts [OF ix]
  have "set (tree_pages d L' root) \<subseteq> Z \<union> set (tree_pages d (table_contents oid T W D) root)" using g by (simp add: tree_grown_def)
  then have "\<forall>q \<in> set (tree_pages d L' root). q \<noteq> im_header_page_id (bi_meta ix) \<and> rests T' W' (mk_page_id oid q)" using Z f(3,5) r by blast
  moreover have "contents T' W' D (mk_page_id oid x) = L' x" for x using fun_cong [OF L'(1)] .
  ultimately show ?thesis using g f(4,6-8) r unfolding index_in_def index_at_def by (auto simp: tree_grown_def L'(2))
qed

lemma contents_two:
  assumes see: "sees s T W D F" and f: "T p = Some f" and g: "T q = Some g" and ne: "f \<noteq> g"
  shows "contents T (W(f := a, g := b)) D = (contents T W D)(p := page_data a, q := page_data b)"
  using sees_inj [OF see f] sees_inj [OF see g] f g ne by (fastforce simp: fun_eq_iff contents_def split: option.splits)

lemma last_not_first: "distinct (x # xs) \<Longrightarrow> xs \<noteq> [] \<Longrightarrow> last (x # xs) \<noteq> x"
  by (metis distinct.simps(2) last_ConsR last_in_set)

section \<open>How many entries a tree holds\<close>

lemma length_entries: "length (tree_entries (Suc 0) L p) = (\<Sum>i < bt_GetSize (L p). bt_GetSize (L (in_val (L p) i)))"
  by (simp add: length_concat o_def leaf_entries_def interv_sum_list_conv_sum_set_nat lessThan_atLeast0)

lemma entries_most:
  assumes "tree_ok (Suc 0) L par p lo hi"
  shows "length (tree_entries (Suc 0) L p) \<le> 201 * bt_GetSize (L p)"
proof -
  have "bt_GetSize (L (in_val (L p) i)) \<le> 201" if "i < bt_GetSize (L p)" for i using assms that by (auto simp: tree_leaf_def less_Suc_eq_le)
  then have "(\<Sum>i < bt_GetSize (L p). bt_GetSize (L (in_val (L p) i))) \<le> of_nat (card {..<bt_GetSize (L p)}) * 201" by (intro sum_bounded_above) simp
  then show ?thesis unfolding length_entries by simp
qed

text \<open>With a full leaf there are entries for one more leaf.\<close>

lemma entries_least:
  assumes "filled (Suc 0) L p" and "c < bt_GetSize (L p)" and "bt_GetSize (L (in_val (L p) c)) + 1 = LEAF_MAX_NODE_SIZE"
  shows "101 * (bt_GetSize (L p) + 1) \<le> length (tree_entries (Suc 0) L p) + 1"
proof -
  let ?g = "\<lambda>i. bt_GetSize (L (in_val (L p) i))" and ?A = "{..<bt_GetSize (L p)} - {c}"
  have "(\<Sum>i < bt_GetSize (L p). ?g i) = ?g c + sum ?g ?A" using assms(2) by (intro sum.remove) auto
  moreover have "of_nat (card ?A) * 101 \<le> sum ?g ?A" by (rule sum_bounded_below) (use assms(1) in auto)
  moreover have "card ?A = bt_GetSize (L p) - 1" using assms(2) by simp
  ultimately show ?thesis using assms(2,3) unfolding length_entries by simp
qed

section \<open>The three ways of an insertion\<close>

lemma insert_leaf_case:
  assumes see: "sees s T W D F" and ix: "index_in d ix (tm_table_oid m) root T W D" and t: "page_set t = []"
    and k: "fits 4 k" "k \<noteq> 0" and rid: "rid_fits rid" and new: "k \<notin> fst ` set (tree_entries d (table_contents (tm_table_oid m) T W D) root)"
    and room: "bt_GetSize (table_contents (tm_table_oid m) T W D (leaf_page_of d (tm_table_oid m) root T W D k)) + 1 < LEAF_MAX_NODE_SIZE"
    and Q: "\<And>s' W'. sees s' T W' D F \<Longrightarrow> index_in d ix (tm_table_oid m) root T W' D \<Longrightarrow>
      inserts k rid (tree_entries d (table_contents (tm_table_oid m) T W D) root) (tree_entries d (table_contents (tm_table_oid m) T W' D) root) \<Longrightarrow>
      (0 < d \<Longrightarrow> table_contents (tm_table_oid m) T W' D root = table_contents (tm_table_oid m) T W D root) \<Longrightarrow>
      (filled d (table_contents (tm_table_oid m) T W D) root \<Longrightarrow> filled d (table_contents (tm_table_oid m) T W' D) root) \<Longrightarrow>
      keeps_pins T W T W' \<Longrightarrow> Q True ((s', m), t)"
  shows "wp (InternalInsertRecord (Suc (d + e)) ix (int_key k) rid) Q ((s, m), t)"
proof -
  let ?oid = "tm_table_oid m" let ?L = "table_contents ?oid T W D" let ?q = "leaf_page_of d ?oid root T W D k"
  note f = index_in_facts [OF ix] and p = index_in_path [OF ix k(1)]
  have kb: "- (2 ^ 31) \<le> k" "k < 2 ^ 31" using k(1) by (simp_all add: fits_def)
  obtain hf where hf: "T (mk_page_id ?oid (im_header_page_id (bi_meta ix))) = Some hf" using f(4) by (auto simp: rests_def)
  obtain lf where lf: "T (mk_page_id ?oid ?q) = Some lf" "idle T W lf" using index_path [OF see p k(1) hf] by metis
  obtain b par' lo' hi' where b: "lf_Insert (int_key k) rid Compare_int32 (?L ?q) = Inr b" "leaf_in b par' ?q lo' hi'" "bt_GetSize b = bt_GetSize (?L ?q) + 1"
      "bt_GetSize b < LEAF_MAX_NODE_SIZE \<longrightarrow> tree_grown d ?L (?L(?q := b)) INVALID_PAGE_ID root (- (2 ^ 31)) (2 ^ 31) k rid {}"
    by (rule leaf_step [OF f(1,2) k(1) kb k(2) rid new])
  have Lq: "?L ?q = page_data (W lf)" using lf(1) by (simp add: contents_def)
  have tl: "tree_leaf b par' ?q lo' hi'" using b(2,3) room by (simp add: tree_leaf_def)
  have g: "tree_grown d ?L (?L(?q := b)) INVALID_PAGE_ID root (- (2 ^ 31)) (2 ^ 31) k rid {}" using b(3,4) room by simp
  let ?W = "W(lf := (W lf)\<lparr>page_data := b, is_dirty := True\<rparr>)"
  have L': "table_contents ?oid T ?W D = ?L(?q := b)" using table_contents_upd [OF see lf(1)] by simp
  have qp: "?q \<in> set (tree_pages d ?L root)" using tree_path_pages(1) [OF f(1) k(1)] last_in_set [OF tree_path_ne] by blast
  have "index_in d ix ?oid root T ?W D"
    by (rule index_in_grown [OF ix g L']) (use f(3) qp in \<open>auto simp: rests_upd\<close>)
  moreover have "inserts k rid (tree_entries d ?L root) (tree_entries d (table_contents ?oid T ?W D) root)" using g unfolding L' tree_grown_def by blast
  moreover have "table_contents ?oid T ?W D root = ?L root" if pos: "0 < d"
  proof -
    obtain d' where d: "d = Suc d'" using pos gr0_implies_Suc by blast
    have "distinct (tree_path d ?L root k)" using tree_path_pages(2) [OF f(1) k(1)] f(2) by blast
    then have "?q \<noteq> root" unfolding d tree_path.simps by (rule last_not_first) simp
    then show ?thesis using fun_cong [OF L', of root] by simp
  qed
  moreover have "filled d (table_contents ?oid T ?W D) root" if "filled d ?L root" using g that unfolding L' tree_grown_def by blast
  moreover have "keeps_pins T W T ?W" by (simp add: keeps_pins_def split: option.split)
  ultimately show ?thesis
    by (intro insert_with_room [OF see p k(1) hf t lf(1) b(1) [unfolded Lq] tl b(3) [unfolded Lq]] Q)
qed

text \<open>A page of the tree is not the next page of the table, which is not in the pool.\<close>

lemma next_not_in:
  assumes ix: "index_in d ix oid root T W D" and z: "T (mk_page_id oid z) = None"
  shows "z \<notin> set (tree_pages d (table_contents oid T W D) root)" and "z \<noteq> im_header_page_id (bi_meta ix)"
  using index_in_facts(4) [OF ix] index_in_facts(5) [OF ix, of z] z by (auto simp: rests_def)

lemma insert_split_case:
  assumes see: "sees s T W D F" and ix: "index_in (Suc n) ix (tm_table_oid m) root T W D" and t: "page_set t = []"
    and k: "fits 4 k" "k \<noteq> 0" and rid: "rid_fits rid" and new: "k \<notin> fst ` set (tree_entries (Suc n) (table_contents (tm_table_oid m) T W D) root)"
    and full: "bt_GetSize (table_contents (tm_table_oid m) T W D (leaf_page_of (Suc n) (tm_table_oid m) root T W D k)) + 1 = LEAF_MAX_NODE_SIZE"
    and room: "bt_GetSize (table_contents (tm_table_oid m) T W D (tree_path (Suc n) (table_contents (tm_table_oid m) T W D) root k ! n)) < INTERNAL_MAX_NODE_SIZE"
    and pages: "room_for (Suc i) m T D F" "0 \<le> last_table_data_page_id m"
    and Q: "\<And>s' T' W' F'. sees s' T' W' D F' \<Longrightarrow> index_in (Suc n) ix (tm_table_oid m) root T' W' D \<Longrightarrow> room_for i (one_more m) T' D F' \<Longrightarrow>
      inserts k rid (tree_entries (Suc n) (table_contents (tm_table_oid m) T W D) root) (tree_entries (Suc n) (table_contents (tm_table_oid m) T' W' D) root) \<Longrightarrow>
      bt_GetSize (table_contents (tm_table_oid m) T' W' D root) = bt_GetSize (table_contents (tm_table_oid m) T W D root) + (if n = 0 then 1 else 0) \<Longrightarrow>
      (filled (Suc n) (table_contents (tm_table_oid m) T W D) root \<Longrightarrow> filled (Suc n) (table_contents (tm_table_oid m) T' W' D) root) \<Longrightarrow>
      keeps_pins T W T' W' \<Longrightarrow> Q True ((s', one_more m), t)"
  shows "wp (InternalInsertRecord (Suc (Suc n + e)) ix (int_key k) rid) Q ((s, m), t)"
proof -
  let ?oid = "tm_table_oid m" let ?L = "table_contents ?oid T W D" let ?q = "leaf_page_of (Suc n) ?oid root T W D k"
  let ?u = "tree_path (Suc n) ?L root k ! n" and ?z = "next_page m" let ?Z = "mk_page_id ?oid ?z"
  note f = index_in_facts [OF ix] and p = index_in_path [OF ix k(1)]
  have kb: "- (2 ^ 31) \<le> k" "k < 2 ^ 31" using k(1) by (simp_all add: fits_def)
  obtain zf F' where z: "F = zf # F'" "Index_AllocatePage m = (Inr ?Z, one_more m)" "valid_pid ?Z" "T ?Z = None" "disk_page D ?Z = zero_page"
      "0 \<le> ?z" "?z < 2 ^ 20" "room_for i (one_more m) (T(?Z \<mapsto> zf)) D F'"
    by (rule next_page_facts [OF pages(1)])
  have z0: "0 < ?z" using pages(2) by (simp add: next_page_def)
  note zn = next_not_in [OF ix z(4)]
  obtain hf where hf: "T (mk_page_id ?oid (im_header_page_id (bi_meta ix))) = Some hf" using f(4) by (auto simp: rests_def)
  obtain lf where lf: "T (mk_page_id ?oid ?q) = Some lf" "idle T W lf" using index_path [OF see p k(1) hf] by metis
  obtain b lo' hi' c l r K pm x where st: "lf_Insert (int_key k) rid Compare_int32 (?L ?q) = Inr b" "leaf_in b ?u ?q lo' hi'" "bt_GetSize b = LEAF_MAX_NODE_SIZE"
      "lf_Init ?z ?u (bt_SetPageType_of b zero_page) = Inr c" "length c = PAGE_SIZE" "lf_MoveHalfTo b c = Inr (l, r)"
      "leaf_in l ?u ?q lo' K" "leaf_in r ?u ?z K hi'" "lf_KeyAt r 0 = Inr (int_key K)"
      "in_page (?L ?u)" "in_InsertNodeAfter ?q (int_key K) ?z (?L ?u) = Inr (pm, x)" "length pm = PAGE_SIZE" "0 < ?u" "?u \<noteq> ?q" "?u \<in> set (tree_pages (Suc n) ?L root)"
      "bt_GetSize pm = bt_GetSize (?L ?u) + 1" "tree_grown (Suc n) ?L (?L(?u := pm, ?q := lf_SetNextPageId ?z l, ?z := lf_SetNextPageId (lf_GetNextPageId l) r)) INVALID_PAGE_ID root (- (2 ^ 31)) (2 ^ 31) k rid {?z}"
    by (rule split_step [OF f(1,2) k(1) kb k(2) rid new z0 z(7) zn(1) full room])
  obtain pf where pf: "T (mk_page_id ?oid ?u) = Some pf" "idle T W pf" using f(5) [OF st(15)] rests_idle by (auto simp: rests_def)
  have Lq: "?L ?q = page_data (W lf)" "?L ?u = page_data (W pf)" using lf(1) pf(1) by (simp_all add: contents_def)
  have lp: "lf \<noteq> pf" using sees_inj [OF see lf(1) pf(1)] st(14) by (simp add: page_ids)
  have idle: "lf \<in> ran T" "pf \<in> ran T" "pin_count (W lf) \<noteq> - 1" "pin_count (W pf) \<noteq> - 1" "rwlatch (W pf) = Unlatched" using lf(2) pf(2) by (simp_all add: idle_def)
  let ?l = "lf_SetNextPageId ?z l" and ?r = "lf_SetNextPageId (lf_GetNextPageId l) r"
  let ?T = "T(?Z \<mapsto> zf)" and ?V1 = "(holding (top_latches (Suc n) hf @ [lf]) W)(zf := (fresh ?Z)\<lparr>page_data := ?r\<rparr>, lf := (hold WriteLatched (W lf))\<lparr>page_data := ?l\<rparr>)"
  let ?V2 = "?V1(pf := (W pf)\<lparr>page_data := pm, is_dirty := True\<rparr>)"
  let ?W = "W(pf := (W pf)\<lparr>page_data := pm, is_dirty := True\<rparr>, lf := (W lf)\<lparr>page_data := ?l, is_dirty := True\<rparr>, zf := (fresh ?Z)\<lparr>page_data := ?r, is_dirty := True, pin_count := 0\<rparr>)"
  have zf: "zf \<notin> ran T" using sees_frame(6) [OF see] z(1) by (auto simp: ran_def)
  then have zne: "lf \<noteq> zf" "pf \<noteq> zf" using idle by auto
  note n1 = leaf_in_next [OF st(7), of ?z] and n2 = leaf_in_next [OF st(8), of "lf_GetNextPageId l"]
  have up: "wp (InsertIntoParent (Suc (Suc n + e)) lf zf (int_key K) hf) P ((s', one_more m), t\<lparr>page_set := top_latches (Suc n) hf\<rparr>)"
    if s': "sees s' ?T ?V1 D F'" and P: "\<And>s''. sees s'' ?T ?V2 D F' \<Longrightarrow> P () ((s'', one_more m), t)" for s' P
  proof (rule wp_parent_room [OF s', where u = ?u and q = ?q and z = ?z and pf = pf and b = pm and x = x])
    show "P () ((s'', one_more m), t\<lparr>page_set := top_latches (Suc n) hf\<rparr>)" if "sees s'' ?T (?V1(pf := (?V1 pf)\<lparr>page_data := pm, is_dirty := True\<rparr>)) D F'" for s''
    proof -
      have "sees s'' ?T ?V2 D F'" by (rule sees_eq [OF that]) (use lp zne in \<open>simp add: holding_def top_latches_def\<close>)
      then show ?thesis using P t by (cases t) (simp add: top_latches_def)
    qed
  qed (use idle zne lp n1(1) n2(1) st(10-13) Lq(2) pf(1) room z(4) in \<open>auto simp: ran_map_upd top_latches_def holding_def leaf_in_def\<close>)
  have L': "table_contents ?oid ?T ?W D = ?L(?u := pm, ?q := ?l, ?z := ?r)"
  proof -
    have "contents T (W(pf := (W pf)\<lparr>page_data := pm, is_dirty := True\<rparr>, lf := (W lf)\<lparr>page_data := ?l, is_dirty := True\<rparr>)) D (mk_page_id ?oid x) = (?L(?u := pm, ?q := ?l)) x" for x
      using contents_two [OF see pf(1) lf(1) lp [symmetric]] by (simp add: page_ids)
    then show ?thesis using table_contents_new [OF zf, of ?oid ?z] by (simp add: fun_eq_iff)
  qed
  have rs: "rests ?T ?W pid" if "rests T W pid" for pid
    by (rule rests_new [OF _ zf z(4)]) (use that lp in \<open>simp add: rests_upd\<close>)
  have rz: "rests ?T ?W ?Z" by (simp add: rests_def)
  have qp: "?q \<in> set (tree_pages (Suc n) ?L root)" using tree_path_pages(1) [OF f(1) k(1)] last_in_set [OF tree_path_ne] by (rule subsetD)
  have hne: "im_header_page_id (bi_meta ix) \<noteq> ?u" "im_header_page_id (bi_meta ix) \<noteq> ?q" using f(3) st(15) qp by metis+
  have pk: "keeps_pins T W ?T ?W" using zf z(4) by (auto simp: keeps_pins_def ran_def split: option.split)
  have ix': "index_in (Suc n) ix ?oid root ?T ?W D"
    by (rule index_in_grown [OF ix st(17) L' _ _ _ rs]) (use hne zn(2) rz in \<open>simp_all del: tree_path.simps\<close>)
  have dp: "distinct (tree_path (Suc n) ?L root k)" using tree_path_pages(2) [OF f(1) k(1)] f(2) by blast
  have rq: "?q \<noteq> root" using dp unfolding tree_path.simps by (rule last_not_first) simp
  have ru: "root = ?u \<longleftrightarrow> n = 0"
  proof -
    have "tree_path (Suc n) ?L root k ! 0 = ?u \<longleftrightarrow> 0 = n" by (rule nth_eq_iff_index_eq [OF dp]) (simp_all add: length_tree_path)
    then show ?thesis by auto
  qed
  have rz': "root \<noteq> ?z" using zn(1) tree_pages_hd by metis
  have size: "bt_GetSize (table_contents ?oid ?T ?W D root) = bt_GetSize (?L root) + (if n = 0 then 1 else 0)"
    using fun_cong [OF L', of root] rq rz' ru st(16) by (cases "root = ?u") (simp_all del: tree_path.simps)
  have fl: "filled (Suc n) (table_contents ?oid ?T ?W D) root" if "filled (Suc n) ?L root" using st(17) that unfolding L' tree_grown_def by blast
  have ins: "inserts k rid (tree_entries (Suc n) ?L root) (tree_entries (Suc n) (table_contents ?oid ?T ?W D) root)"
    using st(17) unfolding L' tree_grown_def by blast
  show ?thesis
  proof (rule insert_split [OF see [unfolded z(1)] p k(1) hf t lf(1) st(1) [unfolded Lq] st(2,3) z(2-5) refl z0 st(4-9) up])
    show "?V2 lf = (hold WriteLatched (W lf))\<lparr>page_data := ?l\<rparr>" "?V2 zf = (fresh ?Z)\<lparr>page_data := ?r\<rparr>" "?T ?Z = Some zf" "?T (page_id (W lf)) = Some lf"
      "bt_GetPageId ?r = ?z" "tm_table_oid (one_more m) = ?oid" "lf \<noteq> zf"
      using lp zne sees_frame(3) [OF see lf(1)] lf(1) z(4) n2(1) by (auto simp: leaf_in_def)
    fix s'
    assume "sees s' ?T (?V2(lf := (W lf)\<lparr>page_data := ?l, is_dirty := True\<rparr>, zf := (fresh ?Z)\<lparr>page_data := ?r, is_dirty := True, pin_count := 0\<rparr>)) D F'"
    then have "sees s' ?T ?W D F'" by (rule sees_eq) (simp add: holding_def top_latches_def)
    then show "Q True ((s', one_more m), t)" by (rule Q [OF _ ix' z(8) ins size fl pk])
  qed
qed

lemma insert_root_case:
  assumes see: "sees s T W D F" and ix: "index_in 0 ix (tm_table_oid m) root T W D" and t: "page_set t = []"
    and k: "fits 4 k" "k \<noteq> 0" and rid: "rid_fits rid" and new: "k \<notin> fst ` set (tree_entries 0 (table_contents (tm_table_oid m) T W D) root)"
    and full: "bt_GetSize (table_contents (tm_table_oid m) T W D root) + 1 = LEAF_MAX_NODE_SIZE"
    and pages: "room_for (Suc (Suc i)) m T D F" "0 \<le> last_table_data_page_id m"
    and Q: "\<And>s' T' W' F'. sees s' T' W' D F' \<Longrightarrow> index_in (Suc 0) ix (tm_table_oid m) (next_page (one_more m)) T' W' D \<Longrightarrow> room_for i (one_more (one_more m)) T' D F' \<Longrightarrow>
      inserts k rid (tree_entries 0 (table_contents (tm_table_oid m) T W D) root) (tree_entries (Suc 0) (table_contents (tm_table_oid m) T' W' D) (next_page (one_more m))) \<Longrightarrow>
      bt_GetSize (table_contents (tm_table_oid m) T' W' D (next_page (one_more m))) = 2 \<Longrightarrow>
      filled (Suc 0) (table_contents (tm_table_oid m) T' W' D) (next_page (one_more m)) \<Longrightarrow> keeps_pins T W T' W' \<Longrightarrow> Q True ((s', one_more (one_more m)), t)"
  shows "wp (InternalInsertRecord (Suc (0 + e)) ix (int_key k) rid) Q ((s, m), t)"
proof -
  let ?oid = "tm_table_oid m" let ?L = "table_contents ?oid T W D" and ?h = "im_header_page_id (bi_meta ix)"
  let ?z = "next_page m" and ?R = "next_page (one_more m)" let ?Z = "mk_page_id ?oid ?z" and ?RR = "mk_page_id ?oid ?R"
  note f = index_in_facts [OF ix] and p = index_in_path [OF ix k(1)]
  have kb: "- (2 ^ 31) \<le> k" "k < 2 ^ 31" using k(1) by (simp_all add: fits_def)
  obtain zf F1 where z: "F = zf # F1" "Index_AllocatePage m = (Inr ?Z, one_more m)" "valid_pid ?Z" "T ?Z = None" "disk_page D ?Z = zero_page"
      "0 \<le> ?z" "?z < 2 ^ 20" "room_for (Suc i) (one_more m) (T(?Z \<mapsto> zf)) D F1"
    by (rule next_page_facts [OF pages(1)])
  have oid1: "tm_table_oid (one_more m) = ?oid" by simp
  obtain rf F2 where R: "F1 = rf # F2" "Index_AllocatePage (one_more m) = (Inr ?RR, one_more (one_more m))" "valid_pid ?RR" "(T(?Z \<mapsto> zf)) ?RR = None" "disk_page D ?RR = zero_page"
      "0 \<le> ?R" "?R < 2 ^ 20" "room_for i (one_more (one_more m)) (T(?Z \<mapsto> zf, ?RR \<mapsto> rf)) D F2"
    by (rule next_page_facts [OF z(8), unfolded oid1])
  have pn: "page_number ?RR = ?R" by (simp add: mk_page_id_def)
  have zR: "?z \<noteq> ?R" by (simp add: next_page_def)
  have TR: "T ?RR = None" using R(4) zR by (simp add: page_ids)
  have z0: "0 < ?z" "0 < ?R" using pages(2) by (simp_all add: next_page_def)
  note zn = next_not_in [OF ix z(4)] next_not_in [OF ix TR]
  have ne: "distinct [?R, root, ?z]" "?h \<noteq> root" using zn zR f(3) by auto
  obtain hf where hf: "T (mk_page_id ?oid ?h) = Some hf" "idle T W hf" using f(4) rests_idle by (auto simp: rests_def)
  obtain lf where lf: "T (mk_page_id ?oid root) = Some lf" "idle T W lf" "lf \<noteq> hf" using index_path [OF see p k(1) hf(1)] by (metis last.simps tree_path.simps(1))
  obtain b c l r K m0 pm where st: "lf_Insert (int_key k) rid Compare_int32 (?L root) = Inr b" "leaf_in b INVALID_PAGE_ID root (- (2 ^ 31)) (2 ^ 31)" "bt_GetSize b = LEAF_MAX_NODE_SIZE"
      "lf_Init ?z INVALID_PAGE_ID (bt_SetPageType_of b zero_page) = Inr c" "length c = PAGE_SIZE" "lf_MoveHalfTo b c = Inr (l, r)"
      "leaf_in l INVALID_PAGE_ID root (- (2 ^ 31)) K" "leaf_in r INVALID_PAGE_ID ?z K (2 ^ 31)" "lf_KeyAt r 0 = Inr (int_key K)"
      "in_Init ?R INVALID_PAGE_ID zero_page = Inr m0" "length m0 = PAGE_SIZE" "in_PopulateNewRoot root (int_key K) ?z m0 = Inr pm" "length pm = PAGE_SIZE" "bt_GetSize pm = 2"
      "\<forall>L'. L' ?R = pm \<longrightarrow> L' root = bt_SetParentPageId ?R (lf_SetNextPageId ?z l) \<longrightarrow> L' ?z = bt_SetParentPageId ?R (lf_SetNextPageId (lf_GetNextPageId l) r) \<longrightarrow>
        tree_ok (Suc 0) L' INVALID_PAGE_ID ?R (- (2 ^ 31)) (2 ^ 31) \<and> inserts k rid (leaf_entries (?L root)) (tree_entries (Suc 0) L' ?R) \<and> tree_pages (Suc 0) L' ?R = [?R, root, ?z] \<and>
        filled (Suc 0) L' ?R"
    by (rule root_step [OF f(1) k(1) kb k(2) rid new [unfolded tree_entries.simps] z0(1) z(7) z0(2) R(7) ne(1) full])
  let ?l = "lf_SetNextPageId ?z l" and ?r = "lf_SetNextPageId (lf_GetNextPageId l) r"
  let ?l2 = "bt_SetParentPageId ?R ?l" and ?r2 = "bt_SetParentPageId ?R ?r" and ?hd = "hd_SetRootPageId ?R (page_data (W hf))"
  let ?T1 = "T(?Z \<mapsto> zf)" and ?V1 = "(holding (top_latches 0 hf @ [lf]) W)(zf := (fresh ?Z)\<lparr>page_data := ?r\<rparr>, lf := (hold WriteLatched (W lf))\<lparr>page_data := ?l\<rparr>)"
  let ?T2 = "?T1(?RR \<mapsto> rf)"
  let ?V2 = "?V1(rf := (fresh ?RR)\<lparr>is_dirty := True, pin_count := 0, page_data := pm\<rparr>, lf := (hold WriteLatched (W lf))\<lparr>page_data := ?l2\<rparr>,
    zf := (fresh ?Z)\<lparr>page_data := ?r2\<rparr>, hf := (W hf)\<lparr>page_data := ?hd, is_dirty := True\<rparr>)"
  let ?W = "W(hf := (W hf)\<lparr>page_data := ?hd, is_dirty := True\<rparr>, lf := (W lf)\<lparr>page_data := ?l2, is_dirty := True\<rparr>,
    zf := (fresh ?Z)\<lparr>page_data := ?r2, is_dirty := True, pin_count := 0\<rparr>, rf := (fresh ?RR)\<lparr>is_dirty := True, pin_count := 0, page_data := pm\<rparr>)"
  have Lq: "?L root = page_data (W lf)" "?L ?h = page_data (W hf)" using lf(1) hf(1) by (simp_all add: contents_def)
  have idle: "lf \<in> ran T" "pin_count (W lf) \<noteq> - 1" "hf \<in> ran T" "pin_count (W hf) \<noteq> - 1" "rwlatch (W hf) = Unlatched" "rwlatch (W lf) = Unlatched"
    using lf(2) hf(2) by (simp_all add: idle_def)
  have zf: "zf \<notin> ran T" using sees_frame(6) [OF see] z(1) by (auto simp: ran_def)
  have dF: "distinct F" using bp_invD(12) [OF sees_bp(2) [OF see]] see by (simp add: sees_def)
  have rf: "rf \<notin> ran T" "rf \<noteq> zf" using sees_frame(6) [OF see] z(1) R(1) dF by (auto simp: ran_def)
  have rf1: "rf \<notin> ran ?T1" using rf z(4) by (simp add: ran_map_upd)
  have zne: "lf \<noteq> zf" "hf \<noteq> zf" "lf \<noteq> rf" "hf \<noteq> rf" using idle(1,3) zf rf(1) by auto
  note n1 = leaf_in_next [OF st(7), of ?z] and n2 = leaf_in_next [OF st(8), of "lf_GetNextPageId l"]
  have len: "length ?l = PAGE_SIZE" "length ?r = PAGE_SIZE" "length (page_data (W hf)) = PAGE_SIZE"
    using n1(1) n2(1) sees_frame(5) [OF see hf(1)] by (simp_all add: leaf_in_def leaf_ok_def leaf_page_def)
  have up: "wp (InsertIntoParent (Suc (0 + e)) lf zf (int_key K) hf) P ((s', one_more m), t\<lparr>page_set := top_latches 0 hf\<rparr>)"
    if s': "sees s' ?T1 ?V1 D (rf # F2)" and P: "\<And>s''. sees s'' ?T2 ?V2 D F2 \<Longrightarrow> P () ((s'', one_more (one_more m)), t)" for s' P
  proof (rule wp_parent_root [OF s' R(2-5), where n = ?R and q = root and z = ?z and W = W and blank = m0 and b = pm])
    show "lf \<in> ran ?T1" "zf \<in> ran ?T1" "hf \<in> ran ?T1" using idle z(4) by (simp_all add: ran_map_upd)
    show "P () ((s'', one_more (one_more m)), t\<lparr>page_set := top_latches 0 hf\<rparr>\<lparr>page_set := []\<rparr>)"
      if "sees s'' ?T2 (?V1(rf := (fresh ?RR)\<lparr>is_dirty := True, pin_count := 0, page_data := pm\<rparr>, lf := (?V1 lf)\<lparr>page_data := bt_SetParentPageId ?R (page_data (?V1 lf))\<rparr>,
        zf := (?V1 zf)\<lparr>page_data := bt_SetParentPageId ?R (page_data (?V1 zf))\<rparr>, hf := (W hf)\<lparr>page_data := ?hd, is_dirty := True\<rparr>)) D F2" for s''
    proof -
      have "sees s'' ?T2 ?V2 D F2" by (rule sees_eq [OF that]) (use zne in simp)
      then show ?thesis using P t by (cases t) simp
    qed
  qed (use idle zne lf(3) n1(1) n2(1) st(10-13) Lq(2) hf(1) z(4) f(6) len sees_frame(3) [OF see hf(1)] pin_up pn in \<open>auto simp: ran_map_upd top_latches_def holding_def leaf_in_def\<close>)
  have L': "table_contents ?oid ?T2 ?W D = ?L(?h := ?hd, root := ?l2, ?z := ?r2, ?R := pm)"
  proof -
    have "contents T (W(hf := (W hf)\<lparr>page_data := ?hd, is_dirty := True\<rparr>, lf := (W lf)\<lparr>page_data := ?l2, is_dirty := True\<rparr>)) D (mk_page_id ?oid x) = (?L(?h := ?hd, root := ?l2)) x" for x
      using contents_two [OF see hf(1) lf(1) lf(3) [symmetric]] by (simp add: page_ids)
    then show ?thesis using table_contents_new [OF zf, of ?oid ?z] table_contents_new [OF rf1, of ?oid ?R] by (simp add: fun_eq_iff)
  qed
  have rs: "rests ?T2 ?W pid" if "rests T W pid" for pid
    by (rule rests_new [OF rests_new [OF _ zf z(4)] rf1 R(4)]) (use that lf(3) in \<open>simp add: rests_upd\<close>)
  have rz: "rests ?T2 ?W ?Z" "rests ?T2 ?W ?RR" using zR rf(2) by (simp_all add: rests_def page_ids)
  have t2: "tree_ok (Suc 0) (table_contents ?oid ?T2 ?W D) INVALID_PAGE_ID ?R (- (2 ^ 31)) (2 ^ 31)"
      "inserts k rid (leaf_entries (?L root)) (tree_entries (Suc 0) (table_contents ?oid ?T2 ?W D) ?R)" "tree_pages (Suc 0) (table_contents ?oid ?T2 ?W D) ?R = [?R, root, ?z]"
      "filled (Suc 0) (table_contents ?oid ?T2 ?W D) ?R"
    using st(15) [rule_format, of "table_contents ?oid ?T2 ?W D"] fun_cong [OF L'] ne zR by (simp_all del: filled.simps)
  have hd: "get_uint 0 4 ?hd = IndexPageType_code HEADER_PAGE" "hd_GetRootPageId ?hd = ?R" and sz: "bt_GetSize (table_contents ?oid ?T2 ?W D ?R) = 2"
    using f(6) Lq(2) len(3) R(6,7) fun_cong [OF L', of ?R] st(14) by (simp_all add: hd_SetRootPageId_def hd_GetRootPageId_def mem_simps fits_def)
  have pk: "keeps_pins T W ?T2 ?W" using zf z(4) rf TR zne by (auto simp: keeps_pins_def ran_def split: option.split)
  have ix': "index_in (Suc 0) ix ?oid ?R ?T2 ?W D"
    using t2(1-3) rs f(4,5,8) rz hd fun_cong [OF L', of ?h] ne zn unfolding index_in_def index_at_def by (simp del: tree_pages.simps(2) tree_ok.simps)
  show ?thesis
  proof (rule insert_split [OF see [unfolded z(1) R(1)] p k(1) hf(1) t _ _ st(2,3) z(2-5) refl z0(1) st(4-9) up])
    show "T (mk_page_id ?oid (leaf_page_of 0 ?oid root T W D k)) = Some lf" "lf_Insert (int_key k) rid Compare_int32 (page_data (W lf)) = Inr b"
      using lf(1) st(1) Lq by simp_all
    show "?V2 lf = (hold WriteLatched (W lf))\<lparr>page_data := ?l2\<rparr>" "?V2 zf = (fresh ?Z)\<lparr>page_data := ?r2\<rparr>" "?T2 ?Z = Some zf" "?T2 (page_id (W lf)) = Some lf"
      "bt_GetPageId ?r2 = ?z" "tm_table_oid (one_more (one_more m)) = ?oid" "lf \<noteq> zf"
      using lf zne sees_frame(3) [OF see lf(1)] z(4) TR zR ne leaf_in_parent(1) [OF n2(1), of ?R] z0(2) R(7) page_fits by (auto simp: leaf_in_def page_ids)
    fix s'
    assume "sees s' ?T2 (?V2(lf := (W lf)\<lparr>page_data := ?l2, is_dirty := True\<rparr>, zf := (fresh ?Z)\<lparr>page_data := ?r2, is_dirty := True, pin_count := 0\<rparr>)) D F2"
    then have "sees s' ?T2 ?W D F2" by (rule sees_eq) (use zne rf lf(3) in \<open>auto simp: holding_def top_latches_def\<close>)
    then show "Q True ((s', one_more (one_more m)), t)" by (rule Q [OF _ ix' R(8) _ sz t2(4) pk]) (use t2(2) in simp)
  qed
qed

end
