(* ===== verification/KeyedStores.thy ===== *)
theory KeyedStores
  imports Prelude
begin

text \<open>
  The contract of a store of keys and values, as a client that only inserts and looks up sees it,
  and what follows for sequences of calls. \<open>holds n f s\<close> relates a state to the map it stores; \<open>n\<close> bounds
  the calls that may still follow, for stores that use up something with every call.
\<close>

datatype ('k, 'v) store_call = Put 'k 'v | Get 'k

fun run_calls :: "('k \<Rightarrow> 'v \<Rightarrow> ('s, bool) action) \<Rightarrow> ('k \<Rightarrow> ('s, bool \<times> 'v list) action) \<Rightarrow> ('k, 'v) store_call list \<Rightarrow> ('s, (bool \<times> 'v list) list) action" where
  "run_calls put get [] = ret []"
| "run_calls put get (Put k v # cs) = bind (put k v) (\<lambda>b. bind (run_calls put get cs) (\<lambda>rs. ret ((b, []) # rs)))"
| "run_calls put get (Get k # cs) = bind (get k) (\<lambda>r. bind (run_calls put get cs) (\<lambda>rs. ret (r # rs)))"

text \<open>The same calls on a map.\<close>

definition map_get :: "('k \<rightharpoonup> 'v) \<Rightarrow> 'k \<Rightarrow> bool \<times> 'v list" where
  "map_get f k = (case f k of None \<Rightarrow> (False, []) | Some v \<Rightarrow> (True, [v]))"

fun map_calls :: "('k, 'v) store_call list \<Rightarrow> ('k \<rightharpoonup> 'v) \<Rightarrow> (bool \<times> 'v list) list" where
  "map_calls [] f = []"
| "map_calls (Put k v # cs) f = (True, []) # map_calls cs (f(k \<mapsto> v))"
| "map_calls (Get k # cs) f = map_get f k # map_calls cs f"

fun map_after :: "('k, 'v) store_call list \<Rightarrow> ('k \<rightharpoonup> 'v) \<Rightarrow> ('k \<rightharpoonup> 'v)" where
  "map_after [] f = f"
| "map_after (Put k v # cs) f = map_after cs (f(k \<mapsto> v))"
| "map_after (Get k # cs) f = map_after cs f"

text \<open>Every key inserted is new, and keys and values are ones that the store takes.\<close>

fun allowed :: "('k \<Rightarrow> bool) \<Rightarrow> ('k \<Rightarrow> bool) \<Rightarrow> ('v \<Rightarrow> bool) \<Rightarrow> ('k, 'v) store_call list \<Rightarrow> ('k \<rightharpoonup> 'v) \<Rightarrow> bool" where
  "allowed get_key put_key put_value [] f = True"
| "allowed get_key put_key put_value (Put k v # cs) f = (put_key k \<and> put_value v \<and> f k = None \<and> allowed get_key put_key put_value cs (f(k \<mapsto> v)))"
| "allowed get_key put_key put_value (Get k # cs) f = (get_key k \<and> allowed get_key put_key put_value cs f)"

lemma map_calls_append: "map_calls (as @ bs) f = map_calls as f @ map_calls bs (map_after as f)"
proof (induction as arbitrary: f)
  case (Cons a as)
  then show ?case by (cases a) (simp_all del: fun_upd_apply)
qed simp

lemma allowed_append: "allowed g p v (as @ bs) f \<longleftrightarrow> allowed g p v as f \<and> allowed g p v bs (map_after as f)"
proof (induction as arbitrary: f)
  case (Cons a as)
  then show ?case by (cases a) (simp_all del: fun_upd_apply)
qed simp

lemma puts:
  shows "map_calls (map (\<lambda>k. Put k v) ks) f = replicate (length ks) (True, [])"
    and "map_after (map (\<lambda>k. Put k v) ks) f = (\<lambda>x. if x \<in> set ks then Some v else f x)"
  by (induction ks arbitrary: f) (simp_all add: fun_eq_iff)

lemma allowed_puts:
  "distinct ks \<Longrightarrow> \<forall>k \<in> set ks. p k \<and> f k = None \<Longrightarrow> pv v \<Longrightarrow> allowed g p pv (map (\<lambda>k. Put k v) ks) f"
proof (induction ks arbitrary: f)
  case (Cons k ks)
  have "allowed g p pv (map (\<lambda>k. Put k v) ks) (f(k \<mapsto> v))" by (rule Cons.IH) (use Cons.prems in auto)
  then show ?case using Cons.prems by simp
qed simp

locale keyed_store =
  fixes holds :: "nat \<Rightarrow> ('k \<rightharpoonup> 'v) \<Rightarrow> 's \<Rightarrow> bool" and put :: "'k \<Rightarrow> 'v \<Rightarrow> ('s, bool) action" and get :: "'k \<Rightarrow> ('s, bool \<times> 'v list) action"
    and get_key :: "'k \<Rightarrow> bool" and put_key :: "'k \<Rightarrow> bool" and put_value :: "'v \<Rightarrow> bool"
  assumes put_new: "holds (Suc n) f s \<Longrightarrow> put_key k \<Longrightarrow> put_value v \<Longrightarrow> f k = None \<Longrightarrow> \<exists>s'. put k v s = (Inr True, s') \<and> holds n (f(k \<mapsto> v)) s'"
    and get_any: "holds (Suc n) f s \<Longrightarrow> get_key k \<Longrightarrow> \<exists>s'. get k s = (Inr (map_get f k), s') \<and> holds n f s'"
begin

lemma calls_refine:
  assumes "holds (n + length cs) f s" and "allowed get_key put_key put_value cs f"
  shows "\<exists>s'. run_calls put get cs s = (Inr (map_calls cs f), s') \<and> holds n (map_after cs f) s'"
  using assms
proof (induction cs arbitrary: f s)
  case (Cons c cs)
  show ?case
  proof (cases c)
    case (Put k v)
    obtain s' where s': "put k v s = (Inr True, s')" "holds (n + length cs) (f(k \<mapsto> v)) s'"
      using put_new [of "n + length cs" f s k v] Cons.prems Put by auto
    obtain s'' where "run_calls put get cs s' = (Inr (map_calls cs (f(k \<mapsto> v))), s'')" "holds n (map_after cs (f(k \<mapsto> v))) s''"
      using Cons.IH [OF s'(2)] Cons.prems(2) Put by (auto simp del: fun_upd_apply)
    then show ?thesis using s'(1) Put by (simp add: act_simps)
  next
    case (Get k)
    obtain s' where s': "get k s = (Inr (map_get f k), s')" "holds (n + length cs) f s'"
      using get_any [of "n + length cs" f s k] Cons.prems Get by auto
    then show ?thesis using Cons.IH [OF s'(2)] Cons.prems(2) Get by (auto simp: act_simps)
  qed
qed (simp add: act_simps)

text \<open>What was put is found, whatever is put behind it.\<close>

lemma put_then_get:
  assumes "holds (Suc (length cs + 1)) f s" and "put_key k" "put_value v" "f k = None" "get_key k"
    and "allowed get_key put_key put_value cs (f(k \<mapsto> v))"
  shows "\<exists>s' rs. run_calls put get (Put k v # cs @ [Get k]) s = (Inr ((True, []) # rs @ [(True, [v])]), s')"
proof -
  have kept: "map_after cs g k = Some v" if "g k = Some v" "allowed get_key put_key put_value cs g" for g
    using that
  proof (induction cs arbitrary: g)
    case (Cons c cs)
    show ?case
    proof (cases c)
      case (Put k' v')
      have "(g(k' \<mapsto> v')) k = Some v" "allowed get_key put_key put_value cs (g(k' \<mapsto> v'))" using Cons.prems Put by auto
      then have "map_after cs (g(k' \<mapsto> v')) k = Some v" by (rule Cons.IH)
      then show ?thesis using Put by simp
    qed (use Cons in simp)
  qed simp
  have "allowed get_key put_key put_value (Put k v # cs @ [Get k]) f" using assms by (simp add: allowed_append)
  moreover have "holds (0 + length (Put k v # cs @ [Get k])) f s" using assms(1) by simp
  ultimately obtain s' where "run_calls put get (Put k v # cs @ [Get k]) s = (Inr (map_calls (Put k v # cs @ [Get k]) f), s')"
    using calls_refine by blast
  then show ?thesis using kept [of "f(k \<mapsto> v)"] assms(6) by (simp add: map_calls_append map_get_def)
qed

end

end
