(* ===== verification/PoolProperties.thy ===== *)
theory PoolProperties
  imports BufferPools
begin

text \<open>
  The properties of the buffer pool: reads see the last write through any sequence of
  fetches, unpins, flushes, evictions and new pages; progress; durability of a flush; and three
  behaviours of the code that its users have to know about.
\<close>

section \<open>Progress\<close>

lemma FetchPage_free:
  assumes inv: "bp_inv s" and fl: "free_list s = f # rest" and pid: "page_table s pid = None" "valid_pid pid"
    and rd: "ReadPage pid (disk_manager s) = (r, d)"
  shows "\<exists>s'. FetchPage pid s = (case r of Inl e \<Rightarrow> Inl e | Inr bs \<Rightarrow> Inr f, s') \<and> free_list s' = rest \<and>
     replacer s' = replacer s \<and> page_table s' pid = Some f \<and>
     pages s' = (pages s)[f := (pages s ! f)\<lparr>page_id := pid, pin_count := 1, is_dirty := False,
       page_data := (case r of Inl e \<Rightarrow> zero_page | Inr bs \<Rightarrow> bs)\<rparr>]"
proof -
  have f: "f \<in> set (free_list s)" using fl by simp
  note ff = bp_invD(13-16) [OF inv f] and len = bp_invD(2) [OF inv]
  have pn: "page_number pid \<noteq> - 1" using pid(2) by (auto simp: valid_pid_def)
  have z: "p\<lparr>page_id := pid, pin_count := 1, is_dirty := False, page_data := zero_page\<rparr> =
      p\<lparr>page_id := pid, pin_count := 1, is_dirty := False\<rparr>" if "page_data p = zero_page" for p :: Page
    using that by (cases p) simp
  show ?thesis
  proof (cases r)
    case (Inl e)
    show ?thesis
      unfolding Inl sum.case z [OF ff(4)]
      using fl pid pn rd ff len Inl by (simp add: FetchPage_def AllocateFrame_def act_simps)
  next
    case (Inr bs)
    then show ?thesis using fl pid pn rd ff len by (simp add: FetchPage_def AllocateFrame_def act_simps)
  qed
qed

lemma NewPage_free:
  assumes inv: "bp_inv s" and fl: "free_list s \<noteq> []" and alloc: "AllocatePage a = (Inr pid, a')"
    and pid: "valid_pid pid" "page_table s pid = None" "disk_page (disk_manager s) pid = zero_page"
  obtains f s' where "NewPage AllocatePage (s, a) = (Inr (f, pid), (s', a'))"
    and "disk_manager s' = disk_manager s" and "pool_size s' = pool_size s"
proof -
  obtain f rest where fr: "free_list s = f # rest" using fl by (cases "free_list s") auto
  have al: "AllocateFrame s = (Inr (Some f), s\<lparr>free_list := rest\<rparr>)" by (simp add: AllocateFrame_def act_simps fr)
  have "f < length (pages s)" "f \<notin> set rest"
    using bp_invD(2) [OF inv] bp_invD(13) [OF inv, of f] bp_invD(12) [OF inv] fr by auto
  then obtain s2 where s2: "NewPage_frame s = (Inr f, s2)" "disk_manager s2 = disk_manager s" "pool_size s2 = pool_size s"
    using al by (simp add: NewPage_frame_def act_simps)
  then have t: "took s f s2" using NewPage_frame_spec [OF inv s2(1)] by auto
  obtain s3 where s3: "NewPage_install f pid s2 = (Inr (), s3)" "disk_manager s3 = disk_manager s" "pool_size s3 = pool_size s"
    using NewPage_install_run [OF t pid(1,2)] s2 by simp
  then have "NewPage AllocatePage (s, a) = (Inr (f, pid), (s3, a'))"
    using s2 alloc by (simp add: NewPage_def zoom_def bind_def ret_def)
  then show ?thesis using that s3 by blast
qed

text \<open>
  C25: A page that is cached can always be fetched; one that is not can be fetched when a frame is
  free, its table's file can be opened and the page starts at or before the end of the file. The
  call returns a frame, it does not only promise something if it returns.
\<close>

theorem fetch_progress:
  assumes "bp_inv s" and "valid_pid pid"
    and "page_table s pid \<noteq> None \<or> free_list s \<noteq> [] \<and> reachable_table (disk_manager s) (table_id pid) \<and>
      PAGE_SIZE * nat (page_number pid) \<le> length (content (disk_manager s) (table_id pid))"
  shows "\<exists>f s'. FetchPage pid s = (Inr f, s') \<and> page_table s' pid = Some f"
proof (cases "page_table s pid")
  case (Some f)
  then show ?thesis
    using FetchPage_hit [OF assms(1) Some] touch_pins(3) [OF assms(1) Some] by simp
next
  case None
  with assms(3) obtain f rest where fr: "free_list s = f # rest" by (cases "free_list s") auto
  obtain d where "ReadPage pid (disk_manager s) = (Inr (disk_page (disk_manager s) pid), d)"
    using ReadPage_ok [OF bp_invD(1) [OF assms(1)] assms(2)] assms(3) None by auto
  from FetchPage_free [OF assms(1) fr None assms(2) this] show ?thesis by auto
qed

definition demo_pool :: "nat \<Rightarrow> BufferPool" where
  "demo_pool n = mk_BufferPool n demo_disk"

lemma demo_pool_facts:
  "bp_inv (demo_pool n)" "page_table (demo_pool n) q = None" "free_list (demo_pool n) = [0..<n]" "pool_size (demo_pool n) = n"
  "disk_manager (demo_pool n) = demo_disk" "replacer (demo_pool n) = []" "pins (demo_pool n) q = 0"
  using mk_BufferPool_inv [OF demo_disk_facts(1)] by (simp_all add: demo_pool_def) (simp_all add: mk_BufferPool_def)

theorem fetch_progress_witness:
  "\<exists>f s'. FetchPage (mk_page_id 0 0) (demo_pool 2) = (Inr f, s') \<and> page_table s' (mk_page_id 0 0) = Some f"
  using fetch_progress [of "demo_pool 2" "mk_page_id 0 0"]
  by (simp add: demo_pool_facts demo_disk_facts valid_pid_def)

section \<open>Read your writes\<close>

text \<open>
  C1: The pool is a transparent cache. Start from an empty pool of any size over a disk that
  satisfies the disk invariant, and run any sequence of fetches, unpins, flushes, new pages and
  writes in which the client keeps its side of the contract: a page fetched then has the contents
  of the last write to it, or those the disk had at the start if there was none, whatever was
  evicted in between; and the pool's invariant holds.
\<close>

theorem pool_read_your_writes:
  assumes "disk_inv d" and "pool_steps ops (mk_BufferPool n d) s" and "valid_pid pid" and "pins s pid \<noteq> - 1"
    and "FetchPage pid s = (Inr f, s')"
  shows "bp_inv s' \<and> page_table s' pid = Some f \<and> page_data (pages s' ! f) = fold spec_step ops (disk_page d) pid"
proof -
  have "bp_inv s" "logical s pid = fold spec_step ops (disk_page d) pid"
    using pool_steps_refine [OF assms(2) mk_BufferPool_inv(1) [OF assms(1)]] mk_BufferPool_inv(2) [OF assms(1)] assms(3)
    by auto
  with FetchPage_ok [OF _ assms(3,4,5)] show ?thesis by simp
qed

lemma demo_valid: "valid_pid (mk_page_id 0 0)"
  by (simp add: valid_pid_def)

lemma demo_run:
  assumes v: "valid_pid p"
  obtains s where "pool_steps [OpNew p, OpWrite p (replicate PAGE_SIZE 7), OpUnpin p True] (demo_pool 1) s"
    and "pins s p = 0" and "page_table s p \<noteq> None" and "bp_inv s"
    and "free_list s = []" and "replacer s = [(0, True)]" and "disk_manager s = demo_disk" and "pool_size s = 1" and "logical s p = replicate PAGE_SIZE 7"
proof -
  let ?al = "\<lambda>a :: int. (Inr p :: PageId result, a)"
  have z: "disk_page demo_disk p = zero_page"
    by (rule nth_equalityI) (simp_all add: disk_page_def demo_disk_facts byte_at_def zero_page_def)
  obtain f s1 where n: "NewPage ?al (demo_pool 1, 0) = (Inr (f, p), (s1, 0))" "disk_manager s1 = demo_disk" "pool_size s1 = 1"
    using NewPage_free [OF demo_pool_facts(1), of 1 ?al 0 p 0] v z by (auto simp: demo_pool_facts)
  note n = n(1) and s1d = n(2,3)
  have f0: "f = 0" "free_list s1 = []" "replacer s1 = [(0, False)]"
    using n by (auto simp: NewPage_def NewPage_frame_def NewPage_install_def AllocateFrame_def demo_pool_def
        mk_BufferPool_def zoom_def bind_def act_simps upt_rec Replacer_Pin_def mk_Page_def update_page_def
        page_at_def assert_that_def ret_def throw_def gets_def modify_def split: if_splits)
  have s1: "bp_inv s1" "page_table s1 p = Some f" "pins s1 p = 1"
    by (cases rule: NewPage_spec [OF demo_pool_facts(1) refl v demo_pool_facts(2) _ n]; simp add: demo_pool_facts z)+
  define s2 where "s2 = write_frame f (replicate PAGE_SIZE 7) s1"
  have w: "bp_inv s2" "page_table s2 p = Some f" "pins s2 p = 1"
    using write_frame_spec [OF s1(1,2)] s1 by (simp_all add: s2_def)
  have wl: "logical s2 p = replicate PAGE_SIZE 7" "disk_manager s2 = demo_disk" "pool_size s2 = 1"
    using write_frame_spec [OF s1(1,2)] s1 s1d by (simp_all add: s2_def) (simp add: write_frame_def)
  obtain s3 where u: "UnpinPage p True s2 = (Inr True, s3)" and sz: "pool_size s3 = 1" "free_list s3 = []" "replacer s3 = [(0, True)]"
    using UnpinPage_run [OF w(1,2), of True] w(3) wl f0 by (simp add: touch_def s2_def write_frame_def Replacer_Unpin_def frame_set_def)
  note us = UnpinPage_spec [OF w(1,2) _ _ u]
  have "pool_step (OpNew p) (demo_pool 1) s1"
    by (rule pool_step.new [OF _ v _ _ n]) (simp_all add: demo_pool_facts z)
  moreover have "pool_step (OpWrite p (replicate PAGE_SIZE 7)) s1 s2"
    by (rule pool_step.store [OF s1(2)]) (simp_all add: s1 s2_def)
  moreover have "pool_step (OpUnpin p True) s2 s3"
    by (rule pool_step.unpin [OF w(2) _ _ u]) (simp_all add: w)
  ultimately have "pool_steps [OpNew p, OpWrite p (replicate PAGE_SIZE 7), OpUnpin p True] (demo_pool 1) s3"
    by (blast intro: pool_steps.intros)
  then show ?thesis using that us w wl sz by simp
qed

theorem pool_read_your_writes_witness:
  "\<exists>s f s'. pool_steps [OpNew (mk_page_id 0 0), OpWrite (mk_page_id 0 0) (replicate PAGE_SIZE 7),
      OpUnpin (mk_page_id 0 0) True] (mk_BufferPool 1 demo_disk) s \<and>
     FetchPage (mk_page_id 0 0) s = (Inr f, s') \<and> page_data (pages s' ! f) = replicate PAGE_SIZE 7"
proof -
  obtain s where s: "pool_steps [OpNew (mk_page_id 0 0), OpWrite (mk_page_id 0 0) (replicate PAGE_SIZE 7),
      OpUnpin (mk_page_id 0 0) True] (demo_pool 1) s"
      "pins s (mk_page_id 0 0) = 0" "page_table s (mk_page_id 0 0) \<noteq> None" "bp_inv s"
    using demo_run [OF demo_valid] by blast
  then obtain f s' where f: "FetchPage (mk_page_id 0 0) s = (Inr f, s')" using FetchPage_hit by blast
  have "page_data (pages s' ! f) = replicate PAGE_SIZE 7"
    using pool_read_your_writes [OF demo_disk_facts(1) s(1) [unfolded demo_pool_def] _ _ f] s(2)
    by (simp add: valid_pid_def)
  with s(1) f show ?thesis unfolding demo_pool_def by blast
qed

section \<open>Durability\<close>

text \<open>
  C26: When \<^verbatim>\<open>FlushAllPages\<close> returns, the disk holds the newest version of every page, the
  pool's contents and pin counts are what they were and its invariant holds.
\<close>

theorem flush_all_durable:
  assumes "bp_inv s" and "FlushAllPages s = (Inr (), s')"
  shows "bp_inv s' \<and> same_pages s s' \<and> pins s' = pins s \<and>
     (\<forall>q. valid_pid q \<longrightarrow> disk_page (disk_manager s') q = logical s q)"
proof -
  have "FlushFrames [0..<pool_size s] s = (Inr (), s')" using assms(2) by (simp add: FlushAllPages_def act_simps)
  note fs = FlushFrames_spec [OF assms(1) this]
  have "disk_page (disk_manager s') q = logical s q" if v: "valid_pid q" for q
  proof -
    have "disk_page (disk_manager s') q = logical s' q"
    proof (cases "page_table s' q")
      case None
      then show ?thesis by (simp add: logical_def)
    next
      case (Some f)
      have inv': "bp_inv s'" using fs by simp
      note f = bp_invD(4,5) [OF inv' Some]
      then have "flushed s' f" using fs by simp
      then show ?thesis using f(2) Some by (simp add: flushed_def mapped_def)
    qed
    then show ?thesis using fs v by (simp add: same_pages_def)
  qed
  then show ?thesis using fs by simp
qed

theorem flush_all_durable_witness:
  "\<exists>s s'. pool_steps [OpNew (mk_page_id 0 0), OpWrite (mk_page_id 0 0) (replicate PAGE_SIZE 7),
      OpUnpin (mk_page_id 0 0) True] (demo_pool 1) s \<and> FlushAllPages s = (Inr (), s') \<and>
     disk_page (disk_manager s') (mk_page_id 0 0) = replicate PAGE_SIZE 7"
proof -
  let ?p = "mk_page_id 0 0"
  obtain s f where s: "pool_steps [OpNew ?p, OpWrite ?p (replicate PAGE_SIZE 7), OpUnpin ?p True] (demo_pool 1) s"
      "page_table s ?p = Some f" "bp_inv s" "disk_manager s = demo_disk" "pool_size s = 1"
      "logical s ?p = replicate PAGE_SIZE 7"
    using demo_run [OF demo_valid] by blast
  have f: "f = 0" "page_id (pages s ! f) = ?p" "length (pages s) = 1"
    using bp_invD(4,5) [OF s(3,2)] bp_invD(2) [OF s(3)] s(5) by auto
  have "reachable_table (disk_manager s) (table_id ?p)" by (simp add: s(4) demo_disk_facts)
  then obtain d where "WritePage ?p (page_data (pages s ! f)) (disk_manager s) = (Inr (), d)"
    using WritePage_ok [OF bp_invD(1) [OF s(3)]] by blast
  then obtain s' where run: "FlushAllPages s = (Inr (), s')"
    using s(2,5) f by (simp add: FlushAllPages_def FlushPage_def act_simps upt_rec)
  have "disk_page (disk_manager s') ?p = replicate PAGE_SIZE 7"
    using flush_all_durable [OF s(3) run] s(6) by (simp add: valid_pid_def)
  with s(1) run show ?thesis by blast
qed

section \<open>Behaviours to know about\<close>

text \<open>Fetching and unpinning a run of pages, one after the other.\<close>

fun visit_all :: "PageId list \<Rightarrow> (BufferPool, unit) action" where
  "visit_all [] = ret ()"
| "visit_all (p # ps) = bind (FetchPage p) (\<lambda>_. bind (UnpinPage p False) (\<lambda>_. visit_all ps))"

lemma visit_one:
  assumes inv: "bp_inv s" and fl: "free_list s = f # rest" and rep: "replacer s = []"
    and pid: "page_table s p = None" "valid_pid p"
    and run: "FetchPage p s = (Inr g, s1)" "UnpinPage p False s1 = (Inr b, s2)"
  shows "bp_inv s2" and "free_list s2 = rest" and "replacer s2 = []" and "pins s2 = pins s"
    and "page_table s2 q = None \<longleftrightarrow> page_table s q = None \<and> q \<noteq> p"
proof -
  obtain r d where rd: "ReadPage p (disk_manager s) = (r, d)" by fastforce
  note ff = FetchPage_free [OF inv fl pid rd]
  have p0: "pins s p = 0" using pid(1) by (simp add: pins_def)
  note ok = FetchPage_ok [OF inv pid(2) _ run(1)]
  have g: "g = f" using ff run(1) by (cases r) auto
  have s1: "bp_inv s1" "page_table s1 p = Some f" "pins s1 = (pins s)(p := 1)"
    "page_data (pages s1 ! f) = logical s1 p" "free_list s1 = rest" "replacer s1 = []"
    using ok ff run(1) p0 rep g by (auto simp: logical_def)
  have f1: "f < length (pages s)" using bp_invD(13) [OF inv, of f] fl bp_invD(2) [OF inv] by simp
  have l: "logical s p = disk_page (disk_manager s) p" using pid(1) by (simp add: logical_def)
  have dsk: "page_data (pages s1 ! f) = disk_page (disk_manager s1) p"
  proof -
    obtain f' s2' d' where t: "took s f' s2'" "ReadPage p (disk_manager s2') = (Inr (disk_page (disk_manager s2') p), d')"
        and d1: "disk_manager s1 = d'"
      using FetchPage_miss [OF inv pid run(1)] by (cases; auto)
    have dinv: "disk_inv (disk_manager s2')" using t(1) bp_invD(1) by (auto simp: took_def)
    have n2: "page_table s2' p = None" using took_pins(4) [OF t(1) pid(1)] .
    have "disk_page d' p = disk_page (disk_manager s2') p"
      using ReadPage_spec(1) [OF dinv pid(2) t(2)] pid(2) by (simp add: disk_post_def)
    moreover have "logical s2' p = logical s p" using t(1) pid(2) by (simp add: took_def same_pages_def)
    ultimately show ?thesis using ok(4) p0 g n2 d1 by (simp add: logical_def [of s2'])
  qed
  note us = UnpinPage_spec [OF s1(1,2) _ _ run(2)]
  have us': "s2 = touch f 0 (is_dirty (pages s1 ! f) \<or> False) (Replacer_Unpin f (replacer s1)) s1"
    using UnpinPage_run [OF s1(1,2), of False] run(2) s1(3) by simp
  show "bp_inv s2" using us(2) s1(3) dsk by simp
  show "free_list s2 = rest" "replacer s2 = []"
    unfolding us' using s1(5,6) by (simp_all add: touch_def Replacer_Unpin_def)
  show "pins s2 = pins s" using us(4) s1(3) p0 dsk by (simp add: fun_eq_iff)
  have "page_table s2 = page_table s1" using us(6) s1(3) dsk by simp
  moreover have "page_table s1 q = None \<longleftrightarrow> page_table s q = None \<and> q \<noteq> p"
  proof -
    have "page_table s1 = (page_table s)(p \<mapsto> f)"
    proof -
      have "page_table s (page_id (pages s ! f)) = None"
        using bp_invD(8) [OF inv, of "page_id (pages s ! f)"] bp_invD(14) [OF inv, of f] fl
        by (cases "page_table s (page_id (pages s ! f))") (auto simp: valid_pid_def)
      then show ?thesis
        using run(1) fl pid f1 rd bp_invD(2) [OF inv]
        by (cases r) (auto simp: FetchPage_def AllocateFrame_def act_simps fun_upd_idem bind_def assert_that_def
            ret_def throw_def split: if_splits)
    qed
    then show ?thesis by auto
  qed
  ultimately show "page_table s2 q = None \<longleftrightarrow> page_table s q = None \<and> q \<noteq> p" by simp
qed

text \<open>
  C29: A page that is only ever read in by \<^verbatim>\<open>FetchPage\<close> is never handed to the replacer: the
  path that misses the table does not call \<^verbatim>\<open>Pin\<close>, and \<^verbatim>\<open>Unpin\<close> ignores frames it has not
  seen. So after fetching and unpinning as many different pages as there are free frames, with the
  replacer empty, no frame can be evicted although no page is pinned more than before, and the
  next fetch of another page throws.
\<close>

theorem fetch_only_pool_exhausted:
  assumes "bp_inv s" and "replacer s = []" and "distinct ps" and "length ps = length (free_list s)"
    and "\<forall>p \<in> set (q # ps). valid_pid p \<and> page_table s p = None" and "q \<notin> set ps"
    and "visit_all ps s = (Inr (), s')"
  shows "pins s' = pins s \<and>
     FetchPage q s' = (Inl (StdRuntimeError ''Failed to allocate frame''), s')"
  using assms
proof (induction ps arbitrary: s)
  case Nil
  then have "s' = s" by (simp add: act_simps)
  moreover have "page_number q \<noteq> - 1" using Nil by (auto simp: valid_pid_def)
  ultimately show ?case using Nil by (simp add: FetchPage_def AllocateFrame_def act_simps)
next
  case (Cons p ps)
  obtain f rest where fl: "free_list s = f # rest" using Cons.prems(4) by (cases "free_list s") auto
  from Cons.prems(7) obtain g s1 b s2 where run: "FetchPage p s = (Inr g, s1)" "UnpinPage p False s1 = (Inr b, s2)"
      "visit_all ps s2 = (Inr (), s')"
    by (auto elim!: bind_eq_InrE)
  have p: "page_table s p = None" "valid_pid p" using Cons.prems(5) by auto
  note v = visit_one [OF Cons.prems(1) fl Cons.prems(2) p run(1,2)]
  have "\<forall>x \<in> set (q # ps). valid_pid x \<and> page_table s2 x = None"
    using Cons.prems(3,5,6) by (auto simp: v(5))
  with Cons.IH [OF v(1,3)] Cons.prems v(2,4) run(3) fl show ?case by simp
qed

theorem fetch_only_pool_exhausted_witness:
  "\<exists>s'. visit_all [mk_page_id 0 0] (demo_pool 1) = (Inr (), s') \<and>
     pins s' = pins (demo_pool 1) \<and>
     FetchPage (mk_page_id 0 1) s' = (Inl (StdRuntimeError ''Failed to allocate frame''), s')"
proof -
  let ?p = "mk_page_id 0 0"
  have fl: "free_list (demo_pool 1) = 0 # []" by (simp add: demo_pool_facts upt_rec)
  have v: "valid_pid ?p" by (simp add: valid_pid_def)
  obtain d where rd: "ReadPage ?p (disk_manager (demo_pool 1)) = (Inr (disk_page demo_disk ?p), d)"
    using ReadPage_ok [OF demo_disk_facts(1) v] by (auto simp: demo_disk_facts demo_pool_facts)
  obtain s1 where s1: "FetchPage ?p (demo_pool 1) = (Inr 0, s1)"
    using FetchPage_free [OF demo_pool_facts(1) fl demo_pool_facts(2) v rd] by auto
  note ok = FetchPage_ok [OF demo_pool_facts(1) v _ s1]
  have "pins s1 ?p = 1" "page_table s1 ?p = Some 0" "bp_inv s1" using ok by (simp_all add: demo_pool_facts)
  then obtain s2 where "UnpinPage ?p False s1 = (Inr True, s2)" using UnpinPage_run [of s1 ?p 0 False] by simp
  with s1 have run: "visit_all [?p] (demo_pool 1) = (Inr (), s2)" by (simp add: act_simps)
  show ?thesis
    using fetch_only_pool_exhausted [OF demo_pool_facts(1) demo_pool_facts(6), of "[?p]" 1 "mk_page_id 0 1" s2] run
    by (simp add: demo_pool_facts valid_pid_def mk_page_id_def upt_rec)
qed

text \<open>
  C30: \<^verbatim>\<open>DeletePage\<close> puts the frame on the free list but leaves it evictable in the replacer.
  When the frame is used again by a fetch and pinned, the replacer still offers it: the next
  fetch that has to evict fails the assertion that the victim is not pinned. Stated for a pool
  whose only evictable frame is the one deleted.
\<close>

theorem delete_then_evict_asserts:
  assumes "bp_inv s" and "free_list s = []" and "replacer s = [(f, True)]" and "page_table s pid = Some f"
    and "pins s pid = 0" and "DeletePage pid s = (r, s1)"
    and "FetchPage q s1 = (Inr g, s2)" and "page_table s q = None" and "valid_pid q"
    and "page_table s x = None" and "valid_pid x" and "x \<noteq> q" and "x \<noteq> pid" and "q \<noteq> pid"
  shows "r = Inr True \<and> g = f \<and>
     fst (FetchPage x s2) = Inl (AssertionFailed ''pages_[frame_id].pin_count_ == 0'')"
proof -
  note del = DeletePage_spec [OF assms(1,6)]
  have s1: "free_list s1 = [f]" "replacer s1 = [(f, True)]" "page_table s1 = (page_table s)(pid := None)"
    using assms(2-6) bp_invD(2,4) [OF assms(1)] bp_invD(4) [OF assms(1,4)]
    by (auto simp: DeletePage_def act_simps pins_def)
  have q1: "page_table s1 q = None" using s1(3) assms(8) by simp
  obtain rr d where rd: "ReadPage q (disk_manager s1) = (rr, d)" by fastforce
  from FetchPage_free [OF del(1) s1(1) q1 assms(9) rd] assms(7)
  have s2: "g = f" "free_list s2 = []" "replacer s2 = [(f, True)]" "pin_count (pages s2 ! f) = 1" "f < length (pages s2)"
    using bp_invD(2) [OF del(1)] bp_invD(13) [OF del(1), of f] s1(1,2) by (auto split: sum.splits)
  have "page_table s1 x = None" using s1(3) assms(10) by simp
  then have "page_table s2 x = None"
    using assms(12) took_pins(4) by (cases rule: FetchPage_miss [OF del(1) q1 assms(9,7)]) auto
  moreover have "page_number x \<noteq> - 1" using assms(11) by (auto simp: valid_pid_def)
  ultimately have "fst (FetchPage x s2) = Inl (AssertionFailed ''pages_[frame_id].pin_count_ == 0'')"
    using s2 by (simp add: FetchPage_def AllocateFrame_def act_simps)
  then show ?thesis using del(2) assms(5) s2(1) by simp
qed

text \<open>
  C32: A fetch whose read fails throws, but leaves the page in the table, in a pinned frame full of
  zeros: the next fetch of the page finds it there and returns the zeros as its contents.
\<close>

theorem failed_read_is_cached:
  assumes "bp_inv s" and "free_list s = f # rest" and "page_table s pid = None" and "valid_pid pid"
    and "ReadPage pid (disk_manager s) = (Inl e, d)"
  shows "\<exists>s1 s2. FetchPage pid s = (Inl e, s1) \<and> FetchPage pid s1 = (Inr f, s2) \<and>
     page_data (pages s2 ! f) = zero_page \<and> pins s2 pid = 2"
proof -
  obtain s1 where s1: "FetchPage pid s = (Inl e, s1)" "page_table s1 pid = Some f"
      "pages s1 = (pages s)[f := (pages s ! f)\<lparr>page_id := pid, pin_count := 1, is_dirty := False, page_data := zero_page\<rparr>]"
    using FetchPage_free [OF assms] by auto
  have inv1: "bp_inv s1" using FetchPage_err(1) [OF assms(1,4) s1(1)] .
  have f: "f < length (pages s)" using bp_invD(13) [OF assms(1), of f] assms(2) bp_invD(2) [OF assms(1)] by simp
  have p: "pins s1 pid = 1" using s1 f by (simp add: pins_def)
  have l: "logical s1 pid = zero_page" using s1 f by (simp add: logical_def)
  obtain s2 where s2: "FetchPage pid s1 = (Inr f, s2)" using FetchPage_hit [OF inv1 s1(2)] by blast
  note ok = FetchPage_ok [OF inv1 assms(4) _ s2]
  show ?thesis using s1(1) s2 ok p l by auto
qed

lemma demo_short_read:
  assumes "valid_pid pid" and "table_id pid = 0" and "0 < page_number pid"
  obtains d where "ReadPage pid demo_disk = (Inl (IOException ''read page out of file size''), d)"
proof -
  obtain d1 where d1: "AddTableDataIfNotExist (table_id pid) demo_disk = (Inr (), d1)"
    using AddTable_ok [OF demo_disk_facts(1)] assms(2) demo_disk_facts(2) by metis
  show ?thesis
    using ReadPage_run [OF demo_disk_facts(1) assms(1) d1] assms(2,3) that by (auto simp: demo_disk_facts(3))
qed

theorem failed_read_is_cached_witness:
  "\<exists>e s1 s2. FetchPage (mk_page_id 0 5) (demo_pool 1) = (Inl e, s1) \<and> FetchPage (mk_page_id 0 5) s1 = (Inr 0, s2) \<and>
     page_data (pages s2 ! 0) = zero_page"
proof -
  obtain d where rd: "ReadPage (mk_page_id 0 5) (disk_manager (demo_pool 1)) = (Inl (IOException ''read page out of file size''), d)"
    using demo_short_read [of "mk_page_id 0 5"] by (auto simp: valid_pid_def demo_pool_facts)
  show ?thesis
    using failed_read_is_cached [OF demo_pool_facts(1) _ demo_pool_facts(2) _ rd, of 0 "[]"]
    by (auto simp: demo_pool_facts valid_pid_def upt_rec)
qed

theorem delete_then_evict_asserts_witness:
  "\<exists>s s1 s2. DeletePage (mk_page_id 0 7) s = (Inr True, s1) \<and> FetchPage (mk_page_id 0 0) s1 = (Inr 0, s2) \<and>
     fst (FetchPage (mk_page_id 0 1) s2) = Inl (AssertionFailed ''pages_[frame_id].pin_count_ == 0'')"
proof -
  let ?p = "mk_page_id 0 7" and ?q = "mk_page_id 0 0" and ?x = "mk_page_id 0 1"
  have ne: "?x \<noteq> ?q" "?x \<noteq> ?p" "?q \<noteq> ?p" by (simp_all add: mk_page_id_def)
  have v: "valid_pid ?p" "valid_pid ?q" "valid_pid ?x" by (simp_all add: valid_pid_def)
  obtain s f where s: "page_table s ?p = Some f" "bp_inv s" "disk_manager s = demo_disk" "pool_size s = 1"
      "pins s ?p = 0" "free_list s = []" "replacer s = [(0, True)]"
    using demo_run [OF v(1)] by blast
  have f: "f = 0" "page_id (pages s ! 0) = ?p" using bp_invD(4,5) [OF s(2,1)] s(4) by auto
  have others: "page_table s y = None" if "y \<noteq> ?p" for y
    using bp_invD(4,5) [OF s(2), of y] f(2) s(4) that by (cases "page_table s y") auto
  obtain r s1 where del: "DeletePage ?p s = (r, s1)" by fastforce
  note ds = DeletePage_spec [OF s(2) del]
  have s1: "free_list s1 = 0 # []" "disk_manager s1 = demo_disk" "page_table s1 = (page_table s)(?p := None)"
    using del s f bp_invD(2) [OF s(2)] by (auto simp: DeletePage_def act_simps pins_def)
  obtain d where rd: "ReadPage ?q (disk_manager s1) = (Inr (disk_page demo_disk ?q), d)"
    using ReadPage_ok [OF demo_disk_facts(1) v(2)] s1(2) by (auto simp: demo_disk_facts)
  obtain s2 where s2: "FetchPage ?q s1 = (Inr 0, s2)"
    using FetchPage_free [OF ds(1) s1(1) _ v(2) rd] s1(3) others ne by auto
  show ?thesis
    using delete_then_evict_asserts [OF s(2,6,7) _ s(5) del s2 _ v(2) _ v(3) ne] s(1) f others ne del s2 by auto
qed

end
