(* ===== verification/HeapProperties.thy ===== *)
theory HeapProperties
  imports TableHeaps PoolProperties
begin

text \<open>
  What a table heap promises: a fresh heap is empty; an insertion appends one record and returns
  the id under which it reads back; a lookup and an update of the deletion flag act on the record
  with that id and no other. Records are those of \<open>heap_tuples\<close>, read off the newest
  version of every page, in the pool or on disk.
\<close>

lemma heap_tuples_iff:
  "(rid, meta, d) \<in> set (heap_tuples ps h) \<longleftrightarrow>
     (\<exists>p \<in> set ps. \<exists>i < GetNumTuples (view h p). rid = mk_rid (mk_page_id (tm_table_oid (snd h)) p) i \<and>
        tp_tuples (view h p) ! i = (meta, d))"
  unfolding heap_tuples_def page_records_def by (auto intro!: image_eqI)

lemma heap_invD:
  assumes "heap_inv ps (s, m)"
  shows "gp_inv s" and "heap_core ps (s, m)" and "p \<in> set ps \<Longrightarrow> pins s (mk_page_id (tm_table_oid m) p) = 0"
  using assms by (simp_all add: heap_inv_def)

text \<open>Any operation that reads one page of the heap keeps the heap.\<close>

lemma heap_read:
  assumes inv: "heap_inv ps (s, m)" and p: "p \<in> set ps" and ok: "FetchPage (mk_page_id (tm_table_oid m) p) s = (Inr f, s1)"
  obtains s' where "in_pool (read_scope (mk_page_id (tm_table_oid m) p) body) (s, m) = (body (view (s, m) p), (s', m))"
    and "heap_inv ps (s', m)" and "heap_tuples ps (s', m) = heap_tuples ps (s, m)" and "\<forall>q \<in> set ps. view (s', m) q = view (s, m) q"
    and "page_table s' = page_table s1"
proof -
  let ?pid = "mk_page_id (tm_table_oid m) p"
  note hi = heap_invD [OF inv]
  note d = heap_coreD [OF hi(2)]
  obtain r s' where run: "read_scope ?pid body s = (r, s')" by fastforce
  note rs = read_scope_spec [OF hi(1) d(12) [OF p] hi(3) [OF p] run ok]
  have tb: "page_table s' q = None" if "page_table s q = None" "q \<noteq> ?pid" for q
    using FetchPage_table [OF _ d(12) [OF p] ok that] hi(1) rs(7) by (simp add: gp_inv_def)
  note fc = fetch_core [OF inv p rs(3) tb]
  have "view (s', m) q = view (s, m) q" if "q \<in> set ps" for q
    using rs(3) d(12) [OF that] by (simp add: same_pages_def view_def)
  moreover have "heap_inv ps (s', m)" using fc(1) rs(2,4) hi(3) by (simp add: heap_inv_def)
  ultimately show ?thesis using that run rs(1,7) fc(2) by (auto simp: view_def in_pool_def)
qed

section \<open>Lookup\<close>

lemma GetTuple_run:
  assumes inv: "heap_inv ps (s, m)" and p: "p \<in> set ps" "i < GetNumTuples (view (s, m) p)"
    and ok: "FetchPage (mk_page_id (tm_table_oid m) p) s = (Inr f, s1)"
  defines "rid \<equiv> mk_rid (mk_page_id (tm_table_oid m) p) i"
  obtains s' where "TableHeap_GetTuple rid (s, m) = (Inr (Some (map_prod id (Tuple.make rid) (tp_tuples (view (s, m) p) ! i))), (s', m))"
     and "heap_inv ps (s', m)" and "heap_tuples ps (s', m) = heap_tuples ps (s, m)"
     and "\<forall>q \<in> set ps. view (s', m) q = view (s, m) q" and "page_table s' = page_table s1"
proof -
  have tp: "tp_inv (view (s, m) p)" using heap_coreD(6) [OF heap_invD(2) [OF inv] p(1)] .
  define body where "body = (\<lambda>page. rbind (TablePage_GetTuple page rid) (\<lambda>(meta, t). Inr (Some (meta, t\<lparr>tuple_rid := rid\<rparr>))))"
  obtain s' where r: "in_pool (read_scope (mk_page_id (tm_table_oid m) p) body) (s, m) = (body (view (s, m) p), (s', m))"
      and s': "heap_inv ps (s', m)" "heap_tuples ps (s', m) = heap_tuples ps (s, m)"
      "\<forall>q \<in> set ps. view (s', m) q = view (s, m) q" "page_table s' = page_table s1"
    using heap_read [OF inv p(1) ok] .
  have b: "body (view (s, m) p) = Inr (Some (map_prod id (Tuple.make rid) (tp_tuples (view (s, m) p) ! i)))"
    using GetTuple_spec [OF tp, of rid] p(2)
    by (cases "tp_tuples (view (s, m) p) ! i") (simp add: body_def rid_def Tuple.make_def)
  have "TableHeap_GetTuple rid (s, m) = (body (view (s, m) p), (s', m))"
    using r by (simp add: TableHeap_GetTuple_def body_def [symmetric]) (simp add: rid_def)
  then show ?thesis using that s' b by metis
qed

text \<open>
  C16: A lookup by record id returns the record: if the id is that of a record of the heap and the
  page can be fetched, \<^verbatim>\<open>GetTuple\<close> returns its deletion flag and its bytes, with the id set in
  the tuple, and neither the heap nor its records change.
\<close>

theorem heap_get:
  assumes "heap_inv ps (s, m)" and "(rid, meta, d) \<in> set (heap_tuples ps (s, m))"
    and "FetchPage (rid_page_id rid) s = (Inr f, s1)"
  shows "\<exists>s'. TableHeap_GetTuple rid (s, m) = (Inr (Some (meta, \<lparr>tuple_rid = rid, tuple_data = d\<rparr>)), (s', m)) \<and>
     heap_inv ps (s', m) \<and> heap_tuples ps (s', m) = heap_tuples ps (s, m)"
proof -
  obtain p i where p: "p \<in> set ps" "i < GetNumTuples (view (s, m) p)" "rid = mk_rid (mk_page_id (tm_table_oid m) p) i"
      "tp_tuples (view (s, m) p) ! i = (meta, d)"
    using assms(2) by (auto simp: heap_tuples_iff)
  have "FetchPage (mk_page_id (tm_table_oid m) p) s = (Inr f, s1)" using assms(3) by (simp add: p(3))
  from GetTuple_run [OF assms(1) p(1,2) this] show ?thesis
    unfolding p(4) by (auto simp: p(3) Tuple.make_def)
qed

section \<open>Deletion flags\<close>

definition set_flag :: "RID \<Rightarrow> TupleMeta \<Rightarrow> RID \<times> TupleMeta \<times> bytes \<Rightarrow> RID \<times> TupleMeta \<times> bytes" where
  "set_flag rid meta r = (if fst r = rid then (rid, meta, snd (snd r)) else r)"

lemma page_records_flag:
  assumes "GetNumTuples page' = GetNumTuples page" and "i < GetNumTuples page"
    and "tp_tuples page' = (tp_tuples page)[i := (meta, snd (tp_tuples page ! i))]"
  shows "page_records oid p page' = map (set_flag (mk_rid (mk_page_id oid p) i) meta) (page_records oid p page)"
  using assms by (auto simp: page_records_def set_flag_def nth_list_update)

lemma page_records_other:
  assumes "rid_page_id rid \<noteq> mk_page_id oid p"
  shows "map (set_flag rid meta) (page_records oid p page) = page_records oid p page"
  using assms by (auto simp: page_records_def set_flag_def)

text \<open>
  C17: Updating the deletion flag of a record changes that flag and nothing else of the heap: the
  list of records is the old one with the flag of the record of that id replaced.
\<close>

theorem heap_update_meta:
  assumes inv: "heap_inv ps (s, m)" and rid: "(rid, old, d) \<in> set (heap_tuples ps (s, m))"
    and ok: "FetchPage (rid_page_id rid) s = (Inr f, s1)"
  shows "\<exists>s'. TableHeap_UpdateTupleMeta meta rid (s, m) = (Inr (), (s', m)) \<and> heap_inv ps (s', m) \<and>
     heap_tuples ps (s', m) = map (set_flag rid meta) (heap_tuples ps (s, m))"
proof -
  let ?oid = "tm_table_oid m"
  obtain p i where p: "p \<in> set ps" "i < GetNumTuples (view (s, m) p)" "rid = mk_rid (mk_page_id ?oid p) i"
    using rid by (auto simp: heap_tuples_iff)
  note hi = heap_invD [OF inv] and d = heap_coreD [OF heap_invD(2) [OF inv]]
  have pid: "rid_page_id rid = mk_page_id ?oid p" "rid_slot_num rid = i" by (simp_all add: p(3))
  obtain page where u: "TablePage_UpdateTupleMeta meta rid (view (s, m) p) = (Inr (), page)" "tp_inv page"
      "tp_tuples page = (tp_tuples (view (s, m) p))[i := (meta, snd (tp_tuples (view (s, m) p) ! i))]"
      "GetNextPageId page = GetNextPageId (view (s, m) p)" "GetNumTuples page = GetNumTuples (view (s, m) p)"
    using UpdateTupleMeta_spec [OF d(6) [OF p(1)], of rid] p(2) pid(2) by metis
  have len: "length page = PAGE_SIZE" using u(2) by simp
  obtain r s' where run: "write_scope (rid_page_id rid) (TablePage_UpdateTupleMeta meta rid) s = (r, s')" by fastforce
  have u1: "TablePage_UpdateTupleMeta meta rid (logical s (rid_page_id rid)) = (Inr (), page)" using u(1) by (simp add: view_def pid)
  have vp: "valid_pid (rid_page_id rid)" "pins s (rid_page_id rid) = 0" using d(12) hi(3) p(1) by (simp_all add: pid)
  note ws = write_scope_spec [OF hi(1) vp run ok u1 len]
  have vw: "view (s', m) q = (if q = p then page else view (s, m) q)" if "0 \<le> q" "q < 2 ^ 20" for q
    using ws(5) [of "mk_page_id ?oid q"] that by (simp add: view_def valid_pid_def pid)
  have rng: "0 \<le> q \<and> q < 2 ^ 20" if "q \<in> set ps" for q using d(5) [OF that] d(7) by auto
  have tb: "page_table s' q = None" if "page_table s q = None" "q \<noteq> mk_page_id ?oid p" for q
    using FetchPage_table [OF _ vp(1) ok that(1)] that(2) hi(1) ws(8) by (simp add: gp_inv_def pid)
  have "heap_core ps (s', m)"
    by (rule core_update [OF hi(2) p(1) refl refl refl vw u(2,4)]) (use tb in auto)
  moreover have "page_records ?oid q (view (s', m) q) = map (set_flag rid meta) (page_records ?oid q (view (s, m) q))" if "q \<in> set ps" for q
    using page_records_flag [OF u(5) p(2) u(3)] page_records_other [of rid ?oid q meta] vw rng [OF that]
    by (cases "q = p") (simp_all add: p(3))
  then have "heap_tuples ps (s', m) = map (set_flag rid meta) (heap_tuples ps (s, m))"
    by (simp add: heap_tuples_def map_concat comp_def cong: map_cong)
  moreover have "TableHeap_UpdateTupleMeta meta rid (s, m) = (Inr (), (s', m))"
    using run ws(1) by (simp add: TableHeap_UpdateTupleMeta_def in_pool_def)
  ultimately show ?thesis using ws(2,3) hi(3) by (auto simp: heap_inv_def)
qed

section \<open>Creation and insertion\<close>

lemma new_page_free:
  assumes inv: "bp_inv s" and fl: "free_list s \<noteq> []" and alloc: "alloc a = (Inr pid, a')"
    and pid: "valid_pid pid" "page_table s pid = None"
  shows "\<exists>g h. NewPageGuarded alloc (s, a) = (Inr (g, pid), h)"
proof -
  obtain f rest where f: "free_list s = f # rest" using fl by (cases "free_list s") auto
  then have "f < pool_size s" "f \<notin> set rest" using bp_invD(12,13) [OF inv] by (simp_all add: f)
  then obtain s2 where fr: "NewPage_frame s = (Inr f, s2)"
    using bp_invD(2) [OF inv] by (simp add: NewPage_frame_def AllocateFrame_def f act_simps)
  then have "took s f s2" by (cases rule: NewPage_frame_spec [OF inv fr]) auto
  from NewPage_install_run [OF this pid] fr alloc show ?thesis
    by (auto simp: NewPageGuarded_def NewPage_def zoom_def bind_def ret_def)
qed

lemma fresh_page_free: "tp_free (TablePage_Init zero_page) = PAGE_SIZE - TABLE_PAGE_HEADER_SIZE"
proof -
  have z: "length zero_page = PAGE_SIZE" by simp
  show ?thesis
    using empty_page_free [OF Init_inv(1) [OF z]] Init_inv(2) [OF z] length_tp_tuples [of "TablePage_Init zero_page"] by simp
qed

lemma TableHeap_fresh:
  assumes inv: "gp_inv s" and m: "tm_table_oid m \<noteq> INVALID_TABLE_OID" "0 \<le> last_table_data_page_id m + 1"
      "last_table_data_page_id m + 1 < 2 ^ 20 - 1"
      "last_table_heap_data_page_id m = INVALID_PAGE_ID"
    and fresh: "\<forall>p. last_table_data_page_id m < p \<and> p < 2 ^ 20 \<longrightarrow> page_table s (mk_page_id (tm_table_oid m) p) = None \<and> view (s, m) p = zero_page"
    and free: "free_list s \<noteq> []"
  defines "q \<equiv> last_table_data_page_id m + 1"
  obtains s' m' where "mk_TableHeap (s, m) = (Inr (), (s', m'))" "heap_inv [q] (s', m')" "heap_tuples [q] (s', m') = []"
    "m' = m\<lparr>last_table_data_page_id := q, last_table_heap_data_page_id := q\<rparr>"
    "page_table s' (mk_page_id (tm_table_oid m) q) \<noteq> None" "view (s', m') q = TablePage_Init zero_page"
proof -
  have q: "0 \<le> q" "q < 2 ^ 20 - 1" "last_table_data_page_id m < q" using m by (simp_all add: q_def)
  let ?pid = "mk_page_id (tm_table_oid m) q"
  define m' where "m' = m\<lparr>last_table_data_page_id := q, last_table_heap_data_page_id := q\<rparr>"
  have bi: "bp_inv s" using inv by (simp add: gp_inv_def)
  have pid: "valid_pid ?pid" "page_table s ?pid = None" "disk_page (disk_manager s) ?pid = zero_page"
    using fresh [rule_format, of q] q by (auto simp: valid_pid_def view_def logical_def)
  have al: "TableHeap_AllocatePage m = (Inr ?pid, m')"
    using m by (simp add: TableHeap_AllocatePage_def act_simps IncrementTableDataPageId_def bind_def gets_def modify_def ret_def m'_def q_def Let_def)
  obtain g s1 m1 where new: "NewPageGuarded TableHeap_AllocatePage (s, m) = (Inr (g, ?pid), (s1, m1))"
    using new_page_free [where alloc = TableHeap_AllocatePage, OF bi free al pid(1,2)] by auto
  obtain f where h: "g = mk_guard f" "m1 = m'" "gp_inv s1" "held s1 ?pid f Unlatched" "same_pages s s1"
      "pins s1 = (pins s)(?pid := 1)" "logical s1 ?pid = zero_page"
      "\<And>q. page_table s q = None \<Longrightarrow> q \<noteq> ?pid \<Longrightarrow> page_table s1 q = None"
    using new_held [OF inv al pid new] by metis
  let ?g = "(mk_guard f)\<lparr>guard_dirty := True\<rparr>" and ?b = "TablePage_Init zero_page"
  have g: "guard_page (mk_guard f) = Some f" "guard_page ?g = Some f" "guard_dirty ?g" by (simp_all add: mk_guard_def)
  have ini: "modify TablePage_Init (logical s1 ?pid) = (Inr (), ?b)" by (simp add: modify_def h(7))
  have bl: "length ?b = PAGE_SIZE" by (simp add: TablePage_Init_def)
  note w = write_held [where m = "modify TablePage_Init", OF h(3,4) ini bl]
  define s2 where "s2 = write_frame f ?b s1"
  note w = w [folded s2_def]
  obtain s3 where d: "Basic_Drop ?g s2 = (Inr (?g\<lparr>guard_page := None\<rparr>), s3)" "gp_inv s3" "logical s3 = logical s2"
      "pins s3 = (pins s2)(?pid := 0)" "page_table s3 = page_table s2"
    using basic_drop_held [OF w(2,3) g(2,3)] .
  have run: "mk_TableHeap (s, m) = (Inr (), (s3, m'))"
    using m(1,4) q(1) new guard_data_held(2) [OF h(3,4) g(1)] w(1) d(1)
    by (simp add: mk_TableHeap_def act_simps h(1,2) scoped_def in_pool_def) (simp add: m'_def assert_that_def ret_def)
  have pt: "page_table s3 = page_table s1" using d(5) by (simp add: s2_def write_frame_def)
  have vw: "view (s3, m') p = (if p = q then ?b else zero_page)" if "q \<le> p" "p < 2 ^ 20" for p
  proof -
    have "valid_pid (mk_page_id (tm_table_oid m) p)" using that q by (simp add: valid_pid_def)
    then show ?thesis using that fresh q h(5) by (simp add: view_def d(3) w(4) same_pages_def m'_def)
  qed
  have z: "length zero_page = PAGE_SIZE" by simp
  note i = Init_inv [OF z]
  have "heap_core [q] (s3, m')"
    using vw [of q] vw i m(1) q fresh h(8) by (simp add: heap_core_def m'_def pt)
  moreover have "heap_tuples [q] (s3, m') = []"
    using vw [of q] q i(2) length_tp_tuples [of ?b] by (simp add: heap_tuples_def page_records_def)
  moreover have "pins s3 ?pid = 0" by (simp add: d(4))
  ultimately have "heap_inv [q] (s3, m') \<and> heap_tuples [q] (s3, m') = []" using d(2) by (simp add: heap_inv_def m'_def)
  moreover have "page_table s3 ?pid \<noteq> None" using h(4) by (simp add: pt held_def)
  ultimately show ?thesis using that run m'_def vw [of q] q by simp
qed

text \<open>
  Creating a heap for a table that has none: with a free frame in the pool and nothing of the
  table's file in use past its last data page, the constructor succeeds, the heap it leaves
  satisfies the invariant with the next page of the file as its only page, and it has no records.
\<close>

theorem heap_create:
  assumes "gp_inv s" and "tm_table_oid m \<noteq> INVALID_TABLE_OID" "0 \<le> last_table_data_page_id m + 1"
      "last_table_data_page_id m + 1 < 2 ^ 20 - 1"
      "last_table_heap_data_page_id m = INVALID_PAGE_ID"
    and "\<forall>p. last_table_data_page_id m < p \<and> p < 2 ^ 20 \<longrightarrow> page_table s (mk_page_id (tm_table_oid m) p) = None \<and> view (s, m) p = zero_page"
    and "free_list s \<noteq> []"
  shows "\<exists>s' m'. mk_TableHeap (s, m) = (Inr (), (s', m')) \<and> heap_inv [last_table_data_page_id m + 1] (s', m') \<and> heap_tuples [last_table_data_page_id m + 1] (s', m') = [] \<and>
     m' = m\<lparr>last_table_data_page_id := last_table_data_page_id m + 1, last_table_heap_data_page_id := last_table_data_page_id m + 1\<rparr>"
  using TableHeap_fresh [OF assms] by metis

text \<open>
  C5: Inserting a tuple appends one record. Whenever \<^verbatim>\<open>InsertTuple\<close> returns, it returns the id of
  a new record with the flag and the bytes given, appended to those the heap had, on the last
  page or on a page linked after it; the invariant holds and the tuple count has grown by one.
\<close>

theorem heap_insert:
  assumes "heap_inv ps (s, m)" and "page_tuple t" and "last_table_data_page_id m + 1 < 2 ^ 20 - 1"
    and "TableHeap_InsertTuple meta t (s, m) = (Inr r, (s', m'))"
  shows "\<exists>rid ps'. r = Some rid \<and> heap_inv ps' (s', m') \<and> (ps' = ps \<or> (\<exists>q. ps' = ps @ [q])) \<and>
     heap_tuples ps' (s', m') = heap_tuples ps (s, m) @ [(rid, meta, tuple_data t)] \<and>
     tuple_count m' = tuple_count m + 1"
proof -
  obtain g s1 where fw: "FetchPageWrite (mk_page_id (tm_table_oid m) (last_table_heap_data_page_id m)) s = (Inr g, s1)"
      and fr: "frame_for t (s1, m)"
    using InsertTuple_needs [OF assms(1,2,4)] .
  obtain ps' rid s'' m'' where "TableHeap_InsertTuple meta t (s, m) = (Inr (Some rid), (s'', m''))" "heap_inv ps' (s'', m'')"
      "heap_tuples ps' (s'', m'') = heap_tuples ps (s, m) @ [(rid, meta, tuple_data t)]"
      "ps' = ps \<or> (\<exists>q. ps' = ps @ [q])" "tuple_count m'' = tuple_count m + 1"
    using InsertTuple_spec [OF assms(1-3) fw fr] .
  then show ?thesis using assms(4) by auto
qed

lemma InsertTuple_runs:
  assumes inv: "heap_inv ps (s, m)" and t: "page_tuple t" and room: "last_table_data_page_id m + 1 < 2 ^ 20 - 1"
    and cached: "page_table s (mk_page_id (tm_table_oid m) (last_table_heap_data_page_id m)) \<noteq> None"
    and free: "length (tuple_data t) + TUPLE_INFO_SIZE \<le> tp_free (view (s, m) (last_table_heap_data_page_id m)) \<or> free_list s \<noteq> []"
  obtains rid ps' s' m' where "TableHeap_InsertTuple meta t (s, m) = (Inr (Some rid), (s', m'))" "heap_inv ps' (s', m')"
    "heap_tuples ps' (s', m') = heap_tuples ps (s, m) @ [(rid, meta, tuple_data t)]" "tuple_count m' = tuple_count m + 1"
    "page_table s' (rid_page_id rid) \<noteq> None" "length (tuple_data t) + TUPLE_INFO_SIZE \<le> tp_free (view (s, m) (last_table_heap_data_page_id m)) \<longrightarrow> ps' = ps"
proof -
  let ?pid = "mk_page_id (tm_table_oid m) (last_table_heap_data_page_id m)"
  note hi = heap_invD [OF inv] and d = heap_coreD [OF heap_invD(2) [OF inv]]
  have bi: "bp_inv s" using hi(1) by (simp add: gp_inv_def)
  obtain f where f: "page_table s ?pid = Some f" using cached by blast
  note hit = FetchPage_hit [OF bi f]
  define s0 where "s0 = touch f (pin_count (pages s ! f) + 1) (is_dirty (pages s ! f)) (Replacer_Pin f (replacer s)) s"
  have vp: "valid_pid ?pid" "pins s ?pid = 0" using d(12) [OF d(10)] hi(3) [OF d(10)] .
  note gf = gp_fetch [OF hi(1) vp hit, folded s0_def]
  have l: "latches s0 ! f = Unlatched" using gf(2,7) by (simp add: nth_latches)
  have fw: "FetchPageWrite ?pid s = (Inr (mk_guard f), relatch f WriteLatched s0)"
    using hit latch_runs(1) [OF gf(7) l] by (simp add: FetchPageWrite_def act_simps s0_def)
  let ?s1 = "relatch f WriteLatched s0"
  have h: "gp_inv ?s1" "page_table ?s1 = page_table s"
    using fetch_held [OF hi(1) vp fw] by blast (simp add: relatch_page s0_def touch_def)
  have fl: "free_list ?s1 = free_list s" by (simp add: relatch_def s0_def touch_def)
  let ?q = "mk_page_id (tm_table_oid m) (last_table_data_page_id m + 1)"
  have q: "valid_pid ?q" "page_table ?s1 ?q = None"
    using d(8) [of "last_table_data_page_id m + 1"] d(11) room h(2) by (simp_all add: valid_pid_def)
  have b1: "bp_inv ?s1" using h(1) by (simp add: gp_inv_def)
  have v1: "view (?s1, m) (last_table_heap_data_page_id m) = view (s, m) (last_table_heap_data_page_id m)"
    using gf(5) vp(1) by (simp add: view_def relatch_inv same_pages_def)
  have "frame_for t (?s1, m)"
  proof (cases "free_list s = []")
    case False
    then show ?thesis
      using new_page_free [where alloc = TableHeap_AllocatePage, OF b1 _ AllocatePage_run [OF hi(2)] q] fl by (auto simp: frame_for_def)
  qed (use free v1 in \<open>simp add: frame_for_def\<close>)
  then show ?thesis
    by (rule InsertTuple_spec [where meta = meta, OF inv t room fw]) (rule that)
qed

text \<open>
  C13: Insertion does return. With the last page of the heap in the pool and, unless the tuple
  fits on it, a free frame for the page to start, \<^verbatim>\<open>InsertTuple\<close> succeeds for every tuple that fits a page: two
  rounds of its loop are always enough.
\<close>

theorem heap_insert_returns:
  assumes "heap_inv ps (s, m)" and "page_tuple t" and "last_table_data_page_id m + 1 < 2 ^ 20 - 1"
    and "page_table s (mk_page_id (tm_table_oid m) (last_table_heap_data_page_id m)) \<noteq> None"
    and "length (tuple_data t) + TUPLE_INFO_SIZE \<le> tp_free (view (s, m) (last_table_heap_data_page_id m)) \<or> free_list s \<noteq> []"
  shows "\<exists>rid s' m'. TableHeap_InsertTuple meta t (s, m) = (Inr (Some rid), (s', m'))"
  using InsertTuple_runs [OF assms] by metis

section \<open>A small heap\<close>

definition demo_meta :: "int \<Rightarrow> TableMeta" where
  "demo_meta k = (mk_TableMeta \<lparr>columns = [mk_column_rec ''c'' INTEGER 4], uninlined_columns = [], tuple_inline_part_storage_size = 4\<rparr> ''t'' 0)\<lparr>last_table_data_page_id := k\<rparr>"

definition demo_tuple :: Tuple where
  "demo_tuple = \<lparr>tuple_rid = default_rid, tuple_data = [1, 2, 3, 4]\<rparr>"

lemma demo_meta_facts:
  "tm_table_oid (demo_meta k) = 0" "last_table_data_page_id (demo_meta k) = k"
  "last_table_heap_data_page_id (demo_meta k) = INVALID_PAGE_ID"
  by (simp_all add: demo_meta_def mk_TableMeta_def)

lemma demo_fresh:
  "gp_inv (demo_pool 2)" "free_list (demo_pool 2) \<noteq> []"
  "\<forall>p. last_table_data_page_id (demo_meta k) < p \<and> p < 2 ^ 20 \<longrightarrow> page_table (demo_pool 2) (mk_page_id (tm_table_oid (demo_meta k)) p) = None \<and>
     view (demo_pool 2, demo_meta k) p = zero_page"
proof -
  show "gp_inv (demo_pool 2)" unfolding demo_pool_def by (rule gp_mk_BufferPool [OF demo_disk_facts(1)])
  show "free_list (demo_pool 2) \<noteq> []" by (simp add: demo_pool_facts numeral_2_eq_2)
  have "disk_page demo_disk pid = zero_page" for pid
    by (rule nth_equalityI) (simp_all add: disk_page_def demo_disk_facts byte_at_def zero_page_def)
  then show "\<forall>p. last_table_data_page_id (demo_meta k) < p \<and> p < 2 ^ 20 \<longrightarrow> page_table (demo_pool 2) (mk_page_id (tm_table_oid (demo_meta k)) p) = None \<and>
     view (demo_pool 2, demo_meta k) p = zero_page"
    by (simp add: view_def logical_def demo_pool_facts)
qed

lemma demo_heap:
  assumes k: "k \<in> {- 1, 0}"
  obtains s m where "mk_TableHeap (demo_pool 2, demo_meta k) = (Inr (), (s, m))" "heap_inv [k + 1] (s, m)" "heap_tuples [k + 1] (s, m) = []"
    "tm_table_oid m = 0" "last_table_data_page_id m = k + 1" "last_table_heap_data_page_id m = k + 1" "tuple_count m = 0"
    "page_table s (mk_page_id 0 (k + 1)) \<noteq> None" "page_tuple demo_tuple"
    "length (tuple_data demo_tuple) + TUPLE_INFO_SIZE \<le> tp_free (view (s, m) (k + 1))"
proof -
  have oid: "tm_table_oid (demo_meta k) \<noteq> INVALID_TABLE_OID" "0 \<le> last_table_data_page_id (demo_meta k) + 1"
      "last_table_data_page_id (demo_meta k) + 1 < 2 ^ 20 - 1"
    using k by (auto simp: demo_meta_facts)
  obtain s m where h: "mk_TableHeap (demo_pool 2, demo_meta k) = (Inr (), (s, m))" "heap_inv [k + 1] (s, m)" "heap_tuples [k + 1] (s, m) = []"
      "m = (demo_meta k)\<lparr>last_table_data_page_id := k + 1, last_table_heap_data_page_id := k + 1\<rparr>"
      "page_table s (mk_page_id (tm_table_oid (demo_meta k)) (k + 1)) \<noteq> None" "view (s, m) (k + 1) = TablePage_Init zero_page"
    using TableHeap_fresh [OF demo_fresh(1) oid demo_meta_facts(3) demo_fresh(3,2)] unfolding demo_meta_facts(2) .
  show ?thesis using that h fresh_page_free
    by (simp add: demo_meta_facts page_tuple_def demo_tuple_def) (simp add: demo_meta_def mk_TableMeta_def)
qed

lemma demo_insert:
  assumes k: "k \<in> {- 1, 0}"
  obtains rid s m where "bind mk_TableHeap (\<lambda>_. TableHeap_InsertTuple \<lparr>is_deleted = False\<rparr> demo_tuple) (demo_pool 2, demo_meta k) = (Inr (Some rid), (s, m))"
    "heap_inv [k + 1] (s, m)" "heap_tuples [k + 1] (s, m) = [(rid, \<lparr>is_deleted = False\<rparr>, [1, 2, 3, 4])]" "tuple_count m = 1"
    "\<exists>f s1. FetchPage (rid_page_id rid) s = (Inr f, s1)" "page_table s (rid_page_id rid) \<noteq> None"
proof -
  obtain s m where h: "mk_TableHeap (demo_pool 2, demo_meta k) = (Inr (), (s, m))" "heap_inv [k + 1] (s, m)" "heap_tuples [k + 1] (s, m) = []"
    "tm_table_oid m = 0" "last_table_data_page_id m = k + 1" "last_table_heap_data_page_id m = k + 1" "tuple_count m = 0"
    "page_table s (mk_page_id 0 (k + 1)) \<noteq> None" "page_tuple demo_tuple"
    "length (tuple_data demo_tuple) + TUPLE_INFO_SIZE \<le> tp_free (view (s, m) (k + 1))"
    using demo_heap [OF k] .
  have pre: "last_table_data_page_id m + 1 < 2 ^ 20 - 1"
      "page_table s (mk_page_id (tm_table_oid m) (last_table_heap_data_page_id m)) \<noteq> None"
      "length (tuple_data demo_tuple) + TUPLE_INFO_SIZE \<le> tp_free (view (s, m) (last_table_heap_data_page_id m)) \<or> free_list s \<noteq> []"
    using h(4-6,8,10) k by auto
  obtain rid ps s' m' where i: "TableHeap_InsertTuple \<lparr>is_deleted = False\<rparr> demo_tuple (s, m) = (Inr (Some rid), (s', m'))"
      "heap_inv ps (s', m')" "heap_tuples ps (s', m') = heap_tuples [k + 1] (s, m) @ [(rid, \<lparr>is_deleted = False\<rparr>, tuple_data demo_tuple)]"
      "tuple_count m' = tuple_count m + 1" "page_table s' (rid_page_id rid) \<noteq> None"
      "length (tuple_data demo_tuple) + TUPLE_INFO_SIZE \<le> tp_free (view (s, m) (last_table_heap_data_page_id m)) \<longrightarrow> ps = [k + 1]"
    using InsertTuple_runs [OF h(2,9) pre] .
  obtain f where "page_table s' (rid_page_id rid) = Some f" using i(5) by blast
  then have "\<exists>f s1. FetchPage (rid_page_id rid) s' = (Inr f, s1)"
    using FetchPage_hit heap_invD(1) [OF i(2)] by (auto simp: gp_inv_def)
  then show ?thesis using that [of rid s' m'] h(1,3,6,7,10) i by (simp add: act_simps demo_tuple_def)
qed

lemmas demo_heap0 = demo_heap [of "- 1", unfolded add.left_inverse, OF insertI1]
lemmas demo_insert0 = demo_insert [of "- 1", unfolded add.left_inverse, OF insertI1]

theorem heap_create_witness:
  "\<exists>s m. mk_TableHeap (demo_pool 2, demo_meta (- 1)) = (Inr (), (s, m)) \<and> heap_inv [0] (s, m) \<and> heap_tuples [0] (s, m) = []"
  using heap_create [OF demo_fresh(1) _ _ _ demo_meta_facts(3) demo_fresh(3,2), of "- 1"] by (auto simp: demo_meta_facts)

theorem heap_insert_witness:
  "\<exists>rid s m. bind mk_TableHeap (\<lambda>_. TableHeap_InsertTuple \<lparr>is_deleted = False\<rparr> demo_tuple) (demo_pool 2, demo_meta (- 1)) = (Inr (Some rid), (s, m)) \<and>
     (\<exists>ps. heap_inv ps (s, m) \<and> heap_tuples ps (s, m) = [(rid, \<lparr>is_deleted = False\<rparr>, [1, 2, 3, 4])])"
proof -
  obtain s m where h: "mk_TableHeap (demo_pool 2, demo_meta (- 1)) = (Inr (), (s, m))" "heap_inv [0] (s, m)" "heap_tuples [0] (s, m) = []"
    "last_table_data_page_id m = 0" "page_tuple demo_tuple"
    using demo_heap0 by metis
  obtain rid s' m' where i: "bind mk_TableHeap (\<lambda>_. TableHeap_InsertTuple \<lparr>is_deleted = False\<rparr> demo_tuple) (demo_pool 2, demo_meta (- 1)) = (Inr (Some rid), (s', m'))"
    using demo_insert0 by metis
  then have "TableHeap_InsertTuple \<lparr>is_deleted = False\<rparr> demo_tuple (s, m) = (Inr (Some rid), (s', m'))" using h(1) by (simp add: act_simps)
  from heap_insert [OF h(2,5) _ this] h(3,4) i show ?thesis by (auto simp: demo_tuple_def)
qed

theorem heap_insert_returns_witness:
  "\<exists>rid h. bind mk_TableHeap (\<lambda>_. TableHeap_InsertTuple \<lparr>is_deleted = False\<rparr> demo_tuple) (demo_pool 2, demo_meta (- 1)) = (Inr (Some rid), h)"
proof -
  obtain s m where h: "mk_TableHeap (demo_pool 2, demo_meta (- 1)) = (Inr (), (s, m))" "heap_inv [0] (s, m)" "page_tuple demo_tuple"
    "tm_table_oid m = 0" "last_table_data_page_id m = 0" "last_table_heap_data_page_id m = 0" "page_table s (mk_page_id 0 0) \<noteq> None"
    "length (tuple_data demo_tuple) + TUPLE_INFO_SIZE \<le> tp_free (view (s, m) 0)"
    using demo_heap0 by metis
  from heap_insert_returns [OF h(2,3), of "\<lparr>is_deleted = False\<rparr>"] h(4-8) h(1) show ?thesis by (auto simp: act_simps)
qed

theorem heap_get_witness:
  "\<exists>rid h. bind mk_TableHeap (\<lambda>_. bind (TableHeap_InsertTuple \<lparr>is_deleted = False\<rparr> demo_tuple) (\<lambda>r. TableHeap_GetTuple (the r)))
     (demo_pool 2, demo_meta (- 1)) = (Inr (Some (\<lparr>is_deleted = False\<rparr>, \<lparr>tuple_rid = rid, tuple_data = [1, 2, 3, 4]\<rparr>)), h)"
proof -
  obtain rid s m f s1 where i: "bind mk_TableHeap (\<lambda>_. TableHeap_InsertTuple \<lparr>is_deleted = False\<rparr> demo_tuple) (demo_pool 2, demo_meta (- 1)) = (Inr (Some rid), (s, m))"
    "heap_inv [0] (s, m)" "heap_tuples [0] (s, m) = [(rid, \<lparr>is_deleted = False\<rparr>, [1, 2, 3, 4])]" "FetchPage (rid_page_id rid) s = (Inr f, s1)"
    using demo_insert0 by metis
  have "(rid, \<lparr>is_deleted = False\<rparr>, [1, 2, 3, 4]) \<in> set (heap_tuples [0] (s, m))" by (simp add: i(3))
  from heap_get [OF i(2) this i(4)] i(1) show ?thesis
    by (auto simp: bind_def split: prod.splits sum.splits)
qed

theorem heap_update_meta_witness:
  "\<exists>rid s m ps. bind mk_TableHeap (\<lambda>_. bind (TableHeap_InsertTuple \<lparr>is_deleted = False\<rparr> demo_tuple) (\<lambda>r. TableHeap_UpdateTupleMeta \<lparr>is_deleted = True\<rparr> (the r)))
     (demo_pool 2, demo_meta (- 1)) = (Inr (), (s, m)) \<and> heap_tuples ps (s, m) = [(rid, \<lparr>is_deleted = True\<rparr>, [1, 2, 3, 4])]"
proof -
  obtain rid s m f s1 where i: "bind mk_TableHeap (\<lambda>_. TableHeap_InsertTuple \<lparr>is_deleted = False\<rparr> demo_tuple) (demo_pool 2, demo_meta (- 1)) = (Inr (Some rid), (s, m))"
    "heap_inv [0] (s, m)" "heap_tuples [0] (s, m) = [(rid, \<lparr>is_deleted = False\<rparr>, [1, 2, 3, 4])]" "FetchPage (rid_page_id rid) s = (Inr f, s1)"
    using demo_insert0 by metis
  have "(rid, \<lparr>is_deleted = False\<rparr>, [1, 2, 3, 4]) \<in> set (heap_tuples [0] (s, m))" by (simp add: i(3))
  from heap_update_meta [OF i(2) this i(4), of "\<lparr>is_deleted = True\<rparr>"] i(1,3)
  obtain s' where "TableHeap_UpdateTupleMeta \<lparr>is_deleted = True\<rparr> rid (s, m) = (Inr (), (s', m))"
      "heap_tuples [0] (s', m) = [(rid, \<lparr>is_deleted = True\<rparr>, [1, 2, 3, 4])]" by (auto simp: set_flag_def)
  then show ?thesis using i(1) by (intro exI) (auto simp: bind_def split: prod.splits sum.splits)
qed

end
