(* ===== verification/IndexProperties.thy ===== *)
theory IndexProperties
  imports IndexMaps KeyedStores HeapProperties
begin

text \<open>
  The index over the buffer pool. Creating an index and its first root; one search and one insertion,
  in a tree of any depth; and sequences of both, which behave like a map. The sequences are followed
  through the locale \<open>keyed_store\<close>, whose laws the index meets as long as the root has
  room for the pages that splits may hang below it.
\<close>

section \<open>Creating an index\<close>

lemma header_root: "length m = PAGE_SIZE \<Longrightarrow> fits 4 p \<Longrightarrow> hd_GetRootPageId (hd_SetRootPageId p m) = p"
  by (simp add: hd_GetRootPageId_def hd_SetRootPageId_def mem_simps)

lemma header_type: "length m = PAGE_SIZE \<Longrightarrow> get_uint 0 4 (hd_SetRootPageId p m) = get_uint 0 4 m"
  "length m = PAGE_SIZE \<Longrightarrow> get_uint 0 4 (hd_Init m) = IndexPageType_code HEADER_PAGE"
  by (simp_all add: hd_Init_def bt_SetPageType_def hd_SetRootPageId_def mem_simps)

lemma length_header: "length m = PAGE_SIZE \<Longrightarrow> length (hd_Init m) = PAGE_SIZE" "length m = PAGE_SIZE \<Longrightarrow> length (hd_SetRootPageId p m) = PAGE_SIZE"
  by (simp_all add: hd_Init_def bt_SetPageType_def hd_SetRootPageId_def)

definition blank_header :: bytes where
  "blank_header = hd_SetRootPageId INVALID_PAGE_ID (hd_Init zero_page)"

text \<open>An index without a root: its header is in the pool, marked dirty, and nobody uses it.\<close>

definition empty_index :: "BTreeIndex \<Rightarrow> int \<Rightarrow> (PageId \<Rightarrow> nat option) \<Rightarrow> (nat \<Rightarrow> Page) \<Rightarrow> bool" where
  "empty_index ix oid T W \<longleftrightarrow> bi_comparator ix = Compare_int32 \<and>
     (\<exists>f. T (mk_page_id oid (im_header_page_id (bi_meta ix))) = Some f \<and> pin_count (W f) = 0 \<and> rwlatch (W f) = Unlatched \<and> is_dirty (W f) \<and>
       page_data (W f) = blank_header)"

lemma blank_header: "length blank_header = PAGE_SIZE" "hd_GetRootPageId blank_header = INVALID_PAGE_ID" "get_uint 0 4 blank_header = IndexPageType_code HEADER_PAGE"
  by (simp_all add: blank_header_def length_header header_root header_type fits_def)

lemma wp_mk_BTreeIndex:
  assumes see: "sees s T W D F" and room: "room_for (Suc n) m T D F" and im: "im_header_page_id im = INVALID_PAGE_ID" "column_type (im_key_col im) = INTEGER"
    and Q: "\<And>s' T' W' F'. sees s' T' W' D F' \<Longrightarrow> room_for n (one_more m) T' D F' \<Longrightarrow>
      empty_index \<lparr>bi_meta = im\<lparr>im_header_page_id := next_page m\<rparr>, bi_comparator = Compare_int32\<rparr> (tm_table_oid m) T' W' \<Longrightarrow> keeps_pins T W T' W' \<Longrightarrow>
      (\<exists>f. F = f # F' \<and> T' = T(mk_page_id (tm_table_oid m) (next_page m) \<mapsto> f) \<and> (\<forall>g. g \<noteq> f \<longrightarrow> W' g = W g)) \<Longrightarrow>
      Q \<lparr>bi_meta = im\<lparr>im_header_page_id := next_page m\<rparr>, bi_comparator = Compare_int32\<rparr> (s', one_more m)"
  shows "wp (mk_BTreeIndex im) Q (s, m)"
proof -
  let ?H = "mk_page_id (tm_table_oid m) (next_page m)"
  obtain f F' where z: "F = f # F'" "Index_AllocatePage m = (Inr ?H, one_more m)" "valid_pid ?H" "T ?H = None" "disk_page D ?H = zero_page"
      "0 \<le> next_page m" "next_page m < 2 ^ 20" "room_for n (one_more m) (T(?H \<mapsto> f)) D F'"
    by (rule next_page_facts [OF room])
  have pn: "page_number ?H = next_page m" "INVALID_PAGE_ID \<le> next_page m" using z(6) by (simp_all add: mk_page_id_def)
  have r: "f \<in> ran (T(?H \<mapsto> f))" using z(4) by (simp add: ran_map_upd)
  have fr: "f \<notin> ran T" using sees_frame(6) [OF see] z(1) by (auto simp: ran_def)
  have len: "length (hd_Init zero_page) = PAGE_SIZE" "length (hd_SetRootPageId INVALID_PAGE_ID (hd_Init zero_page)) = PAGE_SIZE" by (simp_all add: length_header)
  show ?thesis
    unfolding mk_BTreeIndex_def NewPageGuarded_def
    apply (simp add: im GetComparator_def wp_simps case_prod_beta)
    apply (rule wp_NewPage [where alloc = Index_AllocatePage, OF see [unfolded z(1)] z(2-5)])
    apply (simp add: mk_guard_def UpgradeWrite_def deref_def wp_simps)
    apply (rule wp_latches(1), assumption; simp add: r)
    apply (simp add: mk_guard_def guard_GetDataMut_def deref_def Write_Drop_def Basic_Drop_def wp_simps pn z(6))
    apply (rule wp_on_page [where m = "modify hd_Init" and x = "()" and bs = "hd_Init zero_page"], assumption; simp add: r len modify_def)
    apply (rule wp_on_page [where m = "modify (hd_SetRootPageId INVALID_PAGE_ID)" and x = "()" and bs = blank_header], assumption;
        simp add: r len modify_def blank_header_def)
    apply (simp add: blank_header_def [symmetric])
    apply (rule wp_latches(3), assumption; simp add: r)
    apply (simp only: wp_simps)
    apply (subst wp_page_at, assumption, rule r)
    apply (simp add: wp_simps)
    apply (rule wp_UnpinPage [where f = f], assumption; simp add: wp_simps z(6))
    apply (rule Q, assumption, rule z(8))
      apply (simp add: empty_index_def)
     apply (use fr z(4) in \<open>auto simp: keeps_pins_def ran_def split: option.split\<close>) [1]
    apply (use z(1) in simp)
    done
qed

text \<open>The first insertion makes a leaf the root.\<close>

lemma first_leaf:
  assumes p: "0 < p" "p < 2 ^ 20" and k: "fits 4 k" and rid: "rid_fits rid"
  obtains a b where "lf_Init p INVALID_PAGE_ID zero_page = Inr a" "length a = PAGE_SIZE" "lf_Insert (int_key k) rid Compare_int32 a = Inr b" "length b = PAGE_SIZE"
    "tree_leaf b INVALID_PAGE_ID p (- (2 ^ 31)) (2 ^ 31)" "leaf_entries b = [(k, rid)]"
proof -
  have z: "length zero_page = PAGE_SIZE" by (simp add: zero_page_def)
  obtain a where a: "lf_Init p INVALID_PAGE_ID zero_page = Inr a" "leaf_ok a" "bt_GetSize a = 0" "\<forall>i. nd a i = nd zero_page i" using leaf_init [OF z] by blast
  have e: "leaf_entries a = []" using a(3) by (simp add: leaf_entries_def)
  have la: "length a = PAGE_SIZE" using a(2) by (simp add: leaf_ok_def leaf_page_def)
  obtain b where b: "lf_Insert (int_key k) rid Compare_int32 a = Inr b" "leaf_ok b" "bt_GetSize b = 1" "\<forall>i > 0. nd b i = nd a i"
      "\<exists>j. leaf_entries b = take j (leaf_entries a) @ (k, rid) # drop j (leaf_entries a)"
    using leaf_insert_new [OF a(2) _ k rid] a(3) e by auto
  have eb: "leaf_entries b = [(k, rid)]" using b(5) e by simp
  then have "nd_key b 0 = k" using b(3) by (simp add: leaf_entries_def)
  moreover have "nd_key b i = 0" if "0 < i" "i < LEAF_MAX_NODE_SIZE" for i using b(4) a(4) that nd_zero_page [of i] by (simp add: nd_key_def)
  moreover have "bt_GetParentPageId b = INVALID_PAGE_ID" "bt_GetPageId b = p"
    using lf_Insert_ids [OF b(1) la] lf_Init_ids [OF a(1) z page_fits [OF p]] by (simp_all add: fits_def)
  ultimately have "tree_leaf b INVALID_PAGE_ID p (- (2 ^ 31)) (2 ^ 31)" using b(2,3) k by (auto simp: tree_leaf_def leaf_in_def fits_def less_Suc_eq_0_disj)
  moreover have "length b = PAGE_SIZE" using b(2) by (simp add: leaf_ok_def leaf_page_def)
  ultimately show ?thesis using that [OF a(1) la b(1)] eb by blast
qed

lemma first_insert:
  assumes see: "sees s T W D F" and ix: "empty_index ix (tm_table_oid m) T W" and room: "room_for (Suc n) m T D F" "0 \<le> last_table_data_page_id m"
    and t: "page_set t = []" and k: "fits 4 k" and rid: "rid_fits rid"
    and Q: "\<And>s' T' W' F'. sees s' T' W' D F' \<Longrightarrow> room_for n (one_more m) T' D F' \<Longrightarrow> index_in 0 ix (tm_table_oid m) (next_page m) T' W' D \<Longrightarrow>
      tree_entries 0 (table_contents (tm_table_oid m) T' W' D) (next_page m) = [(k, rid)] \<Longrightarrow> keeps_pins T W T' W' \<Longrightarrow> Q True ((s', one_more m), t)"
  shows "wp (InternalInsertRecord d ix (int_key k) rid) Q ((s, m), t)"
proof -
  let ?oid = "tm_table_oid m" and ?p = "next_page m" and ?h = "im_header_page_id (bi_meta ix)" let ?R = "mk_page_id ?oid ?p" and ?H = "mk_page_id ?oid ?h"
  obtain hf where hf: "T ?H = Some hf" "hf \<in> ran T" "pin_count (W hf) = 0" "rwlatch (W hf) = Unlatched" "is_dirty (W hf)" "page_data (W hf) = blank_header"
      "bi_comparator ix = Compare_int32"
    using ix by (auto simp: empty_index_def intro: ranI)
  obtain f F' where z: "F = f # F'" "Index_AllocatePage m = (Inr ?R, one_more m)" "valid_pid ?R" "T ?R = None" "disk_page D ?R = zero_page"
      "0 \<le> ?p" "?p < 2 ^ 20" "room_for n (one_more m) (T(?R \<mapsto> f)) D F'"
    by (rule next_page_facts [OF room(1)])
  have p: "0 < ?p" "page_number ?R = ?p" using room(2) by (simp_all add: next_page_def mk_page_id_def)
  have hp: "?h \<noteq> ?p" using hf(1) z(4) by auto
  obtain a b where b: "lf_Init ?p INVALID_PAGE_ID zero_page = Inr a" "length a = PAGE_SIZE" "lf_Insert (int_key k) rid Compare_int32 a = Inr b" "length b = PAGE_SIZE"
      "tree_leaf b INVALID_PAGE_ID ?p (- (2 ^ 31)) (2 ^ 31)" "leaf_entries b = [(k, rid)]"
    by (rule first_leaf [OF p(1) z(7) k rid])
  have fr: "f \<notin> ran T" using sees_frame(6) [OF see] z(1) by (auto simp: ran_def)
  have hn: "hf \<noteq> f" "page_id (W hf) = ?H" using fr hf(2) sees_frame(3) [OF see hf(1)] by auto
  let ?hd = "hd_SetRootPageId ?p blank_header" and ?T = "T(?R \<mapsto> f)"
  let ?W = "W(hf := (W hf)\<lparr>page_data := ?hd\<rparr>, f := (fresh ?R)\<lparr>is_dirty := True, pin_count := 0, page_data := b\<rparr>)"
  have L': "table_contents ?oid ?T ?W D = (table_contents ?oid T W D)(?h := ?hd, ?p := b)"
    using table_contents_new [OF fr, of ?oid ?p] table_contents_upd [OF see hf(1)] by simp
  have hd: "length ?hd = PAGE_SIZE" "get_uint 0 4 ?hd = IndexPageType_code HEADER_PAGE" "hd_GetRootPageId ?hd = ?p"
    using blank_header p(1) z(7) by (simp_all add: length_header header_type header_root page_fits)
  have r: "f \<in> ran ?T" "hf \<in> ran ?T" using z(4) hf(2) by (simp_all add: ran_map_upd)
  have "index_in 0 ix ?oid ?p ?T ?W D"
    using hf hn(1) hp hd b(5) p(1) z(7) fun_cong [OF L', of ?h] fun_cong [OF L', of ?p] by (auto simp: index_in_def index_at_def rests_def page_ids)
  moreover have "tree_entries 0 (table_contents ?oid ?T ?W D) ?p = [(k, rid)]" using fun_cong [OF L', of ?p] b(6) by simp
  moreover have "keeps_pins T W ?T ?W" using fr z(4) by (auto simp: keeps_pins_def ran_def split: option.split)
  ultimately have fin: "Q True ((s', one_more m), t)" if "sees s' ?T ?W D F'" for s' using Q that z(8) by blast
  have empty: "hd_TreeIsEmpty blank_header" by (simp add: hd_TreeIsEmpty_def blank_header)
  have h0: "(hold WriteLatched (W hf))\<lparr>page_data := y, rwlatch := Unlatched, is_dirty := True, pin_count := 0\<rparr> = (W hf)\<lparr>page_data := y\<rparr>" for y
    using hf(3-5) by (cases "W hf") (simp add: hold_def)
  have tt: "t\<lparr>page_set := []\<rparr> = t" using t by (cases t) simp
  show ?thesis
    unfolding InternalInsertRecord_def hf(7) CreateNewRoot_def
    apply (simp only: wp_simps)
    apply (rule wp_take [OF see hf(1)]; simp add: hf)
    apply (rule wp_latches(1), assumption; simp add: hf hold_latch wp_simps AddIntoPageSet_def t)
    apply (rule wp_nodeI, assumption; simp add: hf empty wp_simps)
    apply (rule wp_new_root_page [where T = T and g = f and F = F', OF _ z(2-5)], simp add: z(1))
    apply (simp add: wp_simps p)
    apply (rule wp_upd_node [where bs = a], assumption; simp add: r b)
    apply (rule wp_on_page [where m = "modify (hd_SetRootPageId ?p)" and x = "()" and bs = ?hd], assumption; simp add: r hn hf hd modify_def)
    apply (rule wp_upd_node [where bs = b], assumption; simp add: r b hn hn(1) [symmetric])
    apply (simp add: ReleaseParentWriteLatches_def wp_simps)
    apply (rule wp_latches(3), assumption; simp add: r hn hf)
    apply (rule wp_unpin_frame, assumption; simp add: hn hf z(4) page_ids hp wp_simps)
    apply (simp only: tt)
    apply (rule fin, erule sees_eq, simp add: h0 hn hn(1) [symmetric])
    done
qed

section \<open>The index over a pool\<close>

definition index_tree :: "nat \<Rightarrow> BTreeIndex \<Rightarrow> int \<Rightarrow> int \<Rightarrow> BufferPool \<Rightarrow> bool" where
  "index_tree d ix oid root s \<longleftrightarrow> gp_inv s \<and> index_in d ix oid root (page_table s) ((!) (pages s)) (disk_manager s)"

abbreviation index_page :: "int \<Rightarrow> BufferPool \<Rightarrow> int \<Rightarrow> bytes" where
  "index_page oid s p \<equiv> logical s (mk_page_id oid p)"

definition index_map :: "nat \<Rightarrow> int \<Rightarrow> int \<Rightarrow> BufferPool \<Rightarrow> int \<rightharpoonup> RID" where
  "index_map d oid root s = map_of (tree_entries d (index_page oid s) root)"

definition index_room :: "nat \<Rightarrow> TableMeta \<Rightarrow> BufferPool \<Rightarrow> bool" where
  "index_room n m s \<longleftrightarrow> room_for n m (page_table s) (disk_manager s) (free_list s)"

lemma sees_pages: "sees s T W D F \<Longrightarrow> table_contents oid T W D = index_page oid s"
  by (simp add: sees_logical fun_eq_iff)

lemma sees_room: "sees s T W D F \<Longrightarrow> index_room n m s = room_for n m T D F"
  by (simp add: sees_def index_room_def)

lemma sees_tree:
  assumes see: "sees s T W D F"
  shows "index_tree d ix oid root s = index_in d ix oid root T W D"
proof -
  have f: "page_table s = T" "disk_manager s = D" "gp_inv s" using see by (simp_all add: sees_def)
  have "rests T ((!) (pages s)) pid = rests T W pid" for pid using sees_frame(2) [OF see, of pid] by (auto simp: rests_def)
  moreover have "contents T ((!) (pages s)) D = contents T W D" using sees_logical [OF see] sees_logical [OF sees_inv [OF f(3)]] f by simp
  ultimately show ?thesis using f by (simp add: index_tree_def index_in_def index_at_def)
qed

lemma tree_sees: "index_tree d ix oid root s \<Longrightarrow> sees s (page_table s) ((!) (pages s)) (disk_manager s) (free_list s)"
  by (simp add: index_tree_def sees_inv)

lemma sees_same_pins:
  assumes "sees s T W D F" and "sees s' T' W' D' F'" and "keeps_pins T W T' W'"
  shows "pins s' = pins s"
  using assms(3) sees_pins [OF assms(1)] sees_pins [OF assms(2)] by (simp add: keeps_pins_def fun_eq_iff)

text \<open>The first root.\<close>

lemma create_and_insert:
  assumes inv: "gp_inv s" and room: "index_room (n + 2) m s" and im: "im_header_page_id im = INVALID_PAGE_ID" "column_type (im_key_col im) = INTEGER"
    and t: "page_set t = []" and k: "fits 4 k" and rid: "rid_fits rid"
  obtains ix s1 m1 s2 m2 root where "mk_BTreeIndex im (s, m) = (Inr ix, (s1, m1))" "gp_inv s1" "empty_index ix (tm_table_oid m1) (page_table s1) ((!) (pages s1))"
    "InternalInsertRecord d ix (int_key k) rid ((s1, m1), t) = (Inr True, ((s2, m2), t))"
    "index_tree 0 ix (tm_table_oid m2) root s2" "tree_entries 0 (index_page (tm_table_oid m2) s2) root = [(k, rid)]" "index_room n m2 s2" "0 \<le> last_table_data_page_id m2"
    "pins s2 (mk_page_id (tm_table_oid m2) (im_header_page_id (bi_meta ix))) = 0" "tm_table_oid m2 = tm_table_oid m" "pins s2 = pins s"
proof -
  have nn: "n + 2 = Suc (Suc n)" by simp
  note see = sees_inv [OF inv]
  have rm: "room_for (Suc (Suc n)) m (page_table s) (disk_manager s) (free_list s)" using room unfolding index_room_def nn .
  let ?ix = "\<lparr>bi_meta = im\<lparr>im_header_page_id := next_page m\<rparr>, bi_comparator = Compare_int32\<rparr>" and ?D = "disk_manager s"
  have "wp (mk_BTreeIndex im) (\<lambda>ix h. \<exists>s' T' W' F'. ix = ?ix \<and> h = (s', one_more m) \<and> sees s' T' W' ?D F' \<and> room_for (Suc n) (one_more m) T' ?D F' \<and>
      empty_index ?ix (tm_table_oid m) T' W' \<and> keeps_pins (page_table s) ((!) (pages s)) T' W') (s, m)"
    by (rule wp_mk_BTreeIndex [OF see rm im]) blast
  then obtain s1 T1 W1 F1 where c: "mk_BTreeIndex im (s, m) = (Inr ?ix, (s1, one_more m))" "sees s1 T1 W1 ?D F1" "room_for (Suc n) (one_more m) T1 ?D F1"
      "empty_index ?ix (tm_table_oid m) T1 W1" "keeps_pins (page_table s) ((!) (pages s)) T1 W1"
    by (auto dest!: wpD)
  have last: "0 \<le> last_table_data_page_id (one_more m)" using rm by (simp add: room_for_def next_page_def)
  have e1: "empty_index ?ix (tm_table_oid (one_more m)) T1 W1" using c(4) by simp
  let ?p = "next_page (one_more m)" and ?m2 = "one_more (one_more m)"
  have "wp (InternalInsertRecord d ?ix (int_key k) rid) (\<lambda>b st. \<exists>s' T' W' F'. b \<and> st = ((s', ?m2), t) \<and> sees s' T' W' ?D F' \<and> room_for n ?m2 T' ?D F' \<and>
      index_in 0 ?ix (tm_table_oid m) ?p T' W' ?D \<and> tree_entries 0 (table_contents (tm_table_oid m) T' W' ?D) ?p = [(k, rid)] \<and> keeps_pins T1 W1 T' W') ((s1, one_more m), t)"
    by (rule first_insert [OF c(2) e1 c(3) last t k rid]) auto
  then obtain s2 T2 W2 F2 where i: "InternalInsertRecord d ?ix (int_key k) rid ((s1, one_more m), t) = (Inr True, ((s2, ?m2), t))" "sees s2 T2 W2 ?D F2" "room_for n ?m2 T2 ?D F2"
      "index_in 0 ?ix (tm_table_oid m) ?p T2 W2 ?D" "tree_entries 0 (table_contents (tm_table_oid m) T2 W2 ?D) ?p = [(k, rid)]" "keeps_pins T1 W1 T2 W2"
    by (auto dest!: wpD simp del: tree_entries.simps)
  let ?H = "mk_page_id (tm_table_oid m) (next_page m)"
  obtain hf where hf: "T1 ?H = Some hf" "pin_count (W1 hf) = 0" using c(4) by (auto simp: empty_index_def)
  have "pins s2 ?H = 0" using sees_same_pins [OF c(2) i(2,6)] sees_pins [OF c(2), of ?H] hf by simp
  moreover have "empty_index ?ix (tm_table_oid m) (page_table s1) ((!) (pages s1))"
    using c(4) sees_frame(2) [OF c(2)] c(2) by (auto simp: empty_index_def sees_def)
  ultimately show ?thesis
    using that [OF c(1) _ _ i(1), of ?p] sees_bp(1) [OF c(2)] sees_tree [OF i(2)] sees_room [OF i(2)] sees_pages [OF i(2)] i(3-5) last
      sees_same_pins [OF c(2) i(2,6)] sees_same_pins [OF see c(2,5)]
    by (simp add: next_page_def del: tree_entries.simps)
qed

section \<open>Searching and inserting\<close>

lemma scan_index:
  assumes inv: "gp_inv s" and ix: "index_at d ix (tm_table_oid m) root (page_table s) ((!) (pages s)) (disk_manager s)"
    and path: "path_rests d (tm_table_oid m) root (page_table s) ((!) (pages s)) (disk_manager s) k" and k: "fits 4 k"
  obtains s' hf where "InternalScanKey (Suc (d + e)) ix (int_key k) rids ((s, m), t) =
      (Inr (case index_map d (tm_table_oid m) root s k of None \<Rightarrow> (False, rids) | Some r \<Rightarrow> (True, rids @ [r])), ((s', m), t))"
    "page_table s (mk_page_id (tm_table_oid m) (im_header_page_id (bi_meta ix))) = Some hf"
    "sees s' (page_table s) (((!) (pages s))(hf := hold Unlatched (pages s ! hf))) (disk_manager s) (free_list s)"
proof -
  note see = sees_inv [OF inv]
  obtain hf where hf: "page_table s (mk_page_id (tm_table_oid m) (im_header_page_id (bi_meta ix))) = Some hf" using ix by (auto simp: index_at_def rests_def)
  have "wp (InternalScanKey (Suc (d + e)) ix (int_key k) rids)
      (\<lambda>r st. r = (case index_map d (tm_table_oid m) root s k of None \<Rightarrow> (False, rids) | Some r \<Rightarrow> (True, rids @ [r])) \<and>
        (\<exists>s'. st = ((s', m), t) \<and> sees s' (page_table s) (((!) (pages s))(hf := hold Unlatched (pages s ! hf))) (disk_manager s) (free_list s))) ((s, m), t)"
    by (rule scan_tree [OF see ix path k hf]) (simp add: index_map_def sees_pages [OF see])
  then show ?thesis using that hf by (auto dest!: wpD)
qed

lemma scan_effect:
  assumes inv: "gp_inv s" and hf: "page_table s H = Some hf" "pin_count (pages s ! hf) \<noteq> - 1"
    and see: "sees s' (page_table s) (((!) (pages s))(hf := hold Unlatched (pages s ! hf))) (disk_manager s) (free_list s)"
  shows "logical s' = logical s" and "page_table s' = page_table s" and "pins s' = (pins s)(H := pins s H + 1)" and "gp_inv s'"
proof -
  note s0 = sees_inv [OF inv]
  show "logical s' = logical s" using sees_logical [OF see] sees_logical [OF s0] contents_same [of "hold Unlatched (pages s ! hf)" "(!) (pages s)" hf] by simp
  show "page_table s' = page_table s" "gp_inv s'" using see by (simp_all add: sees_def)
  show "pins s' = (pins s)(H := pins s H + 1)"
  proof
    fix pid
    show "pins s' pid = ((pins s)(H := pins s H + 1)) pid"
      using sees_pins [OF see, of pid] sees_pins [OF s0, of pid] sees_pins [OF s0, of H] hf(1) sees_inj [OF s0 hf(1), of pid]
      by (auto split: option.splits)
  qed
qed

text \<open>
  One insertion. Nothing is asked of the pool when the leaf has room; otherwise one more page for
  the sibling and one for a new root, and an entry in the page above the leaf.
\<close>

definition insert_ready :: "nat \<Rightarrow> nat \<Rightarrow> int \<Rightarrow> TableMeta \<Rightarrow> BufferPool \<Rightarrow> int \<Rightarrow> bool" where
  "insert_ready r d root m s k \<longleftrightarrow> (let L = index_page (tm_table_oid m) s; path = tree_path d L root k in
     bt_GetSize (L (last path)) + 1 < LEAF_MAX_NODE_SIZE \<or>
     0 \<le> last_table_data_page_id m \<and> index_room r m s \<and> (if d = 0 then 2 \<le> r else 1 \<le> r \<and> bt_GetSize (L (path ! (d - 1))) < INTERNAL_MAX_NODE_SIZE))"

lemma leaf_not_full:
  assumes "index_in d ix oid root T W D" and "fits 4 k"
  shows "bt_GetSize (table_contents oid T W D (leaf_page_of d oid root T W D k)) < LEAF_MAX_NODE_SIZE"
proof -
  have "- (2 ^ 31) \<le> k" "k < 2 ^ 31" using assms(2) by (simp_all add: fits_def)
  then obtain par lo hi where "tree_leaf (table_contents oid T W D (leaf_page_of d oid root T W D k)) par (leaf_page_of d oid root T W D k) lo hi"
    using tree_find(1) [OF index_in_facts(1) [OF assms(1)] assms(2)] by metis
  then show ?thesis by (simp add: tree_leaf_def)
qed

definition room_left :: "nat \<Rightarrow> nat \<Rightarrow> int \<Rightarrow> TableMeta \<Rightarrow> BufferPool \<Rightarrow> nat \<Rightarrow> int \<Rightarrow> TableMeta \<Rightarrow> BufferPool \<Rightarrow> bool" where
  "room_left r d root m s d' root' m' s' \<longleftrightarrow> (let size = \<lambda>p s. bt_GetSize (index_page (tm_table_oid m) s p); filled = \<lambda>d p s. filled d (index_page (tm_table_oid m) s) p in
     if d = 0 then d' = 0 \<and> index_room r m' s' \<or> d' = 1 \<and> index_room (r - 2) m' s' \<and> size root' s' = 2 \<and> filled 1 root' s'
     else d' = d \<and> root' = root \<and> (filled d root s \<longrightarrow> filled d root s') \<and>
       (index_room r m' s' \<and> size root s' = size root s \<or> index_room (r - 1) m' s' \<and> size root s' = size root s + (if d = 1 then 1 else 0)))"

lemma insert_index:
  assumes tree: "index_tree d ix (tm_table_oid m) root s" and t: "page_set t = []" and k: "fits 4 k" "k \<noteq> 0" and rid: "rid_fits rid"
    and new: "index_map d (tm_table_oid m) root s k = None" and ready: "insert_ready r d root m s k"
  obtains s' m' d' root' where "InternalInsertRecord (Suc (d + e)) ix (int_key k) rid ((s, m), t) = (Inr True, ((s', m'), t))"
    "index_tree d' ix (tm_table_oid m) root' s'" "index_map d' (tm_table_oid m) root' s' = (index_map d (tm_table_oid m) root s)(k \<mapsto> rid)"
    "tm_table_oid m' = tm_table_oid m" "last_table_data_page_id m \<le> last_table_data_page_id m'"
    "pins s' = pins s" "index_room r m s \<longrightarrow> room_left r d root m s d' root' m' s'"
    "length (tree_entries d' (index_page (tm_table_oid m) s') root') = length (tree_entries d (index_page (tm_table_oid m) s) root) + 1"
proof -
  let ?oid = "tm_table_oid m" and ?T = "page_table s" and ?W = "(!) (pages s)" and ?D = "disk_manager s" and ?F = "free_list s"
  note see = tree_sees [OF tree]
  have ix: "index_in d ix ?oid root ?T ?W ?D" using tree by (simp add: index_tree_def)
  have L: "table_contents ?oid ?T ?W ?D = index_page ?oid s" by (rule sees_pages [OF see])
  have Lx: "table_contents ?oid ?T ?W ?D x = index_page ?oid s x" for x using fun_cong [OF L] .
  have nw: "k \<notin> fst ` set (tree_entries d (table_contents ?oid ?T ?W ?D) root)" using new by (simp add: index_map_def L map_of_eq_None_iff)
  define post where "post = (\<lambda>b st. \<exists>s' m' d' root'. b \<and> st = ((s', m'), t) \<and> index_tree d' ix ?oid root' s' \<and> index_map d' ?oid root' s' = (index_map d ?oid root s)(k \<mapsto> rid) \<and>
    tm_table_oid m' = ?oid \<and> last_table_data_page_id m \<le> last_table_data_page_id m' \<and> pins s' = pins s \<and>
    (index_room r m s \<longrightarrow> room_left r d root m s d' root' m' s') \<and>
    length (tree_entries d' (index_page ?oid s') root') = length (tree_entries d (index_page ?oid s) root) + 1)"
  have post: "post True ((s', m'), t)"
    if "sees s' T' W' ?D F'" "index_in d' ix ?oid root' T' W' ?D" "tm_table_oid m' = ?oid" "last_table_data_page_id m \<le> last_table_data_page_id m'" "keeps_pins ?T ?W T' W'"
      "inserts k rid (tree_entries d (table_contents ?oid ?T ?W ?D) root) (tree_entries d' (table_contents ?oid T' W' ?D) root')"
      "index_room r m s \<longrightarrow> room_left r d root m s d' root' m' s'" for s' T' W' F' m' d' root'
    using that inserts_map [OF that(6) nw] length_inserts [OF that(6)] sees_tree [OF that(1)] sees_same_pins [OF see that(1,5)]
    by (auto simp: post_def index_map_def sees_pages [OF that(1)] L)
  let ?q = "leaf_page_of d ?oid root ?T ?W ?D k"
  have "wp (InternalInsertRecord (Suc (d + e)) ix (int_key k) rid) post ((s, m), t)"
  proof (cases "bt_GetSize (table_contents ?oid ?T ?W ?D ?q) + 1 < LEAF_MAX_NODE_SIZE")
    case True
    show ?thesis
    proof (rule insert_leaf_case [OF see ix t k rid nw True])
      fix s' W'
      assume st: "sees s' ?T W' ?D ?F" "index_in d ix ?oid root ?T W' ?D"
        "inserts k rid (tree_entries d (table_contents ?oid ?T ?W ?D) root) (tree_entries d (table_contents ?oid ?T W' ?D) root)"
        "0 < d \<Longrightarrow> table_contents ?oid ?T W' ?D root = table_contents ?oid ?T ?W ?D root"
        "filled d (table_contents ?oid ?T ?W ?D) root \<Longrightarrow> filled d (table_contents ?oid ?T W' ?D) root" "keeps_pins ?T ?W ?T W'"
      have "room_left r d root m s d root m s'" if "index_room r m s"
        using that st(4,5) sees_room [OF st(1)] sees_room [OF see] sees_pages [OF st(1), of ?oid] L Lx [of root] fun_cong [OF sees_pages [OF st(1)], of ?oid root]
        by (auto simp: room_left_def Let_def)
      then show "post True ((s', m), t)" using post [OF st(1,2) refl _ st(6,3)] by simp
    qed
  next
    case False
    then have full: "bt_GetSize (table_contents ?oid ?T ?W ?D ?q) + 1 = LEAF_MAX_NODE_SIZE" using leaf_not_full [OF ix k(1)] by simp
    then have rdy: "0 \<le> last_table_data_page_id m" "room_for r m ?T ?D ?F"
        "if d = 0 then 2 \<le> r else 1 \<le> r \<and> bt_GetSize (table_contents ?oid ?T ?W ?D (tree_path d (table_contents ?oid ?T ?W ?D) root k ! (d - 1))) < INTERNAL_MAX_NODE_SIZE"
      using ready unfolding insert_ready_def Let_def L Lx index_room_def by auto
    show ?thesis
    proof (cases d)
      case 0
      then obtain i where r: "r = Suc (Suc i)" using rdy(3) by (metis add_2_eq_Suc le_Suc_ex)
      show ?thesis
        unfolding 0
      proof (rule insert_root_case [OF see ix [unfolded 0] t k rid nw [unfolded 0] _ rdy(2) [unfolded r] rdy(1)])
        show "bt_GetSize (table_contents ?oid ?T ?W ?D root) + 1 = LEAF_MAX_NODE_SIZE" using full 0 by simp
        fix s' T' W' F'
        assume st: "sees s' T' W' ?D F'" "index_in (Suc 0) ix ?oid (next_page (one_more m)) T' W' ?D" "room_for i (one_more (one_more m)) T' ?D F'"
          "inserts k rid (tree_entries 0 (table_contents ?oid ?T ?W ?D) root) (tree_entries (Suc 0) (table_contents ?oid T' W' ?D) (next_page (one_more m)))"
          "bt_GetSize (table_contents ?oid T' W' ?D (next_page (one_more m))) = 2" "filled (Suc 0) (table_contents ?oid T' W' ?D) (next_page (one_more m))"
          "keeps_pins ?T ?W T' W'"
        have "room_left r d root m s (Suc 0) (next_page (one_more m)) (one_more (one_more m)) s'"
          using st(3,5,6) r 0 sees_room [OF st(1)] fun_cong [OF sees_pages [OF st(1)], of ?oid] sees_pages [OF st(1), of ?oid]
          by (simp add: room_left_def Let_def del: filled.simps)
        then show "post True ((s', one_more (one_more m)), t)"
          using post [OF st(1,2) _ _ st(7), of "one_more (one_more m)"] st(4) 0 by (simp add: next_page_def del: tree_entries.simps)
      qed
    next
      case (Suc n)
      then obtain i where r: "r = Suc i" using rdy(3) by (cases r) auto
      show ?thesis
        unfolding Suc
      proof (rule insert_split_case [OF see ix [unfolded Suc] t k rid nw [unfolded Suc] full [unfolded Suc] _ rdy(2) [unfolded r] rdy(1)])
        show "bt_GetSize (table_contents ?oid ?T ?W ?D (tree_path (Suc n) (table_contents ?oid ?T ?W ?D) root k ! n)) < INTERNAL_MAX_NODE_SIZE"
          using rdy(3) Suc by (simp del: tree_path.simps)
        fix s' T' W' F'
        assume st: "sees s' T' W' ?D F'" "index_in (Suc n) ix ?oid root T' W' ?D" "room_for i (one_more m) T' ?D F'"
          "inserts k rid (tree_entries (Suc n) (table_contents ?oid ?T ?W ?D) root) (tree_entries (Suc n) (table_contents ?oid T' W' ?D) root)"
          "bt_GetSize (table_contents ?oid T' W' ?D root) = bt_GetSize (table_contents ?oid ?T ?W ?D root) + (if n = 0 then 1 else 0)"
          "filled (Suc n) (table_contents ?oid ?T ?W ?D) root \<Longrightarrow> filled (Suc n) (table_contents ?oid T' W' ?D) root" "keeps_pins ?T ?W T' W'"
        have "room_left r d root m s (Suc n) root (one_more m) s'"
          using st(3,5,6) r Suc sees_room [OF st(1)] fun_cong [OF sees_pages [OF st(1)], of ?oid root] Lx [of root] sees_pages [OF st(1), of ?oid] L
          by (simp add: room_left_def Let_def del: filled.simps)
        then show "post True ((s', one_more m), t)"
          using post [OF st(1,2) _ _ st(7), of "one_more m"] st(4) Suc by (simp add: next_page_def del: tree_entries.simps)
      qed
    qed
  qed
  then show ?thesis using that unfolding post_def by (auto dest!: wpD)
qed

section \<open>The index as a store\<close>

text \<open>
  A tree of one leaf or of a root above leaves that are at least half full. With \<open>N\<close> entries, those
  of \<open>n\<close> more insertions included, it has \<open>N div 101\<close> leaves at most. The root can take all of them as long as
  \<open>N\<close> is at most 34238: 337 leaves with half of the entries and one that is about to be split. A search leaves
  one more pin on the header.
\<close>

definition root_size :: "nat \<Rightarrow> int \<Rightarrow> int \<Rightarrow> BufferPool \<Rightarrow> nat" where
  "root_size d oid root s = (if d = 0 then 0 else bt_GetSize (index_page oid s root))"

abbreviation index_size :: "nat \<Rightarrow> int \<Rightarrow> int \<Rightarrow> BufferPool \<Rightarrow> nat" where
  "index_size d oid root s \<equiv> length (tree_entries d (index_page oid s) root)"

definition store_tree :: "BTreeIndex \<Rightarrow> nat \<Rightarrow> nat \<Rightarrow> int \<Rightarrow> TableMeta \<Rightarrow> BufferPool \<Rightarrow> bool" where
  "store_tree ix M d root m s \<longleftrightarrow> d \<le> 1 \<and> index_tree d ix (tm_table_oid m) root s \<and> 0 \<le> last_table_data_page_id m \<and>
     (d = 1 \<longrightarrow> filled 1 (index_page (tm_table_oid m) s) root) \<and> index_room (M - root_size d (tm_table_oid m) root s) m s"

definition index_holds :: "BTreeIndex \<Rightarrow> nat \<Rightarrow> (int \<rightharpoonup> RID) \<Rightarrow> tree \<Rightarrow> bool" where
  "index_holds ix n f = (\<lambda>((s, m), t). page_set t = [] \<and>
     unat (pins s (mk_page_id (tm_table_oid m) (im_header_page_id (bi_meta ix)))) + n < 2 ^ 16 - 1 \<and>
     (\<exists>d root. index_map d (tm_table_oid m) root s = f \<and> index_size d (tm_table_oid m) root s + n \<le> 34238 \<and>
       store_tree ix ((index_size d (tm_table_oid m) root s + n) div 101) d root m s))"

abbreviation index_put :: "BTreeIndex \<Rightarrow> int \<Rightarrow> RID \<Rightarrow> (tree, bool) action" where
  "index_put ix k rid \<equiv> InternalInsertRecord 2 ix (int_key k) rid"

abbreviation index_get :: "BTreeIndex \<Rightarrow> int \<Rightarrow> (tree, bool \<times> RID list) action" where
  "index_get ix k \<equiv> InternalScanKey 2 ix (int_key k) []"

lemma fuel_two: "d \<le> 1 \<Longrightarrow> \<exists>e. 2 = Suc (d + e)"
  by presburger

lemma index_room_le: "index_room n m s \<Longrightarrow> n' \<le> n \<Longrightarrow> index_room n' m s"
  by (simp add: index_room_def room_for_def)

lemma index_tree_ok: "index_tree d ix oid root s \<Longrightarrow> tree_ok d (index_page oid s) INVALID_PAGE_ID root (- (2 ^ 31)) (2 ^ 31)"
  using sees_pages [OF tree_sees, of d ix oid root s oid] index_in_facts(1) by (fastforce simp: index_tree_def)

text \<open>A full leaf below the root means that there are entries for one more leaf.\<close>

lemma full_leaf_count:
  assumes tree: "index_tree d ix oid root s" and d: "d \<le> 1" "d = 1 \<longrightarrow> filled 1 (index_page oid s) root" and k: "fits 4 k"
    and full: "\<not> bt_GetSize (index_page oid s (last (tree_path d (index_page oid s) root k))) + 1 < LEAF_MAX_NODE_SIZE"
  shows "101 * (if d = 0 then 2 else root_size d oid root s + 1) \<le> index_size d oid root s + 1"
proof (cases "d = 0")
  case True
  then show ?thesis using full by (simp add: leaf_entries_def)
next
  case False
  then have d1: "d = Suc 0" using d(1) by simp
  let ?L = "index_page oid s"
  have ok: "tree_ok (Suc 0) ?L INVALID_PAGE_ID root (- (2 ^ 31)) (2 ^ 31)" using index_tree_ok [OF tree] d1 by simp
  have c: "child_of (?L root) k < bt_GetSize (?L root)" using ok in_Lookup_child(2) k by (auto simp: tree_node_def)
  moreover have "bt_GetSize (?L (in_val (?L root) (child_of (?L root) k))) < LEAF_MAX_NODE_SIZE" using ok c by (simp add: tree_leaf_def)
  then have "bt_GetSize (?L (in_val (?L root) (child_of (?L root) k))) + 1 = LEAF_MAX_NODE_SIZE" using full d1 by simp
  moreover have "filled (Suc 0) ?L root" using d(2) d1 by (simp del: filled.simps)
  ultimately have "101 * (bt_GetSize (?L root) + 1) \<le> length (tree_entries (Suc 0) ?L root) + 1" by (intro entries_least)
  then show ?thesis using d1 by (simp add: root_size_def del: tree_entries.simps)
qed

text \<open>The room for \<open>N\<close> entries is room for the next insertion.\<close>

lemma store_ready:
  assumes st: "store_tree ix (N div 101) d root m s" and N: "index_size d (tm_table_oid m) root s < N" "N \<le> 34238" and k: "fits 4 k"
  shows "insert_ready (N div 101 - root_size d (tm_table_oid m) root s) d root m s k"
proof -
  let ?oid = "tm_table_oid m" let ?r = "N div 101 - root_size d ?oid root s"
  have h: "d \<le> 1" "index_tree d ix ?oid root s" "0 \<le> last_table_data_page_id m" "d = 1 \<longrightarrow> filled 1 (index_page ?oid s) root" "index_room ?r m s"
    using st by (simp_all add: store_tree_def)
  show ?thesis
  proof (cases "bt_GetSize (index_page ?oid s (last (tree_path d (index_page ?oid s) root k))) + 1 < LEAF_MAX_NODE_SIZE")
    case False
    from full_leaf_count [OF h(2,1,4) k False] N have "101 * (if d = 0 then 2 else root_size d ?oid root s + 1) \<le> N" by linarith
    then have "(if d = 0 then 2 else root_size d ?oid root s + 1) \<le> N div 101" by (simp add: less_eq_div_iff_mult_less_eq mult.commute)
    then have "if d = 0 then 2 \<le> ?r else 1 \<le> ?r \<and> bt_GetSize (index_page ?oid s (tree_path d (index_page ?oid s) root k ! (d - 1))) < INTERNAL_MAX_NODE_SIZE"
      using N(2) h(1) by (cases "d = 0") (auto simp: root_size_def le_Suc_eq)
    then show ?thesis using h(3,5) unfolding insert_ready_def Let_def by blast
  qed (simp add: insert_ready_def Let_def)
qed

lemma store_put:
  assumes st: "store_tree ix M d root m s" and rdy: "insert_ready (M - root_size d (tm_table_oid m) root s) d root m s k" and t: "page_set t = []"
    and k: "fits 4 k" "k \<noteq> 0" and rid: "rid_fits rid" and new: "index_map d (tm_table_oid m) root s k = None"
  obtains s' m' d' root' where "index_put ix k rid ((s, m), t) = (Inr True, ((s', m'), t))" "store_tree ix M d' root' m' s'" "tm_table_oid m' = tm_table_oid m"
    "index_map d' (tm_table_oid m) root' s' = (index_map d (tm_table_oid m) root s)(k \<mapsto> rid)"
    "index_size d' (tm_table_oid m) root' s' = index_size d (tm_table_oid m) root s + 1" "pins s' = pins s"
proof -
  let ?oid = "tm_table_oid m" let ?r = "M - root_size d ?oid root s"
  have h: "d \<le> 1" "index_tree d ix ?oid root s" "0 \<le> last_table_data_page_id m" "d = 1 \<longrightarrow> filled 1 (index_page ?oid s) root" "index_room ?r m s"
    using st by (simp_all add: store_tree_def)
  obtain e where e: "2 = Suc (d + e)" using fuel_two [OF h(1)] by blast
  obtain s' m' d' root' where i: "InternalInsertRecord (Suc (d + e)) ix (int_key k) rid ((s, m), t) = (Inr True, ((s', m'), t))"
      "index_tree d' ix ?oid root' s'" "index_map d' ?oid root' s' = (index_map d ?oid root s)(k \<mapsto> rid)"
      "tm_table_oid m' = ?oid" "last_table_data_page_id m \<le> last_table_data_page_id m'"
      "pins s' = pins s" "index_room ?r m s \<longrightarrow> room_left ?r d root m s d' root' m' s'"
      "index_size d' ?oid root' s' = index_size d ?oid root s + 1"
    by (rule insert_index [OF h(2) t k rid new rdy])
  have "room_left ?r d root m s d' root' m' s'" using i(7) h(5) by blast
  then have "d' \<le> 1 \<and> (d' = 1 \<longrightarrow> filled 1 (index_page ?oid s') root') \<and> index_room (M - root_size d' ?oid root' s') m' s'"
    using h(1,4) by (cases "d = 0"; cases "d = 1") (auto simp: room_left_def Let_def root_size_def simp del: filled.simps One_nat_def)
  then have "store_tree ix M d' root' m' s'" using i(2,4,5) h(3) by (simp add: store_tree_def del: filled.simps)
  then show ?thesis using that i unfolding e [symmetric] by blast
qed

lemma index_put_new:
  assumes h: "index_holds ix (Suc n) f st" and k: "fits 4 k \<and> k \<noteq> 0" and rid: "rid_fits rid" and new: "f k = None"
  shows "\<exists>st'. index_put ix k rid st = (Inr True, st') \<and> index_holds ix n (f(k \<mapsto> rid)) st'"
proof -
  obtain s m t where st: "st = ((s, m), t)" by (metis prod.collapse)
  let ?oid = "tm_table_oid m" let ?H = "mk_page_id ?oid (im_header_page_id (bi_meta ix))"
  obtain d root where h: "page_set t = []" "unat (pins s ?H) + Suc n < 2 ^ 16 - 1" "index_map d ?oid root s = f" "index_size d ?oid root s + Suc n \<le> 34238"
      "store_tree ix ((index_size d ?oid root s + Suc n) div 101) d root m s"
    using h unfolding st index_holds_def prod.case by blast
  have nw: "index_map d ?oid root s k = None" using new h(3) by blast
  have lt: "index_size d ?oid root s < index_size d ?oid root s + Suc n" by (simp only: add_Suc_right less_Suc_eq_le le_add1)
  have k1: "fits 4 k" "k \<noteq> 0" using k by blast+
  obtain s' m' d' root' where i: "index_put ix k rid ((s, m), t) = (Inr True, ((s', m'), t))" "store_tree ix ((index_size d ?oid root s + Suc n) div 101) d' root' m' s'"
      "tm_table_oid m' = ?oid" "index_map d' ?oid root' s' = (index_map d ?oid root s)(k \<mapsto> rid)"
      "index_size d' ?oid root' s' = index_size d ?oid root s + 1" "pins s' = pins s"
    by (rule store_put [OF h(5) store_ready [OF h(5) lt h(4) k1(1)] h(1) k1 rid nw])
  have sz: "index_size d' (tm_table_oid m') root' s' + n = index_size d ?oid root s + Suc n" using i(3,5) by simp
  have "index_holds ix n (f(k \<mapsto> rid)) ((s', m'), t)"
    unfolding index_holds_def prod.case i(3) using i(2,4,6) h(1-4) sz [unfolded i(3)] by (intro conjI exI [of _ d'] exI [of _ root']) simp_all
  then show ?thesis using i(1) st by blast
qed

lemma index_get_any:
  assumes h: "index_holds ix (Suc n) f st" and k: "fits 4 k"
  shows "\<exists>st'. index_get ix k st = (Inr (map_get f k), st') \<and> index_holds ix n f st'"
proof -
  obtain s m t where st: "st = ((s, m), t)" by (metis prod.collapse)
  let ?oid = "tm_table_oid m" let ?H = "mk_page_id ?oid (im_header_page_id (bi_meta ix))"
  obtain d root where h: "page_set t = []" "unat (pins s ?H) + Suc n < 2 ^ 16 - 1" "index_map d ?oid root s = f" "index_size d ?oid root s + Suc n \<le> 34238"
      "store_tree ix ((index_size d ?oid root s + Suc n) div 101) d root m s"
    using h unfolding st index_holds_def prod.case by blast
  have g: "d \<le> 1" "index_tree d ix ?oid root s" using h(5) by (simp_all add: store_tree_def)
  obtain e where e: "2 = Suc (d + e)" using fuel_two [OF g(1)] by blast
  have inv: "gp_inv s" and ix: "index_in d ix ?oid root (page_table s) ((!) (pages s)) (disk_manager s)" using g(2) by (simp_all add: index_tree_def)
  obtain s' hf where r: "InternalScanKey (Suc (d + e)) ix (int_key k) [] ((s, m), t) =
        (Inr (case index_map d ?oid root s k of None \<Rightarrow> (False, []) | Some r \<Rightarrow> (True, [] @ [r])), ((s', m), t))" "page_table s ?H = Some hf"
      "sees s' (page_table s) (((!) (pages s))(hf := hold Unlatched (pages s ! hf))) (disk_manager s) (free_list s)"
    by (rule scan_index [OF inv index_in_path [OF ix k] k])
  have pc: "pin_count (pages s ! hf) = pins s ?H" "pins s ?H \<noteq> - 1"
    using r(2) index_in_facts(4) [OF ix] by (simp_all add: pins_def rests_def)
  note ef = scan_effect [OF inv r(2) _ r(3)]
  have lg: "logical s' = logical s" "pins s' ?H = pins s ?H + 1" using ef(1,3) pc by simp_all
  have up: "unat (pins s ?H + 1) = unat (pins s ?H) + 1" using h(2) by (simp add: unat_word_ariths)
  have rp: "rests (page_table s) (((!) (pages s))(hf := hold Unlatched (pages s ! hf))) pid" if "rests (page_table s) ((!) (pages s)) pid" for pid
  proof -
    have "unat (- 1 :: 16 word) = 65535" by (simp add: unsigned_minus_1_eq_mask mask_eq_exp_minus_1)
    moreover have "unat (pins s ?H + 1) \<noteq> 65535" using up h(2) by simp
    ultimately have "pins s ?H + 1 \<noteq> - 1" by metis
    then show ?thesis using that pc by (auto simp: rests_def)
  qed
  have "contents (page_table s) (((!) (pages s))(hf := hold Unlatched (pages s ! hf))) (disk_manager s) = contents (page_table s) ((!) (pages s)) (disk_manager s)"
    by (rule contents_same) simp
  then have tr: "index_tree d ix ?oid root s'" using ix rp unfolding sees_tree [OF r(3)] by (simp add: index_in_def index_at_def)
  have rm: "index_room x m s' = index_room x m s" for x using r(3) by (simp add: index_room_def sees_def)
  have "(index_size d ?oid root s + n) div 101 \<le> (index_size d ?oid root s + Suc n) div 101" by (intro div_le_mono) simp
  then have "store_tree ix ((index_size d ?oid root s + n) div 101) d root m s'"
    using h(5) tr index_room_le [of _ m s] unfolding store_tree_def rm root_size_def lg by (auto simp del: filled.simps intro: diff_le_mono)
  then have "index_holds ix n f ((s', m), t)"
    unfolding index_holds_def prod.case using h lg up by (intro conjI exI [of _ d] exI [of _ root]) (simp_all add: index_map_def)
  moreover have "index_get ix k st = (Inr (map_get f k), ((s', m), t))" using r(1) h(3) unfolding e [symmetric] st map_get_def append_Nil by simp
  ultimately show ?thesis by blast
qed

interpretation bt: keyed_store "index_holds ix" "index_put ix" "index_get ix" "fits 4" "\<lambda>k. fits 4 k \<and> k \<noteq> 0" rid_fits for ix
  by unfold_locales (use index_put_new index_get_any in auto)

section \<open>An index in a new table\<close>

lemma scan_empty:
  assumes inv: "gp_inv s" and ix: "empty_index ix (tm_table_oid m) (page_table s) ((!) (pages s))"
  shows "fst (InternalScanKey d ix key rids ((s, m), t)) = Inl (AssertionFailed ''root_page_id > 0'')"
proof -
  obtain f where f: "page_table s (mk_page_id (tm_table_oid m) (im_header_page_id (bi_meta ix))) = Some f" "pin_count (pages s ! f) = 0" "rwlatch (pages s ! f) = Unlatched"
      "page_data (pages s ! f) = blank_header"
    using ix by (auto simp: empty_index_def)
  have r: "f \<in> ran (page_table s)" using f(1) by (auto intro: ranI)
  show ?thesis
    unfolding InternalScanKey_def SearchLeafPage_def
    unfolding fails_def [symmetric]
    apply (rule fails_then, simp only: wp_simps)
    apply (rule wp_take [OF sees_inv [OF inv] f(1)]; simp add: f)
    apply (rule fails_then, simp only: wp_simps)
    apply (rule wp_latches(2), assumption; simp add: r f hold_latch)
    apply (rule fails_head, rule fails_then, simp only: wp_simps)
    apply (rule wp_nodeI, assumption; simp add: r f blank_header)
    apply (simp add: fails_def act_simps)
    done
qed

lemma demo_index_room: "n < 1000 \<Longrightarrow> index_room n (demo_meta (- 1)) (demo_pool n)"
proof -
  have "disk_page Disks.demo_disk pid = zero_page" for pid
    by (rule nth_equalityI) (simp_all add: disk_page_def demo_disk_facts byte_at_def zero_page_def)
  then show "n < 1000 \<Longrightarrow> index_room n (demo_meta (- 1)) (demo_pool n)"
    by (simp add: index_room_def room_for_def demo_meta_facts demo_pool_facts)
qed

lemma demo_pool_gp: "gp_inv (demo_pool n)"
  unfolding demo_pool_def by (rule gp_mk_BufferPool [OF demo_disk_facts(1)])

definition demo_index :: IndexMeta where
  "demo_index = mk_IndexMeta 7 ''t_pk'' 0 (mk_column_rec ''c'' INTEGER 4) PRIMARY BPlusTreeIndex"

lemma demo_index_facts: "im_header_page_id demo_index = INVALID_PAGE_ID" "column_type (im_key_col demo_index) = INTEGER"
  by (simp_all add: demo_index_def mk_IndexMeta_def mk_column_rec_def)

abbreviation demo_txn :: Transaction where
  "demo_txn \<equiv> mk_Transaction 1 READ_COMMITTED"

lemma demo_txn_facts: "page_set demo_txn = []"
  by (simp add: mk_Transaction_def)

section \<open>Properties\<close>

text \<open>
  C10: An index created over an integer column of a table behaves like a map from keys to record ids. After
  the first insertion, any sequence of fewer than 34238 searches and insertions of new keys returns what the map
  returns, in whatever order the keys come: across the split of the root leaf and the splits below the new root. The code never
  throws and never runs out of fuel. Since a split leaves leaves half full, the pool must have a free frame and the table a blank
  page for one page per 101 keys and two more. The key 0 is not inserted: a leaf takes
  the blank entry behind its last for it.
\<close>

theorem index_refines_map:
  assumes "gp_inv s" and "index_room ((length cs + 1) div 101 + 2) m s" and "length cs < 34238"
    and "im_header_page_id im = INVALID_PAGE_ID" and "column_type (im_key_col im) = INTEGER" and "page_set t = []" and "fits 4 k" and "rid_fits rid"
    and "allowed (fits 4) (\<lambda>k. fits 4 k \<and> k \<noteq> 0) rid_fits cs [k \<mapsto> rid]"
  shows "\<exists>ix h1 st2 st3. mk_BTreeIndex im (s, m) = (Inr ix, h1) \<and> InternalInsertRecord 2 ix (int_key k) rid (h1, t) = (Inr True, st2) \<and>
     run_calls (index_put ix) (index_get ix) cs st2 = (Inr (map_calls cs [k \<mapsto> rid]), st3)"
proof -
  obtain ix s1 m1 s2 m2 root where c: "mk_BTreeIndex im (s, m) = (Inr ix, (s1, m1))" "gp_inv s1" "empty_index ix (tm_table_oid m1) (page_table s1) ((!) (pages s1))"
      "InternalInsertRecord 2 ix (int_key k) rid ((s1, m1), t) = (Inr True, ((s2, m2), t))"
      "index_tree 0 ix (tm_table_oid m2) root s2" "tree_entries 0 (index_page (tm_table_oid m2) s2) root = [(k, rid)]" "index_room ((length cs + 1) div 101) m2 s2" "0 \<le> last_table_data_page_id m2"
      "pins s2 (mk_page_id (tm_table_oid m2) (im_header_page_id (bi_meta ix))) = 0" "tm_table_oid m2 = tm_table_oid m" "pins s2 = pins s"
    by (rule create_and_insert [OF assms(1,2,4-8), of 2])
  have "store_tree ix ((1 + length cs) div 101) 0 root m2 s2" using c(5,7,8) by (simp add: store_tree_def root_size_def)
  then have "index_holds ix (0 + length cs) [k \<mapsto> rid] ((s2, m2), t)"
    unfolding index_holds_def prod.case using assms(3,6) c(6,9) by (intro conjI exI [of _ 0] exI [of _ root]) (simp_all add: index_map_def del: tree_entries.simps)
  from bt.calls_refine [OF this assms(9)] show ?thesis using c(1,4) by blast
qed

theorem index_refines_map_witness:
  "\<exists>ix h1 st2 st3. mk_BTreeIndex demo_index (demo_pool 4, demo_meta (- 1)) = (Inr ix, h1) \<and> InternalInsertRecord 2 ix (int_key 1) demo_rid (h1, demo_txn) = (Inr True, st2) \<and>
     run_calls (index_put ix) (index_get ix) (map (\<lambda>k. Put k demo_rid) (map int [2..<204]) @ [Get 7, Get 300]) st2 =
       (Inr (replicate 202 (True, []) @ [(True, [demo_rid]), (False, [])]), st3)"
proof -
  define ks where "ks = map int [2..<204]"
  have ks: "length ks = 202" "distinct ks" "\<forall>x \<in> set ks. 2 \<le> x \<and> x < 204" "7 \<in> set ks" "300 \<notin> set ks"
    unfolding ks_def by (auto simp: distinct_map)
  let ?cs = "map (\<lambda>k. Put k demo_rid) ks @ [Get 7, Get 300]"
  have f: "fits 4 1" "fits 4 7" "fits 4 300" "\<forall>x \<in> set ks. (fits 4 x \<and> x \<noteq> 0) \<and> [1 \<mapsto> demo_rid] x = None" using ks(3) by (auto simp: fits_def)
  have "allowed (fits 4) (\<lambda>k. fits 4 k \<and> k \<noteq> 0) rid_fits ?cs [1 \<mapsto> demo_rid]"
    unfolding allowed_append using allowed_puts [where p = "\<lambda>k. fits 4 k \<and> k \<noteq> 0" and f = "[1 \<mapsto> demo_rid]" and pv = rid_fits, OF ks(2) f(4) demo_rid_fits] f by simp
  moreover have "map_calls ?cs [1 \<mapsto> demo_rid] = replicate 202 (True, []) @ [(True, [demo_rid]), (False, [])]"
    using ks by (simp add: map_calls_append puts map_get_def)
  moreover have "index_room ((length ?cs + 1) div 101 + 2) (demo_meta (- 1)) (demo_pool 4)" "length ?cs < 34238" using demo_index_room [of 4] ks(1) by simp_all
  ultimately show ?thesis
    unfolding ks_def [symmetric] using index_refines_map [OF demo_pool_gp _ _ demo_index_facts demo_txn_facts f(1) demo_rid_fits, of ?cs "demo_meta (- 1)" 4] by auto
qed

text \<open>
  C11: Insertion into a well-formed tree of any depth, all its pages cached and none latched: a new key other than 0
  is inserted, the call returns true, no latch and no pin is left behind, the tree is
  well formed again and stores the old map with the new entry. If the leaf has no room for the key, the pool
  and the table have room for the pages of the split, and the page above the leaf for one more entry.
\<close>

theorem index_insert:
  assumes "index_tree d ix (tm_table_oid m) root s" and "page_set t = []" and "fits 4 k" and "k \<noteq> 0" and "rid_fits rid"
    and "index_map d (tm_table_oid m) root s k = None" and "insert_ready r d root m s k"
  shows "\<exists>s' m' d' root'. InternalInsertRecord (Suc (d + e)) ix (int_key k) rid ((s, m), t) = (Inr True, ((s', m'), t)) \<and>
     index_tree d' ix (tm_table_oid m') root' s' \<and> index_map d' (tm_table_oid m') root' s' = (index_map d (tm_table_oid m) root s)(k \<mapsto> rid) \<and>
     pins s' = pins s"
proof -
  obtain s' m' d' root' where "InternalInsertRecord (Suc (d + e)) ix (int_key k) rid ((s, m), t) = (Inr True, ((s', m'), t))"
      "index_tree d' ix (tm_table_oid m) root' s'" "index_map d' (tm_table_oid m) root' s' = (index_map d (tm_table_oid m) root s)(k \<mapsto> rid)"
      "tm_table_oid m' = tm_table_oid m" "last_table_data_page_id m \<le> last_table_data_page_id m'"
      "pins s' = pins s" "index_room r m s \<longrightarrow> room_left r d root m s d' root' m' s'"
    by (rule insert_index [OF assms])
  then show ?thesis by metis
qed

lemma demo_tree:
  obtains ix s root and m :: TableMeta where "index_tree 0 ix (tm_table_oid m) root s" "tree_entries 0 (index_page (tm_table_oid m) s) root = [(5, demo_rid)]"
proof -
  have f: "fits 4 5" by (simp add: fits_def)
  have r: "index_room (0 + 2) (demo_meta (- 1)) (demo_pool 2)" using demo_index_room [of 2] by (simp only: add_0)
  show ?thesis by (rule create_and_insert [OF demo_pool_gp r demo_index_facts demo_txn_facts f demo_rid_fits, of 0]) (rule that)
qed

theorem index_insert_witness:
  "\<exists>ix s m s' m' d' root'. InternalInsertRecord 1 ix (int_key 9) demo_rid ((s, m), demo_txn) = (Inr True, ((s', m'), demo_txn)) \<and>
     index_map d' (tm_table_oid m') root' s' = [5 \<mapsto> demo_rid, 9 \<mapsto> demo_rid]"
proof -
  obtain ix s root and m :: TableMeta where t: "index_tree 0 ix (tm_table_oid m) root s" "tree_entries 0 (index_page (tm_table_oid m) s) root = [(5, demo_rid)]" by (rule demo_tree)
  have "length (leaf_entries (index_page (tm_table_oid m) s root)) = 1" using t(2) by simp
  then have "insert_ready 0 0 root m s 9" by (simp add: insert_ready_def Let_def leaf_entries_def)
  moreover have mp: "index_map 0 (tm_table_oid m) root s = [5 \<mapsto> demo_rid]" using t(2) by (simp add: index_map_def del: tree_entries.simps)
  moreover have "fits 4 9" by (simp add: fits_def)
  ultimately obtain s' m' d' root' where "InternalInsertRecord (Suc (0 + 0)) ix (int_key 9) demo_rid ((s, m), demo_txn) = (Inr True, ((s', m'), demo_txn))"
      "index_map d' (tm_table_oid m') root' s' = (index_map 0 (tm_table_oid m) root s)(9 \<mapsto> demo_rid)"
    using index_insert [OF t(1) demo_txn_facts, of 9 demo_rid 0 0] demo_rid_fits by fastforce
  then show ?thesis unfolding mp One_nat_def add_0 by blast
qed

text \<open>
  C23: Searching a well-formed tree of any depth, the header and the pages on the way to the leaf cached and not latched: the search
  returns the record id that the tree stores for the key, or false if there is none. It changes no page and caches no other; every
  page is unlatched and unpinned on the way, except the header, which keeps one more pin.
\<close>

theorem index_search:
  assumes "gp_inv s" and "index_at d ix (tm_table_oid m) root (page_table s) ((!) (pages s)) (disk_manager s)"
    and "path_rests d (tm_table_oid m) root (page_table s) ((!) (pages s)) (disk_manager s) k" and "fits 4 k"
  shows "\<exists>s'. InternalScanKey (Suc (d + e)) ix (int_key k) rids ((s, m), t) =
       (Inr (case index_map d (tm_table_oid m) root s k of None \<Rightarrow> (False, rids) | Some r \<Rightarrow> (True, rids @ [r])), ((s', m), t)) \<and>
     gp_inv s' \<and> logical s' = logical s \<and> page_table s' = page_table s \<and>
     (let H = mk_page_id (tm_table_oid m) (im_header_page_id (bi_meta ix)) in pins s' = (pins s)(H := pins s H + 1))"
proof -
  obtain s' hf where r: "InternalScanKey (Suc (d + e)) ix (int_key k) rids ((s, m), t) =
        (Inr (case index_map d (tm_table_oid m) root s k of None \<Rightarrow> (False, rids) | Some r \<Rightarrow> (True, rids @ [r])), ((s', m), t))"
      "page_table s (mk_page_id (tm_table_oid m) (im_header_page_id (bi_meta ix))) = Some hf"
      "sees s' (page_table s) (((!) (pages s))(hf := hold Unlatched (pages s ! hf))) (disk_manager s) (free_list s)"
    by (rule scan_index [OF assms])
  have "pin_count (pages s ! hf) \<noteq> - 1" using assms(2) r(2) by (auto simp: index_at_def rests_def)
  from scan_effect [OF assms(1) r(2) this r(3)] show ?thesis using r(1) by (intro exI [of _ s']) (simp add: Let_def)
qed

theorem index_search_witness:
  "\<exists>ix s m s'. InternalScanKey 1 ix (int_key 5) [] ((s, m), demo_txn) = (Inr (True, [demo_rid]), ((s', m), demo_txn)) \<and> logical s' = logical s"
proof -
  obtain ix s root and m :: TableMeta where t: "index_tree 0 ix (tm_table_oid m) root s" "tree_entries 0 (index_page (tm_table_oid m) s) root = [(5, demo_rid)]" by (rule demo_tree)
  have f: "fits 4 5" by (simp add: fits_def)
  have ix: "gp_inv s" "index_in 0 ix (tm_table_oid m) root (page_table s) ((!) (pages s)) (disk_manager s)" using t(1) by (simp_all add: index_tree_def)
  have mp: "index_map 0 (tm_table_oid m) root s 5 = Some demo_rid" using t(2) by (simp add: index_map_def del: tree_entries.simps)
  show ?thesis using index_search [OF ix(1) index_in_path [OF ix(2) f] f, of 0 "[]" demo_txn] mp by auto
qed

text \<open>
  Creating an index over an integer column takes the next page of the table for its header.
  A search in the empty tree fails an assertion. The first insertion takes one more page for the
  root; afterwards a search finds that key and no other.
\<close>

theorem index_create_insert:
  assumes "gp_inv s" and "index_room 2 m s" and "im_header_page_id im = INVALID_PAGE_ID" and "column_type (im_key_col im) = INTEGER"
    and "page_set t = []" and "fits 4 k" and "rid_fits rid"
  shows "\<exists>ix s1 m1 s2 m2. mk_BTreeIndex im (s, m) = (Inr ix, (s1, m1)) \<and>
     (\<forall>key t'. fst (InternalScanKey d ix key [] ((s1, m1), t')) = Inl (AssertionFailed ''root_page_id > 0'')) \<and>
     InternalInsertRecord d ix (int_key k) rid ((s1, m1), t) = (Inr True, ((s2, m2), t)) \<and>
     (\<forall>x t'. fits 4 x \<longrightarrow> (\<exists>s3. InternalScanKey (Suc d) ix (int_key x) [] ((s2, m2), t') =
        (Inr (if x = k then (True, [rid]) else (False, [])), ((s3, m2), t'))))"
proof -
  obtain ix s1 m1 s2 m2 root where c: "mk_BTreeIndex im (s, m) = (Inr ix, (s1, m1))" "gp_inv s1" "empty_index ix (tm_table_oid m1) (page_table s1) ((!) (pages s1))"
      "InternalInsertRecord d ix (int_key k) rid ((s1, m1), t) = (Inr True, ((s2, m2), t))"
      "index_tree 0 ix (tm_table_oid m2) root s2" "tree_entries 0 (index_page (tm_table_oid m2) s2) root = [(k, rid)]" "index_room 0 m2 s2" "0 \<le> last_table_data_page_id m2"
      "pins s2 (mk_page_id (tm_table_oid m2) (im_header_page_id (bi_meta ix))) = 0" "tm_table_oid m2 = tm_table_oid m" "pins s2 = pins s"
    by (rule create_and_insert [of s 0, unfolded add_0, OF assms])
  have ix: "gp_inv s2" "index_in 0 ix (tm_table_oid m2) root (page_table s2) ((!) (pages s2)) (disk_manager s2)" using c(5) by (simp_all add: index_tree_def)
  have mp: "index_map 0 (tm_table_oid m2) root s2 = [k \<mapsto> rid]" using c(6) by (simp add: index_map_def del: tree_entries.simps)
  have "\<exists>s3. InternalScanKey (Suc d) ix (int_key x) [] ((s2, m2), t') = (Inr (if x = k then (True, [rid]) else (False, [])), ((s3, m2), t'))" if "fits 4 x" for x t'
    by (rule scan_index [OF ix(1) index_in_path [OF ix(2) that] that, of d "[]" t']) (auto simp: mp)
  then show ?thesis using c(1,4) scan_empty [OF c(2,3)] by blast
qed

theorem index_create_insert_witness:
  "\<exists>ix s1 m1 s2 m2 s3. mk_BTreeIndex demo_index (demo_pool 2, demo_meta (- 1)) = (Inr ix, (s1, m1)) \<and>
     InternalInsertRecord 1 ix (int_key 5) demo_rid ((s1, m1), demo_txn) = (Inr True, ((s2, m2), demo_txn)) \<and>
     InternalScanKey 2 ix (int_key 5) [] ((s2, m2), demo_txn) = (Inr (True, [demo_rid]), ((s3, m2), demo_txn))"
proof -
  have f: "fits 4 5" "index_room 2 (demo_meta (- 1)) (demo_pool 2)" using demo_index_room [of 2] by (simp_all add: fits_def)
  show ?thesis
    using index_create_insert [OF demo_pool_gp f(2) demo_index_facts demo_txn_facts f(1) demo_rid_fits, of 1] f(1) by (fastforce simp: numeral_2_eq_2)
qed

end
