(* ===== verification/IndexLimits.thy ===== *)
theory IndexLimits
  imports IndexProperties
begin

text \<open>
  How large an index can grow. A leaf is always taken to be safe, so that the latches above it are gone when it is split. If
  the root above it is full, it is split too, and the code asks the empty set of latched pages for the header: an index never gets
  a third level. The sections follow the split of a full root to that point, and count how many keys fit before it.
\<close>

section \<open>The children of a split page\<close>

text \<open>\<open>C\<close> are the frames of the children.\<close>

lemma wp_adopt:
  assumes "sees s T V D F" and "parent \<in> ran T" "parent \<notin> C" and "page_data (V parent) = node"
    and "bt_GetSize node = 0" "length node = PAGE_SIZE" "i + n \<le> INTERNAL_MAX_NODE_SIZE"
    and "\<forall>j. i \<le> j \<and> j < i + n \<longrightarrow> (\<exists>c \<in> C. T (mk_page_id (tm_table_oid m) (in_val node j)) = Some c \<and> pin_count (V c) \<noteq> - 1)"
    and "\<And>s' V'. sees s' T V' D F \<Longrightarrow> \<forall>g. g \<notin> C \<longrightarrow> V' g = V g \<Longrightarrow> Q () ((s', m), t)"
  shows "wp (adopt parent i n) Q ((s, m), t)"
  using assms
proof (induction n arbitrary: i s V)
  case 0
  then show ?case by (simp add: wp_simps)
next
  case (Suc n)
  note see = Suc.prems(1)
  obtain c where c: "c \<in> C" "T (mk_page_id (tm_table_oid m) (in_val node i)) = Some c" "pin_count (V c) \<noteq> - 1"
    using Suc.prems(8) by (metis add_Suc_right le_add1 le_refl less_add_Suc1)
  let ?P = "mk_page_id (tm_table_oid m) (in_val node i)"
  have r: "c \<in> ran T" "page_id (V c) = ?P" "length (page_data (V c)) = PAGE_SIZE" "pin_count (V c) = 0 \<Longrightarrow> rwlatch (V c) = Unlatched"
    using c(2) sees_frame(3,5,7) [OF see c(2)] by (auto intro: ranI)
  have val: "in_ValueAt node i = Inr (in_val node i)" using Suc.prems(6,7) by (intro in_ValueAt_val) simp_all
  have len: "length (bt_SetParentPageId (bt_GetPageId node) (page_data (V c))) = PAGE_SIZE" using r(3) by (simp add: bt_SetParentPageId_def)
  have pc: "parent \<noteq> c" using c(1) Suc.prems(3) by blast
  let ?V = "V(c := (V c)\<lparr>is_dirty := True, page_data := bt_SetParentPageId (bt_GetPageId node) (page_data (V c))\<rparr>)"
  have IH: "wp (adopt parent (i + 1) n) Q ((s', m), t)" if "sees s' T ?V D F" for s'
  proof (rule Suc.IH [OF that Suc.prems(2,3) _ Suc.prems(5,6)])
    show "\<forall>j. i + 1 \<le> j \<and> j < i + 1 + n \<longrightarrow> (\<exists>c \<in> C. T (mk_page_id (tm_table_oid m) (in_val node j)) = Some c \<and> pin_count (?V c) \<noteq> - 1)"
    proof (intro allI impI)
      fix j assume "i + 1 \<le> j \<and> j < i + 1 + n"
      then have "i \<le> j \<and> j < i + Suc n" by simp
      then obtain x where "x \<in> C" "T (mk_page_id (tm_table_oid m) (in_val node j)) = Some x" "pin_count (V x) \<noteq> - 1" using Suc.prems(8) by blast
      then show "\<exists>c \<in> C. T (mk_page_id (tm_table_oid m) (in_val node j)) = Some c \<and> pin_count (?V c) \<noteq> - 1" using c(3) by (intro bexI [of _ x]) auto
    qed
    show "Q () ((s'', m), t)" if "sees s'' T V' D F" "\<forall>g. g \<notin> C \<longrightarrow> V' g = ?V g" for s'' V'
      by (rule Suc.prems(9) [OF that(1)]) (use that(2) c(1) in auto)
  qed (use Suc.prems(4,7) pc in simp_all)
  have fin: "(V c)\<lparr>pin_count := pin_count (V c), is_dirty := True, page_data := x\<rparr> = (V c)\<lparr>is_dirty := True, page_data := x\<rparr>" for x by (cases "V c") simp
  show ?case
    apply (simp only: adopt.simps wp_simps)
    apply (rule wp_nodeI [OF see Suc.prems(2)])
    apply (simp add: Suc.prems(4,5) val wp_simps FetchPageBasic_def del: adopt.simps)
    apply (rule wp_FetchPage [OF see c(2,3)])
    apply (simp add: mk_guard_def guard_GetDataMut_def deref_def Basic_Drop_def wp_simps del: adopt.simps)
    apply (subst wp_page_at, assumption, rule r(1))
    apply (simp add: r(2) wp_simps del: adopt.simps)
    apply (rule wp_UnpinPage [where f = c], assumption, rule c(2); simp add: r pin_up c(3) wp_simps del: adopt.simps)
    apply (rule wp_upd_node [where bs = "bt_SetParentPageId (bt_GetPageId node) (page_data (V c))"], assumption, rule r(1); simp add: len del: adopt.simps)
    apply (rule IH [unfolded Suc_eq_plus1 [symmetric]])
    apply (erule sees_eq, simp add: fin)
    done
qed

section \<open>The buffer of a full page\<close>

lemma slice_buffer: "off + n \<le> k \<Longrightarrow> k \<le> length m \<Longrightarrow> slice off n (slice 0 k m @ r) = slice off n m"
  by (auto simp: slice_def drop_take min_def)

lemma buffer_fields:
  assumes m: "in_page m" and n: "bt_GetSize m = INTERNAL_MAX_NODE_SIZE"
  shows "length (parent_buffer m) = INTERNAL_NODES + INTERNAL_NODE * (INTERNAL_MAX_NODE_SIZE + 1)" and "bt_GetSize (parent_buffer m) = INTERNAL_MAX_NODE_SIZE"
    and "bt_max_size (parent_buffer m) = INTERNAL_MAX_NODE_SIZE" and "\<not> bt_IsLeafPage (parent_buffer m)"
    and "bt_GetParentPageId (parent_buffer m) = bt_GetParentPageId m" and "bt_GetPageId (parent_buffer m) = bt_GetPageId m"
    and "children (parent_buffer m) = children m"
proof -
  have len: "length m = PAGE_SIZE" "bt_max_size m = INTERNAL_MAX_NODE_SIZE" "\<not> bt_IsLeafPage m" using m by (simp_all add: in_page_def)
  have b: "parent_buffer m = slice 0 (INTERNAL_NODES + INTERNAL_NODE * INTERNAL_MAX_NODE_SIZE) m @ replicate INTERNAL_NODE 0"
    by (simp add: parent_buffer_def n)
  have sl: "slice off k (parent_buffer m) = slice off k m" if "off + k \<le> INTERNAL_NODES + INTERNAL_NODE * INTERNAL_MAX_NODE_SIZE" for off k
    unfolding b by (rule slice_buffer) (use that len in simp_all)
  show "length (parent_buffer m) = INTERNAL_NODES + INTERNAL_NODE * (INTERNAL_MAX_NODE_SIZE + 1)" unfolding b using len(1) by simp
  show sz: "bt_GetSize (parent_buffer m) = INTERNAL_MAX_NODE_SIZE" using n by (simp add: bt_GetSize_def get_uint_def sl)
  show "bt_max_size (parent_buffer m) = INTERNAL_MAX_NODE_SIZE" "\<not> bt_IsLeafPage (parent_buffer m)" using len(2,3) by (simp_all add: bt_max_size_def bt_IsLeafPage_def get_uint_def sl)
  show "bt_GetParentPageId (parent_buffer m) = bt_GetParentPageId m" "bt_GetPageId (parent_buffer m) = bt_GetPageId m"
    by (simp_all add: bt_GetParentPageId_def bt_GetPageId_def get_int_def sl)
  have "ind (parent_buffer m) i = ind m i" if "i < INTERNAL_MAX_NODE_SIZE" for i using that by (simp add: ind_def sl)
  then show "children (parent_buffer m) = children m" by (simp add: children_def sz n in_key_def in_val_def)
qed

lemma buffer_after:
  assumes m: "in_page m" "bt_GetSize m = INTERNAL_MAX_NODE_SIZE" and j: "j < bt_GetSize m" "in_val m j = old" "\<And>l. l < j \<Longrightarrow> in_val m l \<noteq> old"
    and kv: "fits 4 k" "fits 4 v"
  obtains b x where "in_InsertNodeAfter old (int_key k) v (parent_buffer m) = Inr (b, x)" "length b = INTERNAL_NODES + INTERNAL_NODE * (INTERNAL_MAX_NODE_SIZE + 1)"
    "bt_GetSize b = INTERNAL_MAX_NODE_SIZE + 1" "bt_max_size b = INTERNAL_MAX_NODE_SIZE" "\<not> bt_IsLeafPage b"
    "bt_GetParentPageId b = bt_GetParentPageId m" "bt_GetPageId b = bt_GetPageId m"
    "\<And>i. i < bt_GetSize b \<Longrightarrow> in_val b i = v \<or> (\<exists>l < bt_GetSize m. in_val b i = in_val m l)"
proof -
  let ?b = "parent_buffer m"
  note f = buffer_fields [OF m]
  have val: "in_val ?b l = in_val m l" if "l < INTERNAL_MAX_NODE_SIZE" for l
    using arg_cong [OF f(7), of "\<lambda>xs. snd (xs ! l)"] that m(2) f(2) by (simp add: nth_children)
  have "INTERNAL_NODES + INTERNAL_NODE * (bt_GetSize ?b + 1) \<le> length ?b" "bt_GetSize ?b \<le> INTERNAL_MAX_NODE_SIZE" "j < bt_GetSize ?b"
      "in_val ?b j = old" "\<And>l. l < j \<Longrightarrow> in_val ?b l \<noteq> old"
    using f m(2) j val by auto
  then obtain b x where b: "in_InsertNodeAfter old (int_key k) v ?b = Inr (b, x)" "length b = length ?b" "bt_max_size b = bt_max_size ?b"
      "bt_IsLeafPage b = bt_IsLeafPage ?b" "bt_GetSize b = bt_GetSize ?b + 1"
      "bt_GetParentPageId b = bt_GetParentPageId ?b" "bt_GetPageId b = bt_GetPageId ?b"
      "children b = take (j + 1) (children ?b) @ (k, v) # drop (j + 1) (children ?b)"
    using insert_after_any [of ?b j old k v] kv by metis
  have "in_val b i = v \<or> (\<exists>l < bt_GetSize m. in_val b i = in_val m l)" if "i < bt_GetSize b" for i
  proof -
    have "(in_key b i, in_val b i) \<in> set (children b)" using that by (metis length_children nth_children nth_mem)
    then have "in_val b i = v \<or> (in_key b i, in_val b i) \<in> set (children m)"
      unfolding b(8) f(7) by (auto dest: in_set_takeD in_set_dropD)
    then show ?thesis by (auto simp: children_def)
  qed
  then show ?thesis using that [OF b(1)] b(2-7) f(1-6) by simp
qed

text \<open>What the new page takes over.\<close>

lemma split_pages:
  assumes b: "length b = INTERNAL_NODES + INTERNAL_NODE * (INTERNAL_MAX_NODE_SIZE + 1)" "bt_GetSize b = INTERNAL_MAX_NODE_SIZE + 1"
      "bt_max_size b = INTERNAL_MAX_NODE_SIZE" "\<not> bt_IsLeafPage b" and n: "length n = PAGE_SIZE" "bt_GetSize n = 0"
  obtains r where "bt_GetMinSize b = 169" "in_copy (drop (INTERNAL_NODES + INTERNAL_NODE * 169) (bt_SetSize 169 b)) 170 n = Inr r" "length r = PAGE_SIZE" "bt_GetSize r = 0"
    "bt_GetPageId r = bt_GetPageId n" "\<And>j. j < 170 \<Longrightarrow> in_val r j = in_val b (169 + j)"
proof -
  define c where "c = bt_SetSize 169 b"
  define e where "e = slice (INTERNAL_NODES + INTERNAL_NODE * 169) (INTERNAL_NODE * 170) c"
  define r where "r = blit INTERNAL_NODES e n"
  have lc: "length c = INTERNAL_NODES + INTERNAL_NODE * (INTERNAL_MAX_NODE_SIZE + 1)" using b(1) by (simp add: SetSize_fields c_def)
  then have le: "length e = INTERNAL_NODE * 170" by (simp add: e_def)
  have min: "bt_GetMinSize b = 169" using b(3,4) by (simp add: bt_GetMinSize_def)
  have copy: "in_copy (drop (INTERNAL_NODES + INTERNAL_NODE * 169) c) 170 n = Inr r" using n lc by (simp add: in_copy_def e_def r_def slice_def)
  have f: "length r = PAGE_SIZE" "bt_GetSize r = 0" "bt_GetPageId r = bt_GetPageId n"
    using blit_ind [OF n(1), of INTERNAL_NODES e] le n(2) by (simp_all add: r_def)
  have "ind r j = ind b (169 + j)" if "j < 170" for j
  proof -
    have "ind r j = slice (INTERNAL_NODES + INTERNAL_NODE * j - INTERNAL_NODES) INTERNAL_NODE e"
      unfolding ind_def r_def by (rule slice_blit_inner) (use that le n(1) in simp_all)
    also have "\<dots> = slice (INTERNAL_NODE * j) INTERNAL_NODE e" by simp
    also have "\<dots> = slice (INTERNAL_NODES + INTERNAL_NODE * 169 + INTERNAL_NODE * j) INTERNAL_NODE c" unfolding e_def by (rule slice_slice) (use that in simp)
    also have "INTERNAL_NODES + INTERNAL_NODE * 169 + INTERNAL_NODE * j = INTERNAL_NODES + INTERNAL_NODE * (169 + j)" by simp
    finally show ?thesis using ind_SetSize [of "169 + j" b 169] b(1) that by (simp add: ind_def c_def)
  qed
  then have "in_val r j = in_val b (169 + j)" if "j < 170" for j using that by (simp add: in_val_def)
  then show ?thesis using that [OF min copy [unfolded c_def] f] by blast
qed

lemma wp_Split_internal:
  assumes see: "sees s T V D (g # F)" and N: "Index_AllocatePage m = (Inr (mk_page_id oid n), m')" "valid_pid (mk_page_id oid n)" "T (mk_page_id oid n) = None"
      "disk_page D (mk_page_id oid n) = zero_page" "0 < n" "n < 2 ^ 20" and oid: "tm_table_oid m' = oid"
    and b: "length b = INTERNAL_NODES + INTERNAL_NODE * (INTERNAL_MAX_NODE_SIZE + 1)" "bt_GetSize b = INTERNAL_MAX_NODE_SIZE + 1"
      "bt_max_size b = INTERNAL_MAX_NODE_SIZE" "\<not> bt_IsLeafPage b" "fits 4 (bt_GetParentPageId b)"
    and kids: "\<And>i. i < bt_GetSize b \<Longrightarrow> \<exists>c \<in> C. T (mk_page_id oid (in_val b i)) = Some c \<and> pin_count (V c) \<noteq> - 1"
    and Q: "\<And>s' V' r. g \<notin> ran T \<Longrightarrow> sees s' (T(mk_page_id oid n \<mapsto> g)) V' D F \<Longrightarrow> \<forall>x. x \<notin> C \<longrightarrow> x \<noteq> g \<longrightarrow> V' x = V x \<Longrightarrow>
      V' g = (fresh (mk_page_id oid n))\<lparr>page_data := r\<rparr> \<Longrightarrow> length r = PAGE_SIZE \<Longrightarrow> Q (g, bt_SetSize 169 b) ((s', m'), t)"
  shows "wp (Split_internal b) Q ((s, m), t)"
proof -
  let ?N = "mk_page_id oid n" let ?T = "T(?N \<mapsto> g)" let ?z = "bt_SetPageType_of b zero_page"
  have gT: "g \<notin> ran T" using sees_frame(6) [OF see] by (auto simp: ran_def)
  have rg: "g \<in> ran ?T" using N(3) by (simp add: ran_map_upd)
  have pn: "page_number ?N = n" by (simp add: mk_page_id_def)
  have lz: "length ?z = PAGE_SIZE" by (simp add: bt_SetPageType_of_def)
  obtain n0 where n0: "in_Init n (bt_GetParentPageId b) ?z = Inr n0" "length n0 = PAGE_SIZE" "bt_max_size n0 = INTERNAL_MAX_NODE_SIZE" "\<not> bt_IsLeafPage n0"
      "bt_GetParentPageId n0 = bt_GetParentPageId b" "bt_GetPageId n0 = n" "bt_GetSize n0 = 0"
    by (rule in_init [OF lz page_fits [OF N(5,6)] b(5)])
  obtain r where r: "bt_GetMinSize b = 169" "in_copy (drop (INTERNAL_NODES + INTERNAL_NODE * 169) (bt_SetSize 169 b)) 170 n0 = Inr r" "length r = PAGE_SIZE" "bt_GetSize r = 0"
      "bt_GetPageId r = bt_GetPageId n0" "\<And>j. j < 170 \<Longrightarrow> in_val r j = in_val b (169 + j)"
    by (rule split_pages [OF b(1-4) n0(2,7)]) blast
  have li: "length (bt_IncreaseSize 170 x) = PAGE_SIZE" if "length x = PAGE_SIZE" for x using that by (simp add: bt_IncreaseSize_def bt_SetSize_def)
  define C' where "C' = C - {g}"
  have kids': "\<exists>c \<in> C'. ?T (mk_page_id oid (in_val b i)) = Some c \<and> pin_count (V c) \<noteq> - 1 \<and> c \<noteq> g" if "i < bt_GetSize b" for i
  proof -
    obtain c where c: "c \<in> C" "T (mk_page_id oid (in_val b i)) = Some c" "pin_count (V c) \<noteq> - 1" using kids [OF \<open>i < bt_GetSize b\<close>] by blast
    then have "c \<noteq> g" "mk_page_id oid (in_val b i) \<noteq> ?N" using gT N(3) by (auto simp: ran_def)
    then show ?thesis using c by (intro bexI [of _ c]) (auto simp: C'_def)
  qed
  have ad: "wp (adopt g 0 170) P ((s', m'), t)"
    if "sees s' ?T (V(g := (fresh ?N)\<lparr>page_data := r\<rparr>)) D F"
      and P: "\<And>s'' V'. sees s'' ?T V' D F \<Longrightarrow> \<forall>x. x \<notin> C' \<longrightarrow> V' x = (V(g := (fresh ?N)\<lparr>page_data := r\<rparr>)) x \<Longrightarrow> P () ((s'', m'), t)" for s' P
  proof (rule wp_adopt [OF that(1) rg _ _ r(4,3)])
    show "\<forall>j. 0 \<le> j \<and> j < 0 + 170 \<longrightarrow>
        (\<exists>c \<in> C'. ?T (mk_page_id (tm_table_oid m') (in_val r j)) = Some c \<and> pin_count ((V(g := (fresh ?N)\<lparr>page_data := r\<rparr>)) c) \<noteq> - 1)"
    proof (intro allI impI)
      fix j :: nat assume j: "0 \<le> j \<and> j < 0 + 170"
      then have rj: "in_val r j = in_val b (169 + j)" "169 + j < bt_GetSize b" using r(6) b(2) by simp_all
      obtain c where "c \<in> C'" "?T (mk_page_id oid (in_val b (169 + j))) = Some c" "pin_count (V c) \<noteq> - 1" "c \<noteq> g" using kids' [OF rj(2)] by blast
      then show "\<exists>c \<in> C'. ?T (mk_page_id (tm_table_oid m') (in_val r j)) = Some c \<and> pin_count ((V(g := (fresh ?N)\<lparr>page_data := r\<rparr>)) c) \<noteq> - 1"
        unfolding oid rj(1) by (intro bexI [of _ c]) simp_all
    qed
  qed (use P in \<open>simp_all add: C'_def\<close>)
  show ?thesis
    unfolding Split_internal_def split_page_def in_MoveHalfTo_def in_CopyNFrom_def
    apply (simp add: wp_simps Let_def del: adopt.simps)
    apply (rule wp_NewPage [where alloc = Index_AllocatePage, OF see N(1-4)])
    apply (simp add: wp_simps pn N(5) r(1) b(2) del: adopt.simps)
    apply (rule wp_upd_node [where bs = ?z], assumption, rule rg; simp add: lz del: adopt.simps)
    apply (rule wp_upd_node [where bs = n0], assumption, rule rg; simp add: n0 del: adopt.simps)
    apply (rule wp_upd_node [where bs = r], assumption, rule rg; simp add: r [simplified] del: adopt.simps)
    apply (rule ad, assumption)
    apply (simp only: wp_simps)
    apply (rule wp_upd_node [where bs = "bt_IncreaseSize 170 r" and f = g], assumption, rule rg; simp add: C'_def li r(3) wp_simps)
    apply (rule Q [where r = "bt_IncreaseSize 170 r", OF gT], assumption; simp add: li r(3))
    done
qed

section \<open>A root that is split without its latches\<close>

abbreviation no_front :: error where
  "no_front \<equiv> UndefinedBehaviour ''front of an empty deque''"

lemma populate_any:
  assumes "length m = PAGE_SIZE" and "length key = 8"
  obtains b where "in_PopulateNewRoot a key c m = Inr b" "length b = PAGE_SIZE"
  using assms by (simp add: in_PopulateNewRoot_def in_SetValueAt_def in_SetKeyAt_def in_node_def bt_SetSize_def)

lemma wp_on_frame: "hf < length (pages s) \<Longrightarrow> (\<And>s'. Q () s') \<Longrightarrow> wp (on_page hf (modify h)) Q s"
  by (simp add: wp_def on_page_def page_at_def update_page_def modify_def act_simps)

lemma new_root_fails:
  assumes see: "sees s T V D (g # F)" and R: "Index_AllocatePage m = (Inr (mk_page_id oid n), m')" "valid_pid (mk_page_id oid n)" "T (mk_page_id oid n) = None"
      "disk_page D (mk_page_id oid n) = zero_page" "0 < n" "n < 2 ^ 20"
    and t: "page_set t = []" and l: "l \<in> ran T" "pin_count (V l) \<noteq> 0" "length (page_data (V l)) = PAGE_SIZE"
    and r: "r \<in> ran T" "pin_count (V r) \<noteq> 0" "length (page_data (V r)) = PAGE_SIZE" and hf: "hf \<in> ran T" and ne: "l \<noteq> r"
    and root: "bt_GetParentPageId (page_data (V l)) = INVALID_PAGE_ID" and key: "length key = 8"
  shows "fails no_front (InsertIntoParent (Suc d) l r key hf ((s, m), t))"
proof -
  let ?R = "mk_page_id oid n"
  have gT: "g \<notin> ran T" using sees_frame(6) [OF see] by (auto simp: ran_def)
  then have lg: "l \<noteq> g" "r \<noteq> g" using l(1) r(1) by auto
  have rs: "x \<in> ran (T(?R \<mapsto> g))" if "x \<in> ran T \<or> x = g" for x using R(3) that by (auto simp: ran_map_upd)
  have zp: "length zero_page = PAGE_SIZE" and inv: "fits 4 INVALID_PAGE_ID" by (simp_all add: zero_page_def fits_def)
  have pn: "page_number ?R = n" by (simp add: mk_page_id_def)
  obtain blank where blank: "in_Init n INVALID_PAGE_ID zero_page = Inr blank" "length blank = PAGE_SIZE" using in_init [OF zp page_fits [OF R(5,6)] inv] by metis
  obtain b where b: "in_PopulateNewRoot (bt_GetPageId (page_data (V l))) key (bt_GetPageId (page_data (V r))) blank = Inr b" "length b = PAGE_SIZE"
    by (rule populate_any [OF blank(2) key])
  have len: "length (bt_SetParentPageId n x) = PAGE_SIZE" if "length x = PAGE_SIZE" for x using that by (simp add: bt_SetParentPageId_def)
  have hl: "hf < length (pages s')" if "sees s' (T(?R \<mapsto> g)) V' D F" for s' V'
    using sees_frame(1) [OF that] sees_bp(3) [OF that] rs [of hf] hf by (auto simp: ran_def)
  show ?thesis
    apply (simp only: InsertIntoParent.simps)
    apply (rule fails_then, simp only: wp_simps, rule wp_nodeI [OF see l(1)])
    apply (rule fails_then, simp only: wp_simps, rule wp_nodeI [OF see r(1)])
    apply (simp only: bt_IsRootPage_def root simp_thms if_True)
    apply (rule fails_then, rule wp_new_root_page [OF see R(1-4)])
    apply (simp only: prod.case pn)
    apply (rule fails_then, simp only: wp_simps, rule wp_upd_node [where bs = blank], assumption; simp add: rs blank)
    apply (rule fails_then, simp only: wp_simps, rule wp_upd_node [where bs = b], assumption; simp add: rs b)
    apply (rule fails_then, simp only: wp_simps, rule wp_upd_node [where bs = "bt_SetParentPageId n (page_data (V l))"], assumption; simp add: rs l lg len)
    apply (rule fails_then, simp only: wp_simps, rule wp_upd_node [where bs = "bt_SetParentPageId n (page_data (V r))"], assumption; simp add: rs r lg ne ne [symmetric] len)
    apply (rule fails_then, simp only: wp_simps, rule wp_on_frame, erule hl)
    apply (rule fails_head, unfold ReleaseHeaderPageAndMarkDirty_def, rule fails_then, simp add: wp_simps t)
    apply (rule fails_throw)
    done
qed

text \<open>The lower half of the buffer goes back into the page; its header with it.\<close>

lemma halved_page:
  assumes b: "length b = INTERNAL_NODES + INTERNAL_NODE * (INTERNAL_MAX_NODE_SIZE + 1)" "bt_max_size b = INTERNAL_MAX_NODE_SIZE" "\<not> bt_IsLeafPage b"
    and m: "length m = PAGE_SIZE"
  shows "bt_GetMinSize (bt_SetSize 169 b) = 169"
    and "length (blit 0 (slice 0 (INTERNAL_NODES + INTERNAL_NODE * 169) (bt_SetSize 169 b)) m) = PAGE_SIZE"
    and "bt_GetParentPageId (blit 0 (slice 0 (INTERNAL_NODES + INTERNAL_NODE * 169) (bt_SetSize 169 b)) m) = bt_GetParentPageId b"
proof -
  have l: "INTERNAL_NODES \<le> length b" using b(1) by simp
  note f = SetSize_fields [OF l, of 169]
  show "bt_GetMinSize (bt_SetSize 169 b) = 169" using b f by (simp add: bt_GetMinSize_def)
  define c where "c = bt_SetSize 169 b"
  have c: "length (slice 0 (INTERNAL_NODES + INTERNAL_NODE * 169) c) = INTERNAL_NODES + INTERNAL_NODE * 169" using f(1) b(1) by (simp add: c_def)
  show "length (blit 0 (slice 0 (INTERNAL_NODES + INTERNAL_NODE * 169) (bt_SetSize 169 b)) m) = PAGE_SIZE" using c m by (simp add: c_def)
  have "slice 4 4 (blit 0 (slice 0 (INTERNAL_NODES + INTERNAL_NODE * 169) c) m) = slice (4 - 0) 4 (slice 0 (INTERNAL_NODES + INTERNAL_NODE * 169) c)"
    by (rule slice_blit_inner) (use c m in simp_all)
  also have "\<dots> = slice 4 4 c" by (simp add: slice_slice)
  finally show "bt_GetParentPageId (blit 0 (slice 0 (INTERNAL_NODES + INTERNAL_NODE * 169) (bt_SetSize 169 b)) m) = bt_GetParentPageId b"
    using f(5) by (simp add: bt_GetParentPageId_def get_int_def c_def)
qed

lemma full_parent_fails:
  assumes see: "sees s T V D (g # g' # F)" and t: "page_set t = []" and lf: "lf \<in> ran T" "f \<in> ran T" and oid: "tm_table_oid m = oid" "tm_table_oid m1 = oid"
    and ids: "bt_GetParentPageId (page_data (V lf)) = u" "u \<noteq> INVALID_PAGE_ID" "bt_GetPageId (page_data (V lf)) = q" "bt_GetPageId (page_data (V f)) = z"
    and pf: "T (mk_page_id oid u) = Some pf" "pin_count (V pf) \<noteq> - 1" "pf \<notin> C" and hf: "hf \<in> ran T"
    and page: "in_page (page_data (V pf))" "bt_GetSize (page_data (V pf)) = INTERNAL_MAX_NODE_SIZE" "bt_GetParentPageId (page_data (V pf)) = INVALID_PAGE_ID"
    and b: "in_InsertNodeAfter q (int_key K) z (parent_buffer (page_data (V pf))) = Inr (b, x)"
      "length b = INTERNAL_NODES + INTERNAL_NODE * (INTERNAL_MAX_NODE_SIZE + 1)" "bt_GetSize b = INTERNAL_MAX_NODE_SIZE + 1"
      "bt_max_size b = INTERNAL_MAX_NODE_SIZE" "\<not> bt_IsLeafPage b" "bt_GetParentPageId b = INVALID_PAGE_ID"
    and kids: "\<And>i. i < bt_GetSize b \<Longrightarrow> \<exists>c \<in> C. T (mk_page_id oid (in_val b i)) = Some c \<and> pin_count (V c) \<noteq> - 1"
    and N: "Index_AllocatePage m = (Inr (mk_page_id oid n), m1)" "valid_pid (mk_page_id oid n)" "T (mk_page_id oid n) = None"
      "disk_page D (mk_page_id oid n) = zero_page" "0 < n" "n < 2 ^ 20"
    and R: "Index_AllocatePage m1 = (Inr (mk_page_id oid n'), m2)" "valid_pid (mk_page_id oid n')" "T (mk_page_id oid n') = None"
      "disk_page D (mk_page_id oid n') = zero_page" "0 < n'" "n' < 2 ^ 20" "n' \<noteq> n"
  shows "fails no_front (InsertIntoParent (Suc (Suc d)) lf f (int_key K) hf ((s, m), t))"
proof -
  let ?N = "mk_page_id oid n" let ?W = "V(pf := (V pf)\<lparr>pin_count := pin_count (V pf) + 1\<rparr>)"
  define p where "p = blit 0 (slice 0 (INTERNAL_NODES + INTERNAL_NODE * 169) (bt_SetSize 169 b)) (page_data (V pf))"
  have r: "pf \<in> ran T" using pf(1) by (auto intro: ranI)
  have lp: "length (page_data (V pf)) = PAGE_SIZE" "bt_GetMaxSize (page_data (V pf)) = Inr INTERNAL_MAX_NODE_SIZE"
    using page(1) by (simp_all add: in_page_def bt_GetMaxSize_def)
  note hp = halved_page [OF b(2,4,5) lp(1), folded p_def]
  have fb: "fits 4 (bt_GetParentPageId b)" using b(6) by (simp add: fits_def)
  have kids': "\<exists>c \<in> C. T (mk_page_id oid (in_val b i)) = Some c \<and> pin_count (?W c) \<noteq> - 1" if "i < bt_GetSize b" for i
    using kids [OF that] pf(3) by auto
  have step: "fails no_front (InsertIntoParent (Suc d) pf g key hf ((s', m1), t))"
    if "sees s' (T(?N \<mapsto> g)) (V'(pf := ((V pf)\<lparr>pin_count := pin_count (V pf) + 1\<rparr>)\<lparr>page_data := p\<rparr>)) D (g' # F)" "g \<notin> ran T"
      "V' g = (fresh ?N)\<lparr>page_data := y\<rparr>" "length y = PAGE_SIZE" "length key = 8" for s' V' y key
    by (rule new_root_fails [OF that(1) R(1,2) _ R(4-6) t])
       (use that r hf R(3,7) N(3) pin_up [OF pf(2)] hp b(6) in \<open>auto simp: ran_map_upd page_ids\<close>)
  have split: "wp (Split_internal b) P ((s', m), t)"
    if "sees s' T ?W D (g # g' # F)" and "\<And>s'' V' y. g \<notin> ran T \<Longrightarrow> sees s'' (T(?N \<mapsto> g)) V' D (g' # F) \<Longrightarrow> V' pf = (V pf)\<lparr>pin_count := pin_count (V pf) + 1\<rparr> \<Longrightarrow>
      V' g = (fresh ?N)\<lparr>page_data := y\<rparr> \<Longrightarrow> length y = PAGE_SIZE \<Longrightarrow> P (g, bt_SetSize 169 b) ((s'', m1), t)" for P s'
  proof (rule wp_Split_internal [OF that(1) N oid(2) b(2-5) fb kids'])
    fix s'' V' y
    assume a: "g \<notin> ran T" "sees s'' (T(?N \<mapsto> g)) V' D (g' # F)" "\<forall>x. x \<notin> C \<longrightarrow> x \<noteq> g \<longrightarrow> V' x = ?W x" "V' g = (fresh ?N)\<lparr>page_data := y\<rparr>" "length y = PAGE_SIZE"
    have "pf \<noteq> g" using a(1) r by auto
    then show "P (g, bt_SetSize 169 b) ((s'', m1), t)" by (intro that(2) [OF a(1,2) _ a(4,5)]) (simp add: a(3) pf(3))
  qed
  have rs: "g \<in> ran (T(?N \<mapsto> g))" "pf \<in> ran (T(?N \<mapsto> g))" using r N(3) by (auto simp: ran_map_upd)
  have key: "in_KeyAt y 0 = Inr (take 8 (ind y 0))" "length (take 8 (ind y 0)) = 8" if "length y = PAGE_SIZE" for y
    using that by (simp_all add: in_KeyAt_def in_node_def ind_def)
  show ?thesis
    apply (subst InsertIntoParent.simps(2))
    apply (rule fails_then, simp only: wp_simps, rule wp_nodeI [OF see lf(1)])
    apply (rule fails_then, simp only: wp_simps, rule wp_nodeI [OF see lf(2)])
    apply (simp only: bt_IsRootPage_def ids if_False)
    apply (rule fails_then, simp only: wp_simps oid, rule wp_FetchPage [OF see pf(1,2)])
    apply (rule fails_then, simp only: wp_simps, rule wp_nodeI, assumption, rule r)
    apply (rule fails_then, simp add: wp_simps lp page(2) b(1) del: InsertIntoParent.simps)
    apply (rule fails_then, simp add: wp_simps b(1) del: InsertIntoParent.simps)
    apply (rule fails_then, rule split, assumption)
    apply (simp only: prod.case)
    apply (rule fails_then, simp only: wp_simps, rule wp_nodeI, assumption, rule rs(1))
    apply (rule fails_then, simp add: wp_simps key del: InsertIntoParent.simps)
    apply (rule fails_then, simp only: wp_simps, rule wp_upd_node [where bs = p], assumption, rule rs(2); simp add: hp pin_up pf(2) del: InsertIntoParent.simps)
     apply (simp add: p_def)
    apply (rule fails_head, rule step, assumption, assumption, assumption, assumption, erule key(2))
    done
qed

section \<open>Inserting below a full root\<close>

text \<open>The pages of a leaf that is split below the root, and the buffer of the root.\<close>

lemma root_buffer:
  assumes ok: "tree_ok (Suc 0) L INVALID_PAGE_ID root lo hi" "distinct (tree_pages (Suc 0) L root)" and k: "fits 4 k" "lo \<le> k" "k < hi" "k \<noteq> 0" and rid: "rid_fits rid"
    and new: "k \<notin> fst ` set (tree_entries (Suc 0) L root)" and z: "0 < z" "z < 2 ^ 20"
  defines "q \<equiv> in_val (L root) (child_of (L root) k)"
  assumes full: "bt_GetSize (L q) + 1 = LEAF_MAX_NODE_SIZE" "bt_GetSize (L root) = INTERNAL_MAX_NODE_SIZE"
  obtains b lo' hi' c l r K x bf where "lf_Insert (int_key k) rid Compare_int32 (L q) = Inr b" "leaf_in b root q lo' hi'" "bt_GetSize b = LEAF_MAX_NODE_SIZE"
    "lf_Init z root (bt_SetPageType_of b zero_page) = Inr c" "length c = PAGE_SIZE" "lf_MoveHalfTo b c = Inr (l, r)"
    "leaf_in l root q lo' K" "leaf_in r root z K hi'" "lf_KeyAt r 0 = Inr (int_key K)"
    "in_InsertNodeAfter q (int_key K) z (parent_buffer (L root)) = Inr (bf, x)" "length bf = INTERNAL_NODES + INTERNAL_NODE * (INTERNAL_MAX_NODE_SIZE + 1)"
    "bt_GetSize bf = INTERNAL_MAX_NODE_SIZE + 1" "bt_max_size bf = INTERNAL_MAX_NODE_SIZE" "\<not> bt_IsLeafPage bf" "bt_GetParentPageId bf = INVALID_PAGE_ID"
    "\<And>i. i < bt_GetSize bf \<Longrightarrow> in_val bf i = z \<or> (\<exists>l < bt_GetSize (L root). in_val bf i = in_val (L root) l)"
proof -
  let ?m = "L root" let ?c = "child_of (L root) k"
  have nd: "tree_node ?m INVALID_PAGE_ID root lo hi" "0 < root" "root < 2 ^ 20" using ok(1) by simp_all
  have ip: "in_page ?m" "bt_GetParentPageId ?m = INVALID_PAGE_ID" using nd(1) by (simp_all add: tree_node_def in_ok_def)
  have c: "?c < bt_GetSize ?m" using in_Lookup_child(2) nd(1) k(1) by (auto simp: tree_node_def)
  have tl: "tree_leaf (L q) root q (low ?m lo ?c) (high ?m hi ?c)" using ok(1) c by (simp add: q_def)
  have "k \<notin> fst ` set (leaf_entries (L q))" using tree_new [OF ok(1) k(1-3) new] by (simp add: q_def)
  then obtain b where b: "lf_Insert (int_key k) rid Compare_int32 (L q) = Inr b" "leaf_in b root q (low ?m lo ?c) (high ?m hi ?c)" "bt_GetSize b = LEAF_MAX_NODE_SIZE"
    using leaf_in_insert [OF tl k(1) child_bounds [OF nd(1) k(1-3)] k(4) rid] full(1) by metis
  obtain n l r K where h: "lf_Init z root (bt_SetPageType_of b zero_page) = Inr n" "length n = PAGE_SIZE" "lf_MoveHalfTo b n = Inr (l, r)"
      "leaf_in l root q (low ?m lo ?c) K" "leaf_in r root z K (high ?m hi ?c)" "lf_KeyAt r 0 = Inr (int_key K)" "fits 4 K"
    using halves [OF b(2,3) page_fits [OF z] page_fits [OF nd(2,3)]] by metis
  have "inj_on (in_val ?m) {0..<bt_GetSize ?m}" using ok(2) by (simp add: concat_map_singleton distinct_map)
  then have uq: "in_val ?m i \<noteq> q" if "i < ?c" for i using inj_onD [of "in_val ?m" "{0..<bt_GetSize ?m}" i ?c] that c by (auto simp: q_def)
  obtain bf x where bf: "in_InsertNodeAfter q (int_key K) z (parent_buffer ?m) = Inr (bf, x)" "length bf = INTERNAL_NODES + INTERNAL_NODE * (INTERNAL_MAX_NODE_SIZE + 1)"
      "bt_GetSize bf = INTERNAL_MAX_NODE_SIZE + 1" "bt_max_size bf = INTERNAL_MAX_NODE_SIZE" "\<not> bt_IsLeafPage bf"
      "bt_GetParentPageId bf = bt_GetParentPageId ?m" "bt_GetPageId bf = bt_GetPageId ?m"
      "\<And>i. i < bt_GetSize bf \<Longrightarrow> in_val bf i = z \<or> (\<exists>l < bt_GetSize ?m. in_val bf i = in_val ?m l)"
    by (rule buffer_after [OF ip(1) full(2) c q_def [symmetric, THEN meta_eq_to_obj_eq] uq h(7) page_fits [OF z]]) blast+
  show ?thesis by (rule that [OF b h(1-6) bf(1-5) _ bf(8)]) (use bf(6) ip(2) in simp_all)
qed

lemma full_root_fails:
  assumes see: "sees s T W D F" and ix: "index_in (Suc 0) ix (tm_table_oid m) root T W D" and t: "page_set t = []"
    and k: "fits 4 k" "k \<noteq> 0" and rid: "rid_fits rid" and new: "k \<notin> fst ` set (tree_entries (Suc 0) (table_contents (tm_table_oid m) T W D) root)"
    and lf: "T (mk_page_id (tm_table_oid m) (leaf_page_of (Suc 0) (tm_table_oid m) root T W D k)) = Some lf" "pin_count (W lf) = 0"
    and full: "bt_GetSize (table_contents (tm_table_oid m) T W D (leaf_page_of (Suc 0) (tm_table_oid m) root T W D k)) + 1 = LEAF_MAX_NODE_SIZE"
      "bt_GetSize (table_contents (tm_table_oid m) T W D root) = INTERNAL_MAX_NODE_SIZE"
    and pages: "room_for (Suc (Suc (Suc 0))) m T D F" "0 \<le> last_table_data_page_id m"
  shows "fails no_front (InternalInsertRecord (Suc (Suc 0 + e)) ix (int_key k) rid ((s, m), t))"
proof -
  let ?oid = "tm_table_oid m" let ?L = "table_contents ?oid T W D" let ?q = "in_val (?L root) (child_of (?L root) k)"
  let ?z = "next_page m" and ?n = "next_page (one_more m)" and ?n' = "next_page (one_more (one_more m))"
  let ?Z = "mk_page_id ?oid ?z" and ?N = "mk_page_id ?oid ?n" and ?R = "mk_page_id ?oid ?n'"
  note f = index_in_facts [OF ix] and p = index_in_path [OF ix k(1)]
  have kb: "- (2 ^ 31) \<le> k" "k < 2 ^ 31" using k(1) by (simp_all add: fits_def)
  have oid: "tm_table_oid (one_more m) = ?oid" "tm_table_oid (one_more (one_more m)) = ?oid" by simp_all
  obtain zf F1 where z: "F = zf # F1" "Index_AllocatePage m = (Inr ?Z, one_more m)" "valid_pid ?Z" "T ?Z = None" "disk_page D ?Z = zero_page"
      "0 \<le> ?z" "?z < 2 ^ 20" "room_for (Suc (Suc 0)) (one_more m) (T(?Z \<mapsto> zf)) D F1"
    by (rule next_page_facts [OF pages(1)])
  obtain g F2 where N: "F1 = g # F2" "Index_AllocatePage (one_more m) = (Inr ?N, one_more (one_more m))" "valid_pid ?N" "(T(?Z \<mapsto> zf)) ?N = None" "disk_page D ?N = zero_page"
      "0 \<le> ?n" "?n < 2 ^ 20" "room_for (Suc 0) (one_more (one_more m)) (T(?Z \<mapsto> zf, ?N \<mapsto> g)) D F2"
    by (rule next_page_facts [OF z(8), unfolded oid])
  obtain g' F3 where R: "F2 = g' # F3" "Index_AllocatePage (one_more (one_more m)) = (Inr ?R, one_more (one_more (one_more m)))" "valid_pid ?R"
      "(T(?Z \<mapsto> zf, ?N \<mapsto> g)) ?R = None" "disk_page D ?R = zero_page" "0 \<le> ?n'" "?n' < 2 ^ 20"
    by (rule next_page_facts [OF N(8), unfolded oid]) blast
  have pos: "0 < ?z" "0 < ?n" "0 < ?n'" "?n' \<noteq> ?n" using pages(2) by (simp_all add: next_page_def)
  have lq: "leaf_page_of (Suc 0) ?oid root T W D k = ?q" by simp
  obtain b lo' hi' c l r K x bf where st: "lf_Insert (int_key k) rid Compare_int32 (?L ?q) = Inr b" "leaf_in b root ?q lo' hi'" "bt_GetSize b = LEAF_MAX_NODE_SIZE"
      "lf_Init ?z root (bt_SetPageType_of b zero_page) = Inr c" "length c = PAGE_SIZE" "lf_MoveHalfTo b c = Inr (l, r)"
      "leaf_in l root ?q lo' K" "leaf_in r root ?z K hi'" "lf_KeyAt r 0 = Inr (int_key K)"
      "in_InsertNodeAfter ?q (int_key K) ?z (parent_buffer (?L root)) = Inr (bf, x)" "length bf = INTERNAL_NODES + INTERNAL_NODE * (INTERNAL_MAX_NODE_SIZE + 1)"
      "bt_GetSize bf = INTERNAL_MAX_NODE_SIZE + 1" "bt_max_size bf = INTERNAL_MAX_NODE_SIZE" "\<not> bt_IsLeafPage bf" "bt_GetParentPageId bf = INVALID_PAGE_ID"
      "\<And>i. i < bt_GetSize bf \<Longrightarrow> in_val bf i = ?z \<or> (\<exists>l < bt_GetSize (?L root). in_val bf i = in_val (?L root) l)"
    by (rule root_buffer [OF f(1,2) k(1) kb k(2) rid new pos(1) z(7) full(1) [unfolded lq] full(2)]) blast
  obtain hf where hf: "T (mk_page_id ?oid (im_header_page_id (bi_meta ix))) = Some hf" using f(4) by (auto simp: rests_def)
  obtain pf where pf: "T (mk_page_id ?oid root) = Some pf" "idle T W pf" using f(5) [of root] tree_pages_hd rests_idle by (fastforce simp: rests_def)
  have Lq: "?L ?q = page_data (W lf)" "?L root = page_data (W pf)" using lf(1) pf(1) unfolding lq by (simp_all add: contents_def)
  have pp: "pf \<in> ran T" "pin_count (W pf) \<noteq> - 1" "lf \<in> ran T" "hf \<in> ran T" using pf lf(1) hf by (auto simp: idle_def intro: ranI)
  have zf: "zf \<notin> ran T" using sees_frame(6) [OF see] z(1) by (auto simp: ran_def)
  have zne: "lf \<noteq> zf" "pf \<noteq> zf" using zf pp by auto
  have nd: "tree_node (?L root) INVALID_PAGE_ID root (- (2 ^ 31)) (2 ^ 31)" "0 < root" using f(1) by simp_all
  define C where "C = insert zf {c. \<exists>i < bt_GetSize (?L root). T (mk_page_id ?oid (in_val (?L root) i)) = Some c}"
  have kid: "in_val (?L root) i \<in> set (tree_pages (Suc 0) ?L root)" "in_val (?L root) i \<noteq> root" if "i < bt_GetSize (?L root)" for i
  proof -
    have "root \<notin> in_val (?L root) ` {0..<bt_GetSize (?L root)}" using f(2) by (simp add: concat_map_singleton)
    moreover have "in_val (?L root) i \<in> in_val (?L root) ` {0..<bt_GetSize (?L root)}" using that by simp
    ultimately show "in_val (?L root) i \<in> set (tree_pages (Suc 0) ?L root)" "in_val (?L root) i \<noteq> root" by (auto simp: concat_map_singleton)
  qed
  have pC: "pf \<notin> C" using kid(2) sees_inj [OF see pf(1)] zne(2) by (fastforce simp: C_def page_ids)
  have "root \<noteq> ?q" using kid(2) in_Lookup_child(2) nd(1) k(1) by (metis tree_node_def)
  then have lp: "lf \<noteq> pf" using sees_inj [OF see lf(1) [unfolded lq] pf(1)] by (auto simp: page_ids)
  let ?l = "lf_SetNextPageId ?z l" and ?r = "lf_SetNextPageId (lf_GetNextPageId l) r"
  let ?T = "T(?Z \<mapsto> zf)" and ?V = "(holding (top_latches (Suc 0) hf @ [lf]) W)(zf := (fresh ?Z)\<lparr>page_data := ?r\<rparr>, lf := (hold WriteLatched (W lf))\<lparr>page_data := ?l\<rparr>)"
  note n1 = leaf_in_next(1) [OF st(7), of ?z] and n2 = leaf_in_next(1) [OF st(8), of "lf_GetNextPageId l"]
  have Vp: "?V pf = W pf" using lp zne by (simp add: holding_def top_latches_def)
  have kids: "\<exists>c \<in> C. ?T (mk_page_id ?oid (in_val bf i)) = Some c \<and> pin_count (?V c) \<noteq> - 1" if i: "i < bt_GetSize bf" for i
  proof (cases "in_val bf i = ?z")
    case True
    then show ?thesis using zne by (intro bexI [of _ zf]) (simp_all add: C_def)
  next
    case False
    then obtain j where j: "j < bt_GetSize (?L root)" "in_val bf i = in_val (?L root) j" using st(16) [OF i] by blast
    obtain y where y: "T (mk_page_id ?oid (in_val (?L root) j)) = Some y" "pin_count (W y) \<noteq> - 1" using f(5) [OF kid(1) [OF j(1)]] by (auto simp: rests_def)
    then have "y \<noteq> zf" using zf by (auto simp: ran_def)
    then have "pin_count (?V y) \<noteq> - 1" using y(2) lf(2) by (auto simp: holding_def top_latches_def)
    moreover have "?T (mk_page_id ?oid (in_val bf i)) = Some y" using y(1) j(2) False by (simp add: page_ids)
    moreover have "y \<in> C" unfolding C_def using y(1) j(1) by blast
    ultimately show ?thesis by blast
  qed
  have up: "fails no_front (InsertIntoParent (Suc (Suc e)) lf zf (int_key K) hf ((s', one_more m), t\<lparr>page_set := top_latches (Suc 0) hf\<rparr>))"
    if "sees s' ?T ?V D (g # g' # F3)" for s'
  proof (rule full_parent_fails [OF that _ _ _ oid _ _ _ _ _ _ pC _ _ _ _ _ st(11-15) kids N(2-5) pos(2) N(7) R(2,3) _ R(5) pos(3) R(7) pos(4)])
    show "lf \<in> ran ?T" "zf \<in> ran ?T" "hf \<in> ran ?T" using pp(3,4) z(4) by (simp_all add: ran_map_upd)
    show "?T ?R = None" using R(4) by (simp split: if_splits)
    show "?T (mk_page_id ?oid root) = Some pf" using pf(1) z(4) by auto
    show "in_InsertNodeAfter ?q (int_key K) ?z (parent_buffer (page_data (?V pf))) = Inr (bf, x)" using st(10) Lq(2) Vp by simp
    show "in_page (page_data (?V pf))" "bt_GetSize (page_data (?V pf)) = INTERNAL_MAX_NODE_SIZE" "bt_GetParentPageId (page_data (?V pf)) = INVALID_PAGE_ID"
      using nd(1) full(2) Lq(2) unfolding Vp by (simp_all add: tree_node_def in_ok_def)
  qed (use n1 n2 pp(2) zne Vp nd(2) in \<open>auto simp: leaf_in_def top_latches_def\<close>)
  show ?thesis
  proof (rule insert_halves [where R = "fails no_front", OF see [unfolded z(1) N(1) R(1)] p k(1) hf t lf(1) zne(1) _ st(2,3) z(2-5) refl pos(1) st(4-9)])
    show "lf_Insert (int_key k) rid Compare_int32 (page_data (W lf)) = Inr b" using st(1) Lq(1) by simp
  qed (rule fails_head, use up in \<open>simp del: InsertIntoParent.simps\<close>)
qed

text \<open>The state in which the next key splits a leaf and the root above it.\<close>

definition at_limit :: "BTreeIndex \<Rightarrow> int \<Rightarrow> TableMeta \<Rightarrow> BufferPool \<Rightarrow> int \<Rightarrow> bool" where
  "at_limit ix root m s k \<longleftrightarrow> (let L = index_page (tm_table_oid m) s; q = last (tree_path 1 L root k) in
     index_tree 1 ix (tm_table_oid m) root s \<and> index_map 1 (tm_table_oid m) root s k = None \<and>
     bt_GetSize (L root) = INTERNAL_MAX_NODE_SIZE \<and> bt_GetSize (L q) + 1 = LEAF_MAX_NODE_SIZE \<and> pins s (mk_page_id (tm_table_oid m) q) = 0 \<and>
     index_room 3 m s \<and> 0 \<le> last_table_data_page_id m)"

lemma overflow:
  assumes lim: "at_limit ix root m s k" and t: "page_set t = []" and k: "fits 4 k" "k \<noteq> 0" and rid: "rid_fits rid"
  shows "fails no_front (InternalInsertRecord (Suc (Suc e)) ix (int_key k) rid ((s, m), t))"
proof -
  define q where "q = last (tree_path 1 (index_page (tm_table_oid m) s) root k)"
  have tree: "index_tree 1 ix (tm_table_oid m) root s" and new: "index_map 1 (tm_table_oid m) root s k = None"
      and root: "bt_GetSize (index_page (tm_table_oid m) s root) = INTERNAL_MAX_NODE_SIZE" and leaf: "bt_GetSize (index_page (tm_table_oid m) s q) + 1 = LEAF_MAX_NODE_SIZE"
      and pin: "pins s (mk_page_id (tm_table_oid m) q) = 0" and room: "index_room 3 m s" "0 \<le> last_table_data_page_id m"
    using lim unfolding at_limit_def Let_def q_def by blast+
  let ?oid = "tm_table_oid m" and ?T = "page_table s" and ?W = "(!) (pages s)" and ?D = "disk_manager s"
  note see = tree_sees [OF tree]
  have ix: "index_in (Suc 0) ix ?oid root ?T ?W ?D" using tree by (simp add: index_tree_def)
  have L: "table_contents ?oid ?T ?W ?D = index_page ?oid s" by (rule sees_pages [OF see])
  have Lx: "table_contents ?oid ?T ?W ?D x = index_page ?oid s x" for x using fun_cong [OF L] .
  have qe: "leaf_page_of (Suc 0) ?oid root ?T ?W ?D k = q" unfolding L q_def One_nat_def ..
  have "q \<in> set (tree_path (Suc 0) (table_contents ?oid ?T ?W ?D) root k)" unfolding qe [symmetric] by (rule last_in_set [OF tree_path_ne])
  then obtain lf where lf: "?T (mk_page_id ?oid q) = Some lf" using index_in_path(2) [OF ix k(1)] by (auto simp: rests_def simp del: tree_path.simps)
  have lf0: "?T (mk_page_id ?oid (leaf_page_of (Suc 0) ?oid root ?T ?W ?D k)) = Some lf" unfolding qe by (rule lf)
  have pin0: "pin_count (?W lf) = 0" using pin lf by (simp add: pins_def)
  have leaf0: "bt_GetSize (table_contents ?oid ?T ?W ?D (leaf_page_of (Suc 0) ?oid root ?T ?W ?D k)) + 1 = LEAF_MAX_NODE_SIZE" unfolding qe using leaf Lx by (simp only:)
  have root0: "bt_GetSize (table_contents ?oid ?T ?W ?D root) = INTERNAL_MAX_NODE_SIZE" unfolding Lx by (rule root)
  have new0: "k \<notin> fst ` set (tree_entries (Suc 0) (table_contents ?oid ?T ?W ?D) root)"
    using new by (simp add: index_map_def L map_of_eq_None_iff del: tree_entries.simps)
  have room0: "room_for (Suc (Suc (Suc 0))) m ?T ?D (free_list s)" using room(1) by (simp add: index_room_def numeral_3_eq_3)
  show ?thesis using full_root_fails [OF see ix t k rid new0 lf0 pin0 leaf0 root0 room0 room(2), of e] by simp
qed

section \<open>Filling an index\<close>

text \<open>A store with room for 341 pages below its header: 338 leaves and the three pages of the split of a full root.\<close>

lemma store_size:
  assumes "store_tree ix M d root m s"
  shows "index_size d (tm_table_oid m) root s \<le> 67938"
proof -
  let ?L = "index_page (tm_table_oid m) s"
  have d: "d = 0 \<or> d = Suc 0" and ok: "tree_ok d ?L INVALID_PAGE_ID root (- (2 ^ 31)) (2 ^ 31)" using assms index_tree_ok by (auto simp: store_tree_def)
  from d show ?thesis
  proof
    assume "d = 0"
    then show ?thesis using ok by (simp add: tree_leaf_def leaf_entries_def)
  next
    assume d1: "d = Suc 0"
    have "bt_GetSize (?L root) \<le> INTERNAL_MAX_NODE_SIZE" using ok d1 by (simp add: tree_node_def in_ok_def in_page_def)
    then show ?thesis using entries_most [OF ok [unfolded d1]] unfolding d1 by linarith
  qed
qed

lemma ready_or_limit:
  assumes st: "store_tree ix 341 d root m s" and k: "fits 4 k"
    and new: "index_map d (tm_table_oid m) root s k = None" and pin: "\<forall>p. pins s (mk_page_id (tm_table_oid m) p) = 0"
  shows "insert_ready (341 - root_size d (tm_table_oid m) root s) d root m s k \<or> 34238 \<le> index_size d (tm_table_oid m) root s \<and> at_limit ix root m s k"
proof -
  let ?oid = "tm_table_oid m" let ?L = "index_page ?oid s" let ?r = "341 - root_size d ?oid root s" let ?q = "last (tree_path d ?L root k)"
  have h: "d \<le> 1" "index_tree d ix ?oid root s" "0 \<le> last_table_data_page_id m" "d = 1 \<longrightarrow> filled 1 ?L root" "index_room ?r m s"
    using st by (simp_all add: store_tree_def)
  have ok: "tree_ok d ?L INVALID_PAGE_ID root (- (2 ^ 31)) (2 ^ 31)" by (rule index_tree_ok [OF h(2)])
  show ?thesis
  proof (cases "bt_GetSize (?L ?q) + 1 < LEAF_MAX_NODE_SIZE \<or> d = 0 \<or> bt_GetSize (?L root) < INTERNAL_MAX_NODE_SIZE")
    case True
    then have "bt_GetSize (?L ?q) + 1 < LEAF_MAX_NODE_SIZE \<or> (if d = 0 then 2 \<le> ?r else 1 \<le> ?r \<and> bt_GetSize (?L (tree_path d ?L root k ! (d - 1))) < INTERNAL_MAX_NODE_SIZE)"
      using h(1) by (cases "d = 0") (auto simp: root_size_def le_Suc_eq)
    then show ?thesis using h(3,5) unfolding insert_ready_def Let_def by blast
  next
    case False
    then have d: "d = 1" and full: "\<not> bt_GetSize (?L ?q) + 1 < LEAF_MAX_NODE_SIZE" "INTERNAL_MAX_NODE_SIZE \<le> bt_GetSize (?L root)" using h(1) by auto
    have sz: "bt_GetSize (?L root) = INTERNAL_MAX_NODE_SIZE" using full(2) ok d by (auto simp: tree_node_def in_ok_def in_page_def)
    have kb: "- (2 ^ 31) \<le> k" "k < 2 ^ 31" using k by (simp_all add: fits_def)
    have "bt_GetSize (?L ?q) < LEAF_MAX_NODE_SIZE" using tree_find(1) [OF ok k kb] by (auto simp: tree_leaf_def)
    then have leaf: "bt_GetSize (?L ?q) + 1 = LEAF_MAX_NODE_SIZE" using full(1) by simp
    have "index_room 3 m s" using h(5) sz d by (simp add: root_size_def)
    then have "at_limit ix root m s k" using h(2,3) new sz leaf pin unfolding at_limit_def Let_def d by blast
    moreover have "101 * (INTERNAL_MAX_NODE_SIZE + 1) \<le> index_size d ?oid root s + 1"
      using full_leaf_count [OF h(2,1,4) k full(1)] sz d by (simp add: root_size_def del: tree_entries.simps)
    ultimately show ?thesis by simp
  qed
qed

lemma fill:
  assumes "store_tree ix 341 d root m s" and "page_set t = []" and "rid_fits rid" and "\<forall>p. pins s (mk_page_id (tm_table_oid m) p) = 0"
    and "distinct ks" and "\<forall>k \<in> set ks. fits 4 k \<and> k \<noteq> 0 \<and> index_map d (tm_table_oid m) root s k = None" and "67938 < index_size d (tm_table_oid m) root s + length ks"
  shows "\<exists>i s' m' root'. i < length ks \<and> 34238 \<le> index_size d (tm_table_oid m) root s + i \<and> index_size d (tm_table_oid m) root s + i \<le> 67938 \<and>
     run_calls (index_put ix) (index_get ix) (map (\<lambda>k. Put k rid) (take i ks)) ((s, m), t) = (Inr (replicate i (True, [])), ((s', m'), t)) \<and>
     at_limit ix root' m' s' (ks ! i)"
  using assms
proof (induction ks arbitrary: d root m s)
  case Nil
  then show ?case using store_size [OF Nil(1)] by simp
next
  case (Cons k ks)
  let ?n = "index_size d (tm_table_oid m) root s"
  have k: "fits 4 k" "k \<noteq> 0" "index_map d (tm_table_oid m) root s k = None" using Cons.prems(6) by simp_all
  consider "insert_ready (341 - root_size d (tm_table_oid m) root s) d root m s k" | "34238 \<le> ?n" "at_limit ix root m s k"
    using ready_or_limit [OF Cons.prems(1) k(1,3) Cons.prems(4)] by blast
  then show ?case
  proof cases
    case 1
    obtain s' m' d' root' where i: "index_put ix k rid ((s, m), t) = (Inr True, ((s', m'), t))" "store_tree ix 341 d' root' m' s'" "tm_table_oid m' = tm_table_oid m"
        "index_map d' (tm_table_oid m) root' s' = (index_map d (tm_table_oid m) root s)(k \<mapsto> rid)" "index_size d' (tm_table_oid m) root' s' = ?n + 1" "pins s' = pins s"
      by (rule store_put [OF Cons.prems(1) 1 Cons.prems(2) k(1,2) Cons.prems(3) k(3)])
    have "\<forall>x \<in> set ks. fits 4 x \<and> x \<noteq> 0 \<and> index_map d' (tm_table_oid m') root' s' x = None" using Cons.prems(5,6) by (auto simp: i(3,4))
    moreover have "\<forall>p. pins s' (mk_page_id (tm_table_oid m') p) = 0" "distinct ks" "67938 < index_size d' (tm_table_oid m') root' s' + length ks"
      using Cons.prems(4,5,7) by (simp_all add: i(3,5,6))
    ultimately obtain j s2 m2 root2 where j: "j < length ks" "34238 \<le> ?n + 1 + j" "?n + 1 + j \<le> 67938"
        "run_calls (index_put ix) (index_get ix) (map (\<lambda>k. Put k rid) (take j ks)) ((s', m'), t) = (Inr (replicate j (True, [])), ((s2, m2), t))"
        "at_limit ix root2 m2 s2 (ks ! j)"
      using Cons.IH [OF i(2) Cons.prems(2,3)] unfolding i(3,5) by blast
    show ?thesis by (intro exI [of _ "Suc j"] exI [of _ s2] exI [of _ m2] exI [of _ root2]) (use i(1) j in \<open>simp add: act_simps\<close>)
  next
    case 2
    show ?thesis by (intro exI [of _ 0] exI [of _ s] exI [of _ m] exI [of _ root]) (use 2 store_size [OF Cons.prems(1)] in \<open>simp add: act_simps\<close>)
  qed
qed

text \<open>A new index and a long enough list of keys.\<close>

lemma fill_new:
  assumes inv: "gp_inv s" and room: "index_room 343 m s" and im: "im_header_page_id im = INVALID_PAGE_ID" "column_type (im_key_col im) = INTEGER" and t: "page_set t = []"
    and rid: "rid_fits rid" and pin: "\<forall>p. pins s (mk_page_id (tm_table_oid m) p) = 0"
    and ks: "distinct ks" "\<forall>k \<in> set ks. fits 4 k \<and> k \<noteq> 0" "length ks = 67939"
  obtains ix h1 st2 n s3 m3 root where "mk_BTreeIndex im (s, m) = (Inr ix, h1)" "InternalInsertRecord 2 ix (int_key (ks ! 0)) rid (h1, t) = (Inr True, st2)"
    "34238 \<le> n" "n \<le> 67938" "run_calls (index_put ix) (index_get ix) (map (\<lambda>k. Put k rid) (take (n - 1) (tl ks))) st2 = (Inr (replicate (n - 1) (True, [])), ((s3, m3), t))"
    "at_limit ix root m3 s3 (ks ! n)"
proof -
  obtain k xs where kx: "ks = k # xs" "length xs = 67938" using ks(3) by (cases ks) auto
  have k: "fits 4 k" and xs: "distinct xs" "\<forall>x \<in> set xs. fits 4 x \<and> x \<noteq> 0 \<and> x \<noteq> k" using ks kx by auto
  have r: "index_room (341 + 2) m s" using room by simp
  obtain ix s1 m1 s2 m2 root where c: "mk_BTreeIndex im (s, m) = (Inr ix, (s1, m1))" "gp_inv s1" "empty_index ix (tm_table_oid m1) (page_table s1) ((!) (pages s1))"
      "InternalInsertRecord 2 ix (int_key k) rid ((s1, m1), t) = (Inr True, ((s2, m2), t))"
      "index_tree 0 ix (tm_table_oid m2) root s2" "tree_entries 0 (index_page (tm_table_oid m2) s2) root = [(k, rid)]" "index_room 341 m2 s2" "0 \<le> last_table_data_page_id m2"
      "pins s2 (mk_page_id (tm_table_oid m2) (im_header_page_id (bi_meta ix))) = 0" "tm_table_oid m2 = tm_table_oid m" "pins s2 = pins s"
    by (rule create_and_insert [OF inv r im t k rid, of 2])
  have st: "store_tree ix 341 0 root m2 s2" using c(5,7,8) by (simp add: store_tree_def root_size_def)
  have sz: "index_size 0 (tm_table_oid m2) root s2 = 1" and mp: "index_map 0 (tm_table_oid m2) root s2 = [k \<mapsto> rid]"
    using c(6) by (simp_all add: index_map_def del: tree_entries.simps)
  have "\<forall>p. pins s2 (mk_page_id (tm_table_oid m2) p) = 0" "\<forall>x \<in> set xs. fits 4 x \<and> x \<noteq> 0 \<and> index_map 0 (tm_table_oid m2) root s2 x = None"
    using pin xs(2) unfolding mp by (simp_all add: c(10,11))
  from fill [OF st t rid this(1) xs(1) this(2)] obtain i s3 m3 root' where f: "34238 \<le> 1 + i" "1 + i \<le> 67938"
      "run_calls (index_put ix) (index_get ix) (map (\<lambda>k. Put k rid) (take i xs)) ((s2, m2), t) = (Inr (replicate i (True, [])), ((s3, m3), t))" "at_limit ix root' m3 s3 (xs ! i)"
    unfolding sz using kx(2) by auto
  show ?thesis by (rule that [OF c(1), of "((s2, m2), t)" "Suc i" s3 m3 root']) (use c(4) f kx(1) in simp_all)
qed

section \<open>Properties\<close>

text \<open>
  C24: Insertion into an index whose root is full, below which the leaf of the key is full too. The walk down has released every latch,
  since it takes the leaf for safe. The root is split, and when its new parent has been written and the header changed, the code takes the front of the
  set of latched pages, which is empty: undefined behaviour, with the header neither latched nor pinned. An index cannot grow a third level.
\<close>

theorem index_root_overflow:
  assumes "at_limit ix root m s k" and "page_set t = []" and "fits 4 k" and "k \<noteq> 0" and "rid_fits rid"
  shows "fst (InternalInsertRecord (Suc (Suc e)) ix (int_key k) rid ((s, m), t)) = Inl (UndefinedBehaviour ''front of an empty deque'')"
  using overflow [OF assms] by (simp add: fails_def)

definition demo_keys :: "int list" where
  "demo_keys = map int [1..<67940]"

lemma demo_keys_facts: "distinct demo_keys" "\<forall>k \<in> set demo_keys. fits 4 k \<and> k \<noteq> 0" "length demo_keys = 67939"
  by (auto simp: demo_keys_def distinct_map fits_def)

lemma demo_pins: "\<forall>p. pins (demo_pool n) (mk_page_id oid p) = 0"
  by (simp add: pins_def demo_pool_facts)

theorem index_root_overflow_witness:
  "\<exists>ix s m k. fst (InternalInsertRecord 2 ix (int_key k) demo_rid ((s, m), demo_txn)) = Inl (UndefinedBehaviour ''front of an empty deque'')"
proof -
  have r: "index_room 343 (demo_meta (- 1)) (demo_pool 343)" by (rule demo_index_room) simp
  obtain ix h1 st2 n s3 m3 root where f: "n \<le> 67938" "at_limit ix root m3 s3 (demo_keys ! n)"
    by (rule fill_new [OF demo_pool_gp r demo_index_facts demo_txn_facts demo_rid_fits demo_pins demo_keys_facts])
  have "demo_keys ! n \<in> set demo_keys" using f(1) demo_keys_facts(3) by simp
  then have "fits 4 (demo_keys ! n)" "demo_keys ! n \<noteq> 0" using demo_keys_facts(2) by blast+
  from index_root_overflow [OF f(2) demo_txn_facts this demo_rid_fits, of 0] show ?thesis unfolding numeral_2_eq_2 by blast
qed

text \<open>
  C12: The capacity of an index. Of a list of distinct keys other than 0, in any order, a new index takes at least 34238 and at most 67938: each of
  these insertions returns true, and the next one is undefined behaviour. The pool has free frames and the table blank pages for all of
  them, 343. The key 0 is left out because a leaf of smaller keys drops it.
\<close>

theorem index_capacity:
  assumes "gp_inv s" and "index_room 343 m s" and "im_header_page_id im = INVALID_PAGE_ID" and "column_type (im_key_col im) = INTEGER" and "page_set t = []"
    and "rid_fits rid" and "\<forall>p. pins s (mk_page_id (tm_table_oid m) p) = 0" and "distinct ks" and "\<forall>k \<in> set ks. fits 4 k \<and> k \<noteq> 0" and "length ks = 67939"
  shows "\<exists>ix h1 st2 n st3. mk_BTreeIndex im (s, m) = (Inr ix, h1) \<and> InternalInsertRecord 2 ix (int_key (ks ! 0)) rid (h1, t) = (Inr True, st2) \<and>
     34238 \<le> n \<and> n \<le> 67938 \<and>
     run_calls (index_put ix) (index_get ix) (map (\<lambda>k. Put k rid) (take (n - 1) (tl ks))) st2 = (Inr (replicate (n - 1) (True, [])), st3) \<and>
     fst (InternalInsertRecord 2 ix (int_key (ks ! n)) rid st3) = Inl (UndefinedBehaviour ''front of an empty deque'')"
proof -
  obtain ix h1 st2 n s3 m3 root where f: "mk_BTreeIndex im (s, m) = (Inr ix, h1)" "InternalInsertRecord 2 ix (int_key (ks ! 0)) rid (h1, t) = (Inr True, st2)"
      "34238 \<le> n" "n \<le> 67938" "run_calls (index_put ix) (index_get ix) (map (\<lambda>k. Put k rid) (take (n - 1) (tl ks))) st2 = (Inr (replicate (n - 1) (True, [])), ((s3, m3), t))"
      "at_limit ix root m3 s3 (ks ! n)"
    by (rule fill_new [OF assms])
  have "ks ! n \<in> set ks" using f(4) assms(10) by simp
  then have "fits 4 (ks ! n)" "ks ! n \<noteq> 0" using assms(9) by blast+
  from overflow [OF f(6) assms(5) this assms(6), of 0]
  have "fst (InternalInsertRecord 2 ix (int_key (ks ! n)) rid ((s3, m3), t)) = Inl no_front" by (simp add: fails_def numeral_2_eq_2)
  then show ?thesis using f(1-5) by blast
qed

theorem index_capacity_witness:
  "\<exists>ix h1 st2 n st3. mk_BTreeIndex demo_index (demo_pool 343, demo_meta (- 1)) = (Inr ix, h1) \<and> 34238 \<le> n \<and>
     run_calls (index_put ix) (index_get ix) (map (\<lambda>k. Put k demo_rid) (take (n - 1) (tl demo_keys))) st2 = (Inr (replicate (n - 1) (True, [])), st3) \<and>
     fst (InternalInsertRecord 2 ix (int_key (demo_keys ! n)) demo_rid st3) = Inl (UndefinedBehaviour ''front of an empty deque'')"
proof -
  have r: "index_room 343 (demo_meta (- 1)) (demo_pool 343)" by (rule demo_index_room) simp
  show ?thesis using index_capacity [OF demo_pool_gp r demo_index_facts demo_txn_facts demo_rid_fits demo_pins demo_keys_facts] by blast
qed

end
