(* ===== verification/Expressions.thy ===== *)
theory Expressions
  imports Tuples
begin

text \<open>
  Expressions of query plans: \<^verbatim>\<open>query/expressions/abstract_expression.hpp\<close>,
  \<^verbatim>\<open>constant_value_expression.hpp\<close>, \<^verbatim>\<open>column_value_expression.hpp\<close>,
  \<^verbatim>\<open>arithmetic_expression.hpp\<close>.

  The class hierarchy is one datatype, a virtual function one function by cases. The children of
  an arithmetic expression are its two arguments.
\<close>

datatype TuplePosition = LEFT | RIGHT | INVALID_POSITION

datatype AbstractExpression =
    ConstantValueExpression Value
  | ColumnValueExpression TuplePosition nat TypeId
  | ArithmeticExpression AbstractExpression AbstractExpression ArithmeticType

fun GetReturnType :: "AbstractExpression \<Rightarrow> TypeId" where
  "GetReturnType (ConstantValueExpression v) = type_id v"
| "GetReturnType (ColumnValueExpression _ _ ret_type) = ret_type"
| "GetReturnType (ArithmeticExpression _ _ _) = INTEGER"

fun GetChildren :: "AbstractExpression \<Rightarrow> AbstractExpression list" where
  "GetChildren (ArithmeticExpression l r _) = [l, r]"
| "GetChildren _ = []"

definition GetChildAt :: "AbstractExpression \<Rightarrow> nat \<Rightarrow> AbstractExpression result" where
  "GetChildAt e i = (if i < length (GetChildren e) then Inr (GetChildren e ! i) else Inl OutOfRange)"

definition mk_ArithmeticExpression :: "AbstractExpression \<Rightarrow> AbstractExpression \<Rightarrow> ArithmeticType \<Rightarrow> AbstractExpression result" where
  "mk_ArithmeticExpression left right compute_type =
     (if GetReturnType left \<noteq> INTEGER \<or> GetReturnType right \<noteq> INTEGER
      then Inl (NotImplementedException ''Not implemented'')
      else Inr (ArithmeticExpression left right compute_type))"

definition PerformComputation :: "ArithmeticType \<Rightarrow> Value \<Rightarrow> Value \<Rightarrow> Value result" where
  "PerformComputation compute_type lhs rhs =
     (if is_null lhs \<or> is_null rhs then Inr lhs else ComputeArithmetic lhs rhs compute_type)"

fun Evaluate :: "AbstractExpression \<Rightarrow> Tuple \<Rightarrow> Schema \<Rightarrow> Value result" where
  "Evaluate (ConstantValueExpression v) tuple schema = Inr v"
| "Evaluate (ColumnValueExpression _ col_idx _) tuple schema = GetValue_idx tuple schema col_idx"
| "Evaluate (ArithmeticExpression l r compute_type) tuple schema =
     rbind (Evaluate l tuple schema) (\<lambda>lhs.
     rbind (Evaluate r tuple schema) (\<lambda>rhs.
     PerformComputation compute_type lhs rhs))"

fun EvaluateJoin :: "AbstractExpression \<Rightarrow> Tuple \<Rightarrow> Schema \<Rightarrow> Tuple \<Rightarrow> Schema \<Rightarrow> Value result" where
  "EvaluateJoin (ConstantValueExpression v) lt ls rt rs = Inr v"
| "EvaluateJoin (ColumnValueExpression tuple_pos col_idx _) lt ls rt rs =
     (if tuple_pos = LEFT then GetValue_idx lt ls col_idx else GetValue_idx rt rs col_idx)"
| "EvaluateJoin (ArithmeticExpression l r compute_type) lt ls rt rs =
     rbind (EvaluateJoin l lt ls rt rs) (\<lambda>lhs.
     rbind (EvaluateJoin r lt ls rt rs) (\<lambda>rhs.
     PerformComputation compute_type lhs rhs))"

fun GetConstValue :: "AbstractExpression \<Rightarrow> Value result" where
  "GetConstValue (ConstantValueExpression v) = Inr v"
| "GetConstValue (ColumnValueExpression _ _ _) =
     Inl (RuntimeException ''Column Value Expression cannot return a constant value'')"
| "GetConstValue (ArithmeticExpression _ _ _) =
     Inl (RuntimeException ''Arithmetic Expression cannot return a constant value'')"

fun Expression_ToString :: "AbstractExpression \<Rightarrow> string result" where
  "Expression_ToString (ConstantValueExpression v) = Value_ToString v"
| "Expression_ToString (ColumnValueExpression _ col_idx _) = Inr (''#'' @ dec_nat col_idx)"
| "Expression_ToString (ArithmeticExpression l r compute_type) =
     rbind (Expression_ToString l) (\<lambda>a. rbind (Expression_ToString r) (\<lambda>b.
     Inr (a @ '' '' @ ArithmeticType_ToString compute_type @ '' '' @ b)))"

section \<open>Types\<close>

text \<open>
  An expression as its constructors build it: arithmetic on integers only, a column's return type
  the type of that column.
\<close>

fun well_typed :: "AbstractExpression \<Rightarrow> Schema \<Rightarrow> bool" where
  "well_typed (ConstantValueExpression v) s = True"
| "well_typed (ColumnValueExpression _ i t) s = (i < length (columns s) \<and> column_type (columns s ! i) = t)"
| "well_typed (ArithmeticExpression l r _) s \<longleftrightarrow>
     well_typed l s \<and> well_typed r s \<and> GetReturnType l = INTEGER \<and> GetReturnType r = INTEGER"

lemma mk_Value_type: "mk_Value t a = Inr v \<Longrightarrow> type_id v = t"
  by (auto simp: mk_Value_def rbind_eq_Inr split: if_splits)

lemma DeserializeFrom_type: "DeserializeFrom m off t = Inr v \<Longrightarrow> type_id v = t"
  by (cases t) (auto simp: DeserializeFrom_def rbind_eq_Inr Let_def dest: mk_Value_type)

lemma GetValue_type: "GetValue t c = Inr v \<Longrightarrow> type_id v = column_type c"
  by (auto simp: GetValue_def rbind_eq_Inr dest: DeserializeFrom_type)

lemma PerformComputation_type: "PerformComputation op v w = Inr x \<Longrightarrow> type_id x = type_id v"
  by (auto simp: PerformComputation_def ComputeArithmetic_def arith_int32_def arith_uint64_def rbind_eq_Inr Let_def
      split: if_splits ArithmeticType.splits TypeId.splits)

section \<open>Integer expressions\<close>

definition int_value :: "int \<Rightarrow> Value" where
  "int_value i = \<lparr>type_id = INTEGER, val = Int32 (word_of_int i), is_null = False\<rparr>"

text \<open>The reference: the mathematical value, given those of the columns.\<close>

fun ref_eval :: "(nat \<Rightarrow> int) \<Rightarrow> AbstractExpression \<Rightarrow> int" where
  "ref_eval env (ConstantValueExpression v) = (case val v of Int32 x \<Rightarrow> sint x | _ \<Rightarrow> 0)"
| "ref_eval env (ColumnValueExpression _ i _) = env i"
| "ref_eval env (ArithmeticExpression l r op) = arith_op op (ref_eval env l) (ref_eval env r)"

fun int_expr :: "AbstractExpression \<Rightarrow> bool" where
  "int_expr (ConstantValueExpression v) \<longleftrightarrow> type_id v = INTEGER \<and> \<not> is_null v \<and> (case val v of Int32 x \<Rightarrow> True | _ \<Rightarrow> False)"
| "int_expr (ColumnValueExpression _ i t) \<longleftrightarrow> t = INTEGER"
| "int_expr (ArithmeticExpression l r _) \<longleftrightarrow> int_expr l \<and> int_expr r"

fun cols :: "AbstractExpression \<Rightarrow> nat set" where
  "cols (ConstantValueExpression v) = {}"
| "cols (ColumnValueExpression _ i _) = {i}"
| "cols (ArithmeticExpression l r _) = cols l \<union> cols r"

fun in_range :: "(nat \<Rightarrow> int) \<Rightarrow> AbstractExpression \<Rightarrow> bool" where
  "in_range env (ArithmeticExpression l r op) \<longleftrightarrow>
     in_range env l \<and> in_range env r \<and> fits 4 (arith_op op (ref_eval env l) (ref_eval env r))"
| "in_range env e \<longleftrightarrow> fits 4 (ref_eval env e)"

lemma in_range_fits: "in_range env e \<Longrightarrow> fits 4 (ref_eval env e)"
  by (cases e) simp_all

lemma sint_int_value: "fits 4 i \<Longrightarrow> sint (word_of_int i :: 32 word) = i"
  by (auto simp: fits_def int_word_sint)

lemma PerformComputation_int:
  assumes "fits 4 a" and "fits 4 b"
  shows "PerformComputation op (int_value a) (int_value b) =
     (if fits 4 (arith_op op a b) then Inr (int_value (arith_op op a b))
      else Inl (UndefinedBehaviour ''signed integer overflow''))"
  using assms sint_int_value
  by (cases op) (auto simp: PerformComputation_def ComputeArithmetic_def arith_int32_def int_value_def fits_def Let_def)

lemma constant_int_value:
  "int_expr (ConstantValueExpression v) \<Longrightarrow> v = int_value (ref_eval env (ConstantValueExpression v))"
  by (cases v; cases "val v") (auto simp: int_value_def)

lemma Evaluate_ref:
  assumes "int_expr e" and "\<forall>i \<in> cols e. GetValue_idx t s i = Inr (int_value (env i))" and "in_range env e"
  shows "Evaluate e t s = Inr (int_value (ref_eval env e))"
  using assms
proof (induction e)
  case (ConstantValueExpression v)
  then show ?case using constant_int_value by simp
next
  case (ArithmeticExpression l r op)
  then show ?case using in_range_fits [of env l] in_range_fits [of env r] by (simp add: PerformComputation_int)
qed simp

section \<open>Properties\<close>

text \<open>
  C38: Evaluation is type sound: when a well-typed expression evaluates, the value has the return
  type the expression declares, on any tuple whatsoever.
\<close>

theorem evaluate_type_sound:
  assumes "well_typed e s" and "Evaluate e t s = Inr v"
  shows "type_id v = GetReturnType e"
  using assms
proof (induction e arbitrary: v)
  case (ColumnValueExpression p i ty)
  then show ?case by (auto simp: GetValue_idx_def GetColumn_def at_index_def dest: GetValue_type)
next
  case (ArithmeticExpression l r op)
  then obtain a b where "Evaluate l t s = Inr a" "Evaluate r t s = Inr b" "PerformComputation op a b = Inr v"
    by (auto simp: rbind_eq_Inr)
  with ArithmeticExpression show ?case using PerformComputation_type by fastforce
qed simp

theorem evaluate_type_sound_witness:
  "\<exists>v. Evaluate (ArithmeticExpression (ConstantValueExpression (int_value 2)) (ConstantValueExpression (int_value 3)) Plus)
      (Tuple.make default_rid []) empty_schema = Inr v \<and> type_id v = INTEGER"
proof -
  let ?e = "ArithmeticExpression (ConstantValueExpression (int_value 2)) (ConstantValueExpression (int_value 3)) Plus"
  have e: "Evaluate ?e (Tuple.make default_rid []) empty_schema = Inr (int_value 5)"
    by (simp add: PerformComputation_int fits_def)
  have "well_typed ?e empty_schema" by (simp add: int_value_def)
  from evaluate_type_sound [OF this e] e show ?thesis by simp
qed

text \<open>
  C37: Evaluating an arithmetic expression over integer columns and constants gives its
  mathematical value, as long as every intermediate result fits 32 bits.
\<close>

theorem evaluate_exact:
  assumes "int_expr e" and "\<forall>i \<in> cols e. GetValue_idx t s i = Inr (int_value (env i))" and "in_range env e"
  shows "Evaluate e t s = Inr (int_value (ref_eval env e)) \<and> sint (word_of_int (ref_eval env e) :: 32 word) = ref_eval env e"
  using Evaluate_ref [OF assms] sint_int_value [OF in_range_fits [OF assms(3)]] by simp

theorem evaluate_exact_witness:
  "Evaluate (ArithmeticExpression (ConstantValueExpression (int_value 6))
      (ArithmeticExpression (ConstantValueExpression (int_value 10)) (ConstantValueExpression (int_value 3)) Minus) Multiply)
      (Tuple.make default_rid []) empty_schema = Inr (int_value 42)"
  using evaluate_exact [of "ArithmeticExpression (ConstantValueExpression (int_value 6))
      (ArithmeticExpression (ConstantValueExpression (int_value 10)) (ConstantValueExpression (int_value 3)) Minus) Multiply"
      "Tuple.make default_rid []" empty_schema "\<lambda>_. 0"]
  by (simp add: int_value_def fits_def)

end
