(* ===== verification/Queries.thy ===== *)
theory Queries
  imports Expressions Catalogs
begin

text \<open>
  From a parsed statement to a plan: \<^verbatim>\<open>query/binder/binder.cpp\<close> with the bound expressions,
  table references and statements under \<^verbatim>\<open>query/binder/\<close>, \<^verbatim>\<open>query/planner.cpp\<close>, and the plans
  under \<^verbatim>\<open>query/plans/\<close>.

  The parser is the library hsql, which the repository does not contain: its syntax tree is the
  input of the binder, as data types with the fields the binder reads. A class hierarchy is one
  datatype. \<^verbatim>\<open>scope_\<close> is a pointer to a local variable of \<^verbatim>\<open>BindSelect\<close>: null at first, dangling
  once \<^verbatim>\<open>BindSelect\<close> has returned. Messages of exceptions that print a whole schema are cut
  short, and what is only printed or logged is left out.
\<close>

section \<open>The parser's syntax tree\<close>

datatype ExprType = kExprLiteralFloat | kExprLiteralString | kExprLiteralInt | kExprLiteralNull | kExprLiteralDate
  | kExprLiteralInterval | kExprStar | kExprParameter | kExprColumnRef | kExprFunctionRef | kExprOperator | kExprSelect
  | kExprHint | kExprArray | kExprArrayIndex | kExprExtract | kExprCast

datatype OperatorType = kOpPlus | kOpMinus | kOpAsterisk | kOpOther string

datatype Expr = Expr (etype: ExprType) (ival: int) (ename: "string option") (opType: OperatorType)
  (expr_left: "Expr option") (expr_right: "Expr option")

record ColumnDefinition =
  cd_name :: string
  cd_data_type :: hsql_DataType
  cd_length :: int
  cd_primary_key :: bool

record HsqlCreate =
  hc_tableName :: string
  hc_is_create_table :: bool
  hc_columns :: "ColumnDefinition list"

record HsqlSelect =
  hs_fromTable :: "string option"
  hs_selectList :: "Expr list option"

record HsqlInsert =
  hi_tableName :: string
  hi_values :: "Expr list option"
  hi_select :: "HsqlSelect option"

datatype SQLStatement = kStmtCreate HsqlCreate | kStmtInsert HsqlInsert | kStmtSelect HsqlSelect | kStmtOther

fun ExprType_name :: "ExprType \<Rightarrow> string" where
  "ExprType_name kExprLiteralFloat = ''kExprLiteralFloat''"
| "ExprType_name kExprLiteralString = ''kExprLiteralString''"
| "ExprType_name kExprLiteralInt = ''kExprLiteralInt''"
| "ExprType_name kExprLiteralNull = ''kExprLiteralNull''"
| "ExprType_name kExprLiteralDate = ''kExprLiteralDate''"
| "ExprType_name kExprLiteralInterval = ''kExprLiteralInterval''"
| "ExprType_name kExprStar = ''kExprStar''"
| "ExprType_name kExprParameter = ''kExprParameter''"
| "ExprType_name kExprColumnRef = ''kExprColumnRef''"
| "ExprType_name kExprFunctionRef = ''kExprFunctionRef''"
| "ExprType_name kExprOperator = ''kExprOperator''"
| "ExprType_name kExprSelect = ''kExprSelect''"
| "ExprType_name kExprHint = ''kExprHint''"
| "ExprType_name kExprArray = ''kExprArray''"
| "ExprType_name kExprArrayIndex = ''kExprArrayIndex''"
| "ExprType_name kExprExtract = ''kExprExtract''"
| "ExprType_name kExprCast = ''kExprCast''"

fun OperatorType_name :: "OperatorType \<Rightarrow> string" where
  "OperatorType_name kOpPlus = ''kOpPlus''"
| "OperatorType_name kOpMinus = ''kOpMinus''"
| "OperatorType_name kOpAsterisk = ''kOpAsterisk''"
| "OperatorType_name (kOpOther n) = n"

section \<open>Bound expressions, tables and statements\<close>

datatype ExpressionType = INVALID_EXPRESSION | CONSTANT | COLUMN_REF | TYPE_CAST | FUNCTION | AGG_CALL | STAR | UNARY_OP
  | BINARY_OP | ALIAS | FUNC_CALL | WINDOW

fun ExpressionType_format :: "ExpressionType \<Rightarrow> string" where
  "ExpressionType_format INVALID_EXPRESSION = ''Invalid''"
| "ExpressionType_format CONSTANT = ''Constant''"
| "ExpressionType_format COLUMN_REF = ''ColumnRef''"
| "ExpressionType_format TYPE_CAST = ''TypeCast''"
| "ExpressionType_format FUNCTION = ''Function''"
| "ExpressionType_format AGG_CALL = ''AggregationCall''"
| "ExpressionType_format STAR = ''Star''"
| "ExpressionType_format UNARY_OP = ''UnaryOperation''"
| "ExpressionType_format BINARY_OP = ''BinaryOperation''"
| "ExpressionType_format ALIAS = ''Alias''"
| "ExpressionType_format FUNC_CALL = ''FuncCall''"
| "ExpressionType_format WINDOW = ''Window''"

text \<open>\<^verbatim>\<open>magic_enum::enum_name\<close>: the name of the enumerator.\<close>

fun ExpressionType_name :: "ExpressionType \<Rightarrow> string" where
  "ExpressionType_name INVALID_EXPRESSION = ''INVALID''"
| "ExpressionType_name CONSTANT = ''CONSTANT''"
| "ExpressionType_name COLUMN_REF = ''COLUMN_REF''"
| "ExpressionType_name TYPE_CAST = ''TYPE_CAST''"
| "ExpressionType_name FUNCTION = ''FUNCTION''"
| "ExpressionType_name AGG_CALL = ''AGG_CALL''"
| "ExpressionType_name STAR = ''STAR''"
| "ExpressionType_name UNARY_OP = ''UNARY_OP''"
| "ExpressionType_name BINARY_OP = ''BINARY_OP''"
| "ExpressionType_name ALIAS = ''ALIAS''"
| "ExpressionType_name FUNC_CALL = ''FUNC_CALL''"
| "ExpressionType_name WINDOW = ''WINDOW''"

datatype BoundExpression =
    BoundConstant Value
  | BoundColumnRef "string list"
  | BoundStar
  | BoundBinaryOp ArithmeticType BoundExpression BoundExpression

fun BoundExpression_type :: "BoundExpression \<Rightarrow> ExpressionType" where
  "BoundExpression_type (BoundConstant _) = CONSTANT"
| "BoundExpression_type (BoundColumnRef _) = COLUMN_REF"
| "BoundExpression_type BoundStar = STAR"
| "BoundExpression_type (BoundBinaryOp _ _ _) = BINARY_OP"

fun BoundExpression_ToString :: "BoundExpression \<Rightarrow> string result" where
  "BoundExpression_ToString (BoundConstant v) = Value_ToString v"
| "BoundExpression_ToString (BoundColumnRef names) = Inr (join ''.'' names)"
| "BoundExpression_ToString BoundStar = Inr ''*''"
| "BoundExpression_ToString (BoundBinaryOp op l r) =
     rbind (BoundExpression_ToString l) (\<lambda>a. rbind (BoundExpression_ToString r) (\<lambda>b.
     Inr (''('' @ a @ ArithmeticType_ToString op @ b @ '')'')))"

datatype TableReferenceType = INVALID_REFERENCE | BASE_TABLE | JOIN | CROSS_PRODUCT | EXPRESSION_LIST | SUBQUERY | CTE | EMPTY

fun TableReferenceType_format :: "TableReferenceType \<Rightarrow> string" where
  "TableReferenceType_format INVALID_REFERENCE = ''Invalid''"
| "TableReferenceType_format BASE_TABLE = ''BaseTable''"
| "TableReferenceType_format JOIN = ''Join''"
| "TableReferenceType_format CROSS_PRODUCT = ''CrossProduct''"
| "TableReferenceType_format EMPTY = ''Empty''"
| "TableReferenceType_format EXPRESSION_LIST = ''ExpressionList''"
| "TableReferenceType_format SUBQUERY = ''Subquery''"
| "TableReferenceType_format CTE = ''CTE''"

record BoundBaseTableRef =
  bt_table :: string
  bt_oid :: int
  bt_schema :: Schema

datatype BoundTableRef =
    BaseTableRef BoundBaseTableRef
  | BoundExpressionListRef "BoundExpression list list"
  | PlainTableRef TableReferenceType

fun BoundTableRef_type :: "BoundTableRef \<Rightarrow> TableReferenceType" where
  "BoundTableRef_type (BaseTableRef _) = BASE_TABLE"
| "BoundTableRef_type (BoundExpressionListRef _) = EXPRESSION_LIST"
| "BoundTableRef_type (PlainTableRef t) = t"

record SelectStatement =
  ss_table :: BoundTableRef
  ss_select_list :: "BoundExpression list"

record InsertStatement =
  is_table :: BoundBaseTableRef
  is_select :: SelectStatement

record CreateStatement =
  cs_table_name :: string
  cs_columns :: "Column list"
  cs_primary_key :: "string list"

datatype BoundStatement = SELECT_STATEMENT SelectStatement | INSERT_STATEMENT InsertStatement | CREATE_STATEMENT CreateStatement

section \<open>The binder\<close>

datatype scope = NullScope | InScope BoundTableRef | DanglingScope

fun BindExpression :: "Expr \<Rightarrow> BoundExpression result" where
  "BindExpression (Expr t i n op e1 e2) =
     (case t of
        kExprLiteralInt \<Rightarrow> rbind (mk_Value INTEGER (A_int32 (word_of_int i))) (\<lambda>v. Inr (BoundConstant v))
      | kExprLiteralString \<Rightarrow>
          (case n of
             None \<Rightarrow> Inl (UndefinedBehaviour ''std::string of a null pointer'')
           | Some s \<Rightarrow> rbind (mk_Value VARCHAR (A_string s)) (\<lambda>v. Inr (BoundConstant v)))
      | kExprOperator \<Rightarrow>
          rbind (case op of
                   kOpPlus \<Rightarrow> Inr Plus
                 | kOpMinus \<Rightarrow> Inr Minus
                 | kOpAsterisk \<Rightarrow> Inr Multiply
                 | kOpOther _ \<Rightarrow> Inl (NotImplementedException (''Operator type is not supported '' @ OperatorType_name op))) (\<lambda>op_type.
          rbind (case e1 of None \<Rightarrow> Inl (UndefinedBehaviour ''null expression'') | Some e \<Rightarrow> BindExpression e) (\<lambda>larg.
          rbind (case e2 of None \<Rightarrow> Inl (UndefinedBehaviour ''null expression'') | Some e \<Rightarrow> BindExpression e) (\<lambda>rarg.
          Inr (BoundBinaryOp op_type larg rarg))))
      | kExprStar \<Rightarrow> Inr BoundStar
      | _ \<Rightarrow> Inl (NotImplementedException (''This expr type is not supported '' @ ExprType_name t)))"

definition expand_star :: "scope \<Rightarrow> BoundExpression list result" where
  "expand_star sc =
     (case sc of
        InScope (BaseTableRef b) \<Rightarrow> Inr (map (\<lambda>c. BoundColumnRef [bt_table b, column_name c]) (columns (bt_schema b)))
      | _ \<Rightarrow> Inl (UndefinedBehaviour ''scope_ does not point to a base table''))"

fun bind_list :: "scope \<Rightarrow> nat \<Rightarrow> Expr list \<Rightarrow> BoundExpression list \<Rightarrow> BoundExpression list result" where
  "bind_list sc list_size [] expr_list = Inr expr_list"
| "bind_list sc list_size (e # es) expr_list =
     rbind (BindExpression e) (\<lambda>b.
     if BoundExpression_type b = STAR
     then if list_size \<noteq> 1 then Inl (Exception ''select * cannot have other expressions in list'') else expand_star sc
     else bind_list sc list_size es (expr_list @ [b]))"

definition BindExpressionList :: "scope \<Rightarrow> Expr list \<Rightarrow> BoundExpression list result" where
  "BindExpressionList sc exprs = bind_list sc (length exprs) exprs []"

definition BindValuesList :: "scope \<Rightarrow> Expr list \<Rightarrow> BoundExpression list list result" where
  "BindValuesList sc exprs = rbind (BindExpressionList sc exprs) (\<lambda>row. Inr [row])"

definition BindBaseTableRef :: "Catalog \<Rightarrow> string \<Rightarrow> BoundBaseTableRef result" where
  "BindBaseTableRef c table_name =
     rbind (GetTableByName table_name c) (\<lambda>table_info.
     Inr \<lparr>bt_table = table_name, bt_oid = tm_table_oid table_info, bt_schema = tm_schema table_info\<rparr>)"

definition BindFrom :: "Catalog \<Rightarrow> string \<Rightarrow> BoundTableRef result" where
  "BindFrom c table_ref = rbind (BindBaseTableRef c table_ref) (\<lambda>b. Inr (BaseTableRef b))"

definition temp_columns :: "nat \<Rightarrow> BoundExpression list" where
  "temp_columns n = map (\<lambda>i. BoundColumnRef [''Temp Col '' @ dec_nat i]) [0..<n]"

definition BindSelect :: "Catalog \<Rightarrow> HsqlSelect \<Rightarrow> (scope, SelectStatement) action" where
  "BindSelect c stmt =
     (case (hs_fromTable stmt, hs_selectList stmt) of
        (None, Some exprs) \<Rightarrow>
          bind (gets id) (\<lambda>sc.
          bind (lift (BindValuesList sc exprs)) (\<lambda>values.
          ret \<lparr>ss_table = BoundExpressionListRef values, ss_select_list = temp_columns (length (values ! 0))\<rparr>))
      | (Some from, Some exprs) \<Rightarrow>
          bind (lift (BindFrom c from)) (\<lambda>from_table.
          bind (modify (\<lambda>_. DanglingScope)) (\<lambda>_.
          bind (lift (BindExpressionList (InScope from_table) exprs)) (\<lambda>select_list.
          ret \<lparr>ss_table = from_table, ss_select_list = select_list\<rparr>)))
      | _ \<Rightarrow> throw (NotImplementedException ''Have not implemented select clause like this''))"

definition BindInsert :: "Catalog \<Rightarrow> HsqlInsert \<Rightarrow> (scope, InsertStatement) action" where
  "BindInsert c stmt =
     bind (lift (BindBaseTableRef c (hi_tableName stmt))) (\<lambda>table.
     if take 2 (bt_table table) = ''__'' then throw (Exception (''invalid table for insert: '' @ bt_table table))
     else case hi_values stmt of
       Some exprs \<Rightarrow>
         bind (gets id) (\<lambda>sc.
         bind (lift (BindValuesList sc exprs)) (\<lambda>values.
         ret \<lparr>is_table = table,
              is_select = \<lparr>ss_table = BoundExpressionListRef values, ss_select_list = temp_columns (length (values ! 0))\<rparr>\<rparr>))
     | None \<Rightarrow>
         (case hi_select stmt of
            Some sel \<Rightarrow> bind (BindSelect c sel) (\<lambda>select. ret \<lparr>is_table = table, is_select = select\<rparr>)
          | None \<Rightarrow> throw (NotImplementedException ''Have not implemented insert clause like this'')))"

definition BindColumnDefinition :: "ColumnDefinition \<Rightarrow> Column result" where
  "BindColumnDefinition col_def =
     rbind (HsqlColumnTypeToTypeId (cd_data_type col_def)) (\<lambda>t.
     if cd_data_type col_def = HSQL_VARCHAR
     then Column_varlen (cd_name col_def) t (nat (cd_length col_def mod 2 ^ 32))
     else Column_fixed (cd_name col_def) t)"

fun bind_columns :: "ColumnDefinition list \<Rightarrow> Column list \<Rightarrow> string list \<Rightarrow> (Column list \<times> string list) result" where
  "bind_columns [] cs primary_key = Inr (cs, primary_key)"
| "bind_columns (col_def # defs) cs primary_key =
     rbind (BindColumnDefinition col_def) (\<lambda>col.
     let primary_key' = (if cd_primary_key col_def then primary_key @ [column_name col] else primary_key) in
     if length primary_key' > 1 then Inl (NotImplementedException ''Cannot have two primary keys'')
     else bind_columns defs (cs @ [col]) primary_key')"

definition BindCreate :: "HsqlCreate \<Rightarrow> CreateStatement result" where
  "BindCreate stmt =
     (if hc_is_create_table stmt
      then rbind (bind_columns (hc_columns stmt) [] []) (\<lambda>(cs, primary_key).
           Inr \<lparr>cs_table_name = hc_tableName stmt, cs_columns = cs, cs_primary_key = primary_key\<rparr>)
      else Inl (NotImplementedException ''Unsupported create statement''))"

definition Bind :: "Catalog \<Rightarrow> SQLStatement \<Rightarrow> (scope, BoundStatement) action" where
  "Bind c stmt =
     (case stmt of
        kStmtCreate s \<Rightarrow> bind (lift (BindCreate s)) (\<lambda>b. ret (CREATE_STATEMENT b))
      | kStmtInsert s \<Rightarrow> bind (BindInsert c s) (\<lambda>b. ret (INSERT_STATEMENT b))
      | kStmtSelect s \<Rightarrow> bind (BindSelect c s) (\<lambda>b. ret (SELECT_STATEMENT b))
      | kStmtOther \<Rightarrow> throw (NotImplementedException ''This statement is not supported''))"

section \<open>Plans\<close>

datatype PlanType = SeqScan | IndexScan | Insert | Update | Delete | Aggregation | Limit | NestedLoopJoin | NestedIndexJoin
  | HashJoin | Filter | Values | Projection | Sort | TopN | TopNPerGroup | MockScan | InitCheck | Window

datatype Plan =
    SeqScanPlanNode Schema int string "AbstractExpression option"
  | ValuesPlanNode Schema "AbstractExpression list list"
  | InsertPlanNode Schema Plan int
  | ProjectionPlanNode Schema "AbstractExpression list" Plan

fun OutputSchema :: "Plan \<Rightarrow> Schema" where
  "OutputSchema (SeqScanPlanNode s _ _ _) = s"
| "OutputSchema (ValuesPlanNode s _) = s"
| "OutputSchema (InsertPlanNode s _ _) = s"
| "OutputSchema (ProjectionPlanNode s _ _) = s"

fun Plan_GetType :: "Plan \<Rightarrow> PlanType" where
  "Plan_GetType (SeqScanPlanNode _ _ _ _) = SeqScan"
| "Plan_GetType (ValuesPlanNode _ _) = Values"
| "Plan_GetType (InsertPlanNode _ _ _) = Insert"
| "Plan_GetType (ProjectionPlanNode _ _ _) = Projection"

fun Plan_children :: "Plan \<Rightarrow> Plan list" where
  "Plan_children (InsertPlanNode _ child _) = [child]"
| "Plan_children (ProjectionPlanNode _ _ child) = [child]"
| "Plan_children _ = []"

definition GetChildPlan :: "Plan \<Rightarrow> Plan result" where
  "GetChildPlan p = rbind (rassert (length (Plan_children p) = 1) ''GetChildren().size() == 1'') (\<lambda>_. Inr (Plan_children p ! 0))"

text \<open>Every value is followed by a comma and a space; the last two characters are popped again.\<close>

fun append_values :: "string \<Rightarrow> AbstractExpression list \<Rightarrow> string result" where
  "append_values acc [] = Inr acc"
| "append_values acc (e # es) = rbind (Expression_ToString e) (\<lambda>x. append_values (acc @ x @ '', '') es)"

fun append_rows :: "string \<Rightarrow> AbstractExpression list list \<Rightarrow> string result" where
  "append_rows acc [] = Inr acc"
| "append_rows acc (row # rows) =
     rbind (append_values (acc @ ''['') row) (\<lambda>a.
     append_rows ((if row = [] then a else butlast (butlast a)) @ ''], '') rows)"

fun Plan_ToString :: "Plan \<Rightarrow> string result" where
  "Plan_ToString (SeqScanPlanNode _ _ table_name None) = Inr (''SeqScan { table='' @ table_name @ '' }'')"
| "Plan_ToString (SeqScanPlanNode _ _ table_name (Some f)) =
     rbind (Expression_ToString f) (\<lambda>x. Inr (''SeqScan { table='' @ table_name @ '', filter='' @ x @ '' }''))"
| "Plan_ToString (ValuesPlanNode _ values) =
     rbind (append_rows ''{ '' values) (\<lambda>a.
     Inr (''ValuesPlanNode { values='' @ (if values = [] then a else butlast (butlast a)) @ '' }'' @ '' }''))"
| "Plan_ToString (InsertPlanNode _ child table_oid) =
     rbind (Plan_ToString child) (\<lambda>x. Inr (''InsertPlanNode { table_oid='' @ dec_int table_oid @ '', children='' @ x @ '' }''))"
| "Plan_ToString (ProjectionPlanNode _ _ _) = Inr ''<unknown>''"

fun projection_columns :: "AbstractExpression list \<Rightarrow> Column list result" where
  "projection_columns [] = Inr []"
| "projection_columns (e # es) =
     rbind (IsFixedSize (GetReturnType e)) (\<lambda>fixed.
     rbind (if fixed then rbind (Column_fixed ''<unnamed>'' (GetReturnType e)) (\<lambda>c. Inr [c]) else Inr []) (\<lambda>cs.
     rbind (projection_columns es) (\<lambda>rest. Inr (cs @ rest))))"

definition InferProjectionSchema :: "AbstractExpression list \<Rightarrow> Schema result" where
  "InferProjectionSchema expressions = rbind (projection_columns expressions) mk_Schema"

section \<open>The planner\<close>

definition PlanConstant :: "Value \<Rightarrow> AbstractExpression" where
  "PlanConstant v = ConstantValueExpression v"

definition PlanExpression :: "BoundExpression \<Rightarrow> AbstractExpression result" where
  "PlanExpression e =
     (case e of
        BoundConstant v \<Rightarrow> Inr (PlanConstant v)
      | _ \<Rightarrow> Inl (NotImplementedException (''Not supported expression type '' @ ExpressionType_name (BoundExpression_type e))))"

fun plan_row :: "BoundExpression list \<Rightarrow> AbstractExpression list result" where
  "plan_row [] = Inr []"
| "plan_row (b # bs) = rbind (PlanExpression b) (\<lambda>e. rbind (plan_row bs) (\<lambda>es. Inr (e # es)))"

fun plan_rows :: "BoundExpression list list \<Rightarrow> AbstractExpression list list result" where
  "plan_rows [] = Inr []"
| "plan_rows (r # rs) = rbind (plan_row r) (\<lambda>es. rbind (plan_rows rs) (\<lambda>ess. Inr (es # ess)))"

fun value_columns :: "nat \<Rightarrow> AbstractExpression list \<Rightarrow> Column list result" where
  "value_columns idx [] = Inr []"
| "value_columns idx (e # es) =
     (let col_name = ''Temp Col'' @ dec_nat idx in
      rbind (if GetReturnType e \<noteq> VARCHAR then Column_fixed col_name (GetReturnType e)
             else Column_varlen col_name (GetReturnType e) VARCHAR_DEFAULT_LENGTH) (\<lambda>c.
      rbind (value_columns (idx + 1) es) (\<lambda>cs. Inr (c # cs))))"

definition PlanExpressionListRef :: "BoundExpression list list \<Rightarrow> Plan result" where
  "PlanExpressionListRef values =
     rbind (plan_rows values) (\<lambda>all_exprs.
     rbind (at_index all_exprs 0) (\<lambda>first_row.
     rbind (value_columns 0 first_row) (\<lambda>cs.
     rbind (mk_Schema cs) (\<lambda>schema. Inr (ValuesPlanNode schema all_exprs)))))"

definition PlanTableRef :: "Catalog \<Rightarrow> BoundTableRef \<Rightarrow> Plan result" where
  "PlanTableRef c table_ref =
     (case table_ref of
        BoundExpressionListRef values \<Rightarrow> PlanExpressionListRef values
      | BaseTableRef b \<Rightarrow>
          rbind (GetTableByName (bt_table b) c) (\<lambda>table.
          rbind (mk_Schema (columns (tm_schema table))) (\<lambda>schema.
          Inr (SeqScanPlanNode schema (tm_table_oid table) (tm_name table) None)))
      | PlainTableRef t \<Rightarrow>
          (if t = EXPRESSION_LIST \<or> t = BASE_TABLE then Inl BadCast
           else Inl (NotImplementedException ''From clause not implemented'')))"

definition PlanSelect :: "Catalog \<Rightarrow> SelectStatement \<Rightarrow> Plan result" where
  "PlanSelect c statement =
     (if BoundTableRef_type (ss_table statement) = EMPTY
      then rbind (mk_Schema []) (\<lambda>schema. Inr (ValuesPlanNode schema []))
      else PlanTableRef c (ss_table statement))"

definition PlanInsert :: "Catalog \<Rightarrow> InsertStatement \<Rightarrow> Plan result" where
  "PlanInsert c statement =
     rbind (PlanSelect c (is_select statement)) (\<lambda>select.
     if \<not> TypeMatch (bt_schema (is_table statement)) (OutputSchema select)
     then Inl (Exception ''Table schema mismatch for insert statement'')
     else rbind (Column_fixed ''inserted_rows'' INTEGER) (\<lambda>c.
          rbind (mk_Schema [c]) (\<lambda>insert_schema.
          Inr (InsertPlanNode insert_schema select (bt_oid (is_table statement))))))"

text \<open>The case of a select statement has no \<^verbatim>\<open>break\<close>: control goes on into that of an insert.\<close>

definition PlanQuery :: "Catalog \<Rightarrow> BoundStatement \<Rightarrow> Plan result" where
  "PlanQuery c statement =
     (case statement of
        SELECT_STATEMENT s \<Rightarrow> rbind (PlanSelect c s) (\<lambda>_. Inl BadCast)
      | INSERT_STATEMENT s \<Rightarrow> PlanInsert c s
      | CREATE_STATEMENT s \<Rightarrow> Inl (NotImplementedException ''Statement is not supported''))"

section \<open>Rows of literals\<close>

fun literal_value :: "Expr \<Rightarrow> Value option" where
  "literal_value (Expr kExprLiteralInt i n op e1 e2) = Some (int_value i)"
| "literal_value (Expr kExprLiteralString i (Some s) op e1 e2) = Some \<lparr>type_id = VARCHAR, val = Str s, is_null = False\<rparr>"
| "literal_value _ = None"

lemma literal_valueE:
  assumes "literal_value e = Some v"
  obtains (int) i n op e1 e2 where "e = Expr kExprLiteralInt i n op e1 e2" "v = int_value i"
    | (str) i s op e1 e2 where "e = Expr kExprLiteralString i (Some s) op e1 e2" "v = \<lparr>type_id = VARCHAR, val = Str s, is_null = False\<rparr>"
  using assms by (cases e rule: literal_value.cases) auto

lemma BindExpression_literal: "literal_value e = Some v \<Longrightarrow> BindExpression e = Inr (BoundConstant v)"
  by (erule literal_valueE) (simp_all add: mk_Value_def int_value_def)

lemma literal_type: "literal_value e = Some v \<Longrightarrow> type_id v = INTEGER \<or> type_id v = VARCHAR"
  by (erule literal_valueE) (simp_all add: int_value_def)

lemma bind_list_literals:
  "map literal_value es = map Some vs \<Longrightarrow> bind_list sc n es acc = Inr (acc @ map BoundConstant vs)"
  by (induction es arbitrary: vs acc) (auto simp: BindExpression_literal Cons_eq_map_conv)

lemma plan_row_constants: "plan_row (map BoundConstant vs) = Inr (map ConstantValueExpression vs)"
  by (induction vs) (simp_all add: PlanExpression_def PlanConstant_def)

fun temp_cols :: "nat \<Rightarrow> Value list \<Rightarrow> Column list" where
  "temp_cols i [] = []"
| "temp_cols i (v # vs) =
     mk_column_rec (''Temp Col'' @ dec_nat i) (type_id v) (if type_id v = VARCHAR then VARCHAR_DEFAULT_LENGTH else 4) # temp_cols (i + 1) vs"

lemma value_columns_constants:
  "\<forall>v \<in> set vs. type_id v = INTEGER \<or> type_id v = VARCHAR \<Longrightarrow>
   value_columns i (map ConstantValueExpression vs) = Inr (temp_cols i vs)"
  by (induction vs arbitrary: i) (auto simp: Column_fixed_def Column_varlen_def Let_def)

lemma temp_cols_facts:
  assumes "\<forall>v \<in> set vs. type_id v = INTEGER \<or> type_id v = VARCHAR"
  shows "inline_size (temp_cols i vs) = 4 * length vs" and "map column_type (temp_cols i vs) = map type_id vs"
    and "c \<in> set (temp_cols i vs) \<Longrightarrow> wf_column c" and "length (temp_cols i vs) = length vs"
proof -
  show "inline_size (temp_cols i vs) = 4 * length vs" using assms
    by (induction vs arbitrary: i) (auto simp: col_width_def IsInlined_def mk_column_rec_def)
  show "map column_type (temp_cols i vs) = map type_id vs" by (induction vs arbitrary: i) (simp_all add: mk_column_rec_def)
  show "c \<in> set (temp_cols i vs) \<Longrightarrow> wf_column c" using assms
    by (induction vs arbitrary: i) (auto simp: wf_column_def mk_column_rec_def)
  show "length (temp_cols i vs) = length vs" by (induction vs arbitrary: i) simp_all
qed

definition values_schema :: "Value list \<Rightarrow> Schema" where
  "values_schema vs = \<lparr>columns = layout (temp_cols 0 vs) 0 0, uninlined_columns = uninlined (temp_cols 0 vs) 0,
     tuple_inline_part_storage_size = 4 * length vs\<rparr>"

definition count_schema :: Schema where
  "count_schema = \<lparr>columns = [mk_column_rec ''inserted_rows'' INTEGER 4], uninlined_columns = [], tuple_inline_part_storage_size = 4\<rparr>"

lemma map_type_layout [simp]: "map column_type (layout cs i off) = map column_type cs"
  by (induction cs arbitrary: i off) simp_all

lemma literal_types:
  assumes "map literal_value es = map Some vs"
  shows "\<forall>v \<in> set vs. type_id v = INTEGER \<or> type_id v = VARCHAR"
proof
  fix v assume "v \<in> set vs"
  then have "Some v \<in> set (map literal_value es)" using assms by simp
  then obtain e where "literal_value e = Some v" by auto
  then show "type_id v = INTEGER \<or> type_id v = VARCHAR" by (rule literal_type)
qed

lemma mk_Schema_values:
  assumes "\<forall>v \<in> set vs. type_id v = INTEGER \<or> type_id v = VARCHAR" and "4 * length vs < 2 ^ 32"
  shows "mk_Schema (temp_cols 0 vs) = Inr (values_schema vs)"
  using mk_Schema_layout [of "temp_cols 0 vs"] temp_cols_facts [OF assms(1), where i = 0] assms(2)
  by (auto simp: values_schema_def wf_column_def)

lemma mk_Schema_count: "rbind (Column_fixed ''inserted_rows'' INTEGER) (\<lambda>c. mk_Schema [c]) = Inr count_schema"
  by (simp add: Column_fixed_def mk_Schema_def empty_schema_def count_schema_def mk_column_rec_def IsInlined_def)

lemma plan_insert_values:
  assumes t: "GetTableByName t c = Inr m" "take 2 t \<noteq> ''__''" and vs: "map literal_value es = map Some vs"
    and ty: "map type_id vs = map column_type (columns (tm_schema m))" and n: "4 * length vs < 2 ^ 32"
  shows "\<exists>is. Bind c (kStmtInsert \<lparr>hi_tableName = t, hi_values = Some es, hi_select = sel\<rparr>) sc = (Inr (INSERT_STATEMENT is), sc) \<and>
     PlanQuery c (INSERT_STATEMENT is) =
       Inr (InsertPlanNode count_schema (ValuesPlanNode (values_schema vs) [map ConstantValueExpression vs]) (tm_table_oid m))"
proof -
  note lt = literal_types [OF vs]
  let ?is = "\<lparr>is_table = \<lparr>bt_table = t, bt_oid = tm_table_oid m, bt_schema = tm_schema m\<rparr>,
     is_select = \<lparr>ss_table = BoundExpressionListRef [map BoundConstant vs], ss_select_list = temp_columns (length vs)\<rparr>\<rparr>"
  have b: "Bind c (kStmtInsert \<lparr>hi_tableName = t, hi_values = Some es, hi_select = sel\<rparr>) sc = (Inr (INSERT_STATEMENT ?is), sc)"
    using t by (simp add: Bind_def BindInsert_def BindBaseTableRef_def BindValuesList_def BindExpressionList_def bind_list_literals [OF vs] act_simps)
  have sel: "PlanSelect c (is_select ?is) = Inr (ValuesPlanNode (values_schema vs) [map ConstantValueExpression vs])"
    by (simp add: PlanSelect_def PlanTableRef_def PlanExpressionListRef_def plan_row_constants at_index_def
        value_columns_constants [OF lt] mk_Schema_values [OF lt n])
  have "TypeMatch (tm_schema m) (values_schema vs)"
    using temp_cols_facts(2) [OF lt] ty by (simp add: TypeMatch_def values_schema_def)
  then have "PlanQuery c (INSERT_STATEMENT ?is) =
      Inr (InsertPlanNode count_schema (ValuesPlanNode (values_schema vs) [map ConstantValueExpression vs]) (tm_table_oid m))"
    using sel mk_Schema_count by (auto simp: PlanQuery_def PlanInsert_def rbind_eq_Inr)
  with b show ?thesis by blast
qed

section \<open>A row is read with the schema of its table\<close>

lemma layout_offsets:
  assumes "map column_type cs = map column_type cs'" and "\<forall>c \<in> set cs. wf_column c" and "\<forall>c \<in> set cs'. wf_column c"
  shows "map storage_offset (layout cs i off) = map storage_offset (layout cs' j off)"
  using assms
proof (induction cs cs' arbitrary: i j off rule: list_induct2')
  case (4 c cs c' cs')
  have "col_width c = col_width c'"
    using 4(2,3,4) by (cases "column_type c") (auto simp: col_width_def IsInlined_def wf_column_def)
  with 4 show ?case by simp
qed simp_all

lemma GetValue_cong: "column_type c = column_type c' \<Longrightarrow> storage_offset c = storage_offset c' \<Longrightarrow> GetValue t c = GetValue t c'"
  by (simp add: GetValue_def GetDataPtr_def IsInlined_def)

definition row_ok :: "Value list \<Rightarrow> bool" where
  "row_ok vs \<longleftrightarrow> vs \<noteq> [] \<and> 4 * length vs < PAGE_SIZE \<and>
     (\<forall>v \<in> set vs. case val v of Str s \<Rightarrow> length s \<le> VARCHAR_DEFAULT_LENGTH | _ \<Rightarrow> True)"

lemma row_conforms:
  assumes vs: "map literal_value es = map Some vs" and "row_ok vs"
  shows "list_all2 conforms (temp_cols i vs) vs"
proof -
  have "list_all2 conforms (temp_cols i ws) ws" if "set ws \<subseteq> set vs" for ws
    using that
  proof (induction ws arbitrary: i)
    case (Cons v ws)
    then have "Some v \<in> set (map literal_value es)" using vs by auto
    then obtain e where "literal_value e = Some v" by auto
    moreover have "case val v of Str s \<Rightarrow> length s \<le> VARCHAR_DEFAULT_LENGTH | _ \<Rightarrow> True" using assms(2) Cons.prems by (simp add: row_ok_def)
    ultimately have "conforms (hd (temp_cols i (v # ws))) v"
      by (cases rule: literal_valueE) (auto simp: conforms_def wf_column_def readable_def wf_value_def int_value_def mk_column_rec_def)
    then show ?case using Cons by simp
  qed simp
  then show ?thesis by blast
qed

lemma reread_literal: "literal_value e = Some v \<Longrightarrow> v\<lparr>val := reread_val (val v)\<rparr> = v"
  by (erule literal_valueE) (simp_all add: int_value_def)

definition table_layout :: "Schema \<Rightarrow> bool" where
  "table_layout s \<longleftrightarrow> columns s = layout (columns s) 0 0 \<and> (\<forall>c \<in> set (columns s). wf_column c)"

lemma row_tuple:
  assumes vs: "map literal_value es = map Some vs" and ok: "row_ok vs"
    and size: "4 * length vs + var_size (temp_cols 0 vs) vs < 2 ^ 31"
    and s: "table_layout s" "map type_id vs = map column_type (columns s)"
  shows "\<exists>t. mk_Tuple vs (values_schema vs) = Inr t \<and> length (tuple_data t) = 4 * length vs + var_size (temp_cols 0 vs) vs \<and>
     (\<forall>k < length vs. GetValue_idx t s k = Inr (vs ! k))"
proof -
  note lt = literal_types [OF vs]
  note f = temp_cols_facts [OF lt, where i = 0]
  have conf: "list_all2 conforms (temp_cols 0 vs) vs" by (rule row_conforms [OF vs ok])
  have pre: "temp_cols 0 vs \<noteq> []" "inline_size (temp_cols 0 vs) < PAGE_SIZE" "tuple_size_of (temp_cols 0 vs) vs < 2 ^ 31"
    using ok f size by (auto simp: row_ok_def tuple_size_of_def)
  obtain p t where p: "mk_Schema (temp_cols 0 vs) = Inr p" "mk_Tuple vs p = Inr t" "columns p = layout (temp_cols 0 vs) 0 0"
      "length (tuple_data t) = tuple_size_of (temp_cols 0 vs) vs" "list_all2 (stored (tuple_data t)) (columns p) vs"
    using mk_Tuple_stored [OF conf pre] by blast
  have n: "4 * length vs < 2 ^ 32" using ok by (simp add: row_ok_def)
  have pv: "p = values_schema vs" using p(1) mk_Schema_values [OF lt n] by simp
  have "GetValue_idx t s k = Inr (vs ! k)" if k: "k < length vs" for k
  proof -
    have len: "length (columns s) = length vs" "length (columns p) = length vs"
      using s(2) p(3) f by (auto dest: map_eq_imp_length_eq)
    have "conforms (columns p ! k) (vs ! k)" "stored (tuple_data t) (columns p ! k) (vs ! k)"
      using layout_conforms [OF conf, of 0 0] p(3,5) k len by (auto dest: list_all2_nthD)
    then have g: "GetValue t (columns p ! k) = Inr ((vs ! k)\<lparr>val := reread_val (val (vs ! k))\<rparr>)" by (rule stored_GetValue)
    have "map storage_offset (columns p) = map storage_offset (layout (columns s) 0 0)"
      unfolding p(3) by (rule layout_offsets) (use f s in \<open>auto simp: table_layout_def\<close>)
    then have "map storage_offset (columns p) = map storage_offset (columns s)" using s(1) by (simp add: table_layout_def)
    moreover have "map column_type (columns p) = map column_type (columns s)" using p(3) f(2) s(2) by simp
    ultimately have "GetValue t (columns s ! k) = GetValue t (columns p ! k)"
      using k len by (intro GetValue_cong) (metis nth_map)+
    moreover have "literal_value (es ! k) = Some (vs ! k)" using vs k by (metis map_eq_imp_length_eq nth_map)
    ultimately show ?thesis using g reread_literal k len by (simp add: GetValue_idx_def GetColumn_def at_index_def)
  qed
  then show ?thesis using p(2,4) pv f by (auto simp: tuple_size_of_def)
qed

section \<open>Properties\<close>

text \<open>
  C19: An \<^verbatim>\<open>INSERT INTO t VALUES (...)\<close> of integer and string literals whose types are those of the
  table's columns is bound and planned: the plan inserts one row of constants into that table, the
  row makes a tuple with the schema of the plan, and reading that tuple with the schema of the
  table gives back the literals. Nothing asks whether a string fits the length its column was
  declared with: only the default length of 128 counts.
\<close>

theorem insert_row_planned:
  assumes "GetTableByName t c = Inr m" and "take 2 t \<noteq> ''__''" and "map literal_value es = map Some vs"
    and "map type_id vs = map column_type (columns (tm_schema m))" and "table_layout (tm_schema m)"
    and "row_ok vs" and "4 * length vs + var_size (temp_cols 0 vs) vs < 2 ^ 31"
  shows "\<exists>is p tup. Bind c (kStmtInsert \<lparr>hi_tableName = t, hi_values = Some es, hi_select = sel\<rparr>) sc = (Inr (INSERT_STATEMENT is), sc) \<and>
     PlanQuery c (INSERT_STATEMENT is) =
       Inr (InsertPlanNode count_schema (ValuesPlanNode p [map ConstantValueExpression vs]) (tm_table_oid m)) \<and>
     mk_Tuple vs p = Inr tup \<and> (\<forall>k < length vs. GetValue_idx tup (tm_schema m) k = Inr (vs ! k))"
proof -
  have "4 * length vs < 2 ^ 32" using assms(6) by (simp add: row_ok_def)
  from plan_insert_values [OF assms(1-4) this] row_tuple [OF assms(3,6,7,5,4)] show ?thesis by blast
qed

definition demo_short :: TableMeta where
  "demo_short = mk_TableMeta \<lparr>columns = [mk_column_rec ''a'' VARCHAR 1], uninlined_columns = [0], tuple_inline_part_storage_size = 4\<rparr> ''t'' 0"

definition demo_short_catalog :: Catalog where
  "demo_short_catalog = \<lparr>tables = [(0, Some demo_short)], indexes = [], index_names = [(''t'', [])], table_names = [(''t'', 0)]\<rparr>"

theorem insert_row_planned_witness:
  "\<exists>is p tup. Bind demo_short_catalog (kStmtInsert \<lparr>hi_tableName = ''t'',
       hi_values = Some [Expr kExprLiteralString 0 (Some ''gavin'') kOpPlus None None], hi_select = None\<rparr>) NullScope = (Inr (INSERT_STATEMENT is), NullScope) \<and>
     PlanQuery demo_short_catalog (INSERT_STATEMENT is) = Inr (InsertPlanNode count_schema
       (ValuesPlanNode p [[ConstantValueExpression \<lparr>type_id = VARCHAR, val = Str ''gavin'', is_null = False\<rparr>]]) 0) \<and>
     mk_Tuple [\<lparr>type_id = VARCHAR, val = Str ''gavin'', is_null = False\<rparr>] p = Inr tup \<and>
     GetValue_idx tup (tm_schema demo_short) 0 = Inr \<lparr>type_id = VARCHAR, val = Str ''gavin'', is_null = False\<rparr>"
  using insert_row_planned [of "''t''" demo_short_catalog demo_short "[Expr kExprLiteralString 0 (Some ''gavin'') kOpPlus None None]"
      "[\<lparr>type_id = VARCHAR, val = Str ''gavin'', is_null = False\<rparr>]" None NullScope]
  by (simp add: demo_short_catalog_def GetTableByName_def demo_short_def mk_TableMeta_def table_layout_def mk_column_rec_def
      wf_column_def row_ok_def IsInlined_def)

end
