(* ===== verification/HeapScans.thy ===== *)
theory HeapScans
  imports HeapProperties
begin

text \<open>
  Sequential scans: \<^verbatim>\<open>query/executors/seq_scan_executor.cpp\<close> on the iterator of
  \<^verbatim>\<open>storage/table/table_iterator.cpp\<close>, and the polling loop of
  \<^verbatim>\<open>query/execution_engine.hpp\<close>, which takes the executor's \<^verbatim>\<open>Next\<close> as a parameter and has
  fuel. The reference parameters of \<^verbatim>\<open>Next\<close> are passed in and handed back. Log messages are left
  out.
\<close>

definition SeqScanExecutor_Next :: "TableIterator \<Rightarrow> Tuple \<Rightarrow> RID \<Rightarrow> (heap, bool \<times> TableIterator \<times> Tuple \<times> RID) action" where
  "SeqScanExecutor_Next it tuple rid =
     (if Iterator_IsEnd it then ret (False, it, tuple, rid)
      else bind (Iterator_GetTuple it) (\<lambda>tuple_opt.
        case tuple_opt of
          None \<Rightarrow> ret (True, it, tuple, rid)
        | Some (meta, t) \<Rightarrow> bind (Iterator_next it) (\<lambda>it'. ret (True, it', t, it_rid it))))"

fun PollExecutor :: "nat \<Rightarrow> ('e \<Rightarrow> Tuple \<Rightarrow> RID \<Rightarrow> ('s, bool \<times> 'e \<times> Tuple \<times> RID) action) \<Rightarrow>
    'e \<Rightarrow> Tuple \<Rightarrow> RID \<Rightarrow> Tuple list \<Rightarrow> ('s, Tuple list) action" where
  "PollExecutor 0 Next e tuple rid result_set = throw OutOfFuel"
| "PollExecutor (Suc n) Next e tuple rid result_set =
     bind (Next e tuple rid) (\<lambda>(more, e', tuple', rid').
       if more then PollExecutor n Next e' tuple' rid' (result_set @ [tuple']) else ret result_set)"

definition default_tuple :: Tuple where
  "default_tuple = \<lparr>tuple_rid = default_rid, tuple_data = []\<rparr>"

section \<open>One step\<close>

definition rec_tuple :: "RID \<times> TupleMeta \<times> bytes \<Rightarrow> Tuple" where
  "rec_tuple r = \<lparr>tuple_rid = fst r, tuple_data = snd (snd r)\<rparr>"

text \<open>What a scan keeps: the heap, what its pages hold, and that they are in the pool.\<close>

definition undisturbed :: "int list \<Rightarrow> heap \<Rightarrow> heap \<Rightarrow> bool" where
  "undisturbed ps h h' \<longleftrightarrow> heap_inv ps h' \<and> snd h' = snd h \<and> page_table (fst h') = page_table (fst h) \<and>
     (\<forall>q \<in> set ps. view h' q = view h q)"

lemma undisturbed_trans: "undisturbed ps h h1 \<Longrightarrow> undisturbed ps h1 h2 \<Longrightarrow> undisturbed ps h h2"
  by (simp add: undisturbed_def)

definition cached :: "int list \<Rightarrow> heap \<Rightarrow> bool" where
  "cached ps h \<longleftrightarrow> (\<forall>p \<in> set ps. page_table (fst h) (mk_page_id (tm_table_oid (snd h)) p) \<noteq> None)"

lemma cached_fetch:
  assumes "heap_inv ps (s, m)" and "cached ps' (s, m)" and "p \<in> set ps'"
  obtains f s1 where "FetchPage (mk_page_id (tm_table_oid m) p) s = (Inr f, s1)" and "page_table s1 = page_table s"
proof -
  have bi: "bp_inv s" using heap_invD(1) [OF assms(1)] by (simp add: gp_inv_def)
  obtain f where f: "page_table s (mk_page_id (tm_table_oid m) p) = Some f" using assms(2,3) by (auto simp: cached_def)
  show ?thesis by (rule that [OF FetchPage_hit [OF bi f]]) (simp add: touch_def)
qed

lemma heap_read_cached:
  assumes inv: "heap_inv ps (s, m)" and c: "cached ps' (s, m)" "p \<in> set ps'" "set ps' \<subseteq> set ps"
  obtains s' where "in_pool (read_scope (mk_page_id (tm_table_oid m) p) body) (s, m) = (body (view (s, m) p), (s', m))"
    and "undisturbed ps (s, m) (s', m)"
proof -
  obtain f s1 where f: "FetchPage (mk_page_id (tm_table_oid m) p) s = (Inr f, s1)" "page_table s1 = page_table s"
    using cached_fetch [OF inv c(1,2)] .
  have p: "p \<in> set ps" using c(2,3) by blast
  show ?thesis
    by (rule heap_read [OF inv p f(1), where body = body]) (use that f(2) in \<open>simp add: undisturbed_def\<close>)
qed

text \<open>Where the iterator goes from slot \<open>i\<close> of page \<open>p\<close>.\<close>

definition after_slot :: "int list \<Rightarrow> heap \<Rightarrow> int \<Rightarrow> nat \<Rightarrow> RID" where
  "after_slot ps h p i =
     (let oid = tm_table_oid (snd h) in
      if Suc i < GetNumTuples (view h p) then mk_rid (mk_page_id oid p) (Suc i)
      else if p = last ps then mk_rid (mk_page_id oid INVALID_PAGE_ID) 0
      else mk_rid (mk_page_id oid (GetNextPageId (view h p))) 0)"

definition stop_rid :: "int list \<Rightarrow> heap \<Rightarrow> RID" where
  "stop_rid ps h = mk_rid (mk_page_id (tm_table_oid (snd h)) (last ps)) (GetNumTuples (view h (last ps)))"

lemma undisturbed_after:
  assumes "undisturbed ps h h'" and "ps \<noteq> []"
  shows "p \<in> set ps \<Longrightarrow> after_slot ps h' p i = after_slot ps h p i" and "stop_rid ps h' = stop_rid ps h"
  using assms by (simp_all add: undisturbed_def after_slot_def stop_rid_def Let_def)

lemma sorted_le_last: "sorted_wrt (<) ps \<Longrightarrow> p \<in> set ps \<Longrightarrow> p \<noteq> last ps \<Longrightarrow> p < (last ps :: int)"
  by (induction ps) (auto split: if_splits)

lemma next_rid_run:
  assumes inv: "heap_inv ps (s, m)" and p: "p \<in> set ps" "i < GetNumTuples (view (s, m) p)"
  defines "oid \<equiv> tm_table_oid m"
  shows "next_rid oid (mk_rid (mk_page_id oid p) i) (stop_rid ps (s, m)) (view (s, m) p) = Inr (after_slot ps (s, m) p i)"
proof -
  note d = heap_coreD [OF heap_invD(2) [OF inv]]
  have ne: "last ps \<in> set ps" using p(1) by (cases ps) auto
  have "GetNumTuples (view (s, m) p) \<le> 681" using tp_inv_bounds(2) [OF d(6) [OF p(1)]] by simp
  then have si: "(i + 1) mod 2 ^ 32 = Suc i" using p(2) by simp
  have l: "last ps \<noteq> - 1" using d(5) [OF ne] by auto
  have lt: "p \<noteq> last ps \<Longrightarrow> p < last ps" using sorted_le_last [OF d(3) p(1)] .
  show ?thesis
    using p(2) l lt si by (cases "p = last ps") (auto simp: next_rid_def after_slot_def stop_rid_def oid_def Let_def)
qed

lemma scan_step:
  assumes inv: "heap_inv ps (s, m)" and c: "cached ps' (s, m)" "p \<in> set ps'" "set ps' \<subseteq> set ps"
    and i: "i < GetNumTuples (view (s, m) p)"
  defines "oid \<equiv> tm_table_oid m"
  defines "rid \<equiv> mk_rid (mk_page_id oid p) i"
  obtains h' where "SeqScanExecutor_Next \<lparr>it_rid = rid, it_stop_at_rid = stop_rid ps (s, m)\<rparr> t r (s, m) =
       (Inr (True, \<lparr>it_rid = after_slot ps (s, m) p i, it_stop_at_rid = stop_rid ps (s, m)\<rparr>,
         rec_tuple (rid, tp_tuples (view (s, m) p) ! i), rid), h')"
    and "undisturbed ps (s, m) h'"
proof -
  have p: "p \<in> set ps" using c by blast
  note d = heap_coreD [OF heap_invD(2) [OF inv]]
  obtain f s1 where f: "FetchPage (mk_page_id oid p) s = (Inr f, s1)" "page_table s1 = page_table s"
    unfolding oid_def using cached_fetch [OF inv c(1,2)] .
  obtain s2 where g: "TableHeap_GetTuple rid (s, m) = (Inr (Some (map_prod id (Tuple.make rid) (tp_tuples (view (s, m) p) ! i))), (s2, m))"
      and "heap_inv ps (s2, m)" and "\<forall>q \<in> set ps. view (s2, m) q = view (s, m) q" and "page_table s2 = page_table s1"
    using GetTuple_run [OF inv p i, folded oid_def, OF f(1), folded rid_def] by metis
  then have u: "undisturbed ps (s, m) (s2, m)" "heap_inv ps (s2, m)" "cached ps' (s2, m)" "view (s2, m) p = view (s, m) p"
    using f(2) c(1) p by (simp_all add: undisturbed_def cached_def)
  have ne: "ps \<noteq> []" using p by auto
  obtain s3 where n: "in_pool (read_scope (mk_page_id oid p) (next_rid oid rid (stop_rid ps (s, m)))) (s2, m) =
       (next_rid oid rid (stop_rid ps (s, m)) (view (s2, m) p), (s3, m))" "undisturbed ps (s2, m) (s3, m)"
    unfolding oid_def using heap_read_cached [OF u(2,3) c(2,3)] .
  have "next_rid oid rid (stop_rid ps (s, m)) (view (s2, m) p) = Inr (after_slot ps (s, m) p i)"
    using next_rid_run [OF inv p i] u(4) by (simp add: rid_def oid_def)
  then have nx: "Iterator_next \<lparr>it_rid = rid, it_stop_at_rid = stop_rid ps (s, m)\<rparr> (s2, m) =
      (Inr \<lparr>it_rid = after_slot ps (s, m) p i, it_stop_at_rid = stop_rid ps (s, m)\<rparr>, (s3, m))"
    using n(1) by (simp add: Iterator_next_def act_simps rid_def oid_def)
  have "\<not> Iterator_IsEnd \<lparr>it_rid = rid, it_stop_at_rid = stop_rid ps (s, m)\<rparr>"
    using d(5) [OF p] by (auto simp: Iterator_IsEnd_def rid_def)
  then show ?thesis
    using that [OF _ undisturbed_trans [OF u(1) n(2)]] g nx
    by (cases "tp_tuples (view (s, m) p) ! i")
       (simp add: SeqScanExecutor_Next_def Iterator_GetTuple_def act_simps rec_tuple_def Tuple.make_def)
qed

section \<open>Pages\<close>

abbreviation scan_at :: "int list \<Rightarrow> heap \<Rightarrow> RID \<Rightarrow> TableIterator" where
  "scan_at ps h rid \<equiv> \<lparr>it_rid = rid, it_stop_at_rid = stop_rid ps h\<rparr>"

definition page_tuples :: "heap \<Rightarrow> int \<Rightarrow> nat \<Rightarrow> Tuple list" where
  "page_tuples h p i = map rec_tuple (drop i (page_records (tm_table_oid (snd h)) p (view h p)))"

lemma page_tuples_step:
  assumes "i < GetNumTuples (view h p)"
  shows "page_tuples h p i = rec_tuple (mk_rid (mk_page_id (tm_table_oid (snd h)) p) i, tp_tuples (view h p) ! i) # page_tuples h p (Suc i)"
proof -
  have "length (page_records oid p page) = GetNumTuples page" for oid page by (simp add: page_records_def)
  moreover have "page_records oid p page ! i = (mk_rid (mk_page_id oid p) i, tp_tuples page ! i)" if "i < GetNumTuples page" for oid page
    using that by (simp add: page_records_def)
  ultimately show ?thesis using assms by (simp add: page_tuples_def Cons_nth_drop_Suc [symmetric])
qed

lemma page_tuples_end: "page_tuples h p (GetNumTuples (view h p)) = []"
  by (simp add: page_tuples_def page_records_def)

text \<open>Reading a page from slot \<open>i\<close> on takes one round per slot.\<close>

lemma scan_page:
  assumes "heap_inv ps h" and "cached ps' h" and "p \<in> set ps'" and "set ps' \<subseteq> set ps"
    and "i < GetNumTuples (view h p)"
  shows "\<exists>h' t' r'. undisturbed ps h h' \<and>
     PollExecutor (GetNumTuples (view h p) - i + n) SeqScanExecutor_Next
       (scan_at ps h (mk_rid (mk_page_id (tm_table_oid (snd h)) p) i)) t r rs h =
     PollExecutor n SeqScanExecutor_Next (scan_at ps h (after_slot ps h p (GetNumTuples (view h p) - 1))) t' r'
       (rs @ page_tuples h p i) h'"
  using assms
proof (induction "GetNumTuples (view h p) - i" arbitrary: i h t r rs)
  case (Suc k)
  obtain s m where h: "h = (s, m)" by fastforce
  have ps: "ps \<noteq> []" "p \<in> set ps" using Suc.prems(3,4) by auto
  let ?rid = "mk_rid (mk_page_id (tm_table_oid (snd h)) p) i" and ?x = "tp_tuples (view h p) ! i"
  obtain h1 where st: "SeqScanExecutor_Next (scan_at ps h ?rid) t r h =
       (Inr (True, scan_at ps h (after_slot ps h p i), rec_tuple (?rid, ?x), ?rid), h1)" "undisturbed ps h h1"
    using scan_step [of ps s m ps' p i t r] Suc.prems unfolding h by (metis snd_conv)
  have fuel: "GetNumTuples (view h p) - i + n = Suc (GetNumTuples (view h p) - Suc i + n)" using Suc.hyps(2) by simp
  have run: "PollExecutor (GetNumTuples (view h p) - i + n) SeqScanExecutor_Next (scan_at ps h ?rid) t r rs h =
      PollExecutor (GetNumTuples (view h p) - Suc i + n) SeqScanExecutor_Next (scan_at ps h (after_slot ps h p i))
        (rec_tuple (?rid, ?x)) ?rid (rs @ [rec_tuple (?rid, ?x)]) h1"
    unfolding fuel using st(1) by (simp add: act_simps)
  note pt = page_tuples_step [OF Suc.prems(5)]
  show ?case
  proof (cases "Suc i < GetNumTuples (view h p)")
    case False
    then have e: "Suc i = GetNumTuples (view h p)" using Suc.prems(5) by simp
    then have "page_tuples h p (Suc i) = []" using page_tuples_end by metis
    moreover have "i = GetNumTuples (view h p) - 1" using e by simp
    ultimately show ?thesis using run st(2) pt e by (intro exI [of _ h1] exI) auto
  next
    case True
    have same: "view h1 p = view h p" "snd h1 = snd h" "heap_inv ps h1" "cached ps' h1"
      using st(2) ps Suc.prems(2) by (simp_all add: undisturbed_def cached_def)
    note af = undisturbed_after [OF st(2) ps(1)]
    have nx: "after_slot ps h p i = mk_rid (mk_page_id (tm_table_oid (snd h)) p) (Suc i)" using True by (simp add: after_slot_def)
    have "k = GetNumTuples (view h1 p) - Suc i" using Suc.hyps(2) same(1) by simp
    from Suc.hyps(1) [OF this same(3,4) Suc.prems(3,4)] True same(1)
    obtain h' t' r' where "undisturbed ps h1 h'"
      "PollExecutor (GetNumTuples (view h1 p) - Suc i + n) SeqScanExecutor_Next
         (scan_at ps h1 (mk_rid (mk_page_id (tm_table_oid (snd h1)) p) (Suc i))) (rec_tuple (?rid, ?x)) ?rid (rs @ [rec_tuple (?rid, ?x)]) h1 =
       PollExecutor n SeqScanExecutor_Next (scan_at ps h1 (after_slot ps h1 p (GetNumTuples (view h1 p) - 1))) t' r'
         ((rs @ [rec_tuple (?rid, ?x)]) @ page_tuples h1 p (Suc i)) h'" by metis
    moreover have "page_tuples h1 p (Suc i) = page_tuples h p (Suc i)" by (simp add: page_tuples_def same)
    ultimately show ?thesis
      using undisturbed_trans [OF st(2)] run af(1) [OF ps(2)] by (intro exI [of _ h'] exI) (simp add: pt nx same af)
  qed
qed simp

lemma linked_append_Cons: "linked v (as @ p # q # bs) \<Longrightarrow> GetNextPageId (v p) = q"
  by (induction as rule: induct_list012) auto

text \<open>Reading an empty page: the first slot is out of range.\<close>

abbreviation empty_page :: error where
  "empty_page \<equiv> Exception ''Tuple ID out of range, 0 >= 0''"

lemma dec_zero: "dec_nat 0 = ''0''"
  by code_simp

lemma scan_empty_page:
  assumes inv: "heap_inv ps h" and c: "cached ps' h" "p \<in> set ps'" "set ps' \<subseteq> set ps" and e: "GetNumTuples (view h p) = 0"
  shows "\<exists>h'. undisturbed ps h h' \<and>
     PollExecutor (Suc n) SeqScanExecutor_Next (scan_at ps h (mk_rid (mk_page_id (tm_table_oid (snd h)) p) 0)) t r rs h = (Inl empty_page, h')"
proof -
  obtain s m where h: "h = (s, m)" by fastforce
  let ?rid = "mk_rid (mk_page_id (tm_table_oid m) p) 0"
  define body where "body = (\<lambda>page. rbind (TablePage_GetTuple page ?rid) (\<lambda>(meta, t). Inr (Some (meta, t\<lparr>tuple_rid := ?rid\<rparr>))))"
  obtain s' where r: "in_pool (read_scope (mk_page_id (tm_table_oid m) p) body) (s, m) = (body (view (s, m) p), (s', m))" "undisturbed ps (s, m) (s', m)"
    by (rule heap_read_cached [OF inv [unfolded h] c(1) [unfolded h] c(2,3)])
  have "body (view (s, m) p) = Inl empty_page" using e h by (simp add: body_def TablePage_GetTuple_def dec_zero)
  then have g: "TableHeap_GetTuple ?rid (s, m) = (Inl empty_page, (s', m))"
    using r(1) by (simp add: TableHeap_GetTuple_def body_def)
  have "0 \<le> p" using heap_coreD(5) [OF heap_invD(2) [OF inv [unfolded h]]] c(2,3) by blast
  then show ?thesis using g r(2) h
    by (intro exI [of _ "(s', m)"]) (simp add: SeqScanExecutor_Next_def Iterator_IsEnd_def Iterator_GetTuple_def bind_def)
qed

lemma scan_pages:
  assumes "heap_inv ps h" and "cached (p # qs) h" and "ps = as @ p # qs"
  shows "\<exists>h'. undisturbed ps h h' \<and>
     PollExecutor (Suc (length (heap_tuples (p # qs) h) + n)) SeqScanExecutor_Next
       (scan_at ps h (mk_rid (mk_page_id (tm_table_oid (snd h)) p) 0)) t r rs h =
     (if \<forall>q \<in> set (p # qs). GetNumTuples (view h q) \<noteq> 0 then Inr (rs @ map rec_tuple (heap_tuples (p # qs) h)) else Inl empty_page, h')"
  using assms
proof (induction qs arbitrary: as p h t r rs)
  case (Cons q qs)
  obtain s m where h: "h = (s, m)" by fastforce
  note d = heap_coreD [OF heap_invD(2) [OF Cons.prems(1) [unfolded h]], folded h]
  have sub: "set (p # q # qs) \<subseteq> set ps" "p \<in> set (p # q # qs)" "ps \<noteq> []" using Cons.prems(3) by auto
  let ?n = "GetNumTuples (view h p)" and ?ok = "\<lambda>h ps. \<forall>q \<in> set ps. GetNumTuples (view h q) \<noteq> 0"
  show ?case
  proof (cases "?n = 0")
    case True
    then show ?thesis using scan_empty_page [OF Cons.prems(1,2) sub(2,1)] by auto
  next
    case False
    then have pos: "0 < ?n" by simp
    have nl: "p \<noteq> last ps" using d(13) Cons.prems(3) by auto
    have nx: "GetNextPageId (view h p) = q" using linked_append_Cons d(2) Cons.prems(3) by blast
    have len: "length (heap_tuples (p # q # qs) h) = ?n + length (heap_tuples (q # qs) h)"
      by (simp add: heap_tuples_def page_records_def)
    obtain h1 t1 r1 where u: "undisturbed ps h h1" and run: "PollExecutor (?n - 0 + Suc (length (heap_tuples (q # qs) h) + n)) SeqScanExecutor_Next
         (scan_at ps h (mk_rid (mk_page_id (tm_table_oid (snd h)) p) 0)) t r rs h =
       PollExecutor (Suc (length (heap_tuples (q # qs) h) + n)) SeqScanExecutor_Next (scan_at ps h (after_slot ps h p (?n - 1))) t1 r1
         (rs @ page_tuples h p 0) h1"
      using scan_page [OF Cons.prems(1,2) sub(2,1) pos] by blast
    have same: "snd h1 = snd h" "heap_inv ps h1" "cached (q # qs) h1" "view h1 x = view h x" if "x \<in> set ps" for x
      using u that Cons.prems(2) by (simp_all add: undisturbed_def cached_def)
    have q: "q \<in> set ps" using sub(1) by simp
    have ht: "heap_tuples (q # qs) h1 = heap_tuples (q # qs) h"
      using same(1) [OF q] same(4) sub(1) by (auto simp: heap_tuples_def subset_iff intro!: arg_cong [where f = concat])
    have ok: "?ok h1 (q # qs) = ?ok h (q # qs)" using same(4) sub(1) by (auto simp: subset_iff)
    from Cons.IH [OF same(2,3) [OF q], of "as @ [p]" t1 r1 "rs @ page_tuples h p 0"] Cons.prems(3)
    obtain h2 where "undisturbed ps h1 h2" "PollExecutor (Suc (length (heap_tuples (q # qs) h) + n)) SeqScanExecutor_Next
         (scan_at ps h1 (mk_rid (mk_page_id (tm_table_oid (snd h)) q) 0)) t1 r1 (rs @ page_tuples h p 0) h1 =
       (if ?ok h (q # qs) then Inr ((rs @ page_tuples h p 0) @ map rec_tuple (heap_tuples (q # qs) h)) else Inl empty_page, h2)"
      unfolding ok ht same(1) [OF q] by auto
    moreover have "after_slot ps h p (?n - 1) = mk_rid (mk_page_id (tm_table_oid (snd h)) q) 0"
      using pos nl nx by (simp add: after_slot_def)
    moreover have "page_tuples h p 0 @ map rec_tuple (heap_tuples (q # qs) h) = map rec_tuple (heap_tuples (p # q # qs) h)"
      by (simp add: page_tuples_def heap_tuples_def)
    moreover have "?ok h (p # q # qs) = ?ok h (q # qs)" using pos by simp
    ultimately show ?thesis
      using run undisturbed_trans [OF u] undisturbed_after(2) [OF u sub(3)] len by (intro exI [of _ h2]) (simp add: add.assoc)
  qed
next
  case Nil
  have sub: "set [p] \<subseteq> set ps" "p \<in> set [p]" using Nil.prems(3) by auto
  let ?n = "GetNumTuples (view h p)"
  show ?case
  proof (cases "?n = 0")
    case True
    then show ?thesis using scan_empty_page [OF Nil.prems(1,2) sub(2,1)] by auto
  next
    case False
    then have pos: "0 < ?n" by simp
    have l: "p = last ps" using Nil.prems(3) by simp
    have len: "length (heap_tuples [p] h) = ?n" by (simp add: heap_tuples_def page_records_def)
    obtain h1 t1 r1 where u: "undisturbed ps h h1" and run: "PollExecutor (?n - 0 + Suc n) SeqScanExecutor_Next
         (scan_at ps h (mk_rid (mk_page_id (tm_table_oid (snd h)) p) 0)) t r rs h =
       PollExecutor (Suc n) SeqScanExecutor_Next (scan_at ps h (after_slot ps h p (?n - 1))) t1 r1 (rs @ page_tuples h p 0) h1"
      using scan_page [OF Nil.prems(1,2) sub(2,1) pos] by blast
    moreover have "after_slot ps h p (?n - 1) = mk_rid (mk_page_id (tm_table_oid (snd h)) INVALID_PAGE_ID) 0"
      using pos l by (simp add: after_slot_def)
    moreover have "PollExecutor (Suc n) SeqScanExecutor_Next (scan_at ps h (mk_rid (mk_page_id (tm_table_oid (snd h)) INVALID_PAGE_ID) 0)) t1 r1
        (rs @ page_tuples h p 0) h1 = (Inr (rs @ page_tuples h p 0), h1)"
      by (simp add: SeqScanExecutor_Next_def Iterator_IsEnd_def act_simps)
    moreover have "page_tuples h p 0 = map rec_tuple (heap_tuples [p] h)" by (simp add: page_tuples_def heap_tuples_def)
    ultimately show ?thesis
      unfolding len using u pos by (intro exI [of _ h1]) (simp del: PollExecutor.simps)
  qed
qed

section \<open>Whole scans\<close>

lemma scan_heap:
  assumes "heap_inv (as @ 1 # qs) (s, m)" and "cached (1 # qs) (s, m)"
    and "length (heap_tuples (1 # qs) (s, m)) < n"
  shows "\<exists>h'. bind MakeIterator (\<lambda>it. PollExecutor n SeqScanExecutor_Next it default_tuple default_rid []) (s, m) =
       (if \<forall>q \<in> set (1 # qs). GetNumTuples (view (s, m) q) \<noteq> 0 then Inr (map rec_tuple (heap_tuples (1 # qs) (s, m)))
        else Inl (Exception ''Tuple ID out of range, 0 >= 0''), h') \<and>
     heap_inv (as @ 1 # qs) h' \<and> heap_tuples (as @ 1 # qs) h' = heap_tuples (as @ 1 # qs) (s, m)"
proof -
  let ?ps = "as @ 1 # qs" and ?oid = "tm_table_oid m"
  note d = heap_coreD [OF heap_invD(2) [OF assms(1)]]
  have last: "last ?ps = last_table_heap_data_page_id m" "last ?ps \<in> set (1 # qs)" using d(4) last_in_set [of "1 # qs"] by simp_all
  obtain s1 where mk: "in_pool (read_scope (mk_page_id ?oid (last ?ps)) (\<lambda>page. Inr (GetNumTuples page))) (s, m) =
      (Inr (GetNumTuples (view (s, m) (last ?ps))), (s1, m))" and u: "undisturbed ?ps (s, m) (s1, m)"
    using heap_read_cached [OF assms(1,2) last(2)] by auto
  have it: "MakeIterator (s, m) = (Inr (scan_at ?ps (s, m) (mk_rid (mk_page_id ?oid 1) 0)), (s1, m))"
    using mk last(1) by (simp add: MakeIterator_def act_simps stop_rid_def)
  have v: "view (s1, m) q = view (s, m) q" if "q \<in> set ?ps" for q using u that by (auto simp: undisturbed_def)
  have c1: "heap_inv ?ps (s1, m)" "cached (1 # qs) (s1, m)" using u assms(2) by (simp_all add: undisturbed_def cached_def)
  let ?ok = "\<lambda>s. \<forall>q \<in> set (1 # qs). GetNumTuples (view (s, m) q) \<noteq> 0"
  have ok: "?ok s1 = ?ok s" using v by simp
  have ht: "heap_tuples ps (s1, m) = heap_tuples ps (s, m)" if "set ps \<subseteq> set ?ps" for ps
    by (rule heap_tuples_cong) (use v that in auto)
  have ht1: "heap_tuples (1 # qs) (s1, m) = heap_tuples (1 # qs) (s, m)" by (rule ht) auto
  obtain k where n: "n = Suc (length (heap_tuples (1 # qs) (s, m)) + k)" using assms(3) less_imp_Suc_add by blast
  obtain h' where "undisturbed ?ps (s1, m) h'" "PollExecutor n SeqScanExecutor_Next
       (scan_at ?ps (s1, m) (mk_rid (mk_page_id ?oid 1) 0)) default_tuple default_rid [] (s1, m) =
     (if ?ok s then Inr (map rec_tuple (heap_tuples (1 # qs) (s, m))) else Inl empty_page, h')"
    using scan_pages [OF c1 refl, of k default_tuple default_rid "[]"] unfolding n ht1 ok by auto
  moreover have "heap_tuples ?ps h' = heap_tuples ?ps (s1, m)"
    using \<open>undisturbed ?ps (s1, m) h'\<close> by (cases h') (auto simp: undisturbed_def intro!: heap_tuples_cong)
  moreover note ht [of ?ps]
  ultimately show ?thesis
    using it undisturbed_after(2) [OF u] by (intro exI [of _ h']) (simp add: act_simps undisturbed_def)
qed

text \<open>
  C6: A sequential scan reads the heap from page 1. On a heap whose pages from page 1 on are in the pool, the
  polling loop ends and leaves the heap as it was. If none of these pages is empty, it returns, in order, the tuple of
  every record from page 1 to the last page, deleted ones included.
  When page 1 is the first page of the heap those are all its records; the records of pages
  before page 1 are not among them. If one of the pages is empty, as page 1 of a new heap is, the scan throws.
\<close>

theorem heap_scan:
  assumes "heap_inv (as @ 1 # qs) (s, m)" and "cached (1 # qs) (s, m)"
    and "length (heap_tuples (1 # qs) (s, m)) < n"
  shows "\<exists>h'. bind MakeIterator (\<lambda>it. PollExecutor n SeqScanExecutor_Next it default_tuple default_rid []) (s, m) =
       (if \<forall>q \<in> set (1 # qs). GetNumTuples (view (s, m) q) \<noteq> 0 then Inr (map rec_tuple (heap_tuples (1 # qs) (s, m)))
        else Inl (Exception ''Tuple ID out of range, 0 >= 0''), h') \<and>
     heap_inv (as @ 1 # qs) h' \<and> heap_tuples (as @ 1 # qs) h' = heap_tuples (as @ 1 # qs) (s, m)"
  by (rule scan_heap [OF assms])

theorem heap_scan_witness:
  "(\<exists>rid h. bind mk_TableHeap (\<lambda>_. bind (TableHeap_InsertTuple \<lparr>is_deleted = False\<rparr> demo_tuple) (\<lambda>_.
       bind MakeIterator (\<lambda>it. PollExecutor 2 SeqScanExecutor_Next it default_tuple default_rid []))) (demo_pool 2, demo_meta 0) =
     (Inr [\<lparr>tuple_rid = rid, tuple_data = [1, 2, 3, 4]\<rparr>], h)) \<and>
   (\<exists>h. bind mk_TableHeap (\<lambda>_. bind MakeIterator (\<lambda>it. PollExecutor 2 SeqScanExecutor_Next it default_tuple default_rid [])) (demo_pool 2, demo_meta 0) =
     (Inl (Exception ''Tuple ID out of range, 0 >= 0''), h))"
proof
  obtain rid s m where i: "bind mk_TableHeap (\<lambda>_. TableHeap_InsertTuple \<lparr>is_deleted = False\<rparr> demo_tuple) (demo_pool 2, demo_meta 0) = (Inr (Some rid), (s, m))"
      "heap_inv [1] (s, m)" "heap_tuples [1] (s, m) = [(rid, \<lparr>is_deleted = False\<rparr>, [1, 2, 3, 4])]" "page_table s (rid_page_id rid) \<noteq> None"
    using demo_insert [of 0, unfolded add_0, OF insertI2 [OF insertI1]] by metis
  have "rid_page_id rid = mk_page_id (tm_table_oid m) 1" and n: "GetNumTuples (view (s, m) 1) \<noteq> 0"
    using heap_tuples_iff [of rid "\<lparr>is_deleted = False\<rparr>" "[1, 2, 3, 4]" "[1]" "(s, m)"] by (auto simp: i(3))
  then have "cached [1] (s, m)" using i(4) by (simp add: cached_def)
  from heap_scan [of "[]" "[]", simplified append_Nil, OF i(2) this, of 2] n
  obtain h where "bind MakeIterator (\<lambda>it. PollExecutor 2 SeqScanExecutor_Next it default_tuple default_rid []) (s, m) =
      (Inr [\<lparr>tuple_rid = rid, tuple_data = [1, 2, 3, 4]\<rparr>], h)" by (auto simp: i(3) rec_tuple_def)
  then show "\<exists>rid h. bind mk_TableHeap (\<lambda>_. bind (TableHeap_InsertTuple \<lparr>is_deleted = False\<rparr> demo_tuple) (\<lambda>_.
       bind MakeIterator (\<lambda>it. PollExecutor 2 SeqScanExecutor_Next it default_tuple default_rid []))) (demo_pool 2, demo_meta 0) =
     (Inr [\<lparr>tuple_rid = rid, tuple_data = [1, 2, 3, 4]\<rparr>], h)" using i(1) by (auto simp: bind_def split: prod.splits sum.splits)
next
  obtain s m where e: "mk_TableHeap (demo_pool 2, demo_meta 0) = (Inr (), (s, m))" "heap_inv [1] (s, m)" "heap_tuples [1] (s, m) = []"
      "tm_table_oid m = 0" "page_table s (mk_page_id 0 1) \<noteq> None"
    by (rule demo_heap [of 0, unfolded add_0, OF insertI2 [OF insertI1]])
  have "GetNumTuples (view (s, m) 1) = 0" using e(3) by (simp add: heap_tuples_def page_records_def)
  moreover have "cached [1] (s, m)" using e(4,5) by (simp add: cached_def)
  from heap_scan [of "[]" "[]", simplified append_Nil, OF e(2) this, of 2]
  obtain h where "bind MakeIterator (\<lambda>it. PollExecutor 2 SeqScanExecutor_Next it default_tuple default_rid []) (s, m) =
      (if \<forall>q \<in> set [1]. GetNumTuples (view (s, m) q) \<noteq> 0 then Inr (map rec_tuple (heap_tuples [1] (s, m))) else Inl (Exception ''Tuple ID out of range, 0 >= 0''), h)"
    unfolding e(3) by auto
  ultimately show "\<exists>h. bind mk_TableHeap (\<lambda>_. bind MakeIterator (\<lambda>it. PollExecutor 2 SeqScanExecutor_Next it default_tuple default_rid [])) (demo_pool 2, demo_meta 0) =
     (Inl (Exception ''Tuple ID out of range, 0 >= 0''), h)" unfolding bind_Inr [where m = mk_TableHeap, OF e(1)] by auto
qed

end
