(* ===== verification/Executors.thy ===== *)
theory Executors
  imports Queries HeapScans Indexes
begin

text \<open>
  Execution: \<^verbatim>\<open>query/executor_context.hpp\<close>, \<^verbatim>\<open>query/executors/\<close>, \<^verbatim>\<open>query/executor_factory.cpp\<close> and
  \<^verbatim>\<open>query/execution_engine.hpp\<close>.

  The context of the executors is the state they run on, the pool and the catalog. An executor is a
  value that \<^verbatim>\<open>Next\<close> returns updated; its output parameters are passed in and out, since they keep
  their old value where the code does not assign them. A \<^verbatim>\<open>TableHeap\<close> is the key of its table's
  metadata in the catalog. \<open>Next\<close> has fuel for the depth of the executor tree and \<open>insert_rows\<close> for
  the rows of the child.
\<close>

section \<open>Tables by id\<close>

text \<open>\<^verbatim>\<open>Catalog::GetTable\<close> as a reference: through the name to the key of the metadata.\<close>

definition table_ref :: "int \<Rightarrow> (database, int) action" where
  "table_ref table_oid =
     bind (gets snd) (\<lambda>c.
     bind (lift (GetTable table_oid c)) (\<lambda>_.
     bind (lift (GetTableName table_oid c)) (\<lambda>name.
     case map_of (table_names c) name of
       None \<Rightarrow> throw (Exception ''Table not found when getting table info'')
     | Some key \<Rightarrow> ret key)))"

section \<open>Executors\<close>

datatype Executor =
    SeqScanExecutor Schema int TableIterator
  | ValuesExecutor Schema "AbstractExpression list list" nat
  | InsertExecutor Schema int Executor bool

fun GetOutputSchema :: "Executor \<Rightarrow> Schema" where
  "GetOutputSchema (SeqScanExecutor s _ _) = s"
| "GetOutputSchema (ValuesExecutor s _ _) = s"
| "GetOutputSchema (InsertExecutor s _ _ _) = s"

definition mk_SeqScanExecutor :: "Schema \<Rightarrow> int \<Rightarrow> (database, Executor) action" where
  "mk_SeqScanExecutor schema table_oid =
     bind (table_ref table_oid) (\<lambda>key.
     bind (on_table key mk_TableHeap) (\<lambda>_.
     bind (on_table key MakeIterator) (\<lambda>iter.
     ret (SeqScanExecutor schema key iter))))"

fun CreateExecutor :: "Plan \<Rightarrow> (database, Executor) action" where
  "CreateExecutor (InsertPlanNode schema child oid) =
     bind (CreateExecutor child) (\<lambda>child_executor.
     ret (InsertExecutor schema oid child_executor False))"
| "CreateExecutor (ValuesPlanNode schema values) = ret (ValuesExecutor schema values 0)"
| "CreateExecutor (SeqScanPlanNode schema oid _ _) = mk_SeqScanExecutor schema oid"
| "CreateExecutor (ProjectionPlanNode _ _ _) = throw (NotImplementedException ''Plan not supported Projection'')"

type_synonym 'e stepper = "'e \<Rightarrow> Tuple \<Rightarrow> RID \<Rightarrow> (database, bool \<times> 'e \<times> Tuple \<times> RID) action"

fun const_values :: "AbstractExpression list \<Rightarrow> Value list result" where
  "const_values [] = Inr []"
| "const_values (e # es) = rbind (GetConstValue e) (\<lambda>v. rbind (const_values es) (\<lambda>vs. Inr (v # vs)))"

definition ValuesExecutor_Next :: "Schema \<Rightarrow> AbstractExpression list list \<Rightarrow> nat \<Rightarrow> Tuple \<Rightarrow> RID \<Rightarrow> (database, bool \<times> Executor \<times> Tuple \<times> RID) action" where
  "ValuesExecutor_Next schema values cursor tuple rid =
     (if cursor \<ge> length values then ret (False, ValuesExecutor schema values cursor, tuple, rid)
      else bind (lift (const_values (values ! cursor))) (\<lambda>vs.
           bind (lift (mk_Tuple vs schema)) (\<lambda>t.
           ret (True, ValuesExecutor schema values (cursor + 1), t, rid))))"

fun insert_rows :: "nat \<Rightarrow> Executor stepper \<Rightarrow> int \<Rightarrow> Executor \<Rightarrow> Tuple \<Rightarrow> RID \<Rightarrow> RID \<Rightarrow> 32 word \<Rightarrow> (database, Executor \<times> RID \<times> 32 word) action" where
  "insert_rows 0 next key child t r rid changed_row_count = throw OutOfFuel"
| "insert_rows (Suc n) next key child t r rid changed_row_count =
     bind (next child t r) (\<lambda>(more, child, t, r).
     if \<not> more then ret (child, rid, changed_row_count)
     else bind (on_table key (TableHeap_InsertTuple \<lparr>is_deleted = False\<rparr> t)) (\<lambda>return_rid.
       case return_rid of
         None \<Rightarrow> throw (StdRuntimeError ''Failed to insert tuple'')
       | Some rid \<Rightarrow>
           bind (on_table key (in_meta (modify IncreaseTupleCount))) (\<lambda>_.
           insert_rows n next key child t r rid (changed_row_count + 1))))"

definition InsertExecutor_Next :: "nat \<Rightarrow> Executor stepper \<Rightarrow> Schema \<Rightarrow> int \<Rightarrow> Executor \<Rightarrow> bool \<Rightarrow> Tuple \<Rightarrow> RID \<Rightarrow> (database, bool \<times> Executor \<times> Tuple \<times> RID) action" where
  "InsertExecutor_Next rows next schema oid child executed tuple rid =
     (if executed then ret (False, InsertExecutor schema oid child executed, tuple, rid)
      else
        bind (table_ref oid) (\<lambda>key.
        bind (on_table key mk_TableHeap) (\<lambda>_.
        bind (insert_rows rows next key child \<lparr>tuple_rid = default_rid, tuple_data = []\<rparr> default_rid rid 0) (\<lambda>(child, rid, changed_row_count).
        bind (lift (mk_Value INTEGER (A_int32 changed_row_count))) (\<lambda>v.
        bind (lift (mk_Tuple [v] schema)) (\<lambda>t.
        ret (True, InsertExecutor schema oid child True, t, rid)))))))"

primrec Next :: "nat \<Rightarrow> nat \<Rightarrow> Executor stepper" where
  "Next 0 rows e tuple rid = throw OutOfFuel"
| "Next (Suc depth) rows e tuple rid =
     (case e of
        SeqScanExecutor schema key iter \<Rightarrow>
          bind (on_table key (SeqScanExecutor_Next iter tuple rid)) (\<lambda>(more, iter, t, r).
          ret (more, SeqScanExecutor schema key iter, t, r))
      | ValuesExecutor schema values cursor \<Rightarrow> ValuesExecutor_Next schema values cursor tuple rid
      | InsertExecutor schema oid child executed \<Rightarrow>
          InsertExecutor_Next rows (Next depth rows) schema oid child executed tuple rid)"

text \<open>Plans have an insertion at the top and one table or list of values below it: depth 2.\<close>

definition Execute :: "nat \<Rightarrow> Plan \<Rightarrow> (database, Tuple list) action" where
  "Execute rows plan =
     bind (CreateExecutor plan) (\<lambda>executor.
     PollExecutor rows (Next 2 rows) executor \<lparr>tuple_rid = default_rid, tuple_data = []\<rparr> default_rid [])"

end
