(* ===== verification/Databases.thy ===== *)
theory Databases
  imports Executors
begin

text \<open>
  The database: \<^verbatim>\<open>common/db_instance.hpp\<close> and \<^verbatim>\<open>common/db_instance.cpp\<close>.

  The SQL parser is a parameter: a function from a query to the statements of its syntax tree, or
  its error message. The disk manager asks the catalog for the names of tables, so \<open>with_disk\<close>, which
  runs an operation of the catalog, brings the names the disk knows up to date. The message of the
  error for a table that exists leaves out the schema, whose rendering is the formatting library's.
\<close>

section \<open>State\<close>

definition catalog_names :: "Catalog \<Rightarrow> int \<Rightarrow> string option" where
  "catalog_names c oid = (case GetTableName oid c of Inr n \<Rightarrow> Some n | Inl _ \<Rightarrow> None)"

definition with_disk :: "(Catalog \<times> Disk, 'a) action \<Rightarrow> (database, 'a) action" where
  "with_disk m = (\<lambda>(s, c). case m (c, disk_manager s) of
     (r, (c', d)) \<Rightarrow> (r, (s\<lparr>disk_manager := d\<lparr>cm_names := catalog_names c'\<rparr>\<rparr>, c')))"

definition DEFAULT_POOL_SIZE :: nat where
  "DEFAULT_POOL_SIZE = 10"

definition mk_DB :: "Disk \<Rightarrow> database result" where
  "mk_DB d = (case mk_Catalog d of
     (Inl e, _) \<Rightarrow> Inl e
   | (Inr c, d') \<Rightarrow> Inr (mk_BufferPool DEFAULT_POOL_SIZE (d'\<lparr>table_data_files := (\<lambda>_. None), cm_names := catalog_names c\<rparr>), c))"

section \<open>Statements\<close>

definition HandleCreateStatement :: "int \<Rightarrow> CreateStatement \<Rightarrow> (database, unit) action" where
  "HandleCreateStatement indeterminate stmt =
     bind (lift (mk_Schema (cs_columns stmt))) (\<lambda>schema.
     bind (with_disk (CreateTable (cs_table_name stmt) schema)) (\<lambda>table_oid_opt.
     if table_oid_opt = None
     then bind (gets snd) (\<lambda>c.
          bind (lift (GetTableByName (cs_table_name stmt) c)) (\<lambda>table_meta.
          throw (RuntimeException ''Failed to create table: table already exists'')))
     else case cs_primary_key stmt of
       [] \<Rightarrow> ret ()
     | primary_key # others \<Rightarrow>
         bind (assert_that (others = []) ''Only support one primary key'') (\<lambda>_.
         case find (\<lambda>col. column_name col = primary_key) (columns schema) of
           None \<Rightarrow> throw (AssertionFailed ''Broken invariant pk col not found'')
         | Some key_col \<Rightarrow>
             bind (CreateIndex indeterminate (cs_table_name stmt @ ''_pk'') (cs_table_name stmt) key_col True BPlusTreeIndex) (\<lambda>index_oid.
             if index_oid = None then throw (RuntimeException ''Failed to create primary key index'') else ret ()))))"

definition run_plan :: "nat \<Rightarrow> BoundStatement \<Rightarrow> (database, unit) action" where
  "run_plan rows stmt =
     bind (gets snd) (\<lambda>c.
     bind (lift (PlanQuery c stmt)) (\<lambda>plan.
     bind (Execute rows plan) (\<lambda>result_set.
     bind (zoom fst (\<lambda>s (_, c). (s, c)) FlushAllPages) (\<lambda>_.
     bind (gets snd) (\<lambda>c.
     with_disk (zoom snd (\<lambda>d (c, _). (c, d)) (PersistToDisk c)))))))"

fun run_statements :: "nat \<Rightarrow> int \<Rightarrow> scope \<Rightarrow> SQLStatement list \<Rightarrow> (database, unit) action" where
  "run_statements rows indeterminate sc [] = ret ()"
| "run_statements rows indeterminate sc (parsed_stmt # stmts) =
     bind (gets snd) (\<lambda>c.
     case Bind c parsed_stmt sc of
       (Inl e, _) \<Rightarrow> throw e
     | (Inr bound_stmt, sc') \<Rightarrow>
         bind (case bound_stmt of
                 SELECT_STATEMENT _ \<Rightarrow> run_plan rows bound_stmt
               | INSERT_STATEMENT _ \<Rightarrow> run_plan rows bound_stmt
               | CREATE_STATEMENT create_stmt \<Rightarrow> HandleCreateStatement indeterminate create_stmt) (\<lambda>_.
         run_statements rows indeterminate sc' stmts))"

definition ExecuteQuery :: "(string \<Rightarrow> string + SQLStatement list) \<Rightarrow> nat \<Rightarrow> int \<Rightarrow> string \<Rightarrow> (database, unit) action" where
  "ExecuteQuery parse rows indeterminate query =
     (case parse query of
        Inl error_msg \<Rightarrow> throw (Exception (''Query failed to parse: '' @ error_msg))
      | Inr statements \<Rightarrow> run_statements rows indeterminate NullScope statements)"

definition SetUpInternalSystemCatalogTable :: "(Disk, unit) action" where
  "SetUpInternalSystemCatalogTable =
     bind (gets (\<lambda>d. files d GetSystemCatalogPath \<noteq> None)) (\<lambda>exists.
     if exists then ret () else CreateFileIfNotExists GetSystemCatalogPath)"

end
