(* ===== verification/DatabaseProperties.thy ===== *)
theory DatabaseProperties
  imports Databases
begin

text \<open>
  Queries from end to end. The first section shows what no operation of the pool and of the heap
  changes: the names the disk manager knows, and that the pages cached are pages of tables. The
  second shows that writing the catalog leaves the data files alone. Together they carry the
  contents of a table through the execution of a query, the flush and the writing of the catalog.
\<close>

section \<open>What the pool and the heap leave alone\<close>

named_theorems keeps_tame

definition tame :: "(int \<Rightarrow> string option) \<Rightarrow> BufferPool \<Rightarrow> bool" where
  "tame N s \<longleftrightarrow> cm_names (disk_manager s) = N \<and> (\<forall>pid. page_table s pid \<noteq> None \<longrightarrow> table_id pid \<noteq> SYSTEM_CATALOG_ID)"

abbreviation tame_heap :: "(int \<Rightarrow> string option) \<Rightarrow> heap \<Rightarrow> bool" where
  "tame_heap N h \<equiv> tame N (fst h) \<and> tm_table_oid (snd h) \<noteq> SYSTEM_CATALOG_ID"

lemma keeps_option: "(x = None \<Longrightarrow> keeps P f) \<Longrightarrow> (\<And>y. x = Some y \<Longrightarrow> keeps P (g y)) \<Longrightarrow> keeps P (case x of None \<Rightarrow> f | Some y \<Rightarrow> g y)"
  by (cases x) simp_all

lemma keeps_list: "keeps P f \<Longrightarrow> (\<And>y ys. keeps P (g y ys)) \<Longrightarrow> keeps P (case x of [] \<Rightarrow> f | y # ys \<Rightarrow> g y ys)"
  by (cases x) simp_all

lemma keeps_latch: "keeps P f \<Longrightarrow> (\<And>n. keeps P (g n)) \<Longrightarrow> keeps P h \<Longrightarrow> keeps P (case l of Unlatched \<Rightarrow> f | ReadLatched n \<Rightarrow> g n | WriteLatched \<Rightarrow> h)"
  by (cases l) simp_all

lemma keeps_names_disk: "keeps (\<lambda>d. cm_names d = N) (WritePage pid bs)" "keeps (\<lambda>d. cm_names d = N) (ReadPage pid)"
proof -
  have a: "keeps (\<lambda>d. cm_names d = N) (AddTableDataIfNotExist t)" for t
    unfolding AddTableDataIfNotExist_def data_path_of_def cm_GetTableName_def by (rule keeps_rules keeps_option | simp; fail)+
  have o: "keeps (\<lambda>d. cm_names d = N) (open_path t)" for t
    unfolding open_path_def by (rule keeps_rules keeps_option | simp; fail)+
  have w: "keeps (\<lambda>d. cm_names d = N) (fs_write p off bs)" for p off bs
    unfolding fs_write_def by (rule keeps_rules | simp; fail)+
  show "keeps (\<lambda>d. cm_names d = N) (WritePage pid bs)" unfolding WritePage_def by (rule keeps_rules a o w | simp; fail)+
  show "keeps (\<lambda>d. cm_names d = N) (ReadPage pid)"
    unfolding ReadPage_def Let_def cm_GetTableName_def by (rule keeps_rules keeps_option a o w | simp; fail)+
qed

lemma tame_disk [keeps_tame]:
  "keeps (tame N) (on_disk (WritePage pid bs))" "keeps (tame N) (on_disk (ReadPage pid))"
  by (rule keepsI, auto simp: tame_def on_disk_run split: prod.splits dest: keepsD [OF keeps_names_disk(1) refl] keepsD [OF keeps_names_disk(2) refl])+

lemma tame_update [keeps_tame]: "keeps (tame N) (update_page f g)"
  by (rule keepsI) (auto simp: tame_def update_page_run)

lemma tame_page_at [keeps_tame]: "keeps (tame N) (page_at f)"
  by (rule keeps_page_at)

lemma tame_on_page [keeps_tame]: "keeps (tame N) (on_page f m)"
  unfolding on_page_def by (rule keeps_rules keeps_tame | simp; fail)+

lemmas tame_rules = keeps_rules keeps_option keeps_list keeps_latch

lemma tame_latches [keeps_tame]:
  "keeps (tame N) (WLatch f)" "keeps (tame N) (WUnlatch f)" "keeps (tame N) (RLatch f)" "keeps (tame N) (RUnlatch f)"
  unfolding WLatch_def WUnlatch_def RLatch_def RUnlatch_def by (rule tame_rules keeps_tame)+

lemma tame_AllocateFrame [keeps_tame]: "keeps (tame N) AllocateFrame"
  unfolding AllocateFrame_def by (rule tame_rules keeps_tame | simp add: tame_def; fail)+

lemma tame_FetchPage [keeps_tame]: "table_id pid \<noteq> SYSTEM_CATALOG_ID \<Longrightarrow> keeps (tame N) (FetchPage pid)"
  unfolding FetchPage_def by (rule tame_rules keeps_tame | simp add: tame_def; fail)+

lemma tame_UnpinPage [keeps_tame]: "keeps (tame N) (UnpinPage pid dirty)"
  unfolding UnpinPage_def by (rule tame_rules keeps_tame | simp add: tame_def; fail)+

lemma tame_guards [keeps_tame]:
  "keeps (tame N) (Basic_Drop g)" "keeps (tame N) (Write_Drop g)" "keeps (tame N) (Write_assign g h)" "keeps (tame N) (UpgradeWrite g)"
  "keeps (tame N) (guard_GetData g)" "keeps (tame N) (guard_GetDataMut g)"
  "table_id pid \<noteq> SYSTEM_CATALOG_ID \<Longrightarrow> keeps (tame N) (FetchPageWrite pid)"
  unfolding Write_assign_def Basic_assign_def Write_Drop_def Basic_Drop_def UpgradeWrite_def guard_GetData_def guard_GetDataMut_def deref_def
    FetchPageWrite_def
  by (rule tame_rules keeps_tame | assumption)+

lemma tame_flush [keeps_tame]: "keeps (tame N) (FlushPage pid)" "keeps (tame N) (FlushFrames js)" "keeps (tame N) FlushAllPages"
proof -
  show f: "keeps (tame N) (FlushPage pid)" for pid unfolding FlushPage_def by (rule tame_rules keeps_tame)+
  show js: "keeps (tame N) (FlushFrames js)" for js
    by (induction js) (simp, simp only: FlushFrames.simps, intro tame_rules keeps_tame f)
  show "keeps (tame N) FlushAllPages" unfolding FlushAllPages_def by (rule tame_rules js)+
qed

lemma tame_in_pool [keeps_tame]: "keeps (tame N) m \<Longrightarrow> keeps (tame_heap N) (in_pool m)"
  by (rule keepsI) (auto simp: in_pool_def split: prod.splits dest: keepsD)

lemma tame_NewPageGuarded [keeps_tame]: "keeps (tame_heap N) (NewPageGuarded TableHeap_AllocatePage)"
proof -
  have fr: "keeps (tame N) NewPage_frame"
    unfolding NewPage_frame_def by (rule tame_rules keeps_tame | simp add: tame_def; fail)+
  have ins: "keeps (tame N) (NewPage_install f pid)" if "table_id pid \<noteq> SYSTEM_CATALOG_ID" for f pid
    unfolding NewPage_install_def using that by (intro tame_rules keeps_tame) (simp add: tame_def)
  have al: "tm_table_oid m' = tm_table_oid m \<and> (\<forall>pid. r = Inr pid \<longrightarrow> table_id pid = tm_table_oid m)"
    if "TableHeap_AllocatePage m = (r, m')" for m r m'
    using that by (auto simp: TableHeap_AllocatePage_def IncrementTableDataPageId_def bind_def gets_def modify_def ret_def assert_that_def throw_def Let_def
        mk_page_id_def split: if_splits)
  show ?thesis
  proof (rule keepsI)
    fix h r h' assume t: "tame_heap N h" and run: "NewPageGuarded TableHeap_AllocatePage h = (r, h')"
    obtain s m where h: "h = (s, m)" by (cases h)
    obtain r1 s1 where r1: "NewPage_frame s = (r1, s1)" by fastforce
    have t1: "tame N s1" using keepsD [OF fr _ r1] t h by simp
    obtain r2 m2 where r2: "TableHeap_AllocatePage m = (r2, m2)" by fastforce
    note al2 = al [OF r2]
    show "tame_heap N h'"
    proof (cases "\<exists>f pid. r1 = Inr f \<and> r2 = Inr pid")
      case True
      then obtain f pid where fp: "r1 = Inr f" "r2 = Inr pid" by blast
      obtain r3 s3 where r3: "NewPage_install f pid s1 = (r3, s3)" by fastforce
      have "tame N s3" using keepsD [OF ins t1 r3] al2 fp t h by simp
      then show ?thesis using run fp r1 r2 r3 al2 t h
        by (auto simp: NewPageGuarded_def NewPage_def zoom_def bind_def ret_def split: sum.splits)
    next
      case False
      then show ?thesis using run r1 r2 al2 t1 t h
        by (cases r1; cases r2) (auto simp: NewPageGuarded_def NewPage_def zoom_def bind_def)
    qed
  qed
qed

lemma tame_on_throw [keeps_tame]: "keeps P m \<Longrightarrow> keeps P c \<Longrightarrow> keeps P (on_throw m c)"
  by (rule keepsI) (auto simp: on_throw_def split: prod.splits sum.splits dest: keepsD)

lemma tame_insert_loop [keeps_tame]: "keeps (tame_heap N) (insert_loop n t g)"
proof (induction n arbitrary: g)
  case 0
  then show ?case by (simp add: insert_loop_simps)
next
  case (Suc n)
  show ?case unfolding insert_loop_simps by (rule tame_rules keeps_tame Suc.IH)+
qed

lemma bind_gets: "bind (gets f) k s = k (f s) s"
  by (simp add: bind_def gets_def)

lemma tame_InsertTuple: "keeps (tame_heap N) (TableHeap_InsertTuple meta t)"
proof (rule keepsI)
  fix h r h' assume t: "tame_heap N h" and run: "TableHeap_InsertTuple meta t h = (r, h')"
  define oid where "oid = tm_table_oid (snd h)"
  have oid: "oid \<noteq> SYSTEM_CATALOG_ID" using t by (simp add: oid_def)
  have m: "keeps (tame_heap N) (in_meta (modify IncreaseTupleCount))"
    by (rule keepsI) (auto simp: in_meta_def modify_def IncreaseTupleCount_def)
  have fw: "keeps (tame_heap N) (in_pool (FetchPageWrite (mk_page_id oid l)))" for l
    using oid by (intro tame_in_pool tame_guards) (simp add: mk_page_id_def)
  have "keeps (tame_heap N) (bind (gets (last_table_heap_data_page_id \<circ> snd)) (\<lambda>l.
     bind (in_pool (FetchPageWrite (mk_page_id oid l))) (\<lambda>g.
     bind (insert_loop 2 t g) (\<lambda>g.
     bind (gets (last_table_heap_data_page_id \<circ> snd)) (\<lambda>last_page_id.
     bind (in_pool (guard_GetDataMut g)) (\<lambda>(g, f).
     bind (in_pool (on_page f (TablePage_InsertTuple meta t))) (\<lambda>slot.
     case slot of
       None \<Rightarrow> throw (UndefinedBehaviour ''dereference of nullopt'')
     | Some slot_id \<Rightarrow>
         bind (in_pool (Write_Drop g)) (\<lambda>_.
         bind (in_meta (modify IncreaseTupleCount)) (\<lambda>_.
         ret (Some (mk_rid (mk_page_id oid last_page_id) slot_id)))))))))))" (is "keeps _ ?rest")
    by (rule tame_rules m fw tame_insert_loop keeps_tame)+
  from keepsD [OF this t] show "tame_heap N h'" using run unfolding TableHeap_InsertTuple_def oid_def bind_gets comp_def by simp
qed

section \<open>Writing the catalog\<close>

definition outside :: "Disk \<Rightarrow> Disk \<Rightarrow> bool" where
  "outside d d' \<longleftrightarrow> (\<forall>n. files d' (GetTableDataPath n) = files d (GetTableDataPath n)) \<and> (\<forall>p. files d p \<noteq> None \<longrightarrow> files d' p \<noteq> None) \<and>
     cm_names d' = cm_names d \<and> table_data_files d' = table_data_files d"

lemma outside_file: "outside d d' \<Longrightarrow> (\<And>n. p \<noteq> GetTableDataPath n) \<Longrightarrow> outside d (d'\<lparr>files := (files d')(p \<mapsto> bs)\<rparr>)"
  by (auto simp: outside_def)

lemma outside_stream: "(\<And>n. p \<noteq> GetTableDataPath n) \<Longrightarrow> keeps (outside d) (with_FileStream p body)"
  by (rule keepsI) (auto simp: with_FileStream_def split: sum.splits prod.splits intro: outside_file)

lemma outside_create: "(\<And>n. p \<noteq> GetTableDataPath n) \<Longrightarrow> keeps (outside d) (CreateFileIfNotExists p)"
  unfolding CreateFileIfNotExists_def by (rule tame_rules | simp add: outside_file; fail)+

lemma outside_tables: "keeps (outside d) (PersistTables ts)"
  by (induction ts rule: PersistTables.induct) (simp_all add: keeps_bind outside_stream)

lemma outside_persist: "keeps (outside d) (PersistToDisk c)"
  unfolding PersistToDisk_def by (rule keeps_bind outside_create outside_stream outside_tables | simp; fail)+

lemma outside_disk:
  assumes "outside d d'" and "disk_inv d"
  shows "disk_inv d'" and "table_id pid \<noteq> SYSTEM_CATALOG_ID \<Longrightarrow> disk_page d' pid = disk_page d pid"
proof -
  have p: "path_of d' = path_of d" by (rule path_of_cong) (use assms(1) in \<open>simp add: outside_def\<close>)
  show "disk_inv d'" using assms unfolding disk_inv_def p outside_def by simp
  assume "table_id pid \<noteq> SYSTEM_CATALOG_ID"
  then have "content d' (table_id pid) = content d (table_id pid)"
    using assms(1) unfolding content_def p by (simp add: path_of_def outside_def split: option.splits)
  then show "disk_page d' pid = disk_page d pid" by (simp add: disk_page_def)
qed

lemma pool_disk:
  assumes inv: "gp_inv s" and tame: "tame N s" and d: "disk_inv d"
    and page: "\<And>q. table_id q \<noteq> SYSTEM_CATALOG_ID \<Longrightarrow> disk_page d q = disk_page (disk_manager s) q"
  shows "gp_inv (s\<lparr>disk_manager := d\<rparr>)" and "table_id pid \<noteq> SYSTEM_CATALOG_ID \<Longrightarrow> logical (s\<lparr>disk_manager := d\<rparr>) pid = logical s pid"
    and "pins (s\<lparr>disk_manager := d\<rparr>) = pins s"
proof -
  have mp: "mapped (s\<lparr>disk_manager := d\<rparr>) g = mapped s g" for g by (simp add: mapped_def)
  have "page_table s q = Some f \<Longrightarrow> table_id q \<noteq> SYSTEM_CATALOG_ID" for q f using tame by (auto simp: tame_def)
  moreover have "bp_inv s" using inv by (simp add: gp_inv_def)
  ultimately have "bp_inv (s\<lparr>disk_manager := d\<rparr>)" using d page unfolding bp_inv_defs by (simp add: mp)
  then show "gp_inv (s\<lparr>disk_manager := d\<rparr>)" using inv by (simp add: gp_inv_def)
  show "table_id pid \<noteq> SYSTEM_CATALOG_ID \<Longrightarrow> logical (s\<lparr>disk_manager := d\<rparr>) pid = logical s pid"
    using page by (simp add: logical_def split: option.split)
  show "pins (s\<lparr>disk_manager := d\<rparr>) = pins s" by (simp add: pins_def)
qed

lemma pool_outside:
  assumes inv: "gp_inv s" and tame: "tame N s" and out: "outside (disk_manager s) d"
  shows "gp_inv (s\<lparr>disk_manager := d\<rparr>)" and "table_id pid \<noteq> SYSTEM_CATALOG_ID \<Longrightarrow> logical (s\<lparr>disk_manager := d\<rparr>) pid = logical s pid"
    and "pins (s\<lparr>disk_manager := d\<rparr>) = pins s"
proof -
  have "disk_inv (disk_manager s)" using inv by (simp add: gp_inv_def bp_inv_except_def)
  note pd = pool_disk [OF inv tame outside_disk(1) [OF out this] outside_disk(2) [OF out this]]
  show "gp_inv (s\<lparr>disk_manager := d\<rparr>)" "table_id pid \<noteq> SYSTEM_CATALOG_ID \<Longrightarrow> logical (s\<lparr>disk_manager := d\<rparr>) pid = logical s pid"
    "pins (s\<lparr>disk_manager := d\<rparr>) = pins s" using pd by simp_all
qed

section \<open>Flushing\<close>

lemma keeps_users: "(\<And>p. (rwlatch (g p), pin_count (g p)) = (rwlatch p, pin_count p)) \<Longrightarrow>
  keeps (\<lambda>s. map (\<lambda>p. (rwlatch p, pin_count p)) (pages s) = L) (update_page f g)"
proof (rule keepsI)
  fix s r s' assume g: "\<And>p. (rwlatch (g p), pin_count (g p)) = (rwlatch p, pin_count p)"
    and L: "map (\<lambda>p. (rwlatch p, pin_count p)) (pages s) = L" and "update_page f g s = (r, s')"
  then have "s' = s\<lparr>pages := (pages s)[f := g (pages s ! f)]\<rparr>" by (auto simp: update_page_run)
  moreover have "map (\<lambda>p. (rwlatch p, pin_count p)) ((pages s)[f := g (pages s ! f)]) = L"
    unfolding L [symmetric] by (cases "f < length (pages s)") (simp_all add: map_update g list_update_same_conv list_update_beyond not_less del: prod.inject)
  ultimately show "map (\<lambda>p. (rwlatch p, pin_count p)) (pages s') = L" by simp
qed

lemma users_flush: "keeps (\<lambda>s. map (\<lambda>p. (rwlatch p, pin_count p)) (pages s) = L) FlushAllPages"
proof -
  have d: "keeps (\<lambda>s. map (\<lambda>p. (rwlatch p, pin_count p)) (pages s) = L) (on_disk m)" for m :: "(Disk, 'a) action"
    by (auto simp: keeps_def on_disk_run split: prod.splits)
  have f: "keeps (\<lambda>s. map (\<lambda>p. (rwlatch p, pin_count p)) (pages s) = L) (FlushPage pid)" for pid
    unfolding FlushPage_def by (rule tame_rules keeps_page_at keeps_users d | simp; fail)+
  have "keeps (\<lambda>s. map (\<lambda>p. (rwlatch p, pin_count p)) (pages s) = L) (FlushFrames js)" for js
    by (induction js) (simp, simp only: FlushFrames.simps, intro keeps_bind keeps_page_at f)
  then show ?thesis unfolding FlushAllPages_def by (intro keeps_bind keeps_basic)
qed

text \<open>Whether it succeeds or not, a flush leaves the contents of the pool alone.\<close>

lemma flush_keeps:
  assumes inv: "gp_inv s" and run: "FlushAllPages s = (r, s')"
  shows "gp_inv s'" and "same_pages s s'" and "pins s' = pins s" and "page_table s' = page_table s"
    and "r = Inr () \<Longrightarrow> valid_pid q \<Longrightarrow> disk_page (disk_manager s') q = logical s q"
proof -
  have bi: "bp_inv s" using inv by (simp add: gp_inv_def)
  have ff: "FlushFrames [0..<pool_size s] s = (r, s')" using run by (simp add: FlushAllPages_def act_simps)
  note fs = FlushFrames_spec [OF bi ff]
  show sp: "same_pages s s'" "pins s' = pins s" "page_table s' = page_table s" using fs by simp_all
  have us: "map (\<lambda>p. (rwlatch p, pin_count p)) (pages s') = map (\<lambda>p. (rwlatch p, pin_count p)) (pages s)" using keepsD [OF users_flush refl run] .
  have b': "bp_inv s'" "pool_size s' = pool_size s" using fs by simp_all
  have len: "length (pages s) = pool_size s" "length (pages s') = pool_size s" using bp_invD(2) [OF bi] bp_invD(2) [OF b'(1)] b'(2) by simp_all
  have "rwlatch (pages s' ! f) = Unlatched" if f: "f < pool_size s'" "pin_count (pages s' ! f) = 0" for f
    using arg_cong [OF us, of "\<lambda>xs. xs ! f"] f inv len b'(2) by (simp add: gp_inv_def)
  then show "gp_inv s'" using b' by (simp add: gp_inv_def)
  show "disk_page (disk_manager s') q = logical s q" if "r = Inr ()" "valid_pid q"
  proof (cases "page_table s' q")
    case None
    then have "disk_page (disk_manager s') q = logical s' q" by (simp add: logical_def)
    then show ?thesis using sp(1) that(2) by (simp add: same_pages_def)
  next
    case (Some f)
    note f = bp_invD(4,5) [OF b'(1) Some]
    then have "flushed s' f" using fs that(1) by simp
    then show ?thesis using f(2) Some sp(1) that(2) by (simp add: flushed_def mapped_def same_pages_def)
  qed
qed

section \<open>Executing an insertion\<close>

definition put_table :: "int \<Rightarrow> TableMeta \<Rightarrow> Catalog \<Rightarrow> Catalog" where
  "put_table oid m c = c\<lparr>tables := AList.update oid (Some m) (tables c)\<rparr>"

lemma put_table_simps [simp]:
  "put_table oid m (put_table oid m' c) = put_table oid m c" "map_of (tables (put_table oid m c)) = (map_of (tables c))(oid \<mapsto> Some m)"
  "table_names (put_table oid m c) = table_names c"
  by (simp_all add: put_table_def update_last update_conv')

lemma put_table_same: "map_of (tables c) oid = Some (Some m) \<Longrightarrow> put_table oid m c = c"
  by (simp add: put_table_def update_triv)

lemma on_table_run [act_simps]:
  "map_of (tables c) oid = Some (Some m) \<Longrightarrow> act (s, m) = (r, (s', m')) \<Longrightarrow> on_table oid act (s, c) = (r, (s', put_table oid m' c))"
  by (simp add: on_table_def put_table_def)

definition has_table :: "Catalog \<Rightarrow> string \<Rightarrow> int \<Rightarrow> TableMeta \<Rightarrow> bool" where
  "has_table c t oid m \<longleftrightarrow> map_of (table_names c) t = Some oid \<and> map_of (tables c) oid = Some (Some m) \<and> tm_name m = t \<and> tm_table_oid m = oid"

lemma has_tableD:
  assumes "has_table c t oid m"
  shows "GetTableByName t c = Inr m" and "table_ref oid (s, c) = (Inr oid, (s, c))"
  using assms by (simp_all add: has_table_def GetTableByName_def table_ref_def GetTable_def GetTableName_def act_simps)

lemma has_table_put: "has_table c t oid m \<Longrightarrow> tm_name m' = t \<Longrightarrow> tm_table_oid m' = oid \<Longrightarrow> has_table (put_table oid m' c) t oid m'"
  by (simp add: has_table_def)

lemma const_values_constants: "const_values (map ConstantValueExpression vs) = Inr vs"
  by (induction vs) simp_all

lemma count_tuple: "\<exists>ct. mk_Tuple [\<lparr>type_id = INTEGER, val = Int32 w, is_null = False\<rparr>] count_schema = Inr ct"
  by (simp add: mk_Tuple_def count_schema_def mk_column_rec_def IsInlined_def SerializeTo_def store_at_def GetColumnCount_def)

lemma execute_insert:
  assumes t: "has_table c t oid m" and h: "mk_TableHeap (s, m) = (Inr (), (s0, m0))" and tup: "mk_Tuple vs p = Inr tup"
    and ins: "TableHeap_InsertTuple \<lparr>is_deleted = False\<rparr> tup (s0, m0) = (Inr (Some rid), (s1, m1))"
  shows "\<exists>ct. Execute (Suc (Suc n)) (InsertPlanNode count_schema (ValuesPlanNode p [map ConstantValueExpression vs]) oid) (s, c) =
     (Inr [ct], (s1, put_table oid (IncreaseTupleCount m1) c))"
proof -
  have tm: "map_of (tables c) oid = Some (Some m)" using t by (simp add: has_table_def)
  have mk: "on_table oid mk_TableHeap (s, c) = (Inr (), (s0, put_table oid m0 c))" by (rule on_table_run [where act = mk_TableHeap, OF tm h])
  have ins': "on_table oid (TableHeap_InsertTuple \<lparr>is_deleted = False\<rparr> tup) (s0, put_table oid m0 c) = (Inr (Some rid), (s1, put_table oid m1 c))"
    using on_table_run [where act = "TableHeap_InsertTuple \<lparr>is_deleted = False\<rparr> tup" and c = "put_table oid m0 c" and oid = oid, OF _ ins] by simp
  have inc: "on_table oid (in_meta (modify IncreaseTupleCount)) (s1, put_table oid m1 c) = (Inr (), (s1, put_table oid (IncreaseTupleCount m1) c))"
    using on_table_run [of "put_table oid m1 c" oid m1 "in_meta (modify IncreaseTupleCount)" s1 "Inr ()" s1 "IncreaseTupleCount m1"]
    by (simp add: in_meta_def modify_def)
  let ?v = "ValuesExecutor p [map ConstantValueExpression vs]"
  have n0: "Next (Suc 0) k (?v 0) t0 r0 db = (Inr (True, ?v (Suc 0), tup, r0), db)" for k t0 r0 db
    using tup by (simp add: ValuesExecutor_Next_def const_values_constants act_simps)
  have n1: "Next (Suc 0) k (?v (Suc 0)) t0 r0 db = (Inr (False, ?v (Suc 0), t0, r0), db)" for k t0 r0 db
    by (simp add: ValuesExecutor_Next_def act_simps)
  have rows: "insert_rows (Suc (Suc n)) (Next (Suc 0) k) oid (?v 0) t0 r0 r1 0 (s0, put_table oid m0 c) =
      (Inr (?v (Suc 0), rid, 1), (s1, put_table oid (IncreaseTupleCount m1) c))" for k t0 r0 r1
    by (simp add: act_simps n0 n1 ins' inc del: Next.simps)
  obtain ct where ct: "mk_Tuple [\<lparr>type_id = INTEGER, val = Int32 1, is_null = False\<rparr>] count_schema = Inr ct" using count_tuple by blast
  let ?e = "InsertExecutor count_schema oid (?v 0) False" and ?e' = "InsertExecutor count_schema oid (?v (Suc 0)) True"
  let ?db = "(s1, put_table oid (IncreaseTupleCount m1) c)"
  have first: "Next 2 (Suc (Suc n)) ?e t0 r0 (s, c) = (Inr (True, ?e', ct, rid), ?db)" for t0 r0
    using has_tableD(2) [OF t] mk rows ct
    by (simp add: numeral_2_eq_2 InsertExecutor_Next_def act_simps mk_Value_def del: insert_rows.simps)
  have second: "Next 2 (Suc (Suc n)) ?e' t0 r0 db = (Inr (False, ?e', t0, r0), db)" for t0 r0 db
    by (simp add: numeral_2_eq_2 InsertExecutor_Next_def act_simps)
  show ?thesis
    using first second by (simp add: Execute_def act_simps)
qed

section \<open>What stays of the metadata and of the heap\<close>

lemma keeps_meta_pool: "keeps (\<lambda>h. Q (snd h)) (in_pool m)"
  by (rule keepsI) (auto simp: in_pool_def split: prod.splits)

lemma keeps_meta_new: "keeps Q alloc \<Longrightarrow> keeps (\<lambda>h. Q (snd h)) (NewPageGuarded alloc)"
  by (rule keepsI) (auto simp: NewPageGuarded_def NewPage_def zoom_def bind_def ret_def keeps_def split: prod.splits sum.splits)

abbreviation same_table :: "TableMeta \<Rightarrow> TableMeta \<Rightarrow> bool" where
  "same_table m m' \<equiv> tm_name m' = tm_name m \<and> tm_schema m' = tm_schema m \<and> tm_table_oid m' = tm_table_oid m"

lemma InsertTuple_meta: "keeps (\<lambda>h. same_table m (snd h)) (TableHeap_InsertTuple meta t)"
proof -
  have a: "keeps (same_table m) TableHeap_AllocatePage"
    by (rule keepsI) (auto simp: TableHeap_AllocatePage_def IncrementTableDataPageId_def bind_def gets_def modify_def ret_def assert_that_def throw_def Let_def
        split: if_splits)
  note p = keeps_meta_pool [where Q = "same_table m"]
  note n = keeps_meta_new [where Q = "same_table m", OF a]
  have l: "keeps (\<lambda>h. same_table m (snd h)) (insert_loop k t g)" for k g
  proof (induction k arbitrary: g)
    case (Suc k)
    show ?case unfolding insert_loop_simps by (rule tame_rules tame_on_throw p n Suc.IH)+
  qed (simp add: insert_loop_simps)
  have i: "keeps (\<lambda>h. same_table m (snd h)) (in_meta (modify IncreaseTupleCount))"
    by (rule keepsI) (auto simp: in_meta_def modify_def IncreaseTupleCount_def)
  show ?thesis unfolding TableHeap_InsertTuple_def by (rule tame_rules p l i)+
qed

lemma heap_transfer:
  assumes inv: "heap_inv ps (s, m)" and s': "gp_inv s'" "page_table s' = page_table s" "pins s' = pins s"
    and lg: "\<And>p. 0 \<le> p \<Longrightarrow> p < 2 ^ 20 \<Longrightarrow> logical s' (mk_page_id (tm_table_oid m) p) = logical s (mk_page_id (tm_table_oid m) p)"
    and m': "tm_table_oid m' = tm_table_oid m" "last_table_data_page_id m' = last_table_data_page_id m"
      "last_table_heap_data_page_id m' = last_table_heap_data_page_id m"
  shows "heap_inv ps (s', m')" and "heap_tuples ps (s', m') = heap_tuples ps (s, m)"
proof -
  note d = heap_coreD [OF heap_invD(2) [OF inv]]
  have core: "heap_core ps (s, m)" using inv by (simp add: heap_inv_def)
  have v: "view (s', m') p = view (s, m) p" if "0 \<le> p" "p < 2 ^ 20" for p using lg [OF that] m'(1) by (simp add: view_def)
  have ps: "0 \<le> p \<and> p < 2 ^ 20" if "p \<in> set ps" for p using core that by (force simp: heap_core_def)
  then have vp: "view (s', m') p = view (s, m) p" if "p \<in> set ps" for p using v that by blast
  have last: "0 \<le> last_table_data_page_id m"
    using core linked_nonempty by (force simp: heap_core_def dest: last_in_set)
  have "linked (view (s', m')) ps" using core vp by (auto simp: heap_core_def intro: linked_cong)
  moreover have "view (s', m') p = zero_page" if "last_table_data_page_id m < p" "p < 2 ^ 20" for p
    using v [of p] that last core by (auto simp: heap_core_def)
  ultimately have "heap_core ps (s', m')" using core vp m' s'(2) unfolding heap_core_def by simp
  then show "heap_inv ps (s', m')" using inv s' m'(1) by (simp add: heap_inv_def)
  show "heap_tuples ps (s', m') = heap_tuples ps (s, m)" using vp m'(1) by (simp add: heap_tuples_def cong: map_cong)
qed

lemma catalog_names_put: "has_table c t oid m \<Longrightarrow> tm_name m' = t \<Longrightarrow> catalog_names (put_table oid m' c) = catalog_names c"
  by (rule ext) (simp add: catalog_names_def GetTableName_def has_table_def)

lemma insert_row:
  assumes t: "has_table c t oid m" and mk: "mk_TableHeap (s, m) = (Inr (), (s0, m0))" and st0: "same_table m m0"
    and tame: "tame (catalog_names c) s0" and heap: "heap_inv ps (s0, m0)"
    and room: "last_table_data_page_id m0 + 1 < 2 ^ 20 - 1" "page_table s0 (mk_page_id oid (last_table_heap_data_page_id m0)) \<noteq> None"
      "length (tuple_data tup) + TUPLE_INFO_SIZE \<le> tp_free (view (s0, m0) (last_table_heap_data_page_id m0)) \<or> free_list s0 \<noteq> []"
    and tup: "mk_Tuple vs p = Inr tup" "page_tuple tup"
  obtains s1 m1 ps1 rid ct where
    "Execute (Suc (Suc n)) (InsertPlanNode count_schema (ValuesPlanNode p [map ConstantValueExpression vs]) oid) (s, c) =
       (Inr [ct], (s1, put_table oid m1 c))"
    "heap_inv ps1 (s1, m1)" "heap_tuples ps1 (s1, m1) = heap_tuples ps (s0, m0) @ [(rid, \<lparr>is_deleted = False\<rparr>, tuple_data tup)]"
    "tuple_count m1 = tuple_count m0 + 2" "same_table m m1" "tame (catalog_names c) s1" "page_table s1 (rid_page_id rid) \<noteq> None"
    "length (tuple_data tup) + TUPLE_INFO_SIZE \<le> tp_free (view (s0, m0) (last_table_heap_data_page_id m0)) \<longrightarrow> ps1 = ps"
proof -
  have oid: "tm_table_oid m0 = oid" using t st0 by (simp add: has_table_def)
  have h: "oid \<noteq> SYSTEM_CATALOG_ID" using heap oid by (auto simp: heap_inv_def heap_core_def)
  obtain rid ps1 s1 m1 where i: "TableHeap_InsertTuple \<lparr>is_deleted = False\<rparr> tup (s0, m0) = (Inr (Some rid), (s1, m1))" "heap_inv ps1 (s1, m1)"
      "heap_tuples ps1 (s1, m1) = heap_tuples ps (s0, m0) @ [(rid, \<lparr>is_deleted = False\<rparr>, tuple_data tup)]" "tuple_count m1 = tuple_count m0 + 1"
      "page_table s1 (rid_page_id rid) \<noteq> None"
      "length (tuple_data tup) + TUPLE_INFO_SIZE \<le> tp_free (view (s0, m0) (last_table_heap_data_page_id m0)) \<longrightarrow> ps1 = ps"
    by (rule InsertTuple_runs [OF heap tup(2) room(1) room(2) [folded oid] room(3), of "\<lparr>is_deleted = False\<rparr>"])
  obtain ct where ex: "Execute (Suc (Suc n)) (InsertPlanNode count_schema (ValuesPlanNode p [map ConstantValueExpression vs]) oid) (s, c) =
      (Inr [ct], (s1, put_table oid (IncreaseTupleCount m1) c))"
    using execute_insert [OF t mk tup(1) i(1)] by blast
  have st: "same_table m m1" using keepsD [OF InsertTuple_meta _ i(1)] st0 by simp
  have ta: "tame (catalog_names c) s1" using keepsD [OF tame_InsertTuple _ i(1)] tame h oid by simp
  have g1: "gp_inv s1" using i(2) by (simp add: heap_inv_def)
  note tr = heap_transfer [OF i(2) g1 refl refl refl, of "IncreaseTupleCount m1"]
  show ?thesis
    by (rule that [OF ex _ _ _ _ ta i(5,6)]) (use tr i(3,4) st in \<open>simp_all add: IncreaseTupleCount_def\<close>)
qed

lemma mk_TableHeap_idle:
  assumes "heap_inv ps (s, m)"
  shows "mk_TableHeap (s, m) = (Inr (), (s, m))"
proof -
  have core: "heap_core ps (s, m)" using assms by (simp add: heap_inv_def)
  then show ?thesis using heap_coreD(10) [OF core] by (auto simp: heap_core_def mk_TableHeap_def act_simps)
qed

text \<open>After the execution: whatever happens to the flush and to the writing of the catalog.\<close>

lemma finish_query:
  assumes t: "has_table c t oid m" and tame: "tame (catalog_names c) s" and heap: "heap_inv ps (s, m)"
    and run: "bind (zoom fst (\<lambda>s (_, c). (s, c)) FlushAllPages) (\<lambda>_. bind (gets snd) (\<lambda>c.
       with_disk (zoom snd (\<lambda>d (c, _). (c, d)) (PersistToDisk c)))) (s, c) = (r, (s', c'))"
  shows "c' = c" and "heap_inv ps (s', m)" and "heap_tuples ps (s', m) = heap_tuples ps (s, m)" and "tame (catalog_names c) s'"
    and "page_table s' = page_table s" and "r = Inr () \<Longrightarrow> 0 \<le> p \<Longrightarrow> p < 2 ^ 20 \<Longrightarrow> disk_page (disk_manager s') (mk_page_id oid p) = view (s', m) p"
proof -
  have oid: "tm_table_oid m = oid" "oid \<noteq> SYSTEM_CATALOG_ID" using t heap by (auto simp: has_table_def heap_inv_def heap_core_def)
  have gi: "gp_inv s" using heap by (simp add: heap_inv_def)
  obtain rf s2 where f: "FlushAllPages s = (rf, s2)" by fastforce
  note fk = flush_keeps [OF gi f]
  have t2: "tame (catalog_names c) s2" using keepsD [OF tame_flush(3) tame f] .
  have lg2: "logical s2 (mk_page_id oid p) = logical s (mk_page_id oid p)" if "0 \<le> p" "p < 2 ^ 20" for p
    using fk(2) that by (simp add: same_pages_def valid_pid_def)
  obtain rp d where pd: "PersistToDisk c (disk_manager s2) = (rp, d)" by fastforce
  have out: "outside (disk_manager s2) d" by (rule keepsD [OF outside_persist _ pd]) (simp add: outside_def)
  have nd: "d\<lparr>cm_names := catalog_names c\<rparr> = d" using out t2 by (cases d) (simp add: outside_def tame_def)
  note po = pool_outside [OF fk(1) t2 out]
  let ?s3 = "s2\<lparr>disk_manager := d\<rparr>"
  have lg3: "logical ?s3 (mk_page_id oid p) = logical s2 (mk_page_id oid p)" for p using po(2) oid(2) by (simp add: mk_page_id_def)
  have t3: "tame (catalog_names c) ?s3" using t2 out by (simp add: tame_def outside_def)
  have res: "(\<exists>e. rf = Inl e \<and> r = Inl e \<and> s' = s2 \<and> c' = c) \<or> (rf = Inr () \<and> s' = ?s3 \<and> c' = c)"
    using run f pd nd by (cases rf) (auto simp: zoom_def bind_def gets_def with_disk_def)
  have s': "gp_inv s'" "page_table s' = page_table s" "pins s' = pins s" using res fk po by auto
  have lg: "logical s' (mk_page_id oid p) = logical s (mk_page_id oid p)" if "0 \<le> p" "p < 2 ^ 20" for p using res lg2 [OF that] lg3 by auto
  show "c' = c" "tame (catalog_names c) s'" using res t2 t3 by auto
  show "page_table s' = page_table s" by (rule s'(2))
  note tr = heap_transfer [OF heap s' _ refl refl refl]
  show "heap_inv ps (s', m)" "heap_tuples ps (s', m) = heap_tuples ps (s, m)" using tr lg oid(1) by simp_all
  show "disk_page (disk_manager s') (mk_page_id oid p) = view (s', m) p" if "r = Inr ()" and p: "0 \<le> p" "p < 2 ^ 20"
  proof -
    have r: "rf = Inr ()" "s' = ?s3" using res that(1) by auto
    have "valid_pid (mk_page_id oid p)" using p by (simp add: valid_pid_def)
    then have "disk_page (disk_manager s2) (mk_page_id oid p) = logical s (mk_page_id oid p)" using fk(5) r(1) by blast
    moreover have "disk_page d (mk_page_id oid p) = disk_page (disk_manager s2) (mk_page_id oid p)"
      using outside_disk(2) [OF out] fk(1) oid(2) by (simp add: gp_inv_def bp_inv_except_def mk_page_id_def)
    ultimately show ?thesis using r(2) lg [OF p] oid(1) by (simp add: view_def)
  qed
qed

text \<open>An insertion of literals, from the statement to the disk, into a heap that exists or is set up by the executor.\<close>

lemma insert_statement:
  assumes t: "has_table c t oid m" and mk: "mk_TableHeap (s, m) = (Inr (), (s0, m0))" "same_table m m0"
    and tame: "tame (catalog_names c) s0" and heap: "heap_inv ps (s0, m0)"
    and room: "last_table_data_page_id m0 + 1 < 2 ^ 20 - 1" "page_table s0 (mk_page_id oid (last_table_heap_data_page_id m0)) \<noteq> None"
      "4 * length vs + var_size (temp_cols 0 vs) vs + TUPLE_INFO_SIZE \<le> tp_free (view (s0, m0) (last_table_heap_data_page_id m0)) \<or> free_list s0 \<noteq> []"
    and fits: "4 * length vs + var_size (temp_cols 0 vs) vs + TUPLE_INFO_SIZE \<le> PAGE_SIZE - TABLE_PAGE_HEADER_SIZE"
    and vs: "take 2 t \<noteq> ''__''" "map literal_value es = map Some vs" "row_ok vs" "map type_id vs = map column_type (columns (tm_schema m))" "table_layout (tm_schema m)"
  obtains r s' m' ps' rid tup where
    "run_statements (Suc (Suc n)) i NullScope [kStmtInsert \<lparr>hi_tableName = t, hi_values = Some es, hi_select = sel\<rparr>] (s, c) = (r, (s', put_table oid m' c))"
    "heap_inv ps' (s', m')" "heap_tuples ps' (s', m') = heap_tuples ps (s0, m0) @ [(rid, \<lparr>is_deleted = False\<rparr>, tuple_data tup)]"
    "\<forall>k < length vs. GetValue_idx tup (tm_schema m') k = Inr (vs ! k)" "tuple_count m' = tuple_count m0 + 2"
    "has_table (put_table oid m' c) t oid m'" "tame (catalog_names (put_table oid m' c)) s'"
    "r = Inr () \<longrightarrow> (\<forall>p. 0 \<le> p \<and> p < 2 ^ 20 \<longrightarrow> disk_page (disk_manager s') (mk_page_id oid p) = view (s', m') p)" "page_table s' (rid_page_id rid) \<noteq> None"
    "4 * length vs + var_size (temp_cols 0 vs) vs + TUPLE_INFO_SIZE \<le> tp_free (view (s0, m0) (last_table_heap_data_page_id m0)) \<longrightarrow> ps' = ps"
proof -
  let ?st = "kStmtInsert \<lparr>hi_tableName = t, hi_values = Some es, hi_select = sel\<rparr>"
  have size: "4 * length vs + var_size (temp_cols 0 vs) vs < 2 ^ 31" "4 * length vs < 2 ^ 32" using fits by simp_all
  obtain tup where tup: "mk_Tuple vs (values_schema vs) = Inr tup" "length (tuple_data tup) = 4 * length vs + var_size (temp_cols 0 vs) vs"
      "\<forall>k < length vs. GetValue_idx tup (tm_schema m) k = Inr (vs ! k)"
    using row_tuple [OF vs(2,3) size(1) vs(5,4)] by blast
  have pt: "page_tuple tup" using tup(2) fits vs(3) by (simp add: page_tuple_def row_ok_def)
  obtain "is" where plan: "Bind c ?st NullScope = (Inr (INSERT_STATEMENT is), NullScope)"
      "PlanQuery c (INSERT_STATEMENT is) = Inr (InsertPlanNode count_schema (ValuesPlanNode (values_schema vs) [map ConstantValueExpression vs]) oid)"
    using plan_insert_values [OF has_tableD(1) [OF t] vs(1,2,4) size(2)] t by (auto simp: has_table_def)
  obtain s1 m1 ps1 rid ct where e: "Execute (Suc (Suc n)) (InsertPlanNode count_schema (ValuesPlanNode (values_schema vs) [map ConstantValueExpression vs]) oid) (s, c) =
       (Inr [ct], (s1, put_table oid m1 c))"
      "heap_inv ps1 (s1, m1)" "heap_tuples ps1 (s1, m1) = heap_tuples ps (s0, m0) @ [(rid, \<lparr>is_deleted = False\<rparr>, tuple_data tup)]"
      "tuple_count m1 = tuple_count m0 + 2" "same_table m m1" "tame (catalog_names c) s1" "page_table s1 (rid_page_id rid) \<noteq> None"
      "length (tuple_data tup) + TUPLE_INFO_SIZE \<le> tp_free (view (s0, m0) (last_table_heap_data_page_id m0)) \<longrightarrow> ps1 = ps"
    by (rule insert_row [OF t mk tame heap room(1,2) room(3) [folded tup(2)] tup(1) pt])
  have h1: "has_table (put_table oid m1 c) t oid m1" using has_table_put [OF t] e(5) t by (simp add: has_table_def)
  have names: "catalog_names (put_table oid m1 c) = catalog_names c" using catalog_names_put [OF t] e(5) t by (simp add: has_table_def)
  obtain r s' c' where fin: "bind (zoom fst (\<lambda>s (_, c). (s, c)) FlushAllPages) (\<lambda>_. bind (gets snd) (\<lambda>c.
      with_disk (zoom snd (\<lambda>d (c, _). (c, d)) (PersistToDisk c)))) (s1, put_table oid m1 c) = (r, (s', c'))" by (metis prod_cases3)
  note fq = finish_query [OF h1 e(6) [folded names] e(2) fin]
  have "run_statements (Suc (Suc n)) i NullScope [?st] (s, c) = (r, (s', put_table oid m1 c))"
    using plan e(1) fin fq(1) by (cases r) (simp_all add: run_plan_def bind_gets bind_Inr bind_Inl action_simps)
  then show ?thesis
    by (rule that [OF _ fq(2)]) (use fq(3-6) e(3-5,7,8) h1 tup(2,3) in simp_all)
qed

section \<open>Properties\<close>

text \<open>
  C2: An \<^verbatim>\<open>INSERT INTO t VALUES (...)\<close> of literals, run against a table whose last page is cached and
  has room for the row, or with a frame free, appends exactly one record to the table, under
  the columns of the table it reads back as the literals, and the catalog differs in the metadata
  of that table only. This holds whatever happens to the flush and to the writing of the catalog
  that follow; when the query returns, every page of the table is on disk. The tuple count has
  grown by two: the heap and the executor both count the row.
\<close>

theorem insert_query:
  assumes "has_table c t oid m" and "tame (catalog_names c) s" and "heap_inv ps (s, m)"
    and "last_table_data_page_id m + 1 < 2 ^ 20 - 1" and "page_table s (mk_page_id oid (last_table_heap_data_page_id m)) \<noteq> None"
    and "4 * length vs + var_size (temp_cols 0 vs) vs + TUPLE_INFO_SIZE \<le> tp_free (view (s, m) (last_table_heap_data_page_id m)) \<or> free_list s \<noteq> []"
    and "4 * length vs + var_size (temp_cols 0 vs) vs + TUPLE_INFO_SIZE \<le> PAGE_SIZE - TABLE_PAGE_HEADER_SIZE"
    and "take 2 t \<noteq> ''__''" and "map literal_value es = map Some vs" and "row_ok vs"
    and "map type_id vs = map column_type (columns (tm_schema m))" and "table_layout (tm_schema m)"
    and "parse query = Inr [kStmtInsert \<lparr>hi_tableName = t, hi_values = Some es, hi_select = sel\<rparr>]"
  shows "\<exists>r s' m' ps' rid tup. ExecuteQuery parse (Suc (Suc n)) i query (s, c) = (r, (s', put_table oid m' c)) \<and>
     heap_inv ps' (s', m') \<and> heap_tuples ps' (s', m') = heap_tuples ps (s, m) @ [(rid, \<lparr>is_deleted = False\<rparr>, tuple_data tup)] \<and>
     (\<forall>k < length vs. GetValue_idx tup (tm_schema m') k = Inr (vs ! k)) \<and> tuple_count m' = tuple_count m + 2 \<and>
     has_table (put_table oid m' c) t oid m' \<and> tame (catalog_names (put_table oid m' c)) s' \<and>
     (r = Inr () \<longrightarrow> (\<forall>p. 0 \<le> p \<and> p < 2 ^ 20 \<longrightarrow> disk_page (disk_manager s') (mk_page_id oid p) = view (s', m') p))"
proof -
  obtain r s' m' ps' rid tup where q:
    "run_statements (Suc (Suc n)) i NullScope [kStmtInsert \<lparr>hi_tableName = t, hi_values = Some es, hi_select = sel\<rparr>] (s, c) = (r, (s', put_table oid m' c))"
    "heap_inv ps' (s', m')" "heap_tuples ps' (s', m') = heap_tuples ps (s, m) @ [(rid, \<lparr>is_deleted = False\<rparr>, tuple_data tup)]"
    "\<forall>k < length vs. GetValue_idx tup (tm_schema m') k = Inr (vs ! k)" "tuple_count m' = tuple_count m + 2"
    "has_table (put_table oid m' c) t oid m'" "tame (catalog_names (put_table oid m' c)) s'"
    "r = Inr () \<longrightarrow> (\<forall>p. 0 \<le> p \<and> p < 2 ^ 20 \<longrightarrow> disk_page (disk_manager s') (mk_page_id oid p) = view (s', m') p)"
    by (rule insert_statement [OF assms(1) mk_TableHeap_idle [OF assms(3)] _ assms(2-12)]) simp_all
  moreover have "ExecuteQuery parse (Suc (Suc n)) i query (s, c) = (r, (s', put_table oid m' c))" using assms(13) q(1) by (simp add: ExecuteQuery_def)
  ultimately show ?thesis by blast
qed

lemma keeps_scoped: "keeps P m \<Longrightarrow> keeps P fin \<Longrightarrow> keeps P (scoped m fin)"
  by (rule keepsI) (auto simp: scoped_def split: prod.splits sum.splits dest: keepsD)

lemma tame_mk_TableHeap: "keeps (tame_heap N) mk_TableHeap"
  unfolding mk_TableHeap_def by (rule tame_rules keeps_tame keeps_scoped)+

definition demo_table_catalog :: "TableMeta \<Rightarrow> Catalog" where
  "demo_table_catalog m = \<lparr>tables = [(0, Some m)], indexes = [], index_names = [(''t'', [])], table_names = [(''t'', 0)]\<rparr>"

definition demo_values :: "Expr list" where
  "demo_values = [Expr kExprLiteralInt 42 None kOpPlus None None]"

definition demo_parse :: "string \<Rightarrow> string + SQLStatement list" where
  "demo_parse query =
     (if query = ''INSERT INTO t VALUES (42)'' then Inr [kStmtInsert \<lparr>hi_tableName = ''t'', hi_values = Some demo_values, hi_select = None\<rparr>]
      else if query = ''SELECT 42'' then Inr [kStmtSelect \<lparr>hs_fromTable = None, hs_selectList = Some demo_values\<rparr>]
      else Inl ''syntax error'')"

theorem insert_query_witness:
  "\<exists>s m r s' m' ps' rid tup. heap_tuples [0] (s, m) = [] \<and>
     ExecuteQuery demo_parse 2 0 ''INSERT INTO t VALUES (42)'' (s, demo_table_catalog m) = (r, (s', put_table 0 m' (demo_table_catalog m))) \<and>
     heap_tuples ps' (s', m') = [(rid, \<lparr>is_deleted = False\<rparr>, tuple_data tup)] \<and> GetValue_idx tup (tm_schema m') 0 = Inr (int_value 42) \<and>
     tuple_count m' = 2"
proof -
  define m where "m = (demo_meta (- 1))\<lparr>last_table_data_page_id := 0, last_table_heap_data_page_id := 0\<rparr>"
  have pre: "tm_table_oid (demo_meta (- 1)) \<noteq> INVALID_TABLE_OID" "0 \<le> last_table_data_page_id (demo_meta (- 1)) + 1"
      "last_table_data_page_id (demo_meta (- 1)) + 1 < 2 ^ 20 - 1" by (simp_all add: demo_meta_facts)
  obtain s m' where h': "mk_TableHeap (demo_pool 2, demo_meta (- 1)) = (Inr (), (s, m'))" "heap_inv [- 1 + 1] (s, m')" "heap_tuples [- 1 + 1] (s, m') = []"
      "m' = (demo_meta (- 1))\<lparr>last_table_data_page_id := - 1 + 1, last_table_heap_data_page_id := - 1 + 1\<rparr>"
      "page_table s (mk_page_id (tm_table_oid (demo_meta (- 1))) (- 1 + 1)) \<noteq> None" "view (s, m') (- 1 + 1) = TablePage_Init zero_page"
    using TableHeap_fresh [OF demo_fresh(1) pre demo_meta_facts(3) demo_fresh(3,2)] unfolding demo_meta_facts(2) .
  then have h: "mk_TableHeap (demo_pool 2, demo_meta (- 1)) = (Inr (), (s, m))" "heap_inv [0] (s, m)" "heap_tuples [0] (s, m) = []"
      "page_table s (mk_page_id 0 0) \<noteq> None" "view (s, m) 0 = TablePage_Init zero_page" by (simp_all add: m_def demo_meta_facts)
  have mf: "tm_name m = ''t''" "tm_table_oid m = 0" "tuple_count m = 0" "last_table_data_page_id m = 0" "last_table_heap_data_page_id m = 0"
      "columns (tm_schema m) = [mk_column_rec ''c'' INTEGER 4]"
    by (simp_all add: m_def demo_meta_def mk_TableMeta_def)
  have ht: "has_table (demo_table_catalog m) ''t'' 0 m" using mf by (simp add: has_table_def demo_table_catalog_def)
  have "catalog_names (demo_table_catalog m) = cm_names Disks.demo_disk"
    using mf by (auto simp: fun_eq_iff catalog_names_def GetTableName_def demo_table_catalog_def Disks.demo_disk_def)
  then have tame: "tame (catalog_names (demo_table_catalog m)) s"
    using keepsD [OF tame_mk_TableHeap _ h(1)] by (simp add: tame_def demo_pool_facts demo_meta_facts)
  have iv: "map literal_value demo_values = map Some [int_value 42]" by (simp add: demo_values_def)
  from insert_query [where vs = "[int_value 42]" and n = 0 and i = 0 and sel = None and parse = demo_parse and query = "''INSERT INTO t VALUES (42)''",
      OF ht tame h(2) _ _ _ _ _ iv] h mf fresh_page_free
  show ?thesis
    by (fastforce simp: int_value_def row_ok_def table_layout_def mk_column_rec_def wf_column_def IsInlined_def demo_parse_def numeral_2_eq_2)
qed



end
