(* ===== verification/CreateQueries.thy ===== *)
theory CreateQueries
  imports IndexProperties DatabaseProperties
begin

text \<open>
  \<^verbatim>\<open>CREATE TABLE\<close> from end to end: \<^verbatim>\<open>DB::ExecuteQuery\<close>, \<^verbatim>\<open>HandleCreateStatement\<close>, \<^verbatim>\<open>Catalog::CreateTable\<close> and
  \<^verbatim>\<open>Catalog::CreateIndex\<close> over the pool and the disk, a restart of the database afterwards, and an
  \<^verbatim>\<open>INSERT\<close> and a scan of the new table.
\<close>

section \<open>Restarting\<close>

text \<open>Nothing of the catalog depends on the names the disk manager knows.\<close>

definition blind :: "(Disk, 'a) action \<Rightarrow> bool" where
  "blind m \<longleftrightarrow> (\<forall>d N. m (d\<lparr>cm_names := N\<rparr>) = (fst (m d), (snd (m d))\<lparr>cm_names := N\<rparr>))"

lemma blind_bind: "blind m \<Longrightarrow> (\<And>x. blind (k x)) \<Longrightarrow> blind (bind m k)"
  by (auto simp: blind_def bind_def split: sum.splits prod.splits)

lemma blind_basic: "blind (ret x)" "blind (throw e)" "blind (gets (\<lambda>d. f (files d)))" "blind (gets (\<lambda>d. creatable d p))"
  "blind (modify (\<lambda>d. d\<lparr>files := (files d)(p \<mapsto> bs)\<rparr>))"
  by (simp_all add: blind_def ret_def throw_def gets_def modify_def)

lemma blind_stream: "blind (with_FileStream p body)"
  by (auto simp: blind_def with_FileStream_def split: sum.splits prod.splits)

lemma blind_option: "blind f \<Longrightarrow> (\<And>y. blind (g y)) \<Longrightarrow> blind (case x of None \<Rightarrow> f | Some y \<Rightarrow> g y)"
  by (cases x) simp_all

lemma blind_if: "blind f \<Longrightarrow> blind g \<Longrightarrow> blind (if b then f else g)"
  by simp

lemmas blind_rules = blind_bind blind_basic blind_stream blind_option blind_if

lemma blind_create: "blind (CreateFileIfNotExists p)"
  unfolding CreateFileIfNotExists_def by (rule blind_rules blind_basic(3) [where f = "\<lambda>fs. fs p"])+

lemma blind_catalog: "blind mk_Catalog"
proof -
  have t: "blind (PersistTables ts)" for ts by (induction ts rule: PersistTables.induct) (simp_all add: blind_rules)
  have e: "blind (EnsureTableFilesExist ns)" for ns
  proof (induction ns rule: EnsureTableFilesExist.induct)
    case (2 n i ns)
    show ?case unfolding EnsureTableFilesExist.simps
      by (rule blind_rules blind_basic(3) [where f = "\<lambda>fs. fs (GetTableDataPath n) \<noteq> None"] blind_basic(3) [where f = "\<lambda>fs. fs (GetTableMetaPath n) \<noteq> None"])+
        (use 2 in simp)
  qed (simp add: blind_rules)
  show ?thesis unfolding mk_Catalog_def PersistToDisk_def
    by (rule blind_rules blind_create t e blind_basic(3) [where f = "\<lambda>fs. fs GetSystemCatalogPath \<noteq> None"])+
qed

lemma restart: "mk_Catalog d = (Inr c, d) \<Longrightarrow> \<exists>s. mk_DB (d\<lparr>cm_names := N\<rparr>) = Inr (s, c)"
  using blind_catalog by (simp add: blind_def mk_DB_def)

section \<open>A new table\<close>

text \<open>A database between queries, and what makes a name new to it: no table, no data file and no cached page stand for it.\<close>

definition db_ok :: "database \<Rightarrow> bool" where
  "db_ok = (\<lambda>(s, c). gp_inv s \<and> tame (catalog_names c) s \<and> catalog_inv c \<and> catalog_ok c \<and> table_files (disk_manager s) (tables c))"

abbreviation next_oid :: "Catalog \<Rightarrow> int" where
  "next_oid c \<equiv> int (length (tables c))"

definition new_name :: "string \<Rightarrow> database \<Rightarrow> bool" where
  "new_name n = (\<lambda>(s, c). plain_name n \<and> length n < 2 ^ 32 \<and> map_of (table_names c) n = None \<and> files (disk_manager s) (GetTableDataPath n) = None \<and>
     (\<forall>p. page_table s (mk_page_id (next_oid c) p) = None))"

lemma catalog_named:
  assumes inv: "catalog_inv c" and m: "map_of (tables c) i = Some (Some m)"
  shows "(tm_name m, i) \<in> set (table_names c)"
proof -
  let ?ns = "table_names c"
  have "inj_on snd (set ?ns)"
  proof (rule inj_onI)
    fix x y assume x: "x \<in> set ?ns" "y \<in> set ?ns" "snd x = snd y"
    obtain n n' j where p: "x = (n, j)" "y = (n', j)" using x(3) by (metis prod.collapse)
    obtain m1 where "map_of (tables c) j = Some (Some m1)" "tm_name m1 = n" by (rule catalog_invD [OF inv x(1) [unfolded p]])
    moreover obtain m2 where "map_of (tables c) j = Some (Some m2)" "tm_name m2 = n'" by (rule catalog_invD [OF inv x(2) [unfolded p]])
    ultimately show "x = y" using p by simp
  qed
  moreover have "distinct ?ns" "length ?ns = length (tables c)" using inv by (simp_all add: catalog_inv_def distinct_map)
  then have "card (set ?ns) = length (tables c)" using distinct_card by metis
  ultimately have card: "card (snd ` set ?ns) = length (tables c)" by (simp add: card_image)
  have keys: "fst ` set (tables c) = int ` {0..<length (tables c)}" using inv unfolding catalog_inv_def by (metis list.set_map set_upt)
  have "j \<in> fst ` set (tables c)" if j: "(n, j) \<in> set ?ns" for n j
  proof -
    obtain m' where "map_of (tables c) j = Some (Some m')" by (rule catalog_invD [OF inv j])
    from map_of_SomeD [OF this] show ?thesis by force
  qed
  then have "snd ` set ?ns \<subseteq> fst ` set (tables c)" by auto
  moreover have "card (fst ` set (tables c)) = length (tables c)" unfolding keys by (simp add: card_image)
  ultimately have "snd ` set ?ns = fst ` set (tables c)" using card card_subset_eq [of "fst ` set (tables c)" "snd ` set ?ns"] by simp
  moreover have "i \<in> fst ` set (tables c)" using map_of_SomeD [OF m] by force
  ultimately obtain n where n: "(n, i) \<in> set ?ns" by force
  obtain m' where "map_of (tables c) i = Some (Some m')" "tm_name m' = n" by (rule catalog_invD [OF inv n])
  then show ?thesis using m n by simp
qed

lemma names_with_table:
  assumes "catalog_inv c"
  shows "catalog_names (with_table n sch c) = (catalog_names c)(next_oid c \<mapsto> n)"
  using new_oid [OF assms] by (auto simp: fun_eq_iff catalog_names_def GetTableName_def with_table_def Let_def map_add_def mk_TableMeta_def split: option.splits)

lemma disk_with_table:
  assumes inv: "disk_inv d" and oid: "cm_names d oid = None" "oid \<noteq> SYSTEM_CATALOG_ID" and n: "plain_name n" "\<And>i. cm_names d i \<noteq> Some n"
    and d': "\<forall>n'. file_bytes d' (GetTableDataPath n') = file_bytes d (GetTableDataPath n')" "\<forall>p. has_file d p \<longrightarrow> has_file d' p"
      "table_data_files d' = table_data_files d" "cm_names d' = (cm_names d)(oid \<mapsto> n)"
    and fresh: "files d (GetTableDataPath n) = None"
  shows "disk_inv d'" and "table_id q \<noteq> SYSTEM_CATALOG_ID \<Longrightarrow> disk_page d' q = disk_page d q"
    and "table_id q = oid \<Longrightarrow> disk_page d q = zero_page"
proof -
  have p: "path_of d' i = (if i = oid then Some (GetTableDataPath n) else path_of d i)" for i using d'(4) oid(2) by (simp add: path_of_def)
  have "path_of d oid = None" using oid by (simp add: path_of_def)
  then have opened: "table_data_files d oid = None" using inv unfolding disk_inv_def by (metis option.distinct(1) option.exhaust)
  have "table_data_files d i = Some q \<Longrightarrow> path_of d' i = Some q \<and> files d' q \<noteq> None" for i q
    using inv opened p [of i] d'(2) unfolding disk_inv_def has_file_def by (cases "i = oid") auto
  then show "disk_inv d'" using inv n oid(2) d'(3,4) unfolding disk_inv_def by (auto split: if_splits)
  have ct: "content d oid = []" using oid by (simp add: content_def path_of_def)
  then show "table_id q = oid \<Longrightarrow> disk_page d q = zero_page"
    by (auto simp: disk_page_def byte_at_def zero_page_def intro: nth_equalityI)
  assume q: "table_id q \<noteq> SYSTEM_CATALOG_ID"
  have "content d' (table_id q) = content d (table_id q)"
  proof (cases "table_id q = oid")
    case True
    then show ?thesis using p [of oid] d'(1) fresh ct by (simp add: content_def)
  next
    case False
    then show ?thesis using p [of "table_id q"] d'(1) q by (auto simp: content_def path_of_def split: option.splits)
  qed
  then show "disk_page d' q = disk_page d q" by (simp add: disk_page_def)
qed

definition new_table :: "string \<Rightarrow> Schema \<Rightarrow> Catalog \<Rightarrow> TableMeta" where
  "new_table n sch c = mk_TableMeta sch n (next_oid c)"

lemma new_table_facts [simp]:
  "tm_name (new_table n sch c) = n" "tm_schema (new_table n sch c) = sch" "tm_table_oid (new_table n sch c) = next_oid c" "tuple_count (new_table n sch c) = 0"
  "last_table_data_page_id (new_table n sch c) = - 1" "last_table_heap_data_page_id (new_table n sch c) = - 1"
  "(new_table n sch c)\<lparr>last_table_data_page_id := - 1\<rparr> = new_table n sch c"
  by (simp_all add: new_table_def mk_TableMeta_def)

text \<open>The pages of a table from \<open>p\<close> on have never been used.\<close>

abbreviation unused :: "int \<Rightarrow> int \<Rightarrow> BufferPool \<Rightarrow> bool" where
  "unused oid p s \<equiv> \<forall>q \<ge> p. page_table s (mk_page_id oid q) = None \<and> disk_page (disk_manager s) (mk_page_id oid q) = zero_page"

lemma create_step:
  assumes db: "db_ok (s, c)" and new: "new_name n (s, c)" and size: "length (tables c) < 2 ^ 31" "schema_ok sch"
    and disk: "\<not> io_bad (disk_manager s)" "\<forall>p. creatable (disk_manager s) p"
  obtains d where "with_disk (CreateTable n sch) (s, c) = (Inr (Some (next_oid c)), (s\<lparr>disk_manager := d\<rparr>, with_table n sch c))"
    "gp_inv (s\<lparr>disk_manager := d\<rparr>)" "tame (catalog_names (with_table n sch c)) (s\<lparr>disk_manager := d\<rparr>)"
    "\<forall>q. table_id q \<noteq> SYSTEM_CATALOG_ID \<longrightarrow> logical (s\<lparr>disk_manager := d\<rparr>) q = logical s q" "unused (next_oid c) 0 (s\<lparr>disk_manager := d\<rparr>)"
    "has_table (with_table n sch c) n (next_oid c) (new_table n sch c)" "\<exists>s0. mk_DB d = Inr (s0, catalog_back (with_table n sch c))"
proof -
  have dbs: "gp_inv s" "tame (catalog_names c) s" "catalog_inv c" "catalog_ok c" "table_files (disk_manager s) (tables c)" using db by (simp_all add: db_ok_def)
  have nn: "plain_name n" "length n < 2 ^ 32" "map_of (table_names c) n = None" "files (disk_manager s) (GetTableDataPath n) = None"
      "\<forall>p. page_table s (mk_page_id (next_oid c) p) = None" using new by (simp_all add: new_name_def)
  let ?c = "with_table n sch c"
  obtain d0 where d0: "CreateTable n sch (c, disk_manager s) = (Inr (Some (next_oid c)), (?c, d0))" "mk_Catalog d0 = (Inr (catalog_back ?c), d0)"
      "\<forall>n'. file_bytes d0 (GetTableDataPath n') = file_bytes (disk_manager s) (GetTableDataPath n')" "\<forall>p. has_file (disk_manager s) p \<longrightarrow> has_file d0 p"
      "cm_names d0 = cm_names (disk_manager s)" "table_data_files d0 = table_data_files (disk_manager s)"
    by (rule CreateTable_runs [OF dbs(4,3) nn(3) size(1) nn(2) size(2) dbs(5) disk])
  define d where "d = d0\<lparr>cm_names := catalog_names ?c\<rparr>"
  have names: "cm_names (disk_manager s) = catalog_names c" using dbs(2) by (simp add: tame_def)
  have oid: "cm_names (disk_manager s) (next_oid c) = None" unfolding names
    using new_oid [OF dbs(3)] by (simp add: catalog_names_def GetTableName_def)
  have un: "cm_names (disk_manager s) i \<noteq> Some n" for i
  proof
    assume "cm_names (disk_manager s) i = Some n"
    then obtain m where "map_of (tables c) i = Some (Some m)" "tm_name m = n" unfolding names
      by (auto simp: catalog_names_def GetTableName_def split: option.splits sum.splits)
    then show False using catalog_named [OF dbs(3)] nn(3) by (force simp: map_of_eq_None_iff)
  qed
  have di: "disk_inv (disk_manager s)" using dbs(1) by (simp add: gp_inv_def bp_inv_except_def)
  have hf: "has_file d p = has_file d0 p" for p by (simp add: d_def has_file_def)
  have d1: "\<forall>n'. file_bytes d (GetTableDataPath n') = file_bytes (disk_manager s) (GetTableDataPath n')" "\<forall>p. has_file (disk_manager s) p \<longrightarrow> has_file d p"
      "table_data_files d = table_data_files (disk_manager s)" "cm_names d = (cm_names (disk_manager s))(next_oid c \<mapsto> n)"
    using d0(3,4,6) hf names_with_table [OF dbs(3)] names by (simp_all add: d_def)
  note dw = disk_with_table [OF di oid _ nn(1) un d1 nn(4)]
  note pd = pool_disk [OF dbs(1,2) dw(1) dw(2)]
  have run: "with_disk (CreateTable n sch) (s, c) = (Inr (Some (next_oid c)), (s\<lparr>disk_manager := d\<rparr>, ?c))"
    using d0(1) by (simp add: with_disk_def d_def)
  have ta: "tame (catalog_names ?c) (s\<lparr>disk_manager := d\<rparr>)" using dbs(2) by (simp add: tame_def d_def)
  have us: "unused (next_oid c) 0 (s\<lparr>disk_manager := d\<rparr>)" using nn(5) dw(2,3) by (simp add: mk_page_id_def)
  have ht: "has_table ?c n (next_oid c) (new_table n sch c)"
    using nn(3) new_oid [OF dbs(3)] by (simp add: has_table_def with_table_def Let_def map_add_def new_table_def mk_TableMeta_def)
  show ?thesis by (rule that [OF run _ ta _ us ht]) (use pd restart [OF d0(2)] in \<open>simp_all add: d_def\<close>)
qed

section \<open>A primary key\<close>

lemma index_step:
  assumes inv: "gp_inv s" and m: "tm_table_oid m \<noteq> INVALID_TABLE_OID" "last_table_data_page_id m = - 1" and us: "unused (tm_table_oid m) 0 s"
    and free: "free_list s \<noteq> []" and im: "im_header_page_id im = INVALID_PAGE_ID" "column_type (im_key_col im) = INTEGER"
  obtains s' ix where "mk_BTreeIndex im (s, m) = (Inr ix, (s', m\<lparr>last_table_data_page_id := 0\<rparr>))" "bi_meta ix = im\<lparr>im_header_page_id := 0\<rparr>"
    "gp_inv s'" "disk_manager s' = disk_manager s" "\<forall>q. q \<noteq> mk_page_id (tm_table_oid m) 0 \<longrightarrow> page_table s' q = page_table s q \<and> logical s' q = logical s q"
    "pins s' = pins s" "free_list s' = tl (free_list s)" "logical s' (mk_page_id (tm_table_oid m) 0) = blank_header"
proof -
  let ?H = "mk_page_id (tm_table_oid m) 0" and ?D = "disk_manager s"
  have np: "next_page m = 0" using m(2) by (simp add: next_page_def)
  note see = sees_inv [OF inv]
  have room: "room_for (Suc 0) m (page_table s) ?D (free_list s)"
    using m us free by (cases "free_list s") (auto simp: room_for_def)
  have "wp (mk_BTreeIndex im) (\<lambda>ix h. \<exists>s' T' W' F'. bi_meta ix = im\<lparr>im_header_page_id := 0\<rparr> \<and> h = (s', m\<lparr>last_table_data_page_id := 0\<rparr>) \<and> sees s' T' W' ?D F' \<and>
      empty_index ix (tm_table_oid m) T' W' \<and> keeps_pins (page_table s) ((!) (pages s)) T' W' \<and>
      (\<exists>f. free_list s = f # F' \<and> T' = (page_table s)(?H \<mapsto> f) \<and> (\<forall>g. g \<noteq> f \<longrightarrow> W' g = pages s ! g))) (s, m)"
    by (rule wp_mk_BTreeIndex [OF see room im]) (auto simp: np)
  then obtain ix s' T' W' F' f where c: "mk_BTreeIndex im (s, m) = (Inr ix, (s', m\<lparr>last_table_data_page_id := 0\<rparr>))" "bi_meta ix = im\<lparr>im_header_page_id := 0\<rparr>"
      "sees s' T' W' ?D F'" "empty_index ix (tm_table_oid m) T' W'" "keeps_pins (page_table s) ((!) (pages s)) T' W'"
      "free_list s = f # F'" "T' = (page_table s)(?H \<mapsto> f)" "\<And>g. g \<noteq> f \<Longrightarrow> W' g = pages s ! g"
    by (auto dest!: wpD)
  have sf: "page_table s' = T'" "disk_manager s' = ?D" "free_list s' = F'" using c(3) by (simp_all add: sees_def)
  have ot: "contents T' W' ?D q = contents (page_table s) ((!) (pages s)) ?D q" if "q \<noteq> ?H" for q
  proof (cases "page_table s q")
    case (Some g)
    then have "g \<noteq> f" using sees_inj [OF c(3), of q g ?H f] that c(7) by simp
    then show ?thesis using Some that c(7,8) by (simp add: contents_def)
  qed (use that c(7) in \<open>simp add: contents_def\<close>)
  have h: "logical s' ?H = blank_header"
    using c(2,4,7) sees_logical [OF c(3)] by (auto simp: empty_index_def contents_def)
  show ?thesis
    by (rule that [OF c(1,2) sees_bp(1) [OF c(3)] sf(2) _ sees_same_pins [OF see c(3,5)] _ h])
      (use sf c(6,7) ot sees_logical [OF c(3)] sees_logical [OF see] in simp_all)
qed

lemma others_put:
  assumes inv: "catalog_inv c" and t: "has_table c n oid m" and n': "n' \<noteq> n"
  shows "GetTableByName n' (put_table oid m' c) = GetTableByName n' c"
proof (cases "map_of (table_names c) n'")
  case (Some j)
  obtain x where "map_of (tables c) j = Some (Some x)" "tm_name x = n'" by (rule catalog_invD [OF inv map_of_SomeD [OF Some]])
  then have "j \<noteq> oid" using t n' by (auto simp: has_table_def)
  then show ?thesis using Some by (simp add: GetTableByName_def)
qed (simp add: GetTableByName_def)

definition with_index :: "string \<Rightarrow> string \<Rightarrow> IndexMeta \<Rightarrow> Catalog \<Rightarrow> Catalog" where
  "with_index n x im c = (let oid = sint (word_of_nat (length (indexes c)) :: 32 word) in
     c\<lparr>indexes := emplace oid (Some im) (indexes c), index_names := AList.update n [(x, oid)] (index_names c)\<rparr>)"

lemma with_index_tables [simp]:
  "tables (with_index n x im c) = tables c" "table_names (with_index n x im c) = table_names c"
  by (simp_all add: with_index_def Let_def)

lemma with_index_simps [simp]:
  "GetTableByName n' (with_index n x im c) = GetTableByName n' c" "catalog_names (with_index n x im c) = catalog_names c"
  "has_table (with_index n x im c) n' oid m = has_table c n' oid m" "\<exists>i. map_of (index_names (with_index n x im c)) n = Some [(x, i)]"
  by (simp_all add: GetTableByName_def catalog_names_def GetTableName_def has_table_def fun_eq_iff split: option.split) (simp add: with_index_def Let_def update_conv')

lemma CreateIndex_runs:
  assumes t: "has_table c n oid m" and ix: "map_of (index_names c) n = Some []"
    and mk: "mk_BTreeIndex (mk_IndexMeta i x oid col PRIMARY BPlusTreeIndex) (s, m) = (Inr ix, (s', m'))"
  shows "\<exists>j. CreateIndex i x n col True BPlusTreeIndex (s, c) = (Inr (Some j), (s', with_index n x (bi_meta ix) (put_table oid m' c)))"
proof -
  have "on_table oid (mk_BTreeIndex (mk_IndexMeta i x oid col PRIMARY BPlusTreeIndex)) (s, c) = (Inr ix, (s', put_table oid m' c))"
    using t by (intro on_table_run [where act = "mk_BTreeIndex (mk_IndexMeta i x oid col PRIMARY BPlusTreeIndex)", OF _ mk]) (simp add: has_table_def)
  then show ?thesis using t ix by (simp add: CreateIndex_def has_table_def Let_def bind_gets bind_Inr with_index_def put_table_def emplace_def gets_def modify_def ret_def)
qed

section \<open>The statement\<close>

lemma handle_create:
  assumes db: "db_ok (s, c)" and new: "new_name n (s, c)" and size: "length (tables c) < 2 ^ 31" "schema_ok sch"
    and disk: "\<not> io_bad (disk_manager s)" "\<forall>p. creatable (disk_manager s) p"
    and sch: "mk_Schema cs = Inr sch" and pk: "pk = [] \<or> (\<exists>k col. pk = [k] \<and> find (\<lambda>col. column_name col = k) (columns sch) = Some col \<and> column_type col = INTEGER)"
    and free: "length pk \<le> length (free_list s)"
  obtains s' c' where "HandleCreateStatement i \<lparr>cs_table_name = n, cs_columns = cs, cs_primary_key = pk\<rparr> (s, c) = (Inr (), (s', c'))"
    "gp_inv s'" "tame (catalog_names c') s'" "has_table c' n (next_oid c) ((new_table n sch c)\<lparr>last_table_data_page_id := int (length pk) - 1\<rparr>)"
    "\<forall>n'. n' \<noteq> n \<longrightarrow> GetTableByName n' c' = GetTableByName n' c"
    "\<forall>q. table_id q \<noteq> SYSTEM_CATALOG_ID \<and> table_id q \<noteq> next_oid c \<longrightarrow> logical s' q = logical s q" "pins s' = pins s"
    "unused (next_oid c) (int (length pk)) s'" "free_list s' = drop (length pk) (free_list s)"
    "\<exists>s0. mk_DB (disk_manager s') = Inr (s0, catalog_back (with_table n sch c))"
    "\<exists>j. map_of (index_names c') n = Some (map (\<lambda>_. (n @ ''_pk'', j)) pk)" "pk \<noteq> [] \<longrightarrow> logical s' (mk_page_id (next_oid c) 0) = blank_header"
proof -
  let ?c = "with_table n sch c" and ?oid = "next_oid c" and ?m = "new_table n sch c"
  obtain d where d: "with_disk (CreateTable n sch) (s, c) = (Inr (Some ?oid), (s\<lparr>disk_manager := d\<rparr>, ?c))" "gp_inv (s\<lparr>disk_manager := d\<rparr>)"
      "tame (catalog_names ?c) (s\<lparr>disk_manager := d\<rparr>)" "\<forall>q. table_id q \<noteq> SYSTEM_CATALOG_ID \<longrightarrow> logical (s\<lparr>disk_manager := d\<rparr>) q = logical s q"
      "unused ?oid 0 (s\<lparr>disk_manager := d\<rparr>)" "has_table ?c n ?oid ?m" "\<exists>s0. mk_DB d = Inr (s0, catalog_back ?c)"
    by (rule create_step [OF db new size disk])
  let ?s = "s\<lparr>disk_manager := d\<rparr>"
  have inv: "catalog_inv c" "map_of (table_names c) n = None" using db new by (simp_all add: db_ok_def new_name_def)
  note ot = with_table_finds(2) [OF inv, of _ sch]
  have ixn: "map_of (index_names ?c) n = Some []" using no_indexes [OF inv] by (simp add: with_table_def Let_def map_add_def)
  have pins: "pins ?s = pins s" by (simp add: pins_def fun_eq_iff)
  from pk show ?thesis
  proof (elim disjE exE conjE)
    assume "pk = []"
    then show ?thesis using d sch ixn ot pins
      by (intro that [of ?s ?c]) (simp_all add: HandleCreateStatement_def act_simps)
  next
    fix k col assume k: "pk = [k]" "find (\<lambda>col. column_name col = k) (columns sch) = Some col" "column_type col = INTEGER"
    let ?im = "mk_IndexMeta i (n @ ''_pk'') ?oid col PRIMARY BPlusTreeIndex" and ?m1 = "?m\<lparr>last_table_data_page_id := 0\<rparr>"
    have im: "im_header_page_id ?im = INVALID_PAGE_ID" "column_type (im_key_col ?im) = INTEGER" using k(3) by (simp_all add: mk_IndexMeta_def)
    have fr: "free_list ?s \<noteq> []" "unused (tm_table_oid ?m) 0 ?s" using free k(1) d(5) by auto
    have m1: "tm_table_oid ?m \<noteq> INVALID_TABLE_OID" "last_table_data_page_id ?m = - 1" by simp_all
    obtain s2 ix where x: "mk_BTreeIndex ?im (?s, ?m) = (Inr ix, (s2, ?m1))" "bi_meta ix = ?im\<lparr>im_header_page_id := 0\<rparr>" "gp_inv s2" "disk_manager s2 = disk_manager ?s"
        "\<forall>q. q \<noteq> mk_page_id ?oid 0 \<longrightarrow> page_table s2 q = page_table ?s q \<and> logical s2 q = logical ?s q"
        "pins s2 = pins ?s" "free_list s2 = tl (free_list ?s)" "logical s2 (mk_page_id ?oid 0) = blank_header"
      by (rule index_step [OF d(2) m1 fr(2,1) im, unfolded new_table_facts])
    let ?c2 = "with_index n (n @ ''_pk'') (bi_meta ix) (put_table ?oid ?m1 ?c)"
    obtain j where ci: "CreateIndex i (n @ ''_pk'') n col True BPlusTreeIndex (?s, ?c) = (Inr (Some j), (s2, ?c2))"
      using CreateIndex_runs [OF d(6) ixn x(1)] by blast
    have run: "HandleCreateStatement i \<lparr>cs_table_name = n, cs_columns = cs, cs_primary_key = pk\<rparr> (s, c) = (Inr (), (s2, ?c2))"
      using d(1) sch k ci by (simp add: HandleCreateStatement_def act_simps)
    have ht: "has_table (put_table ?oid ?m1 ?c) n ?oid ?m1" by (rule has_table_put [OF d(6)]) simp_all
    have names: "catalog_names (put_table ?oid ?m1 ?c) = catalog_names ?c" by (rule catalog_names_put [OF d(6)]) simp
    have "table_id q \<noteq> SYSTEM_CATALOG_ID" if "page_table s2 q \<noteq> None" for q
      using that x(5) d(3) by (cases "q = mk_page_id ?oid 0") (auto simp: tame_def mk_page_id_def)
    then have ta: "tame (catalog_names ?c2) s2" using d(3) x(4) names by (simp add: tame_def)
    have ne: "mk_page_id ?oid q \<noteq> mk_page_id ?oid 0" if "1 \<le> q" for q using that by (simp add: mk_page_id_def)
    have us: "unused ?oid 1 s2" using d(5) x(4,5) ne by simp
    have "GetTableByName n' (put_table ?oid ?m1 ?c) = GetTableByName n' c" if "n' \<noteq> n" for n'
      using others_put [OF with_table_inv [OF inv] d(6) that] ot [OF that] by simp
    moreover have "logical s2 q = logical s q" if "table_id q \<noteq> SYSTEM_CATALOG_ID" "table_id q \<noteq> ?oid" for q
      using that x(5) d(4) by (cases "q = mk_page_id ?oid 0") (simp_all add: mk_page_id_def)
    ultimately show ?thesis
      using that [OF run x(3) ta] ht us x(4,6-8) d(7) pins k(1) by (simp add: drop_Suc)
  qed
qed

section \<open>Binding\<close>

lemma bound_column: "BindColumnDefinition def = Inr col \<Longrightarrow> wf_column col"
  by (cases "cd_data_type def"; cases "column_type col")
    (auto simp: BindColumnDefinition_def Column_varlen_def Column_fixed_def rbind_eq_Inr rassert_def mk_column_rec_def wf_column_def split: if_splits)

lemma bound_columns:
  assumes "bind_columns defs cs0 pk0 = Inr (cs, pk)" and "length pk0 \<le> 1" "set pk0 \<subseteq> column_name ` set cs0" "\<forall>col \<in> set cs0. wf_column col"
  shows "length pk \<le> 1 \<and> set pk \<subseteq> column_name ` set cs \<and> (\<forall>col \<in> set cs. wf_column col)"
  using assms
proof (induction defs cs0 pk0 rule: bind_columns.induct)
  case (2 d defs cs0 pk0)
  then obtain col where col: "BindColumnDefinition d = Inr col" by (auto simp: rbind_eq_Inr)
  let ?pk = "if cd_primary_key d then pk0 @ [column_name col] else pk0"
  have "bind_columns defs (cs0 @ [col]) ?pk = Inr (cs, pk)" "length ?pk \<le> 1" using 2(2) col by (auto simp: Let_def split: if_splits)
  moreover have "set ?pk \<subseteq> column_name ` set (cs0 @ [col])" using 2(4) by auto
  ultimately show ?case using 2(1) [OF refl] 2(5) bound_column [OF col] by simp
qed simp

lemma layout_again: "layout (layout cs i off) i off = layout cs i off"
  by (induction cs arbitrary: i off) (simp_all add: col_width_def IsInlined_def)

lemma layout_columns: "col \<in> set (layout cs i off) \<Longrightarrow> \<exists>col' \<in> set cs. column_name col = column_name col' \<and> column_type col = column_type col' \<and> column_length col = column_length col'"
  by (induction cs arbitrary: i off) auto

lemma layout_names: "map column_name (layout cs i off) = map column_name cs"
  by (induction cs arbitrary: i off) simp_all

lemma bound_schema:
  assumes bind: "bind_columns defs [] [] = Inr (cs, pk)" and sch: "mk_Schema cs = Inr sch" "inline_size cs < 2 ^ 32"
    and int: "\<forall>col \<in> set cs. column_name col \<in> set pk \<longrightarrow> column_type col = INTEGER"
  shows "table_layout sch" and "pk = [] \<or> (\<exists>k col. pk = [k] \<and> find (\<lambda>col. column_name col = k) (columns sch) = Some col \<and> column_type col = INTEGER)"
proof -
  have b: "length pk \<le> 1" "set pk \<subseteq> column_name ` set cs" "\<forall>col \<in> set cs. wf_column col" using bound_columns [OF bind] by simp_all
  then have "\<forall>col \<in> set cs. column_length col > 0" by (simp add: wf_column_def)
  then have cols: "columns sch = layout cs 0 0" using mk_Schema_layout [OF _ sch(2)] sch(1) by auto
  have wf: "wf_column col" if in_layout: "col \<in> set (layout cs 0 0)" for col
  proof -
    obtain col' where "col' \<in> set cs" "column_type col = column_type col'" "column_length col = column_length col'" using layout_columns [OF in_layout] by blast
    moreover from this(2,3) have "wf_column col = wf_column col'" by (simp add: wf_column_def split: TypeId.split)
    ultimately show ?thesis using b(3) by blast
  qed
  then show "table_layout sch" by (simp add: table_layout_def cols layout_again)
  show "pk = [] \<or> (\<exists>k col. pk = [k] \<and> find (\<lambda>col. column_name col = k) (columns sch) = Some col \<and> column_type col = INTEGER)"
  proof (cases pk)
    case (Cons k ks)
    then have k: "pk = [k]" "k \<in> column_name ` set cs" using b(1,2) by auto
    have "column_name ` set (layout cs 0 0) = column_name ` set cs" using arg_cong [OF layout_names, of set] by simp
    with k(2) have "k \<in> column_name ` set (layout cs 0 0)" by simp
    then have "find (\<lambda>col. column_name col = k) (layout cs 0 0) \<noteq> None" unfolding find_None_iff by blast
    then obtain col where col: "find (\<lambda>col. column_name col = k) (layout cs 0 0) = Some col" by blast
    then have "col \<in> set (layout cs 0 0)" "column_name col = k" by (auto simp: find_Some_iff)
    then show ?thesis using layout_columns k(1) col int cols by fastforce
  qed simp
qed

lemma create_statement:
  assumes "bind_columns defs [] [] = Inr (cs, pk)"
    and "HandleCreateStatement i \<lparr>cs_table_name = n, cs_columns = cs, cs_primary_key = pk\<rparr> (s, c) = (Inr (), db)"
  shows "run_statements rows i NullScope (kStmtCreate \<lparr>hc_tableName = n, hc_is_create_table = True, hc_columns = defs\<rparr> # rest) (s, c) = run_statements rows i NullScope rest db"
  using assms by (simp add: Bind_def BindCreate_def act_simps)

section \<open>Scanning one record\<close>

lemma scan_one:
  assumes inv: "heap_inv [p] (s, m)" and one: "heap_tuples [p] (s, m) = [(rid, meta, tuple_data tup)]" and p: "p = 1" and c: "page_table s (rid_page_id rid) \<noteq> None"
  shows "\<exists>h. bind MakeIterator (\<lambda>it. PollExecutor 2 SeqScanExecutor_Next it default_tuple default_rid []) (s, m) = (Inr [tup\<lparr>tuple_rid := rid\<rparr>], h)"
proof -
  have "(rid, meta, tuple_data tup) \<in> set (heap_tuples [p] (s, m))" using one by simp
  then have "rid_page_id rid = mk_page_id (tm_table_oid m) p" unfolding heap_tuples_iff by (auto simp: mk_rid_def)
  then have "cached [1] (s, m)" using c p by (simp add: cached_def)
  moreover have "length (heap_tuples [p] (s, m)) = GetNumTuples (view (s, m) p)" by (simp add: heap_tuples_def page_records_def)
  then have "\<forall>q \<in> set [1]. GetNumTuples (view (s, m) q) \<noteq> 0" using one p by simp
  moreover note scan_heap [of "[]" "[]" s m 2]
  ultimately obtain h where "bind MakeIterator (\<lambda>it. PollExecutor 2 SeqScanExecutor_Next it default_tuple default_rid []) (s, m) =
      (Inr (map rec_tuple (heap_tuples [1] (s, m))), h)" using inv one unfolding p by auto
  moreover have "rec_tuple (rid, meta, tuple_data tup) = tup\<lparr>tuple_rid := rid\<rparr>" by (simp add: rec_tuple_def)
  ultimately show ?thesis using one p by simp
qed

section \<open>Properties\<close>

text \<open>
  C4: \<^verbatim>\<open>CREATE TABLE\<close> of a new name, with or without an integer primary key, returns on a working disk. The new table is
  found under its name and empty, every other name finds what it found before, no page of another table changes and nothing
  is left pinned. A restart of the database finds the table too. It does not find the index of the primary key: the
  statement creates the index after the catalog was written and does not write it again.
\<close>

theorem create_query:
  assumes "db_ok (s, c)" and "new_name n (s, c)" and "length (tables c) < 2 ^ 31"
    and "\<not> io_bad (disk_manager s)" and "\<forall>p. creatable (disk_manager s) p"
    and "bind_columns defs [] [] = Inr (cs, pk)" and "mk_Schema cs = Inr sch" and "inline_size cs < 2 ^ 32" and "schema_ok sch"
    and "\<forall>col \<in> set cs. column_name col \<in> set pk \<longrightarrow> column_type col = INTEGER" and "length pk \<le> length (free_list s)"
    and "parse query = Inr [kStmtCreate \<lparr>hc_tableName = n, hc_is_create_table = True, hc_columns = defs\<rparr>]"
  shows "\<exists>s' c' j s0. ExecuteQuery parse rows i query (s, c) = (Inr (), (s', c')) \<and>
     GetTableByName n c' = Inr ((mk_TableMeta sch n (next_oid c))\<lparr>last_table_data_page_id := int (length pk) - 1\<rparr>) \<and>
     (\<forall>n'. n' \<noteq> n \<longrightarrow> GetTableByName n' c' = GetTableByName n' c) \<and>
     (\<forall>q. table_id q \<noteq> SYSTEM_CATALOG_ID \<and> table_id q \<noteq> next_oid c \<longrightarrow> logical s' q = logical s q) \<and> gp_inv s' \<and> pins s' = pins s \<and>
     map_of (index_names c') n = Some (map (\<lambda>_. (n @ ''_pk'', j)) pk) \<and>
     mk_DB (disk_manager s') = Inr (s0, catalog_back (with_table n sch c)) \<and> map_of (index_names (catalog_back (with_table n sch c))) n = Some []"
proof -
  obtain s' c' where h: "HandleCreateStatement i \<lparr>cs_table_name = n, cs_columns = cs, cs_primary_key = pk\<rparr> (s, c) = (Inr (), (s', c'))"
      "gp_inv s'" "tame (catalog_names c') s'" "has_table c' n (next_oid c) ((new_table n sch c)\<lparr>last_table_data_page_id := int (length pk) - 1\<rparr>)"
      "\<forall>n'. n' \<noteq> n \<longrightarrow> GetTableByName n' c' = GetTableByName n' c"
      "\<forall>q. table_id q \<noteq> SYSTEM_CATALOG_ID \<and> table_id q \<noteq> next_oid c \<longrightarrow> logical s' q = logical s q" "pins s' = pins s"
      "unused (next_oid c) (int (length pk)) s'" "free_list s' = drop (length pk) (free_list s)"
      "\<exists>s0. mk_DB (disk_manager s') = Inr (s0, catalog_back (with_table n sch c))"
      "\<exists>j. map_of (index_names c') n = Some (map (\<lambda>_. (n @ ''_pk'', j)) pk)" "pk \<noteq> [] \<longrightarrow> logical s' (mk_page_id (next_oid c) 0) = blank_header"
    by (rule handle_create [OF assms(1-3,9,4,5,7) bound_schema(2) [OF assms(6,7,8,10)] assms(11)])
  have "ExecuteQuery parse rows i query (s, c) = (Inr (), (s', c'))"
    using assms(12) create_statement [OF assms(6) h(1)] by (simp add: ExecuteQuery_def ret_def)
  moreover have "map_of (index_names (catalog_back (with_table n sch c))) n = Some []"
    using no_indexes [of c n] assms(1,2) by (simp add: db_ok_def new_name_def catalog_back_def with_table_def Let_def map_add_def)
  moreover obtain s0 j where "mk_DB (disk_manager s') = Inr (s0, catalog_back (with_table n sch c))"
      "map_of (index_names c') n = Some (map (\<lambda>_. (n @ ''_pk'', j)) pk)" using h(10,11) by blast
  ultimately show ?thesis using has_tableD(1) [OF h(4)] h(2,5,6,7) unfolding new_table_def
    by (intro exI [of _ s'] exI [of _ c'] exI [of _ j] exI [of _ s0] conjI)
qed

definition blank_disk :: Disk where
  "blank_disk = \<lparr>files = (\<lambda>_. None), table_data_files = (\<lambda>_. None), cm_names = (\<lambda>_. None), creatable = (\<lambda>_. True), io_bad = False\<rparr>"

definition blank_db :: database where
  "blank_db = (mk_BufferPool 3 blank_disk, empty_catalog)"

definition demo_defs :: "ColumnDefinition list" where
  "demo_defs = [\<lparr>cd_name = ''id'', cd_data_type = HSQL_INT, cd_length = 0, cd_primary_key = True\<rparr>,
     \<lparr>cd_name = ''name'', cd_data_type = HSQL_VARCHAR, cd_length = 20, cd_primary_key = False\<rparr>]"

definition demo_columns :: "Column list" where
  "demo_columns = [mk_column_rec ''id'' INTEGER 4, mk_column_rec ''name'' VARCHAR 20]"

definition demo_schema :: Schema where
  "demo_schema = \<lparr>columns = layout demo_columns 0 0, uninlined_columns = uninlined demo_columns 0, tuple_inline_part_storage_size = inline_size demo_columns\<rparr>"

definition demo_row :: "Expr list" where
  "demo_row = [Expr kExprLiteralInt 7 None kOpPlus None None, Expr kExprLiteralString 0 (Some ''ada'') kOpPlus None None]"

definition demo_create :: HsqlCreate where
  "demo_create = \<lparr>hc_tableName = ''u'', hc_is_create_table = True, hc_columns = demo_defs\<rparr>"

lemma blank_db_ok: "db_ok blank_db" "new_name ''u'' blank_db" "free_list (fst blank_db) = [0, 1, 2]"
proof -
  have d: "disk_inv blank_disk" by (simp add: disk_inv_def blank_disk_def)
  have n: "catalog_names empty_catalog = (\<lambda>_. None)" by (simp add: fun_eq_iff catalog_names_def GetTableName_def empty_catalog_def)
  have p: "cm_names (disk_manager (mk_BufferPool 3 blank_disk)) = (\<lambda>_. None)" "page_table (mk_BufferPool 3 blank_disk) = (\<lambda>_. None)"
      "files (disk_manager (mk_BufferPool 3 blank_disk)) = (\<lambda>_. None)" by (simp_all add: mk_BufferPool_def blank_disk_def)
  show "db_ok blank_db" using gp_mk_BufferPool [OF d] p n
    by (simp add: db_ok_def blank_db_def tame_def empty_catalog_def catalog_inv_def catalog_ok_def tables_ok_def names_ok_def indexes_ok_def index_names_ok_def table_files_def)
  show "new_name ''u'' blank_db" using p by (simp add: new_name_def blank_db_def plain_name_def empty_catalog_def)
  show "free_list (fst blank_db) = [0, 1, 2]" by (simp add: blank_db_def mk_BufferPool_def upt_rec)
qed

lemma demo_create_facts:
  "bind_columns demo_defs [] [] = Inr (demo_columns, [''id''])" "mk_Schema demo_columns = Inr demo_schema" "inline_size demo_columns < 2 ^ 32" "schema_ok demo_schema"
  "\<forall>col \<in> set demo_columns. column_name col \<in> set [''id''] \<longrightarrow> column_type col = INTEGER"
proof -
  show i: "inline_size demo_columns < 2 ^ 32" by (simp add: demo_columns_def mk_column_rec_def col_width_def IsInlined_def)
  show "mk_Schema demo_columns = Inr demo_schema" unfolding demo_schema_def
    by (rule mk_Schema_layout [OF _ i]) (simp add: demo_columns_def mk_column_rec_def)
  show "bind_columns demo_defs [] [] = Inr (demo_columns, [''id''])"
    by (simp add: demo_defs_def demo_columns_def BindColumnDefinition_def Column_fixed_def Column_varlen_def mk_column_rec_def rassert_def)
  show "schema_ok demo_schema" by (simp add: schema_ok_def column_ok_def demo_schema_def demo_columns_def mk_column_rec_def col_width_def IsInlined_def)
  show "\<forall>col \<in> set demo_columns. column_name col \<in> set [''id''] \<longrightarrow> column_type col = INTEGER" by (simp add: demo_columns_def mk_column_rec_def)
qed

lemma blank_disk_works: "length (tables empty_catalog) < 2 ^ 31" "\<not> io_bad (disk_manager (mk_BufferPool 3 blank_disk))" "\<forall>p. creatable (disk_manager (mk_BufferPool 3 blank_disk)) p"
  by (simp_all add: empty_catalog_def mk_BufferPool_def blank_disk_def)

theorem create_query_witness:
  "\<exists>s c s0 c0 j. ExecuteQuery (\<lambda>_. Inr [kStmtCreate demo_create]) 2 0 [] blank_db = (Inr (), (s, c)) \<and> map_of (index_names c) ''u'' = Some [(''u_pk'', j)] \<and>
     mk_DB (disk_manager s) = Inr (s0, c0) \<and> map_of (index_names c0) ''u'' = Some []"
proof -
  have "length [''id''] \<le> length (free_list (mk_BufferPool 3 blank_disk))" using blank_db_ok(3) by (simp add: blank_db_def)
  from create_query [OF blank_db_ok(1,2) [unfolded blank_db_def] blank_disk_works demo_create_facts this, of "\<lambda>_. Inr [kStmtCreate demo_create]" "[]" 2 0]
  show ?thesis by (auto simp: blank_db_def demo_create_def)
qed

text \<open>
  C3: A table created and filled in one query holds the row. \<^verbatim>\<open>CREATE TABLE\<close> of a new name followed by \<^verbatim>\<open>INSERT INTO\<close> it of
  literals of the types of its columns gives a heap of one page with exactly one record, which reads back as the literals;
  when the query returns, that page is on disk. With a primary key, whose index takes page 0, a sequential scan of the table
  returns the row.
\<close>

theorem create_insert_query:
  assumes "db_ok (s, c)" and "new_name n (s, c)" and "length (tables c) < 2 ^ 31"
    and "\<not> io_bad (disk_manager s)" and "\<forall>p. creatable (disk_manager s) p"
    and "bind_columns defs [] [] = Inr (cs, pk)" and "mk_Schema cs = Inr sch" and "inline_size cs < 2 ^ 32" and "schema_ok sch"
    and "\<forall>col \<in> set cs. column_name col \<in> set pk \<longrightarrow> column_type col = INTEGER" and "length pk < length (free_list s)"
    and "take 2 n \<noteq> ''__''" and "map literal_value es = map Some vs" and "row_ok vs" and "map type_id vs = map column_type (columns sch)"
    and "4 * length vs + var_size (temp_cols 0 vs) vs + TUPLE_INFO_SIZE \<le> PAGE_SIZE - TABLE_PAGE_HEADER_SIZE"
    and "parse query = Inr [kStmtCreate \<lparr>hc_tableName = n, hc_is_create_table = True, hc_columns = defs\<rparr>,
       kStmtInsert \<lparr>hi_tableName = n, hi_values = Some es, hi_select = sel\<rparr>]"
  shows "\<exists>r s' c' m rid tup. ExecuteQuery parse (Suc (Suc rows)) i query (s, c) = (r, (s', c')) \<and> GetTableByName n c' = Inr m \<and>
     heap_inv [int (length pk)] (s', m) \<and> heap_tuples [int (length pk)] (s', m) = [(rid, \<lparr>is_deleted = False\<rparr>, tuple_data tup)] \<and>
     (\<forall>k < length vs. GetValue_idx tup (tm_schema m) k = Inr (vs ! k)) \<and>
     (r = Inr () \<longrightarrow> disk_page (disk_manager s') (mk_page_id (next_oid c) (int (length pk))) = view (s', m) (int (length pk))) \<and>
     (pk \<noteq> [] \<longrightarrow> (\<exists>h. bind MakeIterator (\<lambda>it. PollExecutor 2 SeqScanExecutor_Next it default_tuple default_rid []) (s', m) = (Inr [tup\<lparr>tuple_rid := rid\<rparr>], h)))"
proof -
  let ?m = "(new_table n sch c)\<lparr>last_table_data_page_id := int (length pk) - 1\<rparr>" and ?p = "int (length pk)" and ?oid = "next_oid c"
  note bs = bound_schema [OF assms(6,7,8,10)]
  have free: "length pk \<le> length (free_list s)" using assms(11) by simp
  obtain s1 c1 where h: "HandleCreateStatement i \<lparr>cs_table_name = n, cs_columns = cs, cs_primary_key = pk\<rparr> (s, c) = (Inr (), (s1, c1))"
      "gp_inv s1" "tame (catalog_names c1) s1" "has_table c1 n ?oid ?m" "unused ?oid ?p s1" "free_list s1 = drop (length pk) (free_list s)"
    by (rule handle_create [OF assms(1-3,9,4,5,7) bs(2) free])
  have pk: "length pk \<le> 1" using bs(2) by auto
  have m: "tm_table_oid ?m \<noteq> INVALID_TABLE_OID" "0 \<le> last_table_data_page_id ?m + 1" "last_table_data_page_id ?m + 1 < 2 ^ 20 - 1"
      "last_table_heap_data_page_id ?m = INVALID_PAGE_ID" using pk by simp_all
  have fresh: "\<forall>p. last_table_data_page_id ?m < p \<and> p < 2 ^ 20 \<longrightarrow> page_table s1 (mk_page_id (tm_table_oid ?m) p) = None \<and> view (s1, ?m) p = zero_page"
    using h(5) by (auto simp: view_def logical_def)
  have fl: "free_list s1 \<noteq> []" using h(6) assms(11) by simp
  obtain s0 m0 where mk: "mk_TableHeap (s1, ?m) = (Inr (), (s0, m0))" "heap_inv [?p] (s0, m0)" "heap_tuples [?p] (s0, m0) = []"
      "m0 = ?m\<lparr>last_table_data_page_id := ?p, last_table_heap_data_page_id := ?p\<rparr>" "page_table s0 (mk_page_id ?oid ?p) \<noteq> None" "view (s0, m0) ?p = TablePage_Init zero_page"
    using TableHeap_fresh [OF h(2) m fresh fl] by auto
  have t0: "tame (catalog_names c1) s0" using keepsD [OF tame_mk_TableHeap _ mk(1)] h(3) by simp
  have ins: "same_table ?m m0" "last_table_data_page_id m0 + 1 < 2 ^ 20 - 1" "page_table s0 (mk_page_id ?oid (last_table_heap_data_page_id m0)) \<noteq> None"
      "4 * length vs + var_size (temp_cols 0 vs) vs + TUPLE_INFO_SIZE \<le> tp_free (view (s0, m0) (last_table_heap_data_page_id m0))"
    using mk(4-6) pk assms(16) fresh_page_free by simp_all
  have sch: "map type_id vs = map column_type (columns (tm_schema ?m))" "table_layout (tm_schema ?m)" using assms(15) bs(1) by simp_all
  obtain r s' m' ps' rid tup where q:
    "run_statements (Suc (Suc rows)) i NullScope [kStmtInsert \<lparr>hi_tableName = n, hi_values = Some es, hi_select = sel\<rparr>] (s1, c1) = (r, (s', put_table ?oid m' c1))"
    "heap_inv ps' (s', m')" "heap_tuples ps' (s', m') = heap_tuples [?p] (s0, m0) @ [(rid, \<lparr>is_deleted = False\<rparr>, tuple_data tup)]"
    "\<forall>k < length vs. GetValue_idx tup (tm_schema m') k = Inr (vs ! k)" "has_table (put_table ?oid m' c1) n ?oid m'"
    "r = Inr () \<longrightarrow> (\<forall>p. 0 \<le> p \<and> p < 2 ^ 20 \<longrightarrow> disk_page (disk_manager s') (mk_page_id ?oid p) = view (s', m') p)" "page_table s' (rid_page_id rid) \<noteq> None" "ps' = [?p]"
    by (rule insert_statement [OF h(4) mk(1) ins(1) t0 mk(2) ins(2,3) disjI1 [OF ins(4)] assms(16,12-14) sch]) (use ins(4) in blast)
  have run: "ExecuteQuery parse (Suc (Suc rows)) i query (s, c) = (r, (s', put_table ?oid m' c1))"
    using assms(17) create_statement [OF assms(6) h(1)] q(1) by (simp add: ExecuteQuery_def)
  have one: "heap_inv [?p] (s', m')" "heap_tuples [?p] (s', m') = [(rid, \<lparr>is_deleted = False\<rparr>, tuple_data tup)]" using q(2,3,8) mk(3) by simp_all
  have "\<exists>h. bind MakeIterator (\<lambda>it. PollExecutor 2 SeqScanExecutor_Next it default_tuple default_rid []) (s', m') = (Inr [tup\<lparr>tuple_rid := rid\<rparr>], h)" if "pk \<noteq> []"
    using scan_one [OF one _ q(7)] that pk by (cases pk) auto
  then show ?thesis using run has_tableD(1) [OF q(5)] one q(4,6) pk by (intro exI conjI) auto
qed

theorem create_insert_query_witness:
  "\<exists>r s c m rid tup h. ExecuteQuery (\<lambda>_. Inr [kStmtCreate demo_create, kStmtInsert \<lparr>hi_tableName = ''u'', hi_values = Some demo_row, hi_select = None\<rparr>]) 2 0 [] blank_db = (r, (s, c)) \<and>
     GetTableByName ''u'' c = Inr m \<and> GetValue_idx tup (tm_schema m) 0 = Inr (int_value 7) \<and>
     bind MakeIterator (\<lambda>it. PollExecutor 2 SeqScanExecutor_Next it default_tuple default_rid []) (s, m) = (Inr [tup\<lparr>tuple_rid := rid\<rparr>], h)"
proof -
  let ?vs = "[int_value 7, \<lparr>type_id = VARCHAR, val = Str ''ada'', is_null = False\<rparr>]"
  have f: "length [''id''] < length (free_list (mk_BufferPool 3 blank_disk))" using blank_db_ok(3) by (simp add: blank_db_def)
  have v: "take 2 ''u'' \<noteq> ''__''" "map literal_value demo_row = map Some ?vs" "row_ok ?vs" "map type_id ?vs = map column_type (columns demo_schema)"
      "4 * length ?vs + var_size (temp_cols 0 ?vs) ?vs + TUPLE_INFO_SIZE \<le> PAGE_SIZE - TABLE_PAGE_HEADER_SIZE"
    by (simp_all add: demo_row_def row_ok_def int_value_def demo_schema_def demo_columns_def mk_column_rec_def)
  from create_insert_query [OF blank_db_ok(1,2) [unfolded blank_db_def] blank_disk_works demo_create_facts f v,
      of "\<lambda>_. Inr [kStmtCreate demo_create, kStmtInsert \<lparr>hi_tableName = ''u'', hi_values = Some demo_row, hi_select = None\<rparr>]" "[]" None 0 0]
  show ?thesis unfolding blank_db_def demo_create_def numeral_2_eq_2 by fastforce
qed

end
