(* ===== verification/Spec2Isabelle.thy ===== *)
theory Spec2Isabelle
  imports IndexLimits CreateQueries
begin

text \<open>
  A verification of \<^bold>\<open>gavin-db\<close>, a small relational database in C++.

  \<^bold>\<open>The program.\<close> A query (\<^verbatim>\<open>common/db_instance.cpp\<close>) is parsed by a third-party SQL parser, bound against
  the catalog, planned, and run by a tree of executors that pull tuples from their children. Tables
  are heaps of slotted pages linked into a list, indexes are B+ trees whose pages live in the data
  file of their table. Both reach their pages through guards over frames of a buffer pool, which reads
  and writes them through the disk manager. The catalog holds the metadata of tables and indexes and
  writes itself to disk through a binary serializer over a file stream.

  \<^bold>\<open>How it is modelled.\<close> An operation that changes state or may fail is an action: a function from a
  state to a result, an error or a value, and the new state (\<open>Prelude\<close>). Exceptions, failed assertions
  and undefined behaviour are errors; the state at the point of the error is kept. Integers are
  \<^verbatim>\<open>int\<close> or \<^verbatim>\<open>nat\<close> with the width written out, or words where they wrap. Pages are lists of 4096 bytes and every
  field is read and written at its offset. A reference to a page is the number of its frame. The
  file system is a map from paths to bytes.

  \<^item> \<open>Prelude\<close>: results, actions, little-endian bytes, decimal printing; \<open>keeps\<close>, that an action keeps a
    predicate on the state whatever its outcome.
  \<^item> \<open>Values\<close>: \<^verbatim>\<open>common/type.hpp\<close>, \<^verbatim>\<open>value.hpp\<close>, \<^verbatim>\<open>value.cpp\<close>, \<^verbatim>\<open>page_id.hpp\<close>, \<^verbatim>\<open>rid.hpp\<close>. Values stored come back,
    timestamps truncated; no boolean can be stored.
  \<^item> \<open>Schemas\<close>: \<^verbatim>\<open>meta/column\<close>, \<^verbatim>\<open>meta/schema\<close>, \<^verbatim>\<open>table_meta.hpp\<close>. Columns are laid out without gaps.
  \<^item> \<open>Tuples\<close>: \<^verbatim>\<open>storage/table/tuple.cpp\<close>. A tuple reads back as the values it was built from.
  \<^item> \<open>TablePages\<close>: \<^verbatim>\<open>storage/page/table_page.cpp\<close>. The page refines a list of tuples with a budget of free
    bytes (the locale \<open>slotted_store\<close>).
  \<^item> \<open>Disks\<close>: \<^verbatim>\<open>storage/disk_manager.cpp\<close>, \<^verbatim>\<open>file_path_manager.hpp\<close>. A page written is the page read.
  \<^item> \<open>BufferPools\<close>, \<open>PoolProperties\<close>: \<^verbatim>\<open>storage/buffer/\<close>. The pool refines a map from pages to contents
    (\<open>logical\<close>): the cached page, or the page on disk. What the pool does wrong is shown by runs.
  \<^item> \<open>PageGuards\<close>, \<open>GuardSteps\<close>: \<^verbatim>\<open>storage/page/page_guard.cpp\<close>, \<^verbatim>\<open>rwlatch.hpp\<close>. What a scope of a guard does
    to pins, latches and contents.
  \<^item> \<open>TableHeaps\<close>, \<open>HeapProperties\<close>, \<open>HeapScans\<close>: \<^verbatim>\<open>storage/table/table_heap.cpp\<close>, \<^verbatim>\<open>table_iterator.cpp\<close>,
    \<^verbatim>\<open>seq_scan_executor.cpp\<close>. The heap refines a list of records (\<open>heap_tuples\<close>). A scan
    returns them from page 1 on, or throws at an empty page.
  \<^item> \<open>Streams\<close>, \<open>Serializers\<close>, \<open>MetaCodecs\<close>: \<^verbatim>\<open>storage/serializer/\<close>. The serializer is proved once in the
    locales \<open>write_stream\<close>, \<open>read_stream\<close>, \<open>streams\<close> and \<open>rewindable\<close>, which memory and file streams
    interpret; on them rest the round trips of the metadata.
  \<^item> \<open>Catalogs\<close>: \<^verbatim>\<open>meta/catalog\<close>. What is persisted is what the next start loads.
  \<^item> \<open>Expressions\<close>, \<open>Queries\<close>: \<^verbatim>\<open>query/expressions/\<close>, \<^verbatim>\<open>query/binder/\<close>, \<^verbatim>\<open>query/planner.cpp\<close>, \<^verbatim>\<open>query/plans/\<close>, from the
    syntax tree of the parser to a plan.
  \<^item> \<open>Transactions\<close>: \<^verbatim>\<open>concurrency/\<close>. The watermark is the least running read timestamp as long as no transaction
    begins below it, which the code does not check.
  \<^item> \<open>BtreePages\<close>, \<open>BtreeNodes\<close>: \<^verbatim>\<open>storage/page/btree_*.hpp\<close>. A leaf refines a sorted list of entries, an inner page
    a list of children with the keys between them.
  \<^item> \<open>Indexes\<close>: \<^verbatim>\<open>index/\<close>, \<^verbatim>\<open>Catalog::CreateIndex\<close>. All of the tree operations, splits and the walk up the
    tree included.
  \<^item> \<open>PoolViews\<close>: total correctness (\<open>wp\<close>) of code that works on cached pages, over descriptions of a pool by its
    page table, frames, disk and free list.
  \<^item> \<open>Trees\<close>, \<open>TreeInserts\<close>, \<open>IndexInserts\<close>, \<open>IndexMaps\<close>: when pages form a B+ tree (\<open>tree_ok\<close>, any depth), what an insertion
    does to its pages, and that the code does it, with its latches, pins and page allocation.
  \<^item> \<open>KeyedStores\<close>, \<open>IndexProperties\<close>: the contract of a store of keys (the locale \<open>keyed_store\<close>), which the index meets.
    A search is right in any tree, an insertion in any tree whose leaf has room, or whose leaf is split below a page with
    room, or whose root is a leaf. Leaves stay half full, so that 34238 keys always fit.
    The keys inserted are other than 0, since a leaf of smaller keys takes its blank slot for a 0 and drops it.
  \<^item> \<open>IndexLimits\<close>: the split of a full root, which ends in undefined behaviour, and between which bounds the number of keys
    lies when it happens. An index never gets a third level, so that no inner page but the root is ever split.
  \<^item> \<open>Executors\<close>, \<open>Databases\<close>, \<open>DatabaseProperties\<close>: \<^verbatim>\<open>query/executors/\<close>, \<^verbatim>\<open>executor_factory.cpp\<close>,
    \<^verbatim>\<open>execution_engine.hpp\<close>, \<^verbatim>\<open>db_instance\<close>. An INSERT runs from the syntax tree to the disk.
  \<^item> \<open>CreateQueries\<close>: a CREATE TABLE, with the index of its primary key, runs from the syntax tree to the disk, and a restart
    finds the table but not the index; a row inserted into the new table is what a scan returns.

  \<^bold>\<open>Fuel.\<close> \<open>insert_loop\<close> runs with fuel 2: either the last page has room or a fresh page has, and a
  page that is empty and has no room fails an assertion before the third round. \<open>Next\<close> has depth 2, the depth of every
  plan the factory accepts: an insertion over a table or a list of values. The loops over rows
  (\<open>PollExecutor\<close>, \<open>insert_rows\<close>), the growth of a stream and the walks of the tree (\<open>search_down\<close>,
  \<open>InsertIntoParent\<close>) take the fuel as a parameter; the properties state how much is enough and that
  the operation then returns. The probing loop of the watermark is a partial function; that it
  returns is part of the property.

  \<^bold>\<open>Concurrency.\<close> The operations of the pool are atomic under its mutex. Latches are part of the state of a
  frame; a latch that would block the only thread is the error \<open>Deadlock\<close>. Interleavings of threads are
  not modelled.

  \<^bold>\<open>Parameters.\<close> The SQL parser is a function from a query to its syntax tree or an error message. Hash
  maps are association lists, whose order stands for the order of iteration that the standard leaves
  open. The content of memory that
  is not initialised (\<^verbatim>\<open>realloc\<close>, the identifier of an index) is an arbitrary argument.

  \<^bold>\<open>Not modelled.\<close> The logger and what only goes to it: the printing of bound statements, of schemas and of
  table metadata, which the formatting library renders; the debugging output of streams; the helpers
  of the tests; the instances of the serializer for floating point numbers and characters, which
  nothing uses. \<^verbatim>\<open>Catalog::RenameSchema\<close> is declared and has no definition; \<^verbatim>\<open>Commit\<close> and \<^verbatim>\<open>Abort\<close> of the
  transaction manager are stubs.
\<close>

end
